(* ===== verification/Prelude.thy ===== *)
theory Prelude
  imports Main "HOL-Library.Code_Target_Nat" "HOL-Library.Sublist" "HOL-Library.Char_ord" "HOL-Library.List_Lexorder"
begin

text \<open>
  Shared vocabulary of the development. Go strings are byte sequences, so they are modelled by
  \<^typ>\<open>string\<close> read as a list of bytes: \<open>len(s)\<close> is \<^term>\<open>length\<close>, slicing is
  \<^term>\<open>take\<close>/\<^term>\<open>drop\<close>, and the functions of package \<open>strings\<close> that the repository calls are
  defined here on bytes (\<open>TrimSpace\<close> and \<open>range\<close> over a string decode UTF-8 as Go does).
  Instants and durations are integers in nanoseconds; the zero instant of \<open>time.Time\<close> is \<open>0\<close>.
\<close>

named_theorems go_simps \<open>evaluation and rewrite rules for the Go string functions\<close>

type_synonym bytes = "char list"
type_synonym go_time = int
type_synonym duration = int

text \<open>Rewriting inside the branches of the result types.\<close>

lemmas case_congs = option.case_cong sum.case_cong prod.case_cong

section \<open>Lists\<close>

fun last_such :: "('a \<Rightarrow> bool) \<Rightarrow> 'a list \<Rightarrow> 'a option" where
  "last_such P [] = None"
| "last_such P (x # xs) = (case last_such P xs of Some y \<Rightarrow> Some y | None \<Rightarrow> if P x then Some x else None)"

lemma last_such_None [simp]: "last_such P xs = None \<longleftrightarrow> (\<forall>x\<in>set xs. \<not> P x)"
  by (induction xs) (auto split: option.splits)

lemma last_such_Some: "last_such P xs = Some y \<Longrightarrow> y \<in> set xs \<and> P y"
  by (induction xs) (auto split: option.splits if_splits)

lemma last_such_append:
  "last_such P (xs @ ys) = (case last_such P ys of Some y \<Rightarrow> Some y | None \<Rightarrow> last_such P xs)"
  by (induction xs) (simp_all del: last_such_None split: option.split)

lemma fold_invariant_all: "P a \<Longrightarrow> (\<And>x a. P a \<Longrightarrow> P (f x a)) \<Longrightarrow> P (fold f xs a)"
  by (induction xs arbitrary: a) simp_all

lemma fold_increasing:
  assumes "\<And>a. R a a" and "\<And>a b c. R a b \<Longrightarrow> R b c \<Longrightarrow> R a c" and "\<And>x a. R a (f x a)"
  shows "R a (fold f xs a)"
proof (induction xs arbitrary: a)
  case (Cons x xs)
  show ?case using assms(2) [OF assms(3) Cons.IH, of a x] by simp
qed (simp add: assms(1))

text \<open>First occurrences kept, in order: the \<open>seen\<close>-map idiom of the Go code.\<close>

fun dedup_from :: "'a list \<Rightarrow> 'a list \<Rightarrow> 'a list" where
  "dedup_from seen [] = []"
| "dedup_from seen (x # xs) =
     (if x \<in> set seen then dedup_from seen xs else x # dedup_from (x # seen) xs)"

lemma set_dedup_from: "set (dedup_from seen xs) = set xs - set seen"
  by (induction xs arbitrary: seen) auto

lemma distinct_dedup_from: "distinct (dedup_from seen xs)"
  by (induction xs arbitrary: seen) (auto simp: set_dedup_from)

lemma dedup_from_id: "distinct xs \<Longrightarrow> set xs \<inter> set seen = {} \<Longrightarrow> dedup_from seen xs = xs"
proof (induction xs arbitrary: seen)
  case (Cons x xs)
  then show ?case by auto
qed simp

text \<open>\<open>sort.SliceStable\<close> by a strict order.\<close>

fun insert_by :: "('a \<Rightarrow> 'a \<Rightarrow> bool) \<Rightarrow> 'a \<Rightarrow> 'a list \<Rightarrow> 'a list" where
  "insert_by lt x [] = [x]"
| "insert_by lt x (y # ys) = (if lt y x then y # insert_by lt x ys else x # y # ys)"

definition sort_by :: "('a \<Rightarrow> 'a \<Rightarrow> bool) \<Rightarrow> 'a list \<Rightarrow> 'a list" where
  "sort_by lt xs = foldr (insert_by lt) xs []"

lemma set_insert_by [simp]: "set (insert_by lt x ys) = insert x (set ys)"
  by (induction ys) auto

lemma set_sort_by [simp]: "set (sort_by lt xs) = set xs"
  by (induction xs) (simp_all add: sort_by_def)

section \<open>Bytes and decimal numerals\<close>

definition byte :: "nat \<Rightarrow> char" where
  "byte n = char_of n"

definition code_of :: "char \<Rightarrow> nat" where
  "code_of c = of_char c"

definition nl :: char where "nl = CHR 0x0A"
definition tab :: char where "tab = CHR 0x09"
definition cr :: char where "cr = CHR 0x0D"
definition dquote :: char where "dquote = CHR 0x22"
definition squote :: char where "squote = CHR 0x27"
definition bslash :: char where "bslash = CHR 0x5C"

lemmas go_chars = nl_def tab_def cr_def dquote_def squote_def bslash_def

definition digit_char :: "nat \<Rightarrow> char" where
  "digit_char d = ''0123456789'' ! d"

text \<open>\<open>strconv.Itoa\<close> on a non-negative number: the shortest decimal numeral.\<close>

fun itoa :: "nat \<Rightarrow> string" where
  "itoa n = (if n < 10 then [digit_char n] else itoa (n div 10) @ [digit_char (n mod 10)])"

declare itoa.simps [simp del]

definition itoa_int :: "int \<Rightarrow> string" where
  "itoa_int i = (if i < 0 then ''-'' @ itoa (nat (- i)) else itoa (nat i))"

lemma digit_char_cases: "d < 10 \<Longrightarrow> d \<in> {0, 1, 2, 3, 4, 5, 6, 7, 8, 9}" for d :: nat
  by auto

lemma digit_char_inj: "a < 10 \<Longrightarrow> b < 10 \<Longrightarrow> digit_char a = digit_char b \<Longrightarrow> a = b"
  using digit_char_cases [of a] digit_char_cases [of b] by (auto simp: digit_char_def)

lemma digit_char_in: "d < 10 \<Longrightarrow> digit_char d \<in> set ''0123456789''"
  unfolding digit_char_def by (rule nth_mem) simp

lemma itoa_nonempty [simp]: "itoa n \<noteq> []"
  by (subst itoa.simps) simp

lemma itoa_digits: "set (itoa n) \<subseteq> set ''0123456789''"
proof (induction n rule: itoa.induct)
  case (1 n)
  show ?case
  proof (cases "n < 10")
    case True
    then show ?thesis using digit_char_in [of n] by (subst itoa.simps) simp
  next
    case False
    then show ?thesis
      using "1.IH" digit_char_in [of "n mod 10"] by (subst itoa.simps) simp
  qed
qed

lemma itoa_length_ge2: "10 \<le> n \<Longrightarrow> 2 \<le> length (itoa n)"
  by (subst itoa.simps) (simp add: Suc_le_eq)

lemma itoa_inj: "itoa a = itoa b \<Longrightarrow> a = b"
proof (induction a arbitrary: b rule: itoa.induct)
  case (1 a)
  show ?case
  proof (cases "a < 10")
    case True
    then have len: "length (itoa b) = 1"
      using "1.prems" by (subst (asm) itoa.simps) (metis length_Cons list.size(3) One_nat_def)
    then have b: "b < 10"
      using itoa_length_ge2 [of b] by (cases "b < 10") auto
    from True b "1.prems" have "digit_char a = digit_char b"
      by (simp add: itoa.simps [of a] itoa.simps [of b])
    then show ?thesis using True b by (rule digit_char_inj [rotated 2])
  next
    case False
    then have "2 \<le> length (itoa b)"
      using "1.prems" itoa_length_ge2 [of a] by simp
    then have b: "\<not> b < 10" by (auto simp: itoa.simps [of b])
    from False b "1.prems"
    have "itoa (a div 10) = itoa (b div 10)" and "digit_char (a mod 10) = digit_char (b mod 10)"
      by (simp_all add: itoa.simps [of a] itoa.simps [of b])
    then have "a div 10 = b div 10" and "a mod 10 = b mod 10"
      using "1.IH" [OF False] digit_char_inj [of "a mod 10" "b mod 10"] by simp_all
    then show ?thesis by (metis div_mult_mod_eq)
  qed
qed

section \<open>Package strings\<close>

definition has_prefix :: "string \<Rightarrow> string \<Rightarrow> bool" where
  "has_prefix s p = (take (length p) s = p)"

lemma has_prefix_iff: "has_prefix s p \<longleftrightarrow> prefix p s"
  unfolding has_prefix_def prefix_def by (metis append_eq_conv_conj append_take_drop_id)

lemma has_prefix_length: "has_prefix s p \<Longrightarrow> length p \<le> length s"
  by (simp add: has_prefix_iff prefix_length_le)

lemma has_prefixE:
  assumes "has_prefix s p"
  obtains t where "s = p @ t"
  using assms by (auto simp: has_prefix_iff prefix_def)

definition has_suffix :: "string \<Rightarrow> string \<Rightarrow> bool" where
  "has_suffix s p = (length p \<le> length s \<and> drop (length s - length p) s = p)"

definition trim_prefix :: "string \<Rightarrow> string \<Rightarrow> string" where
  "trim_prefix s p = (if has_prefix s p then drop (length p) s else s)"

definition trim_suffix :: "string \<Rightarrow> string \<Rightarrow> string" where
  "trim_suffix s p = (if has_suffix s p then take (length s - length p) s else s)"

text \<open>\<open>strings.Index\<close>: the offset of the first occurrence, \<^const>\<open>None\<close> for \<open>-1\<close>.\<close>

fun index_of :: "string \<Rightarrow> string \<Rightarrow> nat option" where
  "index_of [] p = (if p = [] then Some 0 else None)"
| "index_of (c # s) p =
     (if has_prefix (c # s) p then Some 0 else map_option Suc (index_of s p))"

definition contains :: "string \<Rightarrow> string \<Rightarrow> bool" where
  "contains s p = (index_of s p \<noteq> None)"

text \<open>\<open>strings.LastIndex\<close>.\<close>

fun last_index_of :: "string \<Rightarrow> string \<Rightarrow> nat option" where
  "last_index_of [] p = (if p = [] then Some 0 else None)"
| "last_index_of (c # s) p =
     (case last_index_of s p of
        Some i \<Rightarrow> Some (Suc i)
      | None \<Rightarrow> if has_prefix (c # s) p then Some 0 else None)"

text \<open>\<open>strings.Cut(s, sep)\<close>: before, after, found.\<close>

definition cut :: "string \<Rightarrow> string \<Rightarrow> string \<times> string \<times> bool" where
  "cut s sep = (case index_of s sep of
      Some i \<Rightarrow> (take i s, drop (i + length sep) s, True)
    | None \<Rightarrow> (s, [], False))"

text \<open>\<open>strings.Split\<close> on a one-byte separator; never empty.\<close>

fun split_on :: "char \<Rightarrow> string \<Rightarrow> string list" where
  "split_on c [] = [[]]"
| "split_on c (x # s) =
     (if x = c then [] # split_on c s
      else (case split_on c s of [] \<Rightarrow> [[x]] | l # ls \<Rightarrow> (x # l) # ls))"

fun join :: "string \<Rightarrow> string list \<Rightarrow> string" where
  "join sep [] = []"
| "join sep [x] = x"
| "join sep (x # y # zs) = x @ sep @ join sep (y # zs)"

text \<open>\<open>strings.ReplaceAll(s, old, new)\<close> for a non-empty \<open>old\<close>.\<close>

function replace_all :: "string \<Rightarrow> string \<Rightarrow> string \<Rightarrow> string" where
  "replace_all [] old new = []"
| "replace_all (c # s) old new =
     (if old \<noteq> [] \<and> has_prefix (c # s) old
      then new @ replace_all (drop (length old) (c # s)) old new
      else c # replace_all s old new)"
  by pat_completeness auto
termination
proof (relation "measure (\<lambda>(s, old, new). length s)")
  fix c :: char and s old new :: string
  assume "old \<noteq> [] \<and> has_prefix (c # s) old"
  then have "0 < length old" by simp
  then show "((drop (length old) (c # s), old, new), (c # s, old, new))
      \<in> measure (\<lambda>(s, old, new). length s)"
    by simp
qed auto

definition count_char :: "char \<Rightarrow> string \<Rightarrow> nat" where
  "count_char c s = length (filter (\<lambda>x. x = c) s)"

section \<open>UTF-8\<close>

definition cont_byte :: "nat \<Rightarrow> bool" where
  "cont_byte b = (128 \<le> b \<and> b \<le> 191)"

text \<open>\<open>utf8.DecodeRuneInString\<close>: the first rune of a non-empty string and its width;
  an ill-formed sequence is \<open>(RuneError, 1)\<close>.\<close>

definition rune_error :: nat where "rune_error = 65533"

fun decode_rune :: "nat list \<Rightarrow> nat \<times> nat" where
  "decode_rune [] = (rune_error, 0)"
| "decode_rune (b0 # bs) =
    (if b0 < 128 then (b0, 1)
     else if 194 \<le> b0 \<and> b0 \<le> 223 then
       (case bs of
          b1 # _ \<Rightarrow> if cont_byte b1 then ((b0 - 192) * 64 + (b1 - 128), 2) else (rune_error, 1)
        | _ \<Rightarrow> (rune_error, 1))
     else if 224 \<le> b0 \<and> b0 \<le> 239 then
       (case bs of
          b1 # b2 # _ \<Rightarrow>
            if (if b0 = 224 then 160 else 128) \<le> b1 \<and> b1 \<le> (if b0 = 237 then 159 else 191)
               \<and> cont_byte b2
            then ((b0 - 224) * 4096 + (b1 - 128) * 64 + (b2 - 128), 3) else (rune_error, 1)
        | _ \<Rightarrow> (rune_error, 1))
     else if 240 \<le> b0 \<and> b0 \<le> 244 then
       (case bs of
          b1 # b2 # b3 # _ \<Rightarrow>
            if (if b0 = 240 then 144 else 128) \<le> b1 \<and> b1 \<le> (if b0 = 244 then 143 else 191)
               \<and> cont_byte b2 \<and> cont_byte b3
            then ((b0 - 240) * 262144 + (b1 - 128) * 4096 + (b2 - 128) * 64 + (b3 - 128), 4)
            else (rune_error, 1)
        | _ \<Rightarrow> (rune_error, 1))
     else (rune_error, 1))"

lemma decode_rune_size:
  "s \<noteq> [] \<Longrightarrow> 1 \<le> snd (decode_rune s) \<and> snd (decode_rune s) \<le> length s"
  by (cases s) (auto split: list.splits)

definition first_rune :: "string \<Rightarrow> nat \<times> nat" where
  "first_rune s = decode_rune (map code_of (take 4 s))"

lemma first_rune_size:
  "s \<noteq> [] \<Longrightarrow> 1 \<le> snd (first_rune s) \<and> snd (first_rune s) \<le> length s"
  using decode_rune_size [of "map code_of (take 4 s)"] by (auto simp: first_rune_def)

text \<open>\<open>for _, r := range s\<close>: the runes of \<open>s\<close>, each with its bytes.\<close>

function runes :: "string \<Rightarrow> (nat \<times> string) list" where
  "runes [] = []"
| "runes (c # s) =
     (let (r, n) = first_rune (c # s) in (r, take n (c # s)) # runes (drop n (c # s)))"
  by pat_completeness auto
termination
proof (relation "measure length")
  fix c s x and r n :: nat
  assume "x = first_rune (c # s)" and "(r, n) = x"
  then have "1 \<le> n" using first_rune_size [of "c # s"] by (metis list.distinct(1) snd_conv)
  then show "(drop n (c # s), c # s) \<in> measure length" by simp
qed simp

declare runes.simps(2) [simp del]

text \<open>\<open>unicode.ToLower\<close>: the ranges of upper and title case runes of Unicode 15, first and last rune,
  the distance between two of them and the distance to the lower case rune.\<close>

definition lower_ranges :: "(nat \<times> nat \<times> nat \<times> int) list" where
  "lower_ranges =
     [(65, 90, 1, 32), (192, 214, 1, 32), (216, 222, 1, 32), (256, 302, 2, 1), (304, 304, 1, - 199),
     (306, 310, 2, 1), (313, 327, 2, 1), (330, 374, 2, 1), (376, 376, 1, - 121), (377, 381, 2, 1),
     (385, 385, 1, 210), (386, 388, 2, 1), (390, 390, 1, 206), (391, 391, 1, 1), (393, 394, 1, 205),
     (395, 395, 1, 1), (398, 398, 1, 79), (399, 399, 1, 202), (400, 400, 1, 203), (401, 401, 1, 1),
     (403, 403, 1, 205), (404, 404, 1, 207), (406, 406, 1, 211), (407, 407, 1, 209), (408, 408, 1, 1),
     (412, 412, 1, 211), (413, 413, 1, 213), (415, 415, 1, 214), (416, 420, 2, 1), (422, 422, 1, 218),
     (423, 423, 1, 1), (425, 425, 1, 218), (428, 428, 1, 1), (430, 430, 1, 218), (431, 431, 1, 1),
     (433, 434, 1, 217), (435, 437, 2, 1), (439, 439, 1, 219), (440, 440, 1, 1), (444, 444, 1, 1),
     (452, 452, 1, 2), (453, 453, 1, 1), (455, 455, 1, 2), (456, 456, 1, 1), (458, 458, 1, 2), (459, 475, 2, 1),
     (478, 494, 2, 1), (497, 497, 1, 2), (498, 500, 2, 1), (502, 502, 1, - 97), (503, 503, 1, - 56),
     (504, 542, 2, 1), (544, 544, 1, - 130), (546, 562, 2, 1), (570, 570, 1, 10795), (571, 571, 1, 1),
     (573, 573, 1, - 163), (574, 574, 1, 10792), (577, 577, 1, 1), (579, 579, 1, - 195), (580, 580, 1, 69),
     (581, 581, 1, 71), (582, 590, 2, 1), (880, 882, 2, 1), (886, 886, 1, 1), (895, 895, 1, 116),
     (902, 902, 1, 38), (904, 906, 1, 37), (908, 908, 1, 64), (910, 911, 1, 63), (913, 929, 1, 32),
     (931, 939, 1, 32), (975, 975, 1, 8), (984, 1006, 2, 1), (1012, 1012, 1, - 60), (1015, 1015, 1, 1),
     (1017, 1017, 1, - 7), (1018, 1018, 1, 1), (1021, 1023, 1, - 130), (1024, 1039, 1, 80), (1040, 1071, 1, 32),
     (1120, 1152, 2, 1), (1162, 1214, 2, 1), (1216, 1216, 1, 15), (1217, 1229, 2, 1), (1232, 1326, 2, 1),
     (1329, 1366, 1, 48), (4256, 4293, 1, 7264), (4295, 4295, 1, 7264), (4301, 4301, 1, 7264),
     (5024, 5103, 1, 38864), (5104, 5109, 1, 8), (7312, 7354, 1, - 3008), (7357, 7359, 1, - 3008),
     (7680, 7828, 2, 1), (7838, 7838, 1, - 7615), (7840, 7934, 2, 1), (7944, 7951, 1, - 8),
     (7960, 7965, 1, - 8), (7976, 7983, 1, - 8), (7992, 7999, 1, - 8), (8008, 8013, 1, - 8),
     (8025, 8031, 2, - 8), (8040, 8047, 1, - 8), (8072, 8079, 1, - 8), (8088, 8095, 1, - 8),
     (8104, 8111, 1, - 8), (8120, 8121, 1, - 8), (8122, 8123, 1, - 74), (8124, 8124, 1, - 9),
     (8136, 8139, 1, - 86), (8140, 8140, 1, - 9), (8152, 8153, 1, - 8), (8154, 8155, 1, - 100),
     (8168, 8169, 1, - 8), (8170, 8171, 1, - 112), (8172, 8172, 1, - 7), (8184, 8185, 1, - 128),
     (8186, 8187, 1, - 126), (8188, 8188, 1, - 9), (8486, 8486, 1, - 7517), (8490, 8490, 1, - 8383),
     (8491, 8491, 1, - 8262), (8498, 8498, 1, 28), (8544, 8559, 1, 16), (8579, 8579, 1, 1), (9398, 9423, 1, 26),
     (11264, 11311, 1, 48), (11360, 11360, 1, 1), (11362, 11362, 1, - 10743), (11363, 11363, 1, - 3814),
     (11364, 11364, 1, - 10727), (11367, 11371, 2, 1), (11373, 11373, 1, - 10780), (11374, 11374, 1, - 10749),
     (11375, 11375, 1, - 10783), (11376, 11376, 1, - 10782), (11378, 11378, 1, 1), (11381, 11381, 1, 1),
     (11390, 11391, 1, - 10815), (11392, 11490, 2, 1), (11499, 11501, 2, 1), (11506, 11506, 1, 1),
     (42560, 42604, 2, 1), (42624, 42650, 2, 1), (42786, 42798, 2, 1), (42802, 42862, 2, 1),
     (42873, 42875, 2, 1), (42877, 42877, 1, - 35332), (42878, 42886, 2, 1), (42891, 42891, 1, 1),
     (42893, 42893, 1, - 42280), (42896, 42898, 2, 1), (42902, 42920, 2, 1), (42922, 42922, 1, - 42308),
     (42923, 42923, 1, - 42319), (42924, 42924, 1, - 42315), (42925, 42925, 1, - 42305),
     (42926, 42926, 1, - 42308), (42928, 42928, 1, - 42258), (42929, 42929, 1, - 42282),
     (42930, 42930, 1, - 42261), (42931, 42931, 1, 928), (42932, 42946, 2, 1), (42948, 42948, 1, - 48),
     (42949, 42949, 1, - 42307), (42950, 42950, 1, - 35384), (42951, 42953, 2, 1), (42960, 42960, 1, 1),
     (42966, 42968, 2, 1), (42997, 42997, 1, 1), (65313, 65338, 1, 32), (66560, 66599, 1, 40),
     (66736, 66771, 1, 40), (66928, 66938, 1, 39), (66940, 66954, 1, 39), (66956, 66962, 1, 39),
     (66964, 66965, 1, 39), (68736, 68786, 1, 64), (71840, 71871, 1, 32), (93760, 93791, 1, 32),
     (125184, 125217, 1, 34)]"

definition lower_rune :: "nat \<Rightarrow> nat" where
  "lower_rune r =
     (case find (\<lambda>(lo, hi, step, d). lo \<le> r \<and> r \<le> hi \<and> (r - lo) mod step = 0) lower_ranges of
        None \<Rightarrow> r
      | Some (lo, hi, step, d) \<Rightarrow> nat (int r + d))"

text \<open>\<open>utf8.AppendRune\<close>.\<close>

definition encode_rune :: "nat \<Rightarrow> string" where
  "encode_rune r =
     map byte
      (if r < 128 then [r]
       else if r < 2048 then [192 + r div 64, 128 + r mod 64]
       else if r > 1114111 \<or> (55296 \<le> r \<and> r \<le> 57343) then [239, 191, 189]
       else if r < 65536 then [224 + r div 4096, 128 + r div 64 mod 64, 128 + r mod 64]
       else [240 + r div 262144, 128 + r div 4096 mod 64, 128 + r div 64 mod 64, 128 + r mod 64])"

text \<open>\<open>strings.ToLower\<close>: byte by byte on an ASCII string, else rune by rune, where an invalid byte becomes the
  replacement rune.\<close>

definition lower_char :: "char \<Rightarrow> char" where
  "lower_char c = (if 65 \<le> code_of c \<and> code_of c \<le> 90 then byte (code_of c + 32) else c)"

definition to_lower :: "string \<Rightarrow> string" where
  "to_lower s =
     (if list_all (\<lambda>c. code_of c < 128) s then map lower_char s
      else concat (map (\<lambda>(r, bs). encode_rune (lower_rune r)) (runes s)))"

lemma runes_concat: "concat (map snd (runes s)) = s"
proof (induction s rule: runes.induct)
  case (2 c s)
  obtain r n where rn: "first_rune (c # s) = (r, n)" by fastforce
  with 2 [OF rn [symmetric] refl] show ?case
    by (simp add: runes.simps(2) append_take_drop_id)
qed simp

text \<open>White space in the sense of \<open>unicode.IsSpace\<close>, as UTF-8 byte sequences.\<close>

definition ascii_space :: "char \<Rightarrow> bool" where
  "ascii_space c = (code_of c = 32 \<or> (9 \<le> code_of c \<and> code_of c \<le> 13))"

definition wide_spaces :: "nat list list" where
  "wide_spaces = [[194,133],[194,160],[225,154,128],[226,128,168],[226,128,169],[226,128,175],
     [226,129,159],[227,128,128],[226,128,128],[226,128,129],[226,128,130],[226,128,131],
     [226,128,132],[226,128,133],[226,128,134],[226,128,135],[226,128,136],[226,128,137],
     [226,128,138]]"

definition space_seqs :: "string list" where
  "space_seqs = map (\<lambda>c. [c]) [CHR '' '', CHR 0x09, CHR 0x0A, CHR 0x0B, CHR 0x0C, CHR 0x0D]
     @ map (map byte) wide_spaces"

definition space_rune :: "nat \<Rightarrow> bool" where
  "space_rune r = (r = 32 \<or> (9 \<le> r \<and> r \<le> 13) \<or> r = 133 \<or> r = 160 \<or> r = 5760
     \<or> (8192 \<le> r \<and> r \<le> 8202) \<or> r = 8232 \<or> r = 8233 \<or> r = 8239 \<or> r = 8287 \<or> r = 12288)"

text \<open>\<open>strings.Join(strings.Fields(s), "")\<close>: the string without its white space.\<close>

definition squeeze_spaces :: "string \<Rightarrow> string" where
  "squeeze_spaces s = concat (map snd (filter (\<lambda>(r, bs). \<not> space_rune r) (runes s)))"

fun strip_seq :: "string list \<Rightarrow> string \<Rightarrow> string option" where
  "strip_seq [] s = None"
| "strip_seq (p # ps) s =
     (if p \<noteq> [] \<and> has_prefix s p then Some (drop (length p) s) else strip_seq ps s)"

lemma strip_seq_shorter: "strip_seq ps s = Some t \<Longrightarrow> length t < length s"
proof (induction ps)
  case (Cons p ps)
  then show ?case
    using has_prefix_length [of s p] by (cases p) (auto split: if_splits)
qed simp

function strip_left :: "string list \<Rightarrow> string \<Rightarrow> string" where
  "strip_left ps s = (case strip_seq ps s of None \<Rightarrow> s | Some t \<Rightarrow> strip_left ps t)"
  by pat_completeness auto
termination
  by (relation "measure (\<lambda>(ps, s). length s)") (auto dest: strip_seq_shorter)

declare strip_left.simps [simp del]

definition trim_left_space :: "string \<Rightarrow> string" where
  "trim_left_space s = strip_left space_seqs s"

definition trim_right_space :: "string \<Rightarrow> string" where
  "trim_right_space s = rev (strip_left (map rev space_seqs) (rev s))"

text \<open>\<open>strings.TrimSpace\<close>.\<close>

definition trim_space :: "string \<Rightarrow> string" where
  "trim_space s = trim_right_space (trim_left_space s)"

text \<open>\<open>strings.TrimRight\<close> with a set of ASCII bytes.\<close>

definition trim_right_set :: "char list \<Rightarrow> string \<Rightarrow> string" where
  "trim_right_set cs s = rev (dropWhile (\<lambda>c. c \<in> set cs) (rev s))"

section \<open>Facts about the string functions\<close>

lemma split_on_nonempty [simp]: "split_on c s \<noteq> []"
  by (induction s) (auto split: list.splits)

lemma join_split_on [simp]: "join [c] (split_on c s) = s"
proof (induction s)
  case (Cons x s)
  then show ?case
    by (cases "split_on c s" rule: remdups_adj.cases) (auto split: list.splits)
qed simp

lemma split_on_no_sep: "l \<in> set (split_on c s) \<Longrightarrow> c \<notin> set l"
proof (induction s arbitrary: l)
  case (Cons x s)
  then show ?case by (auto split: list.splits if_splits)
qed simp

lemma split_on_id: "c \<notin> set s \<Longrightarrow> split_on c s = [s]"
  by (induction s) auto

lemma split_on_append: "split_on c (s @ c # t) = split_on c s @ split_on c t"
proof (induction s)
  case (Cons x s)
  then show ?case by (cases "split_on c s") auto
qed simp

lemma split_on_join:
  "xs \<noteq> [] \<Longrightarrow> \<forall>x \<in> set xs. c \<notin> set x \<Longrightarrow> split_on c (join [c] xs) = xs"
proof (induction "[c]" xs rule: join.induct)
  case (3 x y zs)
  then show ?case by (simp add: split_on_append split_on_id)
qed (simp_all add: split_on_id)

lemma length_split_on: "length (split_on c s) = Suc (count_char c s)"
proof (induction s)
  case (Cons x s)
  then show ?case by (cases "split_on c s") (auto simp: count_char_def)
qed (simp add: count_char_def)

lemma index_of_Some: "index_of s p = Some i \<Longrightarrow> s = take i s @ p @ drop (i + length p) s"
proof (induction s arbitrary: i)
  case (Cons c s)
  show ?case
  proof (cases "has_prefix (c # s) p")
    case True
    with Cons.prems show ?thesis by (auto elim!: has_prefixE)
  next
    case False
    with Cons.prems obtain j where j: "index_of s p = Some j" "i = Suc j" by auto
    from Cons.IH [OF j(1)] j(2) show ?thesis by simp
  qed
qed (auto split: if_splits)

lemma index_of_bound: "index_of s p = Some i \<Longrightarrow> i + length p \<le> length s"
proof (induction s arbitrary: i)
  case (Cons c s)
  then show ?case using has_prefix_length [of "c # s" p] by (auto split: if_splits)
qed (auto split: if_splits)

lemma index_of_None: "index_of s p = None \<longleftrightarrow> \<not> sublist p s"
proof (induction s)
  case (Cons c s)
  then show ?case by (auto simp: has_prefix_iff sublist_Cons_right)
qed auto

lemma contains_iff: "contains s p \<longleftrightarrow> sublist p s"
  by (simp add: contains_def index_of_None)

lemma strip_left_suffix: "\<exists>u. s = u @ strip_left ps s"
proof (induction ps s rule: strip_left.induct)
  case (1 ps s)
  show ?case
  proof (cases "strip_seq ps s")
    case None
    then show ?thesis by (simp add: strip_left.simps [of ps s])
  next
    case (Some t)
    have "\<exists>v. s = v @ t" using Some
      by (induction ps) (auto elim!: has_prefixE split: if_splits)
    with "1" [OF Some] Some show ?thesis
      by (auto simp: strip_left.simps [of ps s]) (metis append_assoc)
  qed
qed

lemma strip_left_fix: "strip_seq ps (strip_left ps s) = None"
proof (induction ps s rule: strip_left.induct)
  case (1 ps s)
  then show ?case by (cases "strip_seq ps s") (auto simp: strip_left.simps [of ps s])
qed

lemma strip_left_unfold_None: "strip_seq ps s = None \<Longrightarrow> strip_left ps s = s"
  by (simp add: strip_left.simps)

lemma strip_seq_None: "strip_seq ps s = None \<longleftrightarrow> (\<forall>p\<in>set ps. p \<noteq> [] \<longrightarrow> \<not> prefix p s)"
  by (induction ps) (auto simp: has_prefix_iff)

lemma strip_seq_prefix_None: "strip_seq ps (u @ v) = None \<Longrightarrow> strip_seq ps u = None"
  unfolding strip_seq_None by (meson prefix_def prefix_order.trans)

lemma trim_space_sublist: "\<exists>u v. s = u @ trim_space s @ v"
proof -
  let ?l = "trim_left_space s"
  obtain u where u: "s = u @ ?l"
    using strip_left_suffix unfolding trim_left_space_def by blast
  obtain w where "rev ?l = w @ strip_left (map rev space_seqs) (rev ?l)"
    using strip_left_suffix by blast
  then have "?l = trim_right_space ?l @ rev w"
    by (metis trim_right_space_def rev_append rev_rev_ident)
  with u show ?thesis unfolding trim_space_def by metis
qed

lemma trim_space_idem [simp]: "trim_space (trim_space s) = trim_space s"
proof -
  let ?l = "trim_left_space s"
  obtain w where "rev ?l = w @ strip_left (map rev space_seqs) (rev ?l)"
    using strip_left_suffix by blast
  then have "?l = trim_space s @ rev w"
    by (metis trim_right_space_def trim_space_def rev_append rev_rev_ident)
  moreover have "strip_seq space_seqs ?l = None"
    unfolding trim_left_space_def by (rule strip_left_fix)
  ultimately have "strip_seq space_seqs (trim_space s) = None"
    by (metis strip_seq_prefix_None)
  then have l: "trim_left_space (trim_space s) = trim_space s"
    unfolding trim_left_space_def by (rule strip_left_unfold_None)
  have "strip_seq (map rev space_seqs) (rev (trim_space s)) = None"
    unfolding trim_space_def trim_right_space_def by (simp add: strip_left_fix)
  then have "trim_right_space (trim_space s) = trim_space s"
    unfolding trim_right_space_def by (simp add: strip_left_unfold_None)
  with l show ?thesis by (metis trim_space_def)
qed

lemma trim_space_Nil [simp]: "trim_space [] = []"
  using trim_space_sublist [of "[]"] by auto

lemma length_trim_space: "length (trim_space s) \<le> length s"
  using trim_space_sublist [of s] by (metis le_add1 le_add2 le_trans length_append)

lemma itoa_length_bound: "n < 10 ^ Suc k \<Longrightarrow> length (itoa n) \<le> Suc k"
proof (induction k arbitrary: n)
  case 0
  then show ?case by (simp add: itoa.simps)
next
  case (Suc k)
  show ?case
  proof (cases "n < 10")
    case True
    then show ?thesis by (simp add: itoa.simps)
  next
    case False
    from Suc.prems have "n div 10 < 10 ^ Suc k" by (simp add: less_mult_imp_div_less)
    then show ?thesis using Suc.IH [of "n div 10"] False by (simp add: itoa.simps [of n])
  qed
qed

lemma byte_code_of [simp]: "byte (code_of c) = c"
  by (simp add: byte_def code_of_def)

lemma code_of_byte [simp]: "n < 256 \<Longrightarrow> code_of (byte n) = n"
  by (simp add: byte_def code_of_def)

lemma runes_ascii: "\<forall>c\<in>set s. code_of c < 128 \<Longrightarrow> runes s = map (\<lambda>c. (code_of c, [c])) s"
proof (induction s)
  case (Cons c s)
  then have "first_rune (c # s) = (code_of c, 1)" by (simp add: first_rune_def)
  with Cons show ?case by (simp add: runes.simps(2))
qed simp

end
