(* ===== verification/Transcript.thy ===== *)
theory Transcript
  imports Prelude
begin

text \<open>
  The provider-neutral transcript types of \<open>src/loop/types.go\<close>. Go's string-typed enumerations
  become datatypes with one constructor per declared constant and one for any other string (the
  zero value \<open>""\<close> is the other string \<open>[]\<close>). Pointers to immutable payloads become options,
  \<open>json.RawMessage\<close> stays a byte string, and \<open>map[string]any\<close> metadata is an
  association list (looked up with \<^const>\<open>map_of\<close>) of the value shapes the repository stores. The \<open>clone*\<close> functions of the source only prevent aliasing;
  on values they are the identity and have no counterpart here.
\<close>

datatype message_role = RoleUser | RoleAssistant | RoleTool | RoleOther string

datatype content_type = TypeText | TypeThinking | TypeImage | TypeToolCall | TypeOther string

datatype stop_reason =
    StopStop | StopLength | StopToolUse | StopError | StopCanceled | StopMaxTurns | StopOther string

datatype meta_value =
    MStr string
  | MBool bool
  | MInt int
  | MFloat int \<comment> \<open>an integral \<open>float64\<close>, the shape a JSON round trip gives a stored integer\<close>
  | MStrings "string list"
  | MList "meta_value list"
  | MJson string \<comment> \<open>any other decoded JSON value, by its text\<close>

type_synonym metadata = "(string \<times> meta_value) list"

record image_content =
  img_data :: string
  img_mime :: string

record tool_call =
  tc_id :: string
  tc_name :: string
  tc_args :: bytes

record content_part =
  part_type :: content_type
  part_text :: string
  part_thinking :: string
  part_image :: "image_content option"
  part_call :: "tool_call option"
  part_signature :: string

record usage =
  input_tokens :: int
  output_tokens :: int
  cache_read_tokens :: int
  cache_write_tokens :: int
  total_tokens :: int

record message =
  msg_id :: string
  msg_role :: message_role
  msg_content :: "content_part list"
  msg_call_id :: string
  msg_tool_name :: string
  msg_is_error :: bool
  msg_provider :: string
  msg_model :: string
  msg_stop :: stop_reason
  msg_usage :: "usage option"
  msg_created :: go_time
  msg_meta :: metadata

record tool_result =
  res_content :: "content_part list"
  res_is_error :: bool
  res_meta :: metadata

section \<open>Zero values and literals\<close>

definition zero_part :: content_part where
  "zero_part = \<lparr>part_type = TypeOther [], part_text = [], part_thinking = [], part_image = None,
     part_call = None, part_signature = []\<rparr>"

definition zero_message :: message where
  "zero_message = \<lparr>msg_id = [], msg_role = RoleOther [], msg_content = [], msg_call_id = [],
     msg_tool_name = [], msg_is_error = False, msg_provider = [], msg_model = [],
     msg_stop = StopOther [], msg_usage = None, msg_created = 0, msg_meta = []\<rparr>"

definition zero_usage :: usage where
  "zero_usage = \<lparr>input_tokens = 0, output_tokens = 0, cache_read_tokens = 0,
     cache_write_tokens = 0, total_tokens = 0\<rparr>"

definition text_part :: "string \<Rightarrow> content_part" where
  "text_part s = zero_part\<lparr>part_type := TypeText, part_text := s\<rparr>"

definition call_part :: "tool_call \<Rightarrow> content_part" where
  "call_part c = zero_part\<lparr>part_type := TypeToolCall, part_call := Some c\<rparr>"

definition user_text :: "string \<Rightarrow> message" where
  "user_text s = zero_message\<lparr>msg_role := RoleUser, msg_content := [text_part s]\<rparr>"

definition zero_result :: tool_result where
  "zero_result = \<lparr>res_content = [], res_is_error = False, res_meta = []\<rparr>"

lemmas literal_defs = zero_part_def zero_message_def zero_usage_def text_part_def call_part_def
  user_text_def zero_result_def

section \<open>Tool calls of a message\<close>

text \<open>The call a content part carries: its type tag and its payload must both say so.\<close>

definition part_tool_call :: "content_part \<Rightarrow> tool_call option" where
  "part_tool_call p = (if part_type p = TypeToolCall then part_call p else None)"

definition collect_tool_calls :: "message \<Rightarrow> tool_call list" where
  "collect_tool_calls m = List.map_filter part_tool_call (msg_content m)"

definition is_assistant :: "message \<Rightarrow> bool" where
  "is_assistant m = (msg_role m = RoleAssistant)"

definition is_tool :: "message \<Rightarrow> bool" where
  "is_tool m = (msg_role m = RoleTool)"

abbreviation call_ids :: "message \<Rightarrow> string list" where
  "call_ids m \<equiv> map tc_id (collect_tool_calls m)"

lemma map_filter_Cons:
  "List.map_filter f (x # xs) = (case f x of None \<Rightarrow> [] | Some y \<Rightarrow> [y]) @ List.map_filter f xs"
  by (simp add: List.map_filter_simps split: option.splits)

lemma map_filter_append: "List.map_filter f (xs @ ys) = List.map_filter f xs @ List.map_filter f ys"
  by (simp add: List.map_filter_def)

lemma set_collect_tool_calls:
  "set (collect_tool_calls m) = {c. \<exists>p\<in>set (msg_content m). part_tool_call p = Some c}"
  by (force simp: collect_tool_calls_def List.map_filter_def image_iff)

lemma collect_tool_calls_Nil [simp]: "msg_content m = [] \<Longrightarrow> collect_tool_calls m = []"
  by (simp add: collect_tool_calls_def List.map_filter_simps)

lemma collect_tool_calls_content:
  "msg_content m = msg_content m' \<Longrightarrow> collect_tool_calls m = collect_tool_calls m'"
  by (simp add: collect_tool_calls_def)

text \<open>Well-paired transcripts, the shape providers accept: every call of an assistant turn is
  answered by a later tool message, and every tool message answers some assistant call.\<close>

fun calls_answered :: "message list \<Rightarrow> bool" where
  "calls_answered [] = True"
| "calls_answered (m # ms) =
     ((is_assistant m \<longrightarrow>
        (\<forall>c\<in>set (collect_tool_calls m). \<exists>t\<in>set ms. is_tool t \<and> msg_call_id t = tc_id c))
      \<and> calls_answered ms)"

definition results_owned :: "message list \<Rightarrow> bool" where
  "results_owned ms = (\<forall>t\<in>set ms. is_tool t \<longrightarrow>
     (\<exists>a\<in>set ms. is_assistant a \<and> msg_call_id t \<in> set (call_ids a)))"

lemma calls_answered_append_intro:
  assumes "calls_answered ys"
    and "\<And>m. m \<in> set xs \<Longrightarrow> is_assistant m \<Longrightarrow> collect_tool_calls m = []"
  shows "calls_answered (xs @ ys)"
  using assms by (induction xs) auto

lemma calls_answered_append: "calls_answered xs \<Longrightarrow> calls_answered ys \<Longrightarrow> calls_answered (xs @ ys)"
  by (induction xs) auto

lemma calls_answered_tools: "list_all is_tool ms \<Longrightarrow> calls_answered ms"
  by (induction ms) (auto simp: is_tool_def is_assistant_def)

end
