(* ===== verification/Harden.thy ===== *)
theory Harden
  imports Transcript
begin

text \<open>
  Model of \<open>src/loop/harden.go\<close>: \<open>HardenHistory\<close> repairs a transcript before it is sent to a
  provider. \<open>normalize_tool_call_ids\<close> threads the closure state of \<open>normalizeToolCallIDs\<close>
  (\<open>idMap\<close>, \<open>used\<close>, \<open>next\<close>) through the messages; \<open>harden_walk\<close> is the repair loop, whose
  index arithmetic becomes recursion on the remaining messages. The source also fills a map
  \<open>results\<close> that it never reads; it has no counterpart.
\<close>

section \<open>Normalising tool-call ids\<close>

definition legal_id_rune :: "nat \<Rightarrow> bool" where
  "legal_id_rune r = ((97 \<le> r \<and> r \<le> 122) \<or> (65 \<le> r \<and> r \<le> 90) \<or> (48 \<le> r \<and> r \<le> 57)
     \<or> r = 95 \<or> r = 45)"

definition sanitize_id :: "string \<Rightarrow> string" where
  "sanitize_id s = take 64 (map (\<lambda>(r, bs). if legal_id_rune r then byte r else CHR ''_'') (runes s))"

lemma sanitize_id_Nil [simp]: "sanitize_id [] = []"
  by (simp add: sanitize_id_def)

record id_state =
  id_map :: "string \<Rightarrow> string option"
  id_used :: "string list"
  id_next :: nat

definition suffixed :: "string \<Rightarrow> nat \<Rightarrow> string" where
  "suffixed s n = (let suffix = ''_'' @ itoa n in take (64 - length suffix) s @ suffix)"

lemma suffixed_inj: "suffixed s a = suffixed s b \<Longrightarrow> a = b"
proof -
  assume eq: "suffixed s a = suffixed s b"
  have tw: "takeWhile (\<lambda>c. c \<noteq> CHR ''_'') (rev (suffixed s n)) = rev (itoa n)" for n
  proof -
    have "\<forall>c\<in>set (rev (itoa n)). c \<noteq> CHR ''_''" using itoa_digits [of n] by auto
    then have "takeWhile (\<lambda>c. c \<noteq> CHR ''_'') (rev (itoa n) @ ''_'' @ rev (take (63 - length (itoa n)) s))
        = rev (itoa n)"
      by (subst takeWhile_append2) auto
    then show ?thesis by (simp add: suffixed_def Let_def)
  qed
  from eq tw have "rev (itoa a) = rev (itoa b)" by metis
  then show "a = b" using itoa_inj by simp
qed

lemma finite_used_suffixes: "finite {k. n < k \<and> suffixed s k \<in> set used}"
proof -
  have "inj_on (suffixed s) {k. n < k \<and> suffixed s k \<in> set used}"
    by (auto intro: inj_onI suffixed_inj)
  moreover have "suffixed s ` {k. n < k \<and> suffixed s k \<in> set used} \<subseteq> set used" by auto
  ultimately show ?thesis by (meson finite_imageD finite_set finite_subset)
qed

text \<open>\<open>for used[candidate]\<close>: try numbered suffixes until one is free. The loop ends because the
  numbered candidates are pairwise distinct and only finitely many ids are in use.\<close>

function pick_free :: "string list \<Rightarrow> string \<Rightarrow> nat \<Rightarrow> string \<Rightarrow> string \<times> nat" where
  "pick_free used s next cand =
     (if cand \<in> set used then pick_free used s (Suc next) (suffixed s (Suc next)) else (cand, next))"
  by pat_completeness auto
termination
proof (relation "measure (\<lambda>(used, s, next, cand).
    card {k. next < k \<and> suffixed s k \<in> set used} + (if cand \<in> set used then 1 else 0))")
  fix used :: "string list" and s :: string and nx :: nat and cand :: string
  assume used: "cand \<in> set used"
  let ?A = "{k. nx < k \<and> suffixed s k \<in> set used}"
  let ?B = "{k. Suc nx < k \<and> suffixed s k \<in> set used}"
  have split: "?A = ?B \<union> (if suffixed s (Suc nx) \<in> set used then {Suc nx} else {})"
    by (auto simp: less_Suc_eq_le Suc_le_eq dest: Suc_lessI)
  have "card ?A = card ?B + (if suffixed s (Suc nx) \<in> set used then 1 else 0)"
    unfolding split using finite_used_suffixes [of "Suc nx" s used] by simp
  with used show "((used, s, Suc nx, suffixed s (Suc nx)), used, s, nx, cand)
      \<in> measure (\<lambda>(used, s, next, cand).
          card {k. next < k \<and> suffixed s k \<in> set used} + (if cand \<in> set used then 1 else 0))"
    by simp
qed simp

declare pick_free.simps [simp del]

lemma pick_free_fresh: "fst (pick_free used s n cand) \<notin> set used"
proof (induction used s n cand rule: pick_free.induct)
  case (1 used s n cand)
  then show ?case by (cases "cand \<in> set used") (simp_all add: pick_free.simps [of used s n cand])
qed

text \<open>The closure \<open>mapped\<close>.\<close>

definition mapped :: "string \<Rightarrow> id_state \<Rightarrow> string \<times> id_state" where
  "mapped i st =
    (if i = [] then (i, st)
     else case id_map st i of
       Some m \<Rightarrow> (m, st)
     | None \<Rightarrow>
        (let s = sanitize_id i in
         if s = i then (i, st\<lparr>id_used := s # id_used st\<rparr>)
         else
           (let s = (if s = [] then ''call'' else s);
                (cand, n) = pick_free (id_used st) s (id_next st) s
            in (cand, st\<lparr>id_used := cand # id_used st, id_map := (id_map st)(i \<mapsto> cand),
                 id_next := n\<rparr>))))"

definition premark :: "message list \<Rightarrow> string list" where
  "premark ms = [tc_id c. m \<leftarrow> ms, c \<leftarrow> collect_tool_calls m, sanitize_id (tc_id c) = tc_id c]"

fun map_parts :: "content_part list \<Rightarrow> id_state \<Rightarrow> content_part list \<times> id_state" where
  "map_parts [] st = ([], st)"
| "map_parts (p # ps) st =
     (case part_tool_call p of
        None \<Rightarrow> (let (ps', st') = map_parts ps st in (p # ps', st'))
      | Some c \<Rightarrow>
          (let (i, st') = mapped (tc_id c) st;
               (ps', st'') = map_parts ps st'
           in (p\<lparr>part_call := Some (c\<lparr>tc_id := i\<rparr>)\<rparr> # ps', st'')))"

definition map_message :: "message \<Rightarrow> id_state \<Rightarrow> message \<times> id_state" where
  "map_message m st =
     (let (ps, st') = map_parts (msg_content m) st; m' = m\<lparr>msg_content := ps\<rparr>
      in if is_tool m \<and> msg_call_id m \<noteq> []
         then (let (i, st'') = mapped (msg_call_id m) st' in (m'\<lparr>msg_call_id := i\<rparr>, st''))
         else (m', st'))"

fun map_messages :: "message list \<Rightarrow> id_state \<Rightarrow> message list \<times> id_state" where
  "map_messages [] st = ([], st)"
| "map_messages (m # ms) st =
     (let (m', st') = map_message m st; (ms', st'') = map_messages ms st' in (m' # ms', st''))"

definition normalize_tool_call_ids :: "message list \<Rightarrow> message list \<times> (string \<Rightarrow> string option)" where
  "normalize_tool_call_ids ms =
     (let (ms', st) = map_messages ms \<lparr>id_map = Map.empty, id_used = premark ms, id_next = 0\<rparr>
      in (ms', id_map st))"

section \<open>Repairing the transcript\<close>

definition part_meaningful :: "content_part \<Rightarrow> bool" where
  "part_meaningful p = (case part_type p of
      TypeText \<Rightarrow> trim_space (part_text p) \<noteq> []
    | TypeThinking \<Rightarrow> trim_space (part_thinking p) \<noteq> []
    | TypeImage \<Rightarrow> part_image p \<noteq> None
    | TypeToolCall \<Rightarrow> part_call p \<noteq> None
    | TypeOther _ \<Rightarrow> False)"

definition has_meaningful_content :: "message \<Rightarrow> bool" where
  "has_meaningful_content m = list_ex part_meaningful (msg_content m)"

definition sanitize_foreign_turn :: "message \<Rightarrow> string \<Rightarrow> message" where
  "sanitize_foreign_turn m active =
     (if active = [] \<or> msg_model m = [] \<or> msg_model m = active then m
      else m\<lparr>msg_content := map (\<lambda>p. p\<lparr>part_signature := []\<rparr>)
               (filter (\<lambda>p. part_type p \<noteq> TypeThinking) (msg_content m))\<rparr>)"

definition interrupted_text :: string where
  "interrupted_text =
     ''tool call was interrupted before producing a result; do not assume it ran''"

definition synthetic_tool_result :: "tool_call \<Rightarrow> message" where
  "synthetic_tool_result c = zero_message\<lparr>msg_role := RoleTool, msg_call_id := tc_id c,
     msg_tool_name := tc_name c, msg_is_error := True,
     msg_content := [text_part interrupted_text],
     msg_meta := [(''glue/synthetic'', MBool True)]\<rparr>"

definition results_elsewhere :: "message list \<Rightarrow> string \<Rightarrow> bool" where
  "results_elsewhere ms i = list_ex (\<lambda>m. is_tool m \<and> msg_call_id m = i) ms"

definition known_calls :: "message list \<Rightarrow> string list" where
  "known_calls ms = concat (map call_ids (filter is_assistant ms))"

definition missing_results :: "message list \<Rightarrow> message list \<Rightarrow> tool_call list \<Rightarrow> tool_call list" where
  "missing_results kept rest cs =
     filter (\<lambda>c. tc_id c \<notin> set (map msg_call_id kept) \<and> \<not> results_elsewhere rest (tc_id c)) cs"

function harden_walk :: "string list \<Rightarrow> string \<Rightarrow> message list \<Rightarrow> message list" where
  "harden_walk known active [] = []"
| "harden_walk known active (m # ms) =
     (case msg_role m of
        RoleAssistant \<Rightarrow>
          (let m' = sanitize_foreign_turn m active in
           if \<not> has_meaningful_content m' then harden_walk known active ms
           else
             (let kept = filter (\<lambda>t. msg_call_id t \<in> set known) (takeWhile is_tool ms);
                  rest = dropWhile is_tool ms
              in m' # kept
                 @ map synthetic_tool_result (missing_results kept rest (collect_tool_calls m'))
                 @ harden_walk known active rest))
      | RoleTool \<Rightarrow>
          (if msg_call_id m \<in> set known then m # harden_walk known active ms
           else harden_walk known active ms)
      | _ \<Rightarrow> m # harden_walk known active ms)"
  by pat_completeness auto
termination
  by (relation "measure (\<lambda>(known, active, ms). length ms)")
     (auto simp: le_imp_less_Suc length_dropWhile_le)

definition harden_history :: "message list \<Rightarrow> string \<Rightarrow> message list" where
  "harden_history ms active =
     (let msgs = fst (normalize_tool_call_ids ms)
      in harden_walk (known_calls msgs) active msgs)"

section \<open>The renaming performed by the normalisation\<close>

definition renaming :: "(string \<Rightarrow> string option) \<Rightarrow> string \<Rightarrow> string" where
  "renaming f i = (case f i of Some c \<Rightarrow> c | None \<Rightarrow> i)"

definition rename_part :: "(string \<Rightarrow> string) \<Rightarrow> content_part \<Rightarrow> content_part" where
  "rename_part \<rho> p = (case part_tool_call p of None \<Rightarrow> p
     | Some c \<Rightarrow> p\<lparr>part_call := Some (c\<lparr>tc_id := \<rho> (tc_id c)\<rparr>)\<rparr>)"

definition rename_message :: "(string \<Rightarrow> string) \<Rightarrow> message \<Rightarrow> message" where
  "rename_message \<rho> m =
     m\<lparr>msg_content := map (rename_part \<rho>) (msg_content m),
       msg_call_id := (if is_tool m \<and> msg_call_id m \<noteq> [] then \<rho> (msg_call_id m) else msg_call_id m)\<rparr>"

definition id_state_ok :: "id_state \<Rightarrow> bool" where
  "id_state_ok st \<longleftrightarrow>
     (\<forall>i c. id_map st i = Some c \<longrightarrow> i \<noteq> [] \<and> sanitize_id i \<noteq> i \<and> c \<in> set (id_used st))
     \<and> inj_on (id_map st) (dom (id_map st))"

lemma id_state_ok_start: "id_state_ok \<lparr>id_map = Map.empty, id_used = us, id_next = n\<rparr>"
  by (simp add: id_state_ok_def)

lemma mapped_ok:
  assumes ok: "id_state_ok st" and r: "mapped i st = (j, st')"
  shows "id_state_ok st'" and "id_map st \<subseteq>\<^sub>m id_map st'" and "set (id_used st) \<subseteq> set (id_used st')"
    and "j = renaming (id_map st') i"
    and "\<forall>k. k \<noteq> i \<longrightarrow> id_map st' k = id_map st k"
    and "\<forall>k c. id_map st' k = Some c \<longrightarrow> id_map st k = Some c \<or> c \<notin> set (id_used st)"
proof -
  have "id_state_ok st' \<and> id_map st \<subseteq>\<^sub>m id_map st' \<and> set (id_used st) \<subseteq> set (id_used st')
    \<and> j = renaming (id_map st') i \<and> (\<forall>k. k \<noteq> i \<longrightarrow> id_map st' k = id_map st k)
    \<and> (\<forall>k c. id_map st' k = Some c \<longrightarrow> id_map st k = Some c \<or> c \<notin> set (id_used st))"
  proof (cases "i = [] \<or> id_map st i \<noteq> None \<or> sanitize_id i = i")
    case True
    then show ?thesis using ok r
      by (auto simp: mapped_def renaming_def id_state_ok_def Let_def split: option.splits if_splits) blast
  next
    case False
    let ?s = "if sanitize_id i = [] then ''call'' else sanitize_id i"
    obtain c n where pf: "pick_free (id_used st) ?s (id_next st) ?s = (c, n)" by fastforce
    have fresh: "c \<notin> set (id_used st)"
      using pick_free_fresh [of "id_used st" ?s "id_next st" ?s] pf by simp
    from False pf r have st': "st' = st\<lparr>id_used := c # id_used st, id_map := (id_map st)(i \<mapsto> c), id_next := n\<rparr>"
      and j: "j = c"
      by (auto simp: mapped_def Let_def split: option.splits if_splits)
    have old: "c' \<noteq> c" if "id_map st k = Some c'" for k c'
      using ok fresh that by (auto simp: id_state_ok_def)
    have "inj_on (id_map st') (dom (id_map st'))"
      using ok old unfolding st' id_state_ok_def
      by (auto simp: inj_on_def dom_def split: if_splits) metis+
    then have "id_state_ok st'"
      using ok False unfolding st' id_state_ok_def by auto
    then show ?thesis using False fresh unfolding st' j
      by (auto simp: renaming_def map_le_def)
  qed
  then show "id_state_ok st'" and "id_map st \<subseteq>\<^sub>m id_map st'" and "set (id_used st) \<subseteq> set (id_used st')"
    and "j = renaming (id_map st') i" and "\<forall>k. k \<noteq> i \<longrightarrow> id_map st' k = id_map st k"
    and "\<forall>k c. id_map st' k = Some c \<longrightarrow> id_map st k = Some c \<or> c \<notin> set (id_used st)"
    by auto
qed

text \<open>States reached by further normalisation only add renamings, onto unused names.\<close>

definition id_grows :: "id_state \<Rightarrow> id_state \<Rightarrow> bool" where
  "id_grows st st' \<longleftrightarrow> id_state_ok st' \<and> id_map st \<subseteq>\<^sub>m id_map st' \<and> set (id_used st) \<subseteq> set (id_used st')
     \<and> (\<forall>k c. id_map st' k = Some c \<longrightarrow> id_map st k = Some c \<or> c \<notin> set (id_used st))"

lemma id_grows_refl: "id_state_ok st \<Longrightarrow> id_grows st st"
  by (simp add: id_grows_def)

lemma id_grows_trans: "id_grows a b \<Longrightarrow> id_grows b c \<Longrightarrow> id_grows a c"
  unfolding id_grows_def by (metis map_le_trans order_trans subsetD)

lemma mapped_grows: "id_state_ok st \<Longrightarrow> mapped i st = (j, st') \<Longrightarrow> id_grows st st'"
  using mapped_ok [of st i j st'] unfolding id_grows_def by blast

definition settled :: "(string \<Rightarrow> string option) \<Rightarrow> string \<Rightarrow> bool" where
  "settled f i \<longleftrightarrow> i \<in> dom f \<or> i = [] \<or> sanitize_id i = i"

definition renames_invalid :: "(string \<Rightarrow> string option) \<Rightarrow> bool" where
  "renames_invalid f \<longleftrightarrow> (\<forall>i. i \<in> dom f \<longrightarrow> i \<noteq> [] \<and> sanitize_id i \<noteq> i)"

lemma id_state_ok_renames_invalid: "id_state_ok st \<Longrightarrow> renames_invalid (id_map st)"
  by (auto simp: id_state_ok_def renames_invalid_def)

lemma mapped_settled: "mapped i st = (j, st') \<Longrightarrow> settled (id_map st') i"
  by (auto simp: mapped_def settled_def Let_def split: option.splits if_splits prod.splits)

lemma settled_mono: "settled f i \<Longrightarrow> f \<subseteq>\<^sub>m g \<Longrightarrow> settled g i"
  by (auto simp: settled_def map_le_def dom_def)

lemma mapped_renaming:
  assumes "id_state_ok st" and "mapped i st = (j, st')"
    and "id_map st' \<subseteq>\<^sub>m f" and "renames_invalid f"
  shows "j = renaming f i"
proof -
  have j: "j = renaming (id_map st') i" using assms(1,2) by (rule mapped_ok(4))
  show ?thesis
  proof (cases "id_map st' i")
    case None
    then have "i = [] \<or> sanitize_id i = i"
      using mapped_settled [OF assms(2)] by (auto simp: settled_def)
    then have "f i = None" using assms(4) by (auto simp: renames_invalid_def)
    with j None show ?thesis by (simp add: renaming_def)
  next
    case (Some c)
    then have "f i = Some c" using assms(3) by (metis domI map_le_def)
    with j Some show ?thesis by (simp add: renaming_def)
  qed
qed

lemma map_parts_renaming:
  assumes "id_state_ok st" and "map_parts ps st = (ps', st')"
  shows "id_grows st st'
    \<and> (\<forall>p\<in>set ps. \<forall>c. part_tool_call p = Some c \<longrightarrow> settled (id_map st') (tc_id c))
    \<and> (\<forall>f. id_map st' \<subseteq>\<^sub>m f \<and> renames_invalid f \<longrightarrow> ps' = map (rename_part (renaming f)) ps)"
  using assms
proof (induction ps st arbitrary: ps' st' rule: map_parts.induct)
  case (1 st)
  then show ?case by (simp add: id_grows_refl)
next
  case (2 p ps st)
  show ?case
  proof (cases "part_tool_call p")
    case None
    obtain qs where r: "map_parts ps st = (qs, st')" and ps': "ps' = p # qs"
      using "2.prems"(2) None by (auto split: prod.splits)
    from "2.IH"(1) [OF None "2.prems"(1) r] None ps' show ?thesis
      by (auto simp: rename_part_def)
  next
    case (Some c)
    obtain i st1 where m: "mapped (tc_id c) st = (i, st1)" by fastforce
    obtain qs where r: "map_parts ps st1 = (qs, st')"
      and ps': "ps' = p\<lparr>part_call := Some (c\<lparr>tc_id := i\<rparr>)\<rparr> # qs"
      using "2.prems"(2) Some m by (auto split: prod.splits)
    have ok1: "id_state_ok st1" using "2.prems"(1) m by (rule mapped_ok(1))
    note IH = "2.IH"(2) [OF Some m [symmetric] refl ok1 r]
    have le: "id_map st1 \<subseteq>\<^sub>m id_map st'" using IH by (simp add: id_grows_def)
    have g: "id_grows st st'" using mapped_grows [OF "2.prems"(1) m] IH by (blast intro: id_grows_trans)
    have s: "settled (id_map st') (tc_id c)" using mapped_settled [OF m] le by (rule settled_mono)
    have e: "ps' = map (rename_part (renaming f)) (p # ps)"
      if "id_map st' \<subseteq>\<^sub>m f" "renames_invalid f" for f
    proof -
      have "i = renaming f (tc_id c)"
        using "2.prems"(1) m map_le_trans [OF le that(1)] that(2) by (rule mapped_renaming)
      then show ?thesis using IH that ps' Some by (simp add: rename_part_def)
    qed
    show ?thesis using g s e IH Some by auto
  qed
qed

lemma map_message_renaming:
  assumes "id_state_ok st" and "map_message m st = (m', st')"
  shows "id_grows st st'
    \<and> (\<forall>i\<in>set (call_ids m). settled (id_map st') i)
    \<and> (\<forall>f. id_map st' \<subseteq>\<^sub>m f \<and> renames_invalid f \<longrightarrow> m' = rename_message (renaming f) m)"
proof -
  obtain ps st1 where p: "map_parts (msg_content m) st = (ps, st1)" by fastforce
  note P = map_parts_renaming [OF assms(1) p]
  then have ok1: "id_state_ok st1" by (simp add: id_grows_def)
  have S1: "settled (id_map st1) i" if "i \<in> set (call_ids m)" for i
    using P that by (auto simp: set_collect_tool_calls)
  show ?thesis
  proof (cases "is_tool m \<and> msg_call_id m \<noteq> []")
    case False
    then show ?thesis using assms(2) p P S1 by (auto simp: map_message_def rename_message_def)
  next
    case True
    obtain i where m: "mapped (msg_call_id m) st1 = (i, st')"
      and m': "m' = m\<lparr>msg_content := ps, msg_call_id := i\<rparr>"
      using assms(2) p True by (auto simp: map_message_def split: prod.splits)
    have g: "id_grows st1 st'" using ok1 m by (rule mapped_grows)
    then have le: "id_map st1 \<subseteq>\<^sub>m id_map st'" by (simp add: id_grows_def)
    have "m' = rename_message (renaming f) m" if "id_map st' \<subseteq>\<^sub>m f" "renames_invalid f" for f
    proof -
      have "i = renaming f (msg_call_id m)" using ok1 m that by (rule mapped_renaming)
      moreover have "ps = map (rename_part (renaming f)) (msg_content m)"
        using P that(2) map_le_trans [OF le that(1)] by blast
      ultimately show ?thesis using True m' by (simp add: rename_message_def)
    qed
    then show ?thesis using P g S1 le settled_mono by (blast intro: id_grows_trans)
  qed
qed

lemma map_messages_renaming:
  assumes "id_state_ok st" and "map_messages ms st = (ms', st')"
  shows "id_grows st st'
    \<and> (\<forall>m\<in>set ms. \<forall>i\<in>set (call_ids m). settled (id_map st') i)
    \<and> (\<forall>f. id_map st' \<subseteq>\<^sub>m f \<and> renames_invalid f \<longrightarrow> ms' = map (rename_message (renaming f)) ms)"
  using assms
proof (induction ms arbitrary: st ms')
  case Nil
  then show ?case by (simp add: id_grows_refl)
next
  case (Cons m ms)
  obtain m1 st1 where m: "map_message m st = (m1, st1)" by fastforce
  obtain ms1 where r: "map_messages ms st1 = (ms1, st')" and ms': "ms' = m1 # ms1"
    using Cons.prems(2) m by (auto split: prod.splits)
  note M = map_message_renaming [OF Cons.prems(1) m]
  then have ok1: "id_state_ok st1" by (simp add: id_grows_def)
  note IH = Cons.IH [OF ok1 r]
  have le: "id_map st1 \<subseteq>\<^sub>m id_map st'" using IH by (simp add: id_grows_def)
  have "id_grows st st'" using M IH by (blast intro: id_grows_trans)
  moreover have "\<forall>i\<in>set (call_ids m). settled (id_map st') i" using M le settled_mono by blast
  moreover have "ms' = map (rename_message (renaming f)) (m # ms)"
    if "id_map st' \<subseteq>\<^sub>m f" "renames_invalid f" for f
    using M IH that map_le_trans [OF le that(1)] ms' by simp
  ultimately show ?case using IH by auto
qed

lemma normalize_renaming:
  assumes "normalize_tool_call_ids ms = (ms', f)"
  shows "ms' = map (rename_message (renaming f)) ms"
    and "inj_on (renaming f) {i. \<exists>m\<in>set ms. i \<in> set (call_ids m)}"
    and "renames_invalid f"
    and "m \<in> set ms \<Longrightarrow> i \<in> set (call_ids m) \<Longrightarrow> settled f i"
proof -
  let ?st = "\<lparr>id_map = Map.empty, id_used = premark ms, id_next = 0\<rparr>"
  obtain st' where r: "map_messages ms ?st = (ms', st')" and f: "f = id_map st'"
    using assms by (auto simp: normalize_tool_call_ids_def split: prod.splits)
  note R = map_messages_renaming [OF id_state_ok_start r]
  then have ok: "id_state_ok st'" by (simp add: id_grows_def)
  then show inv: "renames_invalid f" using f by (simp add: id_state_ok_renames_invalid)
  then show "ms' = map (rename_message (renaming f)) ms" using R f by auto
  show "settled f i" if "m \<in> set ms" "i \<in> set (call_ids m)" for m i using R f that by auto
  have fresh: "c \<notin> set (premark ms)" if "f i = Some c" for i c
    using R that f by (auto simp: id_grows_def)
  have valid: "i \<in> set (premark ms)"
    if "m \<in> set ms" "i \<in> set (call_ids m)" "f i = None" for m i
  proof -
    have "settled f i" using R that f by auto
    with that(3) have "sanitize_id i = i" by (auto simp: settled_def)
    then show ?thesis using that by (force simp: premark_def)
  qed
  have inj: "inj_on f (dom f)" using ok f by (simp add: id_state_ok_def)
  show "inj_on (renaming f) {i. \<exists>m\<in>set ms. i \<in> set (call_ids m)}"
  proof (rule inj_onI, clarify)
    fix i j m m'
    assume i: "m \<in> set ms" "i \<in> set (call_ids m)" and j: "m' \<in> set ms" "j \<in> set (call_ids m')"
      and eq: "renaming f i = renaming f j"
    show "i = j"
      using eq fresh valid [OF i] valid [OF j] inj
      by (auto simp: renaming_def inj_on_def dom_def split: option.splits)
  qed
qed

section \<open>What the repair guarantees\<close>

lemma collect_sanitize [simp]: "collect_tool_calls (sanitize_foreign_turn m active) = collect_tool_calls m"
proof -
  have "List.map_filter part_tool_call
      (map (\<lambda>p. p\<lparr>part_signature := []\<rparr>) (filter (\<lambda>p. part_type p \<noteq> TypeThinking) ps))
      = List.map_filter part_tool_call ps" for ps
    by (induction ps)
      (auto simp: map_filter_Cons List.map_filter_simps part_tool_call_def split: option.split)
  then show ?thesis by (simp add: collect_tool_calls_def sanitize_foreign_turn_def)
qed

lemma sanitize_role [simp]:
  "msg_role (sanitize_foreign_turn m active) = msg_role m"
  "is_assistant (sanitize_foreign_turn m active) = is_assistant m"
  "is_tool (sanitize_foreign_turn m active) = is_tool m"
  "msg_model (sanitize_foreign_turn m active) = msg_model m"
  by (simp_all add: sanitize_foreign_turn_def is_assistant_def is_tool_def)

lemma sanitize_idem [simp]:
  "sanitize_foreign_turn (sanitize_foreign_turn m active) active = sanitize_foreign_turn m active"
  by (auto simp: sanitize_foreign_turn_def filter_map comp_def intro: list.map_cong)

lemma synthetic_simps [simp]:
  "msg_role (synthetic_tool_result c) = RoleTool" "msg_call_id (synthetic_tool_result c) = tc_id c"
  "is_tool (synthetic_tool_result c)" "\<not> is_assistant (synthetic_tool_result c)"
  "msg_is_error (synthetic_tool_result c)"
  by (simp_all add: synthetic_tool_result_def is_tool_def is_assistant_def)

lemma calls_meaningful: "collect_tool_calls m \<noteq> [] \<Longrightarrow> has_meaningful_content m"
  by (force simp: collect_tool_calls_def List.map_filter_def has_meaningful_content_def list_ex_iff
      part_meaningful_def part_tool_call_def filter_empty_conv split: if_splits)

lemma role_split:
  "(case msg_role m of RoleAssistant \<Rightarrow> a | RoleTool \<Rightarrow> b | _ \<Rightarrow> c)
    = (if is_assistant m then a else if is_tool m then b else c)"
  by (auto simp: is_assistant_def is_tool_def split: message_role.splits)

lemma not_tool_assistant: "is_tool m \<Longrightarrow> \<not> is_assistant m"
  by (simp add: is_tool_def is_assistant_def)

declare harden_walk.simps(2) [simp del]

text \<open>The walk in terms of two kinds of step: a turn that is kept, and every other message.\<close>

definition keeps_turn :: "string \<Rightarrow> message \<Rightarrow> bool" where
  "keeps_turn active m \<longleftrightarrow> is_assistant m \<and> has_meaningful_content (sanitize_foreign_turn m active)"

definition turn_output :: "string list \<Rightarrow> string \<Rightarrow> message \<Rightarrow> message list \<Rightarrow> message list" where
  "turn_output known active m ms =
     (let kept = filter (\<lambda>t. msg_call_id t \<in> set known) (takeWhile is_tool ms)
      in sanitize_foreign_turn m active # kept
         @ map synthetic_tool_result
             (missing_results kept (dropWhile is_tool ms) (collect_tool_calls m)))"

lemma harden_walk_turn:
  "keeps_turn active m \<Longrightarrow> harden_walk known active (m # ms)
     = turn_output known active m ms @ harden_walk known active (dropWhile is_tool ms)"
  by (simp add: harden_walk.simps(2) keeps_turn_def is_assistant_def turn_output_def Let_def)

lemma harden_walk_other:
  "\<not> keeps_turn active m \<Longrightarrow> harden_walk known active (m # ms)
     = (if is_assistant m \<or> is_tool m \<and> msg_call_id m \<notin> set known then [] else [m])
       @ harden_walk known active ms"
  by (auto simp: harden_walk.simps(2) keeps_turn_def is_assistant_def is_tool_def Let_def
      split: message_role.splits)

lemma harden_induct [case_names Nil Turn Other]:
  assumes "P []"
    and "\<And>m ms. keeps_turn active m \<Longrightarrow> P (dropWhile is_tool ms) \<Longrightarrow> P (m # ms)"
    and "\<And>m ms. \<not> keeps_turn active m \<Longrightarrow> P ms \<Longrightarrow> P (m # ms)"
  shows "P ms"
proof (induction ms rule: length_induct)
  case (1 ms)
  show ?case
  proof (cases ms)
    case (Cons m ms')
    have "length (dropWhile is_tool ms') < length ms"
      using length_dropWhile_le [of is_tool ms'] Cons by simp
    with 1 Cons assms(2,3) show ?thesis by (cases "keeps_turn active m") simp_all
  qed (simp add: assms(1))
qed

text \<open>A result answering a known id survives the walk wherever it stands.\<close>

lemma harden_walk_keeps_results:
  "t \<in> set ms \<Longrightarrow> is_tool t \<Longrightarrow> msg_call_id t \<in> set known \<Longrightarrow> t \<in> set (harden_walk known active ms)"
proof (induction ms rule: harden_induct [where active = active])
  case (Turn m ms)
  then have "t \<noteq> m" using not_tool_assistant keeps_turn_def by blast
  with Turn.prems(1) have "t \<in> set (takeWhile is_tool ms) \<or> t \<in> set (dropWhile is_tool ms)"
    by (metis UnE set_ConsD set_append takeWhile_dropWhile_id)
  then show ?case using Turn by (auto simp: harden_walk_turn turn_output_def Let_def)
next
  case (Other m ms)
  then show ?case by (auto simp: harden_walk_other dest: not_tool_assistant)
qed simp

lemma set_takeWhile_tool: "t \<in> set (takeWhile is_tool ms) \<Longrightarrow> is_tool t"
  by (induction ms) (auto split: if_splits)

lemma in_dropWhile: "t \<in> set (dropWhile P ms) \<Longrightarrow> t \<in> set ms"
  by (rule set_dropWhileD)

lemma harden_walk_answers:
  assumes "\<forall>m\<in>set ms. is_assistant m \<longrightarrow> set (call_ids m) \<subseteq> set known"
  shows "calls_answered (harden_walk known active ms)"
  using assms
proof (induction ms rule: harden_induct [where active = active])
  case (Turn m ms)
  let ?rest = "dropWhile is_tool ms"
  let ?kept = "filter (\<lambda>t. msg_call_id t \<in> set known) (takeWhile is_tool ms)"
  let ?syn = "map synthetic_tool_result (missing_results ?kept ?rest (collect_tool_calls m))"
  have rest: "calls_answered (harden_walk known active ?rest)"
    using Turn in_dropWhile by (metis list.set_intros(2))
  have known: "set (call_ids m) \<subseteq> set known" using Turn.prems Turn.hyps by (simp add: keeps_turn_def)
  have tail: "calls_answered ((?kept @ ?syn) @ harden_walk known active ?rest)"
    by (rule calls_answered_append_intro [OF rest])
      (auto dest!: set_takeWhile_tool not_tool_assistant)
  have "\<exists>t\<in>set (?kept @ ?syn @ harden_walk known active ?rest). is_tool t \<and> msg_call_id t = tc_id c"
    if c: "c \<in> set (collect_tool_calls m)" for c
  proof (cases "tc_id c \<in> set (map msg_call_id ?kept)")
    case True
    then show ?thesis by (auto dest: set_takeWhile_tool)
  next
    case notkept: False
    show ?thesis
    proof (cases "results_elsewhere ?rest (tc_id c)")
      case True
      then obtain t where t: "t \<in> set ?rest" "is_tool t" "msg_call_id t = tc_id c"
        by (auto simp: results_elsewhere_def list_ex_iff)
      then have "t \<in> set (harden_walk known active ?rest)"
        using known c by (intro harden_walk_keeps_results) auto
      with t show ?thesis by auto
    next
      case False
      with notkept c have "synthetic_tool_result c \<in> set ?syn" by (auto simp: missing_results_def)
      then show ?thesis by (metis UnI1 UnI2 set_append synthetic_simps(2,3))
    qed
  qed
  with tail Turn.hyps show ?case
    by (simp add: harden_walk_turn turn_output_def Let_def)
next
  case (Other m ms)
  then show ?case by (auto simp: harden_walk_other)
qed simp

lemma harden_walk_result_ids:
  assumes "\<forall>m\<in>set ms. is_assistant m \<longrightarrow> set (call_ids m) \<subseteq> set known"
    and "t \<in> set (harden_walk known active ms)" and "is_tool t"
  shows "msg_call_id t \<in> set known"
  using assms
proof (induction ms rule: harden_induct [where active = active])
  case (Turn m ms)
  have "t \<noteq> sanitize_foreign_turn m active"
    using Turn.hyps Turn.prems(3) not_tool_assistant by (auto simp: keeps_turn_def)
  moreover have "set (call_ids m) \<subseteq> set known" using Turn.prems(1) Turn.hyps by (simp add: keeps_turn_def)
  ultimately show ?case
    using Turn.prems Turn.IH in_dropWhile [of _ is_tool ms]
    by (auto simp: harden_walk_turn Turn.hyps turn_output_def Let_def missing_results_def)
next
  case (Other m ms)
  then show ?case by (auto simp: harden_walk_other split: if_splits)
qed simp

lemma harden_walk_keeps_calls:
  "a \<in> set ms \<Longrightarrow> is_assistant a \<Longrightarrow> collect_tool_calls a \<noteq> [] \<Longrightarrow>
     sanitize_foreign_turn a active \<in> set (harden_walk known active ms)"
proof (induction ms rule: harden_induct [where active = active])
  case (Turn m ms)
  have "a = m \<or> a \<in> set (dropWhile is_tool ms)"
    using Turn.prems by (metis UnE not_tool_assistant set_ConsD set_append set_takeWhile_tool takeWhile_dropWhile_id)
  then show ?case using Turn by (auto simp: harden_walk_turn turn_output_def Let_def)
next
  case (Other m ms)
  moreover have "keeps_turn active a" using Other.prems
    by (simp add: keeps_turn_def calls_meaningful)
  ultimately show ?case by (auto simp: harden_walk_other)
qed simp

lemma harden_walk_turns:
  "a \<in> set (harden_walk known active ms) \<Longrightarrow> is_assistant a \<Longrightarrow>
     sanitize_foreign_turn a active = a \<and> has_meaningful_content a"
proof (induction ms rule: harden_induct [where active = active])
  case (Turn m ms)
  then show ?case
    by (auto simp: harden_walk_turn turn_output_def Let_def keeps_turn_def dest!: set_takeWhile_tool not_tool_assistant)
next
  case (Other m ms)
  then show ?case by (auto simp: harden_walk_other keeps_turn_def split: if_splits)
qed simp

text \<open>A transcript that already satisfies the invariants is left alone.\<close>

definition well_formed :: "string list \<Rightarrow> string \<Rightarrow> message list \<Rightarrow> bool" where
  "well_formed known active ms \<longleftrightarrow> calls_answered ms
     \<and> (\<forall>m\<in>set ms. is_assistant m \<longrightarrow> sanitize_foreign_turn m active = m \<and> has_meaningful_content m)
     \<and> (\<forall>m\<in>set ms. is_tool m \<longrightarrow> msg_call_id m \<in> set known)"

lemma calls_answered_dropWhile: "calls_answered ms \<Longrightarrow> calls_answered (dropWhile P ms)"
  by (induction ms) auto

lemma harden_walk_stable: "well_formed known active ms \<Longrightarrow> harden_walk known active ms = ms"
proof (induction ms rule: harden_induct [where active = active])
  case (Turn m ms)
  let ?rest = "dropWhile is_tool ms"
  have kept: "filter (\<lambda>t. msg_call_id t \<in> set known) (takeWhile is_tool ms) = takeWhile is_tool ms"
    using Turn.prems by (auto simp: well_formed_def filter_id_conv dest: set_takeWhileD)
  have "missing_results (takeWhile is_tool ms) ?rest (collect_tool_calls m) = []"
  proof -
    have "tc_id c \<in> set (map msg_call_id (takeWhile is_tool ms)) \<or> results_elsewhere ?rest (tc_id c)"
      if c: "c \<in> set (collect_tool_calls m)" for c
    proof -
      obtain t where t: "t \<in> set ms" "is_tool t" "msg_call_id t = tc_id c"
        using Turn.prems Turn.hyps c by (auto simp: well_formed_def keeps_turn_def)
      then have "t \<in> set (takeWhile is_tool ms) \<or> t \<in> set ?rest"
        by (metis UnE set_append takeWhile_dropWhile_id)
      with t show ?thesis by (auto simp: results_elsewhere_def list_ex_iff rev_image_eqI)
    qed
    then show ?thesis by (auto simp: missing_results_def filter_empty_conv)
  qed
  moreover have "well_formed known active ?rest"
    using Turn.prems by (auto simp: well_formed_def calls_answered_dropWhile dest: in_dropWhile)
  moreover have "sanitize_foreign_turn m active = m"
    using Turn.prems Turn.hyps by (simp add: well_formed_def keeps_turn_def)
  ultimately show ?case
    using Turn.IH kept by (simp add: harden_walk_turn Turn.hyps turn_output_def Let_def)
next
  case (Other m ms)
  then have "\<not> is_assistant m" by (auto simp: well_formed_def keeps_turn_def)
  moreover have "well_formed known active ms" using Other.prems by (simp add: well_formed_def)
  ultimately show ?case
    using Other by (auto simp: harden_walk_other well_formed_def)
qed simp

lemma known_calls_covers: "\<forall>m\<in>set ms. is_assistant m \<longrightarrow> set (call_ids m) \<subseteq> set (known_calls ms)"
  by (auto simp: known_calls_def)

lemma known_calls_walk:
  "set (known_calls (harden_walk (known_calls ms) active ms)) = set (known_calls ms)"
proof
  show "set (known_calls ms) \<subseteq> set (known_calls (harden_walk (known_calls ms) active ms))"
  proof
    fix i assume "i \<in> set (known_calls ms)"
    then obtain a where a: "a \<in> set ms" "is_assistant a" "i \<in> set (call_ids a)"
      by (auto simp: known_calls_def)
    then have "sanitize_foreign_turn a active \<in> set (harden_walk (known_calls ms) active ms)"
      by (intro harden_walk_keeps_calls) auto
    then show "i \<in> set (known_calls (harden_walk (known_calls ms) active ms))"
      using a by (force simp: known_calls_def)
  qed
  have "a \<in> set (harden_walk known active ms) \<Longrightarrow> is_assistant a \<Longrightarrow>
      \<exists>b\<in>set ms. is_assistant b \<and> collect_tool_calls a = collect_tool_calls b" for known a
  proof (induction ms rule: harden_induct [where active = active])
    case (Turn m ms)
    then show ?case
      by (auto simp: harden_walk_turn turn_output_def Let_def keeps_turn_def
          dest!: set_takeWhile_tool not_tool_assistant dest: in_dropWhile)
  next
    case (Other m ms)
    then show ?case by (auto simp: harden_walk_other split: if_splits)
  qed simp
  then show "set (known_calls (harden_walk (known_calls ms) active ms)) \<subseteq> set (known_calls ms)"
    by (force simp: known_calls_def)
qed

lemma harden_walk_known_cong:
  "set known = set known' \<Longrightarrow> harden_walk known active ms = harden_walk known' active ms"
proof (induction ms rule: harden_induct [where active = active])
  case (Turn m ms)
  then show ?case by (simp add: harden_walk_turn turn_output_def)
next
  case (Other m ms)
  then show ?case by (simp add: harden_walk_other)
qed simp

lemma harden_walk_well_formed:
  "well_formed (known_calls ms) active (harden_walk (known_calls ms) active ms)"
  unfolding well_formed_def
  using harden_walk_answers [OF known_calls_covers] harden_walk_turns
    harden_walk_result_ids [OF known_calls_covers] by blast

lemma harden_walk_owned: "results_owned (harden_walk (known_calls ms) active ms)"
  unfolding results_owned_def
proof (intro ballI impI)
  fix t assume t: "t \<in> set (harden_walk (known_calls ms) active ms)" "is_tool t"
  then have "msg_call_id t \<in> set (known_calls ms)"
    using harden_walk_result_ids [OF known_calls_covers] by blast
  then have "msg_call_id t \<in> set (known_calls (harden_walk (known_calls ms) active ms))"
    by (simp add: known_calls_walk)
  then show "\<exists>a\<in>set (harden_walk (known_calls ms) active ms).
      is_assistant a \<and> msg_call_id t \<in> set (call_ids a)"
    by (auto simp: known_calls_def)
qed

section \<open>Normalised ids are legal\<close>

definition legal_chars :: "string \<Rightarrow> bool" where
  "legal_chars s \<longleftrightarrow> (\<forall>c\<in>set s. legal_id_rune (code_of c))"

definition legal_id :: "string \<Rightarrow> bool" where
  "legal_id s \<longleftrightarrow> legal_chars s \<and> length s \<le> 64"

lemma legal_id_rune_bound: "legal_id_rune r \<Longrightarrow> r < 128"
  by (auto simp: legal_id_rune_def)

lemma legal_chars_simps [simp]:
  "legal_chars []" "legal_chars (s @ t) \<longleftrightarrow> legal_chars s \<and> legal_chars t"
  "legal_chars (c # s) \<longleftrightarrow> legal_id_rune (code_of c) \<and> legal_chars s"
  by (auto simp: legal_chars_def)

lemma legal_chars_take: "legal_chars s \<Longrightarrow> legal_chars (take n s)"
  by (auto simp: legal_chars_def dest: in_set_takeD)

lemma legal_underscore: "legal_id_rune (code_of (CHR ''_''))"
  by (simp add: legal_id_rune_def code_of_def)

lemma legal_itoa: "legal_chars (itoa n)"
proof -
  have "\<forall>c\<in>set ''0123456789''. legal_id_rune (code_of c)"
    by (simp add: legal_id_rune_def code_of_def)
  then show ?thesis using itoa_digits [of n] unfolding legal_chars_def by blast
qed

lemma sanitize_legal: "legal_id (sanitize_id s)"
proof -
  have "legal_id_rune (code_of (if legal_id_rune r then byte r else CHR ''_''))" for r
    using legal_id_rune_bound [of r] legal_underscore by auto
  then have "legal_chars (map (\<lambda>(r, bs). if legal_id_rune r then byte r else CHR ''_'') (runes s))"
    by (auto simp: legal_chars_def)
  then show ?thesis by (simp add: legal_id_def sanitize_id_def legal_chars_take)
qed

lemma sanitize_fix: "sanitize_id s = s \<longleftrightarrow> legal_id s"
proof
  assume l: "legal_id s"
  then have "\<forall>c\<in>set s. code_of c < 128"
    using legal_id_rune_bound by (auto simp: legal_id_def legal_chars_def)
  moreover have "map (\<lambda>c. if legal_id_rune (code_of c) then byte (code_of c) else CHR ''_'') s = s"
    using l by (induction s) (auto simp: legal_id_def)
  ultimately show "sanitize_id s = s"
    using l by (simp add: sanitize_id_def runes_ascii comp_def legal_id_def)
qed (metis sanitize_legal)

lemma suffixed_legal:
  assumes "legal_chars s" and "n < 10 ^ 62"
  shows "legal_id (suffixed s n)"
proof -
  have "length (itoa n) \<le> 62" using itoa_length_bound [of n 61] assms(2) by simp
  then show ?thesis
    using assms(1) legal_itoa legal_underscore by (simp add: legal_id_def suffixed_def Let_def legal_chars_take)
qed

lemma pick_free_next:
  "n \<le> snd (pick_free used s n cand) \<and>
   snd (pick_free used s n cand) \<le> n + card {k. n < k \<and> suffixed s k \<in> set used} + 1"
proof (induction used s n cand rule: pick_free.induct)
  case (1 used s n cand)
  show ?case
  proof (cases "cand \<in> set used \<and> suffixed s (Suc n) \<in> set used")
    case True
    let ?B = "{k. Suc n < k \<and> suffixed s k \<in> set used}"
    have "{k. n < k \<and> suffixed s k \<in> set used} = insert (Suc n) ?B"
      using True by (auto simp: Suc_le_eq intro: Suc_lessI)
    then have "card {k. n < k \<and> suffixed s k \<in> set used} = Suc (card ?B)"
      using finite_used_suffixes [of "Suc n" s used] by simp
    then show ?thesis using "1" True by (simp add: pick_free.simps [of used s n cand])
  next
    case False
    then show ?thesis
      by (auto simp: pick_free.simps [of used s n cand] pick_free.simps [of used s "Suc n"])
  qed
qed

lemma pick_free_bound: "snd (pick_free used s n cand) \<le> n + length used + 1"
proof -
  have "card {k. n < k \<and> suffixed s k \<in> set used} \<le> card (set used)"
    by (rule card_inj_on_le [where f = "suffixed s"]) (auto intro: inj_onI suffixed_inj)
  then show ?thesis using pick_free_next [of n used s cand] card_length [of used] by linarith
qed

lemma pick_free_legal:
  "legal_id cand \<Longrightarrow> legal_chars s \<Longrightarrow> snd (pick_free used s n cand) < 10 ^ 62 \<Longrightarrow>
     legal_id (fst (pick_free used s n cand))"
proof (induction used s n cand rule: pick_free.induct)
  case (1 used s n cand)
  show ?case
  proof (cases "cand \<in> set used")
    case True
    then have eq: "pick_free used s n cand = pick_free used s (Suc n) (suffixed s (Suc n))"
      by (simp add: pick_free.simps [of used s n cand])
    have "Suc n \<le> snd (pick_free used s n cand)"
      using pick_free_next [of "Suc n" used s "suffixed s (Suc n)"] eq by simp
    then have "Suc n < 10 ^ 62" using "1.prems"(3) by (rule le_less_trans)
    then have "legal_id (suffixed s (Suc n))" using "1.prems"(2) by (rule suffixed_legal [rotated])
    with "1.IH" [OF True] "1.prems" eq show ?thesis by simp
  next
    case False
    with "1.prems" show ?thesis by (simp add: pick_free.simps [of used s n cand])
  qed
qed

text \<open>The counter stays below the square of the number of ids in use, so the 62 digits that
  fit into an id are never exhausted by a transcript of fewer than \<open>10 ^ 31\<close> ids.\<close>

definition id_state_small :: "nat \<Rightarrow> id_state \<Rightarrow> bool" where
  "id_state_small b st \<longleftrightarrow> id_next st \<le> (length (id_used st))\<^sup>2 \<and> length (id_used st) \<le> b"

definition targets_legal :: "id_state \<Rightarrow> bool" where
  "targets_legal st \<longleftrightarrow> (\<forall>i c. id_map st i = Some c \<longrightarrow> legal_id c)"

lemma mapped_small:
  assumes s: "id_state_small b st" and t: "targets_legal st" and r: "mapped i st = (j, st')"
    and b: "b < 10 ^ 30"
  shows "id_state_small (Suc b) st' \<and> targets_legal st'"
proof (cases "i = [] \<or> id_map st i \<noteq> None \<or> sanitize_id i = i")
  case True
  then show ?thesis using s t r
    by (auto simp: mapped_def id_state_small_def targets_legal_def Let_def power2_eq_square
        split: option.splits if_splits)
next
  case False
  let ?s = "if sanitize_id i = [] then ''call'' else sanitize_id i"
  let ?L = "length (id_used st)"
  obtain c n where pf: "pick_free (id_used st) ?s (id_next st) ?s = (c, n)" by fastforce
  have n: "n \<le> (Suc ?L)\<^sup>2"
  proof -
    have "n \<le> id_next st + ?L + 1" using pick_free_bound [of "id_used st" ?s "id_next st" ?s] pf by simp
    also have "\<dots> \<le> ?L\<^sup>2 + ?L + 1" using s by (simp add: id_state_small_def)
    also have "\<dots> \<le> (Suc ?L)\<^sup>2" by (simp add: power2_eq_square)
    finally show ?thesis .
  qed
  also have "(Suc ?L)\<^sup>2 \<le> (Suc b)\<^sup>2" using s by (intro power_mono) (auto simp: id_state_small_def)
  also have "\<dots> \<le> (10 ^ 30)\<^sup>2" using b by (intro power_mono) auto
  finally have n62: "n < 10 ^ 62" by simp
  have "legal_chars ''call''" by (simp add: legal_id_rune_def code_of_def)
  then have "legal_id ?s" using sanitize_legal [of i] by (auto simp: legal_id_def)
  then have "legal_id c"
    using pick_free_legal [of ?s ?s "id_used st" "id_next st"] pf n62 by (auto simp: legal_id_def)
  then show ?thesis using False pf r n s t
    by (auto simp: mapped_def Let_def id_state_small_def targets_legal_def split: option.splits if_splits)
qed

lemma renaming_legal:
  assumes "settled f i" and "\<forall>k c. f k = Some c \<longrightarrow> legal_id c"
  shows "legal_id (renaming f i)"
  using assms sanitize_legal [of i] sanitize_fix [of i]
  by (cases "f i") (auto simp: settled_def renaming_def dom_def legal_id_def)

definition id_slots :: "message list \<Rightarrow> nat" where
  "id_slots ms = (\<Sum>m\<leftarrow>ms. length (msg_content m) + 1)"

lemma id_state_small_mono: "id_state_small b st \<Longrightarrow> b \<le> b' \<Longrightarrow> id_state_small b' st"
  by (simp add: id_state_small_def)

lemma map_parts_small:
  assumes "map_parts ps st = (ps', st')" and "id_state_small b st" and "targets_legal st"
    and "b + length ps < 10 ^ 30"
  shows "id_state_small (b + length ps) st' \<and> targets_legal st'"
  using assms
proof (induction ps st arbitrary: ps' st' b rule: map_parts.induct)
  case (2 p ps st)
  show ?case
  proof (cases "part_tool_call p")
    case None
    obtain qs where "map_parts ps st = (qs, st')"
      using "2.prems"(1) None by (auto split: prod.splits)
    from "2.IH"(1) [OF None this "2.prems"(2,3)] "2.prems"(4) show ?thesis
      by (auto intro: id_state_small_mono)
  next
    case (Some c)
    obtain i st1 where m: "mapped (tc_id c) st = (i, st1)" by fastforce
    obtain qs where r: "map_parts ps st1 = (qs, st')"
      using "2.prems"(1) Some m by (auto split: prod.splits)
    have "id_state_small (Suc b) st1 \<and> targets_legal st1"
      using mapped_small [OF "2.prems"(2,3) m] "2.prems"(4) by simp
    with "2.IH"(2) [OF Some m [symmetric] refl r, of "Suc b"] "2.prems"(4) show ?thesis by simp
  qed
qed simp

lemma map_message_small:
  assumes "map_message m st = (m', st')" and "id_state_small b st" and "targets_legal st"
    and "b + (length (msg_content m) + 1) < 10 ^ 30"
  shows "id_state_small (b + (length (msg_content m) + 1)) st' \<and> targets_legal st'"
proof -
  obtain ps st1 where p: "map_parts (msg_content m) st = (ps, st1)" by fastforce
  have P: "id_state_small (b + length (msg_content m)) st1 \<and> targets_legal st1"
    using map_parts_small [OF p assms(2,3)] assms(4) by simp
  show ?thesis
  proof (cases "is_tool m \<and> msg_call_id m \<noteq> []")
    case False
    then have "st' = st1" using assms(1) p by (auto simp: map_message_def)
    then show ?thesis using P by (auto intro: id_state_small_mono)
  next
    case True
    then obtain i where "mapped (msg_call_id m) st1 = (i, st')"
      using assms(1) p by (auto simp: map_message_def split: prod.splits)
    with P assms(4) show ?thesis using mapped_small by fastforce
  qed
qed

lemma map_messages_small:
  assumes "map_messages ms st = (ms', st')" and "id_state_small b st" and "targets_legal st"
    and "b + id_slots ms < 10 ^ 30"
  shows "targets_legal st'"
  using assms
proof (induction ms arbitrary: st ms' b)
  case (Cons m ms)
  obtain m1 st1 where m: "map_message m st = (m1, st1)" by fastforce
  obtain ms1 where r: "map_messages ms st1 = (ms1, st')"
    using Cons.prems(1) m by (auto split: prod.splits)
  let ?b = "b + (length (msg_content m) + 1)"
  have slots: "b + id_slots (m # ms) = ?b + id_slots ms" by (simp add: id_slots_def)
  then have "?b < 10 ^ 30" using Cons.prems(4) by simp
  then have "id_state_small ?b st1 \<and> targets_legal st1"
    using map_message_small [OF m Cons.prems(2,3)] by blast
  then show ?case using Cons.IH [OF r] Cons.prems(4) unfolding slots by blast
qed simp

lemma length_premark: "length (premark ms) \<le> id_slots ms"
proof (induction ms)
  case (Cons m ms)
  have "length (collect_tool_calls m) \<le> length (msg_content m)"
    by (simp add: collect_tool_calls_def List.map_filter_def)
  moreover have "length (concat (map (\<lambda>c. if P c then [tc_id c] else []) cs)) \<le> length cs" for P cs
    by (induction cs) auto
  from this [of "\<lambda>c. sanitize_id (tc_id c) = tc_id c" "collect_tool_calls m"]
  have "length (premark [m]) \<le> length (collect_tool_calls m)" by (simp add: premark_def)
  moreover have "premark (m # ms) = premark [m] @ premark ms" by (simp add: premark_def)
  ultimately show ?case using Cons by (simp add: id_slots_def)
qed (simp add: premark_def)

lemma collect_rename: "collect_tool_calls (rename_message \<rho> m)
    = map (\<lambda>c. c\<lparr>tc_id := \<rho> (tc_id c)\<rparr>) (collect_tool_calls m)"
proof -
  have "List.map_filter part_tool_call (map (rename_part \<rho>) ps)
      = map (\<lambda>c. c\<lparr>tc_id := \<rho> (tc_id c)\<rparr>) (List.map_filter part_tool_call ps)" for ps
    by (induction ps) (auto simp: map_filter_Cons List.map_filter_simps part_tool_call_def
        rename_part_def split: option.split)
  then show ?thesis by (simp add: collect_tool_calls_def rename_message_def)
qed

lemma normalize_legal:
  assumes "id_slots ms < 10 ^ 29" and "normalize_tool_call_ids ms = (ms', f)"
    and "m \<in> set ms'" and "i \<in> set (call_ids m)"
  shows "legal_id i"
proof -
  let ?st = "\<lparr>id_map = Map.empty, id_used = premark ms, id_next = 0\<rparr>"
  obtain st' where r: "map_messages ms ?st = (ms', st')" and f: "f = id_map st'"
    using assms(2) by (auto simp: normalize_tool_call_ids_def split: prod.splits)
  have "id_state_small (length (premark ms)) ?st" and "targets_legal ?st"
    by (simp_all add: id_state_small_def targets_legal_def)
  moreover have "length (premark ms) + id_slots ms < 10 ^ 30"
    using length_premark [of ms] assms(1) by simp
  ultimately have "targets_legal st'" using map_messages_small [OF r] by blast
  then have legal: "\<forall>k c. f k = Some c \<longrightarrow> legal_id c" by (simp add: targets_legal_def f)
  obtain m0 where m0: "m0 \<in> set ms" "m = rename_message (renaming f) m0"
    using assms(3) normalize_renaming(1) [OF assms(2)] by auto
  then obtain j where "j \<in> set (call_ids m0)" and "i = renaming f j"
    using assms(4) by (auto simp: collect_rename)
  then show ?thesis
    using normalize_renaming(4) [OF assms(2) m0(1)] legal renaming_legal by blast
qed

lemma rename_message_id:
  assumes "\<forall>i\<in>set (call_ids m). \<rho> i = i" and "is_tool m \<Longrightarrow> \<rho> (msg_call_id m) = msg_call_id m"
  shows "rename_message \<rho> m = m"
proof -
  have "map (rename_part \<rho>) (msg_content m) = msg_content m"
  proof (rule map_idI)
    fix p assume "p \<in> set (msg_content m)"
    then have "part_tool_call p = Some c \<Longrightarrow> \<rho> (tc_id c) = tc_id c" for c
      using assms(1) by (auto simp: set_collect_tool_calls)
    then show "rename_part \<rho> p = p"
      by (auto simp: rename_part_def part_tool_call_def split: option.split if_splits)
  qed
  then show ?thesis using assms(2) by (simp add: rename_message_def)
qed

lemma normalize_id:
  assumes "\<forall>m\<in>set ms. \<forall>i\<in>set (call_ids m). legal_id i"
    and "\<forall>m\<in>set ms. is_tool m \<longrightarrow> legal_id (msg_call_id m)"
  shows "fst (normalize_tool_call_ids ms) = ms"
proof -
  obtain ms' f where n: "normalize_tool_call_ids ms = (ms', f)" by fastforce
  have id: "renaming f i = i" if "legal_id i" for i
    using normalize_renaming(3) [OF n] that sanitize_fix [of i]
    by (cases "f i") (auto simp: renames_invalid_def renaming_def dom_def)
  have "rename_message (renaming f) m = m" if "m \<in> set ms" for m
    using assms that id by (intro rename_message_id) auto
  then show ?thesis using normalize_renaming(1) [OF n] n by (simp add: map_idI)
qed

lemma harden_history_stable:
  assumes "well_formed (known_calls ms) active ms"
    and "\<forall>m\<in>set ms. \<forall>i\<in>set (call_ids m). legal_id i"
  shows "harden_history ms active = ms"
proof -
  have "legal_id (msg_call_id m)" if "m \<in> set ms" "is_tool m" for m
    using assms that by (force simp: well_formed_def known_calls_def)
  then have "fst (normalize_tool_call_ids ms) = ms" using assms(2) by (intro normalize_id) auto
  then show ?thesis using assms(1) by (simp add: harden_history_def harden_walk_stable)
qed

lemma harden_walk_calls:
  "a \<in> set (harden_walk known active ms) \<Longrightarrow>
     collect_tool_calls a = [] \<or> (\<exists>b\<in>set ms. collect_tool_calls a = collect_tool_calls b)"
proof (induction ms rule: harden_induct [where active = active])
  case (Turn m ms)
  have "collect_tool_calls (synthetic_tool_result c) = []" for c
    by (simp add: collect_tool_calls_def synthetic_tool_result_def List.map_filter_simps
        part_tool_call_def literal_defs)
  then show ?case using Turn
    by (auto simp: harden_walk_turn turn_output_def Let_def dest: in_dropWhile set_takeWhileD)
next
  case (Other m ms)
  then show ?case by (auto simp: harden_walk_other split: if_splits)
qed simp

lemma harden_history_call_ids:
  assumes "id_slots ms < 10 ^ 29" and "m \<in> set (harden_history ms active)" and "i \<in> set (call_ids m)"
  shows "legal_id i"
proof -
  obtain msgs f where n: "normalize_tool_call_ids ms = (msgs, f)" by fastforce
  then have "m \<in> set (harden_walk (known_calls msgs) active msgs)"
    using assms(2) by (simp add: harden_history_def)
  then obtain b where "b \<in> set msgs" and "i \<in> set (call_ids b)"
    using harden_walk_calls assms(3) by fastforce
  then show ?thesis using normalize_legal [OF assms(1) n] by blast
qed

lemma harden_history_well_formed:
  "well_formed (known_calls (harden_history ms active)) active (harden_history ms active)"
  using harden_walk_well_formed [of "fst (normalize_tool_call_ids ms)" active]
  by (simp add: harden_history_def Let_def well_formed_def known_calls_walk)

lemma harden_history_fixpoint:
  "id_slots ms < 10 ^ 29 \<Longrightarrow>
     harden_history (harden_history ms active) active = harden_history ms active"
  using harden_history_call_ids [of ms _ active] harden_history_well_formed
  by (intro harden_history_stable) auto

section \<open>Properties\<close>

text \<open>C1. Whatever transcript it is given, \<open>HardenHistory\<close> returns one in which every tool call of
  an assistant turn is answered by a later tool message and every tool message answers a call of
  some assistant turn: the pairing that providers insist on.\<close>

theorem harden_history_pairs:
  "calls_answered (harden_history ms active) \<and> results_owned (harden_history ms active)"
  using harden_history_well_formed [of ms active] harden_walk_owned
  by (simp add: harden_history_def Let_def well_formed_def)

text \<open>C2. Every assistant turn that survives carries content, and a turn of another model carries
  neither thinking blocks nor provider signatures.\<close>

theorem harden_history_turns_clean:
  assumes "m \<in> set (harden_history ms active)" and "is_assistant m"
  shows "has_meaningful_content m \<and> (active = [] \<or> msg_model m \<in> {[], active} \<or>
      list_all (\<lambda>p. part_type p \<noteq> TypeThinking \<and> part_signature p = []) (msg_content m))"
proof -
  have s: "sanitize_foreign_turn m active = m" and h: "has_meaningful_content m"
    using assms harden_history_well_formed [of ms active] by (auto simp: well_formed_def)
  have "list_all (\<lambda>p. part_type p \<noteq> TypeThinking \<and> part_signature p = [])
      (msg_content (sanitize_foreign_turn m active))"
    if "active \<noteq> []" "msg_model m \<noteq> []" "msg_model m \<noteq> active"
    using that by (auto simp: sanitize_foreign_turn_def list_all_iff)
  then show ?thesis using h by (metis s insertCI)
qed

text \<open>A transcript of a turn that was interrupted after two calls: one result is missing, one is
  orphaned, and one id is not acceptable to providers.\<close>

definition sample_call :: "string \<Rightarrow> tool_call" where
  "sample_call i = \<lparr>tc_id = i, tc_name = ''ls'', tc_args = []\<rparr>"

definition sample_tool :: "string \<Rightarrow> message" where
  "sample_tool i = zero_message\<lparr>msg_role := RoleTool, msg_call_id := i\<rparr>"

definition sample_turn :: "string \<Rightarrow> string list \<Rightarrow> message" where
  "sample_turn model is = zero_message\<lparr>msg_role := RoleAssistant, msg_model := model,
     msg_content := map (call_part \<circ> sample_call) is\<rparr>"

lemmas sample_defs = sample_call_def sample_tool_def sample_turn_def

text \<open>C3. Hardening is idempotent: a repaired transcript is not changed by repairing it again
  (for transcripts of fewer than \<open>10 ^ 29\<close> content parts and messages).\<close>

theorem harden_history_idempotent:
  assumes "id_slots ms < 10 ^ 29"
  shows "harden_history (harden_history ms active) active = harden_history ms active"
  using assms by (rule harden_history_fixpoint)

theorem harden_history_idempotent_witness:
  "let ms = [sample_turn ''m'' [''a b'', ''c''], sample_tool ''c'', sample_tool ''zz''] in
   id_slots ms < 10 ^ 29
   \<and> harden_history (harden_history ms ''n'') ''n'' = harden_history ms ''n''"
proof -
  let ?ms = "[sample_turn ''m'' [''a b'', ''c''], sample_tool ''c'', sample_tool ''zz'']"
  have h: "id_slots ?ms < 10 ^ 29" by (simp add: id_slots_def sample_defs literal_defs)
  show ?thesis using h harden_history_idempotent [OF h, of "''n''"] by (simp add: Let_def)
qed

theorem harden_history_turns_clean_witness:
  "let ms = [sample_turn ''m'' [''c'']]; out = harden_history ms ''n''; m = hd out in
   m \<in> set out \<and> is_assistant m \<and> has_meaningful_content m"
proof -
  let ?out = "harden_history [sample_turn ''m'' [''c'']] ''n''"
  have h: "hd ?out \<in> set ?out" and a: "is_assistant (hd ?out)"
    by code_simp+
  show ?thesis using h a harden_history_turns_clean [OF h a] by (simp add: Let_def)
qed

text \<open>C4. Tool-call ids are rewritten by one renaming, applied alike to calls and to their results.
  It keeps distinct call ids distinct and leaves ids that are already legal alone.\<close>

theorem normalize_ids_consistent:
  "\<exists>\<rho>. fst (normalize_tool_call_ids ms) = map (rename_message \<rho>) ms
     \<and> inj_on \<rho> {i. \<exists>m\<in>set ms. i \<in> set (call_ids m)}
     \<and> {i. legal_id i} \<subseteq> {i. \<rho> i = i}"
proof -
  obtain ms' f where n: "normalize_tool_call_ids ms = (ms', f)" by fastforce
  have "renaming f i = i" if "legal_id i" for i
    using normalize_renaming(3) [OF n] that sanitize_fix [of i]
    by (cases "f i") (auto simp: renames_invalid_def renaming_def dom_def)
  then show ?thesis using normalize_renaming(1,2) [OF n] n by (intro exI [of _ "renaming f"]) auto
qed

text \<open>The ids already used by results are not reserved: an orphaned result whose legal id
  happens to be the replacement chosen for an illegal call id is not dropped but becomes a second
  result of that call.\<close>

theorem harden_history_captures_orphan:
  "map msg_call_id (harden_history
      [sample_turn [] [''a b''], sample_tool ''a b'', sample_tool ''a_b''] []) = [[], ''a_b'', ''a_b'']
   \<and> map msg_call_id (harden_history
      [sample_turn [] [''a b''], sample_tool ''a b'', sample_tool ''zz''] []) = [[], ''a_b'']"
  by code_simp

end
