(* ===== verification/Guardrails.thy ===== *)
theory Guardrails
  imports Transcript
begin

text \<open>
  Model of \<open>src/loop/guardrails.go\<close>: the detectors of repeated identical tool calls and of
  consecutive all-error rounds. \<open>guard_observe\<close> is \<open>guardState.observe\<close> with the state passed
  explicitly. The identity key of a call is a SHA-256 prefix in the code; \<open>digest\<close>, the hash of the
  key material, is a parameter of the functions that use it.
\<close>

record guard_policy =
  gp_disabled :: bool
  gp_repeat_nudge :: int
  gp_repeat_halt :: int
  gp_mistake_nudge :: int
  gp_mistake_halt :: int

definition default_repeat_nudge :: int where "default_repeat_nudge = 3"
definition default_repeat_halt :: int where "default_repeat_halt = 5"
definition default_mistake_nudge :: int where "default_mistake_nudge = 3"
definition default_mistake_halt :: int where "default_mistake_halt = 6"

lemmas guard_defaults = default_repeat_nudge_def default_repeat_halt_def
  default_mistake_nudge_def default_mistake_halt_def

definition guard_with_defaults :: "guard_policy \<Rightarrow> guard_policy" where
  "guard_with_defaults p = p\<lparr>
     gp_repeat_nudge := (if gp_repeat_nudge p \<le> 0 then default_repeat_nudge else gp_repeat_nudge p),
     gp_repeat_halt := (if gp_repeat_halt p \<le> 0 then default_repeat_halt else gp_repeat_halt p),
     gp_mistake_nudge := (if gp_mistake_nudge p \<le> 0 then default_mistake_nudge else gp_mistake_nudge p),
     gp_mistake_halt := (if gp_mistake_halt p \<le> 0 then default_mistake_halt else gp_mistake_halt p)\<rparr>"

datatype guard_kind = Repeat | Mistakes

datatype guard_verdict =
    GuardOK
  | GuardNudge guard_kind int string
  | GuardHalt guard_kind int string

record guard_state =
  gs_policy :: guard_policy
  gs_last_key :: string
  gs_repeat :: int
  gs_repeat_nudged :: bool
  gs_mistakes :: int
  gs_mistake_nudged :: bool

definition new_guard_state :: "guard_policy \<Rightarrow> guard_state" where
  "new_guard_state p = \<lparr>gs_policy = guard_with_defaults p, gs_last_key = [], gs_repeat = 0,
     gs_repeat_nudged = False, gs_mistakes = 0, gs_mistake_nudged = False\<rparr>"

definition repeat_nudge_message :: string where
  "repeat_nudge_message = ''You have repeated the exact same tool call several times. It will keep producing the same result. Step back, reconsider the approach, and either change the arguments or use a different tool.''"

text \<open>The dash of the source's text is U+2014, three bytes.\<close>

definition em_dash :: string where
  "em_dash = [CHR 0xE2, CHR 0x80, CHR 0x94]"

definition mistake_nudge_message :: string where
  "mistake_nudge_message = ''Your last several tool calls all failed. Stop and re-read the error messages carefully before acting again '' @ em_dash @ '' they describe what to fix. If the same approach keeps failing, try a different one.''"

text \<open>\<open>toolCallKey\<close>: the name, a zero byte and the arguments with white space removed, hashed.\<close>

definition key_material :: "tool_call \<Rightarrow> string" where
  "key_material c = tc_name c @ CHR 0x00 # squeeze_spaces (tc_args c)"

definition tool_call_key :: "(string \<Rightarrow> string) \<Rightarrow> tool_call \<Rightarrow> string" where
  "tool_call_key digest c = digest (key_material c)"

definition err_repeated :: string where
  "err_repeated = ''loop: model repeated the same tool call past the guardrail limit''"

definition err_mistakes :: string where
  "err_mistakes = ''loop: too many consecutive failed tool rounds''"

text \<open>The two counters after a round.\<close>

definition track_repeats :: "(string \<Rightarrow> string) \<Rightarrow> tool_call list \<Rightarrow> guard_state \<Rightarrow> guard_state" where
  "track_repeats digest calls g =
     (case calls of
        [c] \<Rightarrow>
          (let key = tool_call_key digest c in
           if key = gs_last_key g then g\<lparr>gs_repeat := gs_repeat g + 1\<rparr>
           else g\<lparr>gs_last_key := key, gs_repeat := 1, gs_repeat_nudged := False\<rparr>)
      | _ \<Rightarrow> g\<lparr>gs_last_key := [], gs_repeat := 0, gs_repeat_nudged := False\<rparr>)"

definition all_errors :: "message list \<Rightarrow> bool" where
  "all_errors rs \<longleftrightarrow> rs \<noteq> [] \<and> list_all msg_is_error rs"

definition track_mistakes :: "message list \<Rightarrow> guard_state \<Rightarrow> guard_state" where
  "track_mistakes rs g =
     (if all_errors rs then g\<lparr>gs_mistakes := gs_mistakes g + 1\<rparr>
      else g\<lparr>gs_mistakes := 0, gs_mistake_nudged := False\<rparr>)"

definition guard_judge :: "tool_call list \<Rightarrow> guard_state \<Rightarrow> guard_verdict \<times> guard_state" where
  "guard_judge calls g =
    (let p = gs_policy g in
     if gs_repeat g \<ge> gp_repeat_halt p then
       (GuardHalt Repeat (gs_repeat g) (err_repeated @ '' ('' @ itoa_int (gs_repeat g)
          @ '' identical calls to '' @ (case calls of [] \<Rightarrow> [] | c # _ \<Rightarrow> tc_name c) @ '')''), g)
     else if gs_mistakes g \<ge> gp_mistake_halt p then
       (GuardHalt Mistakes (gs_mistakes g) (err_mistakes @ '' ('' @ itoa_int (gs_mistakes g)
          @ '' consecutive failed rounds)''), g)
     else if gs_repeat g \<ge> gp_repeat_nudge p \<and> \<not> gs_repeat_nudged g then
       (GuardNudge Repeat (gs_repeat g) repeat_nudge_message, g\<lparr>gs_repeat_nudged := True\<rparr>)
     else if gs_mistakes g \<ge> gp_mistake_nudge p \<and> \<not> gs_mistake_nudged g then
       (GuardNudge Mistakes (gs_mistakes g) mistake_nudge_message, g\<lparr>gs_mistake_nudged := True\<rparr>)
     else (GuardOK, g))"

definition guard_observe ::
    "(string \<Rightarrow> string) \<Rightarrow> guard_state \<Rightarrow> tool_call list \<Rightarrow> message list \<Rightarrow> guard_verdict \<times> guard_state" where
  "guard_observe digest g calls rs =
     (if gp_disabled (gs_policy g) then (GuardOK, g)
      else guard_judge calls (track_mistakes rs (track_repeats digest calls g)))"

definition guard_kind_name :: "guard_kind \<Rightarrow> string" where
  "guard_kind_name k = (case k of Repeat \<Rightarrow> ''repeat'' | Mistakes \<Rightarrow> ''mistakes'')"

definition guardrail_user_message :: "string \<Rightarrow> guard_kind \<Rightarrow> message" where
  "guardrail_user_message t k =
     (user_text t)\<lparr>msg_meta := [(''glue/guardrail'', MStr (guard_kind_name k))]\<rparr>"

section \<open>The detector over a sequence of rounds\<close>

text \<open>What the counters mean: the length of the current streak, newest round first.\<close>

fun repeat_streak :: "(string \<Rightarrow> string) \<Rightarrow> tool_call list list \<Rightarrow> nat" where
  "repeat_streak digest ([c] # rs) =
     Suc (length (takeWhile (\<lambda>cs. map (tool_call_key digest) cs = [tool_call_key digest c]) rs))"
| "repeat_streak digest _ = 0"

definition mistake_streak :: "message list list \<Rightarrow> nat" where
  "mistake_streak rs = length (takeWhile all_errors rs)"

fun is_halt :: "guard_verdict \<Rightarrow> bool" where
  "is_halt (GuardHalt _ _ _) = True"
| "is_halt _ = False"

fun is_nudge :: "guard_kind \<Rightarrow> guard_verdict \<Rightarrow> bool" where
  "is_nudge k (GuardNudge k' _ _) = (k = k')"
| "is_nudge k _ = False"

text \<open>The states a run of the loop can put the detector into: rounds are observed one after the
  other until a verdict halts the run. Histories are newest first.\<close>

type_synonym round = "tool_call list \<times> message list"

inductive guard_reach ::
    "(string \<Rightarrow> string) \<Rightarrow> guard_policy \<Rightarrow> round list \<Rightarrow> guard_verdict list \<Rightarrow> guard_state \<Rightarrow> bool"
  for digest :: "string \<Rightarrow> string" and p :: guard_policy where
  start: "guard_reach digest p [] [] (new_guard_state p)"
| observe: "guard_reach digest p rs vs g \<Longrightarrow> list_all (\<lambda>v. \<not> is_halt v) vs \<Longrightarrow>
     guard_observe digest g calls res = (v, g') \<Longrightarrow>
     guard_reach digest p ((calls, res) # rs) (v # vs) g'"

inductive_cases guard_reach_ConsE: "guard_reach digest p (r # rs) (v # vs) g"

lemma guard_judge_frame:
  "guard_judge calls g = (v, g') \<Longrightarrow> gs_policy g' = gs_policy g \<and> gs_repeat g' = gs_repeat g
     \<and> gs_mistakes g' = gs_mistakes g \<and> gs_last_key g' = gs_last_key g"
  by (auto simp: guard_judge_def Let_def split: if_splits)

lemma track_frame [simp]:
  "gs_policy (track_repeats d cs g) = gs_policy g" "gs_policy (track_mistakes ms g) = gs_policy g"
  "gs_mistakes (track_repeats d cs g) = gs_mistakes g"
  "gs_repeat (track_mistakes ms g) = gs_repeat g"
  "gs_last_key (track_mistakes ms g) = gs_last_key g"
  "gs_repeat_nudged (track_mistakes ms g) = gs_repeat_nudged g"
  by (auto simp: track_repeats_def track_mistakes_def Let_def split: list.splits)

lemma guard_policy_constant:
  "guard_reach digest p rs vs g \<Longrightarrow> gs_policy g = guard_with_defaults p"
  by (induction rule: guard_reach.induct)
     (auto simp: new_guard_state_def guard_observe_def dest: guard_judge_frame split: if_splits)

definition same_key_streak :: "(string \<Rightarrow> string) \<Rightarrow> string \<Rightarrow> tool_call list list \<Rightarrow> nat" where
  "same_key_streak digest k rs = length (takeWhile (\<lambda>cs. map (tool_call_key digest) cs = [k]) rs)"

lemma repeat_streak_Cons:
  "repeat_streak digest (cs # rs) =
     (case cs of [c] \<Rightarrow> Suc (same_key_streak digest (tool_call_key digest c) rs) | _ \<Rightarrow> 0)"
  by (simp add: same_key_streak_def split: list.split)

lemma same_key_streak_Cons [simp]:
  "same_key_streak digest k (cs # rs) =
     (if map (tool_call_key digest) cs = [k] then Suc (same_key_streak digest k rs) else 0)"
  by (simp add: same_key_streak_def)

lemma mistake_streak_Cons [simp]:
  "mistake_streak (ms # rs) = (if all_errors ms then Suc (mistake_streak rs) else 0)"
  by (simp add: mistake_streak_def)

text \<open>The key and the counter kept by the code always describe the streak at the head.\<close>

definition tracks :: "(string \<Rightarrow> string) \<Rightarrow> round list \<Rightarrow> guard_state \<Rightarrow> bool" where
  "tracks digest rs g \<longleftrightarrow> gs_repeat g = int (repeat_streak digest (map fst rs))
     \<and> gs_mistakes g = int (mistake_streak (map snd rs))
     \<and> (\<forall>k. int (same_key_streak digest k (map fst rs)) = (if k = gs_last_key g then gs_repeat g else 0))"

lemma tracks_step:
  assumes "tracks digest rs g"
  shows "tracks digest ((calls, res) # rs) (track_mistakes res (track_repeats digest calls g))"
proof (cases "\<exists>c. calls = [c]")
  case True
  then obtain c where c: "calls = [c]" by blast
  have k: "int (same_key_streak digest k (map fst rs)) = (if k = gs_last_key g then gs_repeat g else 0)" for k
    using assms unfolding tracks_def by blast
  have m: "gs_mistakes g = int (mistake_streak (map snd rs))" using assms unfolding tracks_def by blast
  show ?thesis unfolding tracks_def c
    using k m by (auto simp: track_repeats_def track_mistakes_def repeat_streak_Cons Let_def)
next
  case False
  then have r: "repeat_streak digest (calls # rs') = 0"
    and k: "map (tool_call_key digest) calls \<noteq> [k]" for rs' k
    by (auto simp: repeat_streak_Cons split: list.split)
  have t: "track_repeats digest calls g = g\<lparr>gs_last_key := [], gs_repeat := 0, gs_repeat_nudged := False\<rparr>"
    using False by (auto simp: track_repeats_def split: list.split)
  have m: "gs_mistakes g = int (mistake_streak (map snd rs))" using assms unfolding tracks_def by blast
  show ?thesis unfolding tracks_def t using r k m by (simp add: track_mistakes_def)
qed

lemma tracks_judge: "guard_judge calls g = (v, g') \<Longrightarrow> tracks digest rs g \<Longrightarrow> tracks digest rs g'"
  using guard_judge_frame [of calls g v g'] unfolding tracks_def by presburger

lemma tracks_new: "tracks digest [] (new_guard_state p)"
  by (simp add: tracks_def new_guard_state_def mistake_streak_def same_key_streak_def)

lemma guard_reach_tracks:
  "guard_reach digest p rs vs g \<Longrightarrow> \<not> gp_disabled p \<Longrightarrow> tracks digest rs g"
proof (induction rule: guard_reach.induct)
  case (observe rs vs g calls res v g')
  then have "\<not> gp_disabled (gs_policy g)"
    using guard_policy_constant [OF observe.hyps(1)] by (simp add: guard_with_defaults_def)
  then have "guard_judge calls (track_mistakes res (track_repeats digest calls g)) = (v, g')"
    using observe.hyps(3) by (simp add: guard_observe_def)
  then show ?case using tracks_step observe.IH observe.prems by (blast intro: tracks_judge)
qed (simp add: tracks_new)

lemma guard_reach_last_step:
  assumes "guard_reach digest p (r # rs) (v # vs) g'" and "\<not> gp_disabled p"
  obtains g calls where "guard_reach digest p rs vs g" and "list_all (\<lambda>v. \<not> is_halt v) vs"
    and "guard_judge calls (track_mistakes (snd r) (track_repeats digest calls g)) = (v, g')"
    and "calls = fst r" and "gs_policy g = guard_with_defaults p"
proof -
  from assms(1) obtain g where g: "guard_reach digest p rs vs g" "list_all (\<lambda>v. \<not> is_halt v) vs"
    "guard_observe digest g (fst r) (snd r) = (v, g')"
    by (auto elim: guard_reach_ConsE)
  moreover have "gs_policy g = guard_with_defaults p" using g(1) by (rule guard_policy_constant)
  ultimately show thesis using assms(2)
    by (intro that [of g "fst r"]) (auto simp: guard_observe_def guard_with_defaults_def)
qed

lemma guard_verdict_halts:
  assumes "guard_reach digest p (r # rs) (v # vs) g'" and "\<not> gp_disabled p"
  shows "is_halt v \<longleftrightarrow>
    gp_repeat_halt (guard_with_defaults p) \<le> int (repeat_streak digest (map fst (r # rs)))
    \<or> gp_mistake_halt (guard_with_defaults p) \<le> int (mistake_streak (map snd (r # rs)))"
proof -
  obtain g calls where s: "guard_reach digest p rs vs g"
    "guard_judge calls (track_mistakes (snd r) (track_repeats digest calls g)) = (v, g')"
    "calls = fst r" "gs_policy g = guard_with_defaults p"
    using assms by (elim guard_reach_last_step) blast
  let ?g = "track_mistakes (snd r) (track_repeats digest calls g)"
  have "tracks digest ((calls, snd r) # rs) ?g"
    using s(1) assms(2) by (intro tracks_step guard_reach_tracks)
  then have "gs_repeat ?g = int (repeat_streak digest (map fst (r # rs)))"
    and "gs_mistakes ?g = int (mistake_streak (map snd (r # rs)))"
    using s(3) by (auto simp: tracks_def)
  then show ?thesis using s(2,4) by (auto simp: guard_judge_def Let_def split: if_splits)
qed

text \<open>As long as nothing has halted, a streak at or past the nudging threshold has been nudged.\<close>

definition nudged_in_time :: "guard_verdict list \<Rightarrow> guard_state \<Rightarrow> bool" where
  "nudged_in_time vs g \<longleftrightarrow>
     (list_all (\<lambda>v. \<not> is_halt v) vs \<longrightarrow> gp_repeat_nudge (gs_policy g) \<le> gs_repeat g \<longrightarrow> gs_repeat_nudged g)
     \<and> (gs_repeat_nudged g \<longrightarrow> list_ex (is_nudge Repeat) vs)"

lemma guard_with_defaults_pos:
  "0 < gp_repeat_nudge (guard_with_defaults p)" "0 < gp_repeat_halt (guard_with_defaults p)"
  "0 < gp_mistake_nudge (guard_with_defaults p)" "0 < gp_mistake_halt (guard_with_defaults p)"
  by (auto simp: guard_with_defaults_def guard_defaults)

lemma guard_reach_nudged:
  "guard_reach digest p rs vs g \<Longrightarrow> \<not> gp_disabled p \<Longrightarrow> nudged_in_time vs g"
proof (induction rule: guard_reach.induct)
  case start
  then show ?case using guard_with_defaults_pos(1) [of p]
    by (simp add: nudged_in_time_def new_guard_state_def)
next
  case (observe rs vs g calls res v g')
  let ?g = "track_mistakes res (track_repeats digest calls g)"
  have pol: "gs_policy g = guard_with_defaults p" using observe.hyps(1) by (rule guard_policy_constant)
  then have "\<not> gp_disabled (gs_policy g)" using observe.prems by (simp add: guard_with_defaults_def)
  then have j: "guard_judge calls ?g = (v, g')" using observe.hyps(3) by (simp add: guard_observe_def)
  have "gs_repeat_nudged ?g \<Longrightarrow> gs_repeat_nudged g"
    by (auto simp: track_repeats_def Let_def split: list.splits if_splits)
  then have "gs_repeat_nudged ?g \<Longrightarrow> list_ex (is_nudge Repeat) vs"
    using observe.IH observe.prems by (simp add: nudged_in_time_def)
  then show ?case using j by (auto simp: nudged_in_time_def guard_judge_def Let_def split: if_splits)
qed

lemma track_repeats_step:
  "gs_repeat (track_repeats digest cs g) \<le> 1 \<or>
     gs_repeat (track_repeats digest cs g) = gs_repeat g + 1"
  by (auto simp: track_repeats_def Let_def split: list.splits)

lemma guard_repeat_halt_warned:
  assumes "guard_reach digest p (r # rs) (GuardHalt Repeat n t # vs) g'" and "\<not> gp_disabled p"
    and "gp_repeat_nudge (guard_with_defaults p) < gp_repeat_halt (guard_with_defaults p)"
  shows "list_ex (is_nudge Repeat) vs"
proof -
  obtain g calls where s: "guard_reach digest p rs vs g" "list_all (\<lambda>v. \<not> is_halt v) vs"
    "guard_judge calls (track_mistakes (snd r) (track_repeats digest calls g)) = (GuardHalt Repeat n t, g')"
    "gs_policy g = guard_with_defaults p"
    using assms(1,2) by (elim guard_reach_last_step) blast
  have h: "gp_repeat_halt (guard_with_defaults p) \<le> gs_repeat (track_repeats digest calls g)"
    using s(3,4) by (auto simp: guard_judge_def Let_def split: if_splits)
  have "gp_repeat_nudge (gs_policy g) \<le> gs_repeat g"
    using track_repeats_step [of digest calls g] h assms(3) guard_with_defaults_pos(1) [of p] s(4)
    by auto
  then show ?thesis using guard_reach_nudged [OF s(1) assms(2)] s(2) by (simp add: nudged_in_time_def)
qed

section \<open>Properties\<close>

text \<open>C6. After any sequence of rounds the two counters of the detector are the lengths of the
  current streaks: of single-call rounds with one and the same key, and of rounds in which every
  result was an error.\<close>

theorem guard_counts_streaks:
  assumes "guard_reach digest p rs vs g" and "\<not> gp_disabled p"
  shows "gs_repeat g = int (repeat_streak digest (map fst rs))
    \<and> gs_mistakes g = int (mistake_streak (map snd rs))"
  using guard_reach_tracks [OF assms] by (simp add: tracks_def)

text \<open>C7. The detector halts a run exactly when one of the two streaks has reached its limit; no
  other sequence of calls and results is ever halted, and no longer streak escapes.\<close>

theorem guard_halts_exactly:
  assumes "guard_reach digest p (r # rs) (v # vs) g" and "\<not> gp_disabled p"
  shows "is_halt v \<longleftrightarrow>
    gp_repeat_halt (guard_with_defaults p) \<le> int (repeat_streak digest (map fst (r # rs)))
    \<or> gp_mistake_halt (guard_with_defaults p) \<le> int (mistake_streak (map snd (r # rs)))"
  using assms by (rule guard_verdict_halts)

text \<open>The response is graduated: a run that is halted for repeating a call was sent the
  corrective message earlier, provided the nudging threshold is below the halting one.\<close>

theorem guard_warns_before_halting:
  assumes "guard_reach digest p (r # rs) (GuardHalt Repeat n t # vs) g" and "\<not> gp_disabled p"
    and "gp_repeat_nudge (guard_with_defaults p) < gp_repeat_halt (guard_with_defaults p)"
  shows "list_ex (is_nudge Repeat) vs"
  using assms by (rule guard_repeat_halt_warned)

text \<open>A run that repeats one call until it is halted, under a policy that nudges at the second round
  and halts at the third; every call has the same key, the digest being constant.\<close>

definition strict_policy :: guard_policy where
  "strict_policy = \<lparr>gp_disabled = False, gp_repeat_nudge = 2, gp_repeat_halt = 3,
     gp_mistake_nudge = 0, gp_mistake_halt = 0\<rparr>"

definition const_digest :: "string \<Rightarrow> string" where
  "const_digest s = ''k''"

definition ls_round :: round where
  "ls_round = ([\<lparr>tc_id = ''1'', tc_name = ''ls'', tc_args = ''{ }''\<rparr>], [zero_message])"

definition state_after :: "int \<Rightarrow> bool \<Rightarrow> guard_state" where
  "state_after n b = \<lparr>gs_policy = guard_with_defaults strict_policy, gs_last_key = ''k'', gs_repeat = n,
     gs_repeat_nudged = b, gs_mistakes = 0, gs_mistake_nudged = False\<rparr>"

lemmas guard_eval = guard_observe_def guard_judge_def track_repeats_def track_mistakes_def
  all_errors_def tool_call_key_def const_digest_def ls_round_def state_after_def strict_policy_def
  guard_with_defaults_def guard_defaults new_guard_state_def zero_message_def Let_def

lemma ls_rounds_observed:
  "guard_observe const_digest (new_guard_state strict_policy) (fst ls_round) (snd ls_round)
     = (GuardOK, state_after 1 False)"
  "guard_observe const_digest (state_after 1 False) (fst ls_round) (snd ls_round)
     = (GuardNudge Repeat 2 repeat_nudge_message, state_after 2 True)"
  "guard_observe const_digest (state_after 2 True) (fst ls_round) (snd ls_round)
     = (GuardHalt Repeat 3 (err_repeated @ '' ('' @ itoa_int 3 @ '' identical calls to ls)''),
        state_after 3 True)"
  by (simp_all add: guard_eval)

lemma ls_run_reach:
  "guard_reach const_digest strict_policy [ls_round, ls_round, ls_round]
     [GuardHalt Repeat 3 (err_repeated @ '' ('' @ itoa_int 3 @ '' identical calls to ls)''),
      GuardNudge Repeat 2 repeat_nudge_message, GuardOK] (state_after 3 True)"
proof -
  have r: "ls_round = (fst ls_round, snd ls_round)" by simp
  show ?thesis
    by (subst (1 2 3) r, (rule guard_reach.observe guard_reach.start ls_rounds_observed | simp)+)
qed

lemma strict_policy_facts:
  "\<not> gp_disabled strict_policy"
  "gp_repeat_nudge (guard_with_defaults strict_policy) < gp_repeat_halt (guard_with_defaults strict_policy)"
  by (simp_all add: guard_eval)

theorem guard_counts_streaks_witness:
  "int (repeat_streak const_digest (map fst [ls_round, ls_round, ls_round])) = 3"
  using guard_counts_streaks [OF ls_run_reach strict_policy_facts(1)] by (simp add: state_after_def)

theorem guard_halts_exactly_witness:
  "gp_repeat_halt (guard_with_defaults strict_policy)
       \<le> int (repeat_streak const_digest (map fst [ls_round, ls_round, ls_round]))
   \<or> gp_mistake_halt (guard_with_defaults strict_policy)
       \<le> int (mistake_streak (map snd [ls_round, ls_round, ls_round]))"
  using guard_halts_exactly [OF ls_run_reach strict_policy_facts(1)] by simp

theorem guard_warns_before_halting_witness:
  "list_ex (is_nudge Repeat) [GuardNudge Repeat 2 repeat_nudge_message, GuardOK]"
  by (rule guard_warns_before_halting [OF ls_run_reach strict_policy_facts])

end
