(* ===== verification/Regexp.thy ===== *)
theory Regexp
  imports Prelude
begin

text \<open>
  The part of Go's \<open>regexp\<close> that the repository's patterns use: literals under \<open>(?i)\<close>, \<open>.\<close>,
  classes, groups, \<open>|\<close>, \<open>?\<close>, \<open>*\<close>, \<open>+\<close>, \<open>\b\<close>, \<open>^\<close>, \<open>$\<close> and captures. A pattern is a tree;
  matching works on the runes of the text and enumerates, in preference order, the positions a
  match may end at, so that the first one is the leftmost-first match of the package.
\<close>

datatype rx =
    Eps
  | Lit nat
  | Fold nat
  | Any
  | OneOf "(nat \<times> nat) list"
  | NoneOf "(nat \<times> nat) list"
  | Seq rx rx
  | Alt rx rx
  | Star rx
  | Cap nat rx
  | WordB
  | Begin
  | End

definition opt_rx :: "rx \<Rightarrow> rx" where "opt_rx r = Alt r Eps"
definition plus_rx :: "rx \<Rightarrow> rx" where "plus_rx r = Seq r (Star r)"
definition any_opt :: rx where "any_opt = opt_rx Any"
definition digit_rx :: rx where "digit_rx = OneOf [(48, 57)]"
definition space_rx :: rx where "space_rx = OneOf [(9, 10), (12, 13), (32, 32)]"

text \<open>A literal in a case-insensitive and in a case-sensitive pattern, and the concatenation and
  the alternatives of a list.\<close>

definition ilit :: "string \<Rightarrow> rx" where
  "ilit s = foldr (\<lambda>c r. Seq (Fold (code_of c)) r) s Eps"

definition lit :: "string \<Rightarrow> rx" where
  "lit s = foldr (\<lambda>c r. Seq (Lit (code_of c)) r) s Eps"

fun seq_of :: "rx list \<Rightarrow> rx" where
  "seq_of [] = Eps"
| "seq_of [r] = r"
| "seq_of (r # rs) = Seq r (seq_of rs)"

fun alt_of :: "rx list \<Rightarrow> rx" where
  "alt_of [] = OneOf []"
| "alt_of [r] = r"
| "alt_of (r # rs) = Alt r (alt_of rs)"

text \<open>Simple case folding: the two letters with a third case variant are \<open>k\<close> (U+212A) and \<open>s\<close>
  (U+017F).\<close>

definition fold_rune :: "nat \<Rightarrow> nat" where
  "fold_rune r = (if 65 \<le> r \<and> r \<le> 90 then r + 32 else if r = 8490 then 107
     else if r = 383 then 115 else r)"

definition word_rune :: "nat \<Rightarrow> bool" where
  "word_rune r = ((48 \<le> r \<and> r \<le> 57) \<or> (65 \<le> r \<and> r \<le> 90) \<or> (97 \<le> r \<and> r \<le> 122) \<or> r = 95)"

definition in_ranges :: "nat \<Rightarrow> (nat \<times> nat) list \<Rightarrow> bool" where
  "in_ranges r cs = list_ex (\<lambda>(a, b). a \<le> r \<and> r \<le> b) cs"

text \<open>A position: the rune before it, the runes after it, the captures so far.\<close>

type_synonym rpos = "nat option \<times> nat list \<times> (nat \<times> nat list) list"

definition step_if :: "(nat \<Rightarrow> bool) \<Rightarrow> rpos \<Rightarrow> rpos list" where
  "step_if p q = (case q of (pv, c # s, cs) \<Rightarrow> if p c then [(Some c, s, cs)] else [] | _ \<Rightarrow> [])"

definition at_boundary :: "nat option \<Rightarrow> nat list \<Rightarrow> bool" where
  "at_boundary pv s \<longleftrightarrow>
     (case pv of None \<Rightarrow> False | Some c \<Rightarrow> word_rune c)
       \<noteq> (case s of [] \<Rightarrow> False | c # _ \<Rightarrow> word_rune c)"

fun star_run :: "(rpos \<Rightarrow> rpos list) \<Rightarrow> nat \<Rightarrow> rpos \<Rightarrow> rpos list" where
  "star_run f 0 q = [q]"
| "star_run f (Suc n) q =
     concat (map (star_run f n) (filter (\<lambda>q'. length (fst (snd q')) < length (fst (snd q))) (f q))) @ [q]"

primrec rx_run :: "rx \<Rightarrow> rpos \<Rightarrow> rpos list" where
  "rx_run Eps q = [q]"
| "rx_run (Lit c) q = step_if (\<lambda>x. x = c) q"
| "rx_run (Fold c) q = step_if (\<lambda>x. fold_rune x = fold_rune c) q"
| "rx_run Any q = step_if (\<lambda>x. x \<noteq> 10) q"
| "rx_run (OneOf cs) q = step_if (\<lambda>x. in_ranges x cs) q"
| "rx_run (NoneOf cs) q = step_if (\<lambda>x. \<not> in_ranges x cs) q"
| "rx_run (Seq a b) q = concat (map (rx_run b) (rx_run a q))"
| "rx_run (Alt a b) q = rx_run a q @ rx_run b q"
| "rx_run (Star r) q = star_run (rx_run r) (length (fst (snd q))) q"
| "rx_run (Cap n r) q = map (\<lambda>(pv, s, cs).
      (pv, s, (n, take (length (fst (snd q)) - length s) (fst (snd q))) # cs)) (rx_run r q)"
| "rx_run WordB q = (if at_boundary (fst q) (fst (snd q)) then [q] else [])"
| "rx_run Begin q = (if fst q = None then [q] else [])"
| "rx_run End q = (if fst (snd q) = [] then [q] else [])"

fun rx_find :: "rx \<Rightarrow> nat option \<Rightarrow> nat list \<Rightarrow> (nat \<times> nat list) list option" where
  "rx_find r pv [] = (case rx_run r (pv, [], []) of [] \<Rightarrow> None | q # _ \<Rightarrow> Some (snd (snd q)))"
| "rx_find r pv (c # s) =
     (case rx_run r (pv, c # s, []) of
        [] \<Rightarrow> rx_find r (Some c) s
      | q # _ \<Rightarrow> Some (snd (snd q)))"

text \<open>\<open>MatchString\<close> and \<open>FindStringSubmatch\<close>; a group that did not take part is absent.\<close>

definition rune_list :: "string \<Rightarrow> nat list" where
  "rune_list s = map fst (runes s)"

definition rx_match :: "rx \<Rightarrow> string \<Rightarrow> bool" where
  "rx_match r s \<longleftrightarrow> rx_find r None (rune_list s) \<noteq> None"

definition rx_submatch :: "rx \<Rightarrow> string \<Rightarrow> (nat \<times> nat list) list option" where
  "rx_submatch r s = rx_find r None (rune_list s)"

section \<open>Facts about matching\<close>

definition last_rune :: "nat option \<Rightarrow> nat list \<Rightarrow> nat option" where
  "last_rune pv u = (if u = [] then pv else Some (last u))"

lemma last_rune_simps [simp]:
  "last_rune pv [] = pv" "last_rune pv (c # u) = last_rune (Some c) u"
  by (auto simp: last_rune_def)

lemma rx_find_iff:
  "rx_find r pv s \<noteq> None \<longleftrightarrow> (\<exists>u v. s = u @ v \<and> rx_run r (last_rune pv u, v, []) \<noteq> [])"
proof (induction s arbitrary: pv)
  case Nil
  then show ?case by (auto split: list.split)
next
  case (Cons c s)
  show ?case
  proof (cases "rx_run r (pv, c # s, [])")
    case Nil
    then have "rx_find r pv (c # s) = rx_find r (Some c) s" by simp
    moreover have "(\<exists>u v. c # s = u @ v \<and> rx_run r (last_rune pv u, v, []) \<noteq> [])
        \<longleftrightarrow> (\<exists>u v. s = u @ v \<and> rx_run r (last_rune (Some c) u, v, []) \<noteq> [])" (is "?L \<longleftrightarrow> ?R")
    proof
      assume ?L
      then obtain u v where uv: "c # s = u @ v" "rx_run r (last_rune pv u, v, []) \<noteq> []" by blast
      with Nil have "u \<noteq> []" by auto
      then obtain u' where "u = c # u'" "s = u' @ v" using uv(1) by (cases u) auto
      with uv(2) show ?R by auto
    next
      assume ?R
      then obtain u v where uv: "s = u @ v" "rx_run r (last_rune (Some c) u, v, []) \<noteq> []" by blast
      then have "c # s = (c # u) @ v" "rx_run r (last_rune pv (c # u), v, []) \<noteq> []" by simp_all
      then show ?L by blast
    qed
    ultimately show ?thesis using Cons.IH [of "Some c"] by simp
  next
    case (Cons q qs)
    then have "c # s = [] @ (c # s) \<and> rx_run r (last_rune pv [], c # s, []) \<noteq> []" by simp
    moreover have "rx_find r pv (c # s) \<noteq> None" using Cons by simp
    ultimately show ?thesis by blast
  qed
qed

lemma rx_match_iff:
  "rx_match r s \<longleftrightarrow> (\<exists>u v. rune_list s = u @ v \<and> rx_run r (last_rune None u, v, []) \<noteq> [])"
  by (simp only: rx_match_def rx_find_iff)

lemma rx_match_Alt: "rx_match (Alt a b) s \<longleftrightarrow> rx_match a s \<or> rx_match b s"
  unfolding rx_match_iff by auto

lemma rx_match_alt_of: "rs \<noteq> [] \<Longrightarrow> rx_match (alt_of rs) s \<longleftrightarrow> (\<exists>r\<in>set rs. rx_match r s)"
  by (induction rs rule: alt_of.induct) (auto simp: rx_match_Alt)

text \<open>A literal matches where the folded text starts with the folded literal.\<close>

lemma rx_run_ilit:
  "rx_run (ilit t) (pv, v, cs) =
     (if take (length t) (map fold_rune v) = map (fold_rune \<circ> code_of) t
      then [(last_rune pv (take (length t) v), drop (length t) v, cs)] else [])"
proof (induction t arbitrary: pv v)
  case (Cons c t)
  show ?case
  proof (cases v)
    case (Cons x w)
    show ?thesis using Cons.IH [of "Some x" w] unfolding ilit_def Cons
      by (simp add: step_if_def)
  qed (simp add: ilit_def step_if_def)
qed (simp add: ilit_def)

lemma rx_match_ilit:
  "rx_match (ilit t) s \<longleftrightarrow> sublist (map (fold_rune \<circ> code_of) t) (map fold_rune (rune_list s))"
proof
  let ?F = "map (fold_rune \<circ> code_of) t"
  assume "rx_match (ilit t) s"
  then obtain u v where uv: "rune_list s = u @ v" "rx_run (ilit t) (last_rune None u, v, []) \<noteq> []"
    unfolding rx_match_iff by blast
  then have "take (length t) (map fold_rune v) = ?F" by (auto simp: rx_run_ilit split: if_splits)
  then have "map fold_rune v = ?F @ drop (length t) (map fold_rune v)" by (metis append_take_drop_id)
  then have "map fold_rune (rune_list s) = map fold_rune u @ ?F @ drop (length t) (map fold_rune v)"
    using uv(1) by simp
  then show "sublist ?F (map fold_rune (rune_list s))" by (metis sublist_appendI)
next
  let ?F = "map (fold_rune \<circ> code_of) t"
  assume "sublist ?F (map fold_rune (rune_list s))"
  then obtain a b where ab: "map fold_rune (rune_list s) = a @ ?F @ b" unfolding sublist_def by blast
  let ?u = "take (length a) (rune_list s)" and ?v = "drop (length a) (rune_list s)"
  have "map fold_rune ?v = ?F @ b" using ab by (metis append_eq_conv_conj drop_map)
  then have "take (length t) (map fold_rune ?v) = ?F" by simp
  then have "rx_run (ilit t) (last_rune None ?u, ?v, []) \<noteq> []" by (simp add: rx_run_ilit)
  then show "rx_match (ilit t) s" unfolding rx_match_iff by (metis append_take_drop_id)
qed

lemma rx_match_Seq_left: "rx_match (Seq a b) s \<Longrightarrow> rx_match a s"
  unfolding rx_match_iff by fastforce

text \<open>For the ASCII texts the providers send, \<open>(?i)\<close> literals search the lowered text.\<close>

lemma rune_list_ascii: "\<forall>c\<in>set s. code_of c < 128 \<Longrightarrow> rune_list s = map code_of s"
  by (simp add: rune_list_def runes_ascii)

end
