(* ===== verification/Autocontinue.thy ===== *)
theory Autocontinue
  imports Transcript Regexp
begin

text \<open>
  Model of \<open>src/loop/autocontinue.go\<close>: the detector of turns that announce an action and stop
  without calling a tool.
\<close>

definition max_auto_continues :: nat where "max_auto_continues = 2"

definition auto_continue_message :: string where
  "auto_continue_message = ''Please continue.''"

definition ill_rx :: rx where
  "ill_rx = Seq (alt_of [ilit [CHR 0x27], ilit '' wi'']) (ilit ''ll'')"

definition intent_re :: rx where
  "intent_re = seq_of [WordB,
     alt_of [
       seq_of [ilit ''i'', ill_rx, opt_rx (ilit '' now'')],
       seq_of [ilit ''let me'', opt_rx (ilit '' now'')],
       ilit ''i am going to'',
       ilit (''i'' @ CHR 0x27 # ''m going to''),
       seq_of [ilit ''next'', opt_rx (ilit '',''), ilit '' i'', ill_rx],
       seq_of [ilit ''now i'', ill_rx],
       ilit ''proceeding to'',
       ilit ''about to''],
     WordB]"

fun join_texts :: "content_part list \<Rightarrow> string \<Rightarrow> string" where
  "join_texts [] acc = acc"
| "join_texts (p # ps) acc =
     join_texts ps (if part_type p = TypeText \<and> part_text p \<noteq> []
       then (if acc = [] then acc else acc @ [nl]) @ part_text p else acc)"

definition assistant_turn_text :: "message \<Rightarrow> string" where
  "assistant_turn_text m = join_texts (msg_content m) []"

text \<open>U+2026, three bytes.\<close>

definition ellipsis :: string where
  "ellipsis = [CHR 0xE2, CHR 0x80, CHR 0xA6]"

definition sentence_ends :: "string list" where
  "sentence_ends = [''. '', ''! '', ellipsis, [CHR ''.'', nl], [CHR ''!'', nl], [nl]]"

text \<open>\<open>strings.TrimRight(text, ".!\<dots>:")\<close>\<close>

definition trim_closing :: "string \<Rightarrow> string" where
  "trim_closing s = rev (strip_left (map rev [''.'', ''!'', ellipsis, '':'']) (rev s))"

fun closing_cut :: "string \<Rightarrow> string list \<Rightarrow> int \<Rightarrow> int" where
  "closing_cut text [] at = at"
| "closing_cut text (sep # seps) at =
     (case last_index_of text sep of
        None \<Rightarrow> closing_cut text seps at
      | Some i \<Rightarrow> closing_cut text seps
          (if int i > at then int i + int (length sep) - 1 else at))"

definition closing_sentence :: "string \<Rightarrow> string" where
  "closing_sentence text =
     (let t = trim_closing (trim_space text); c = closing_cut t sentence_ends (-1)
      in if 0 \<le> c \<and> c + 1 < int (length t) then trim_space (drop (nat (c + 1)) t) else t)"

definition stall_intent :: "message \<Rightarrow> bool" where
  "stall_intent m \<longleftrightarrow>
     collect_tool_calls m = [] \<and>
     (let text = trim_space (assistant_turn_text m) in
      text \<noteq> [] \<and>
      (let closing = closing_sentence text in
       \<not> contains closing ''?'' \<and> rx_match intent_re closing))"

definition auto_continue_user_message :: message where
  "auto_continue_user_message =
     (user_text auto_continue_message)\<lparr>msg_meta := [(''glue/auto-continue'', MBool True)]\<rparr>"

text \<open>The closing sentence is a fragment of the text, and a question is never taken for a stall.\<close>

lemma trim_closing_sublist: "\<exists>v. s = trim_closing s @ v"
proof -
  obtain w where "rev s = w @ strip_left (map rev [''.'', ''!'', ellipsis, '':'']) (rev s)"
    using strip_left_suffix by blast
  then have "s = trim_closing s @ rev w"
    unfolding trim_closing_def by (metis rev_append rev_rev_ident)
  then show ?thesis by blast
qed

lemma closing_sentence_sublist: "sublist (closing_sentence text) text"
proof -
  obtain u v where s: "text = u @ trim_space text @ v" using trim_space_sublist by blast
  obtain v' where t: "trim_space text = trim_closing (trim_space text) @ v'"
    using trim_closing_sublist by blast
  let ?t = "trim_closing (trim_space text)"
  have tt: "sublist ?t text" using s t by (metis append.assoc sublist_appendI)
  have d: "sublist (trim_space (drop n ?t)) ?t" for n
  proof -
    obtain a b where "drop n ?t = a @ trim_space (drop n ?t) @ b" using trim_space_sublist by blast
    then have "?t = (take n ?t @ a) @ trim_space (drop n ?t) @ b"
      by (metis append.assoc append_take_drop_id)
    then show ?thesis by (metis sublist_appendI)
  qed
  show ?thesis unfolding closing_sentence_def Let_def
    using tt d by (auto intro: sublist_order.order_trans)
qed

lemma stall_intent_examples:
  "stall_intent (user_text ''The router is wrong. I will now update it.'')"
  "\<not> stall_intent (user_text ''I will now update it. Should I go on?'')"
  "\<not> stall_intent (user_text ''The router is fixed.'')"
  by code_simp+

end
