(* ===== verification/Go_Error.thy ===== *)
theory Go_Error
  imports Prelude
begin

text \<open>
  Go errors as values: the text \<open>Error()\<close> returns and the sentinels and types that
  \<open>errors.Is\<close> and \<open>errors.As\<close> find along the \<open>Unwrap\<close> chain. \<open>fmt.Errorf\<close> with \<open>%w\<close>
  keeps the chain of the error it wraps. Also \<open>strconv.Quote\<close>, the \<open>%q\<close> verb.
\<close>

datatype err_kind =
    KSkipTool
  | KOverflow
  | KRepeatedToolCalls
  | KTooManyMistakes
  | KCanceled
  | KDeadline
  | KStall
  | KNotFound
  | KNotExist
  | KUnsupported
  | KExist
  | KNoAuthFile
  | KRefreshPermanent

record go_error =
  err_text :: string
  err_kinds :: "err_kind list"

definition new_error :: "string \<Rightarrow> go_error" where
  "new_error t = \<lparr>err_text = t, err_kinds = []\<rparr>"

definition sentinel :: "err_kind \<Rightarrow> string \<Rightarrow> go_error" where
  "sentinel k t = \<lparr>err_text = t, err_kinds = [k]\<rparr>"

definition wrap_error :: "string \<Rightarrow> go_error \<Rightarrow> string \<Rightarrow> go_error" where
  "wrap_error pre e post = \<lparr>err_text = pre @ err_text e @ post, err_kinds = err_kinds e\<rparr>"

definition err_is :: "err_kind \<Rightarrow> go_error \<Rightarrow> bool" where
  "err_is k e \<longleftrightarrow> k \<in> set (err_kinds e)"

lemma err_simps [simp]:
  "err_text (new_error t) = t" "err_kinds (new_error t) = []" "\<not> err_is k (new_error t)"
  "err_text (sentinel k t) = t" "err_is k' (sentinel k t) \<longleftrightarrow> k' = k"
  "err_text (wrap_error a e b) = a @ err_text e @ b" "err_is k (wrap_error a e b) = err_is k e"
  by (auto simp: new_error_def sentinel_def wrap_error_def err_is_def)

text \<open>The errors of a cancelled context.\<close>

definition err_canceled :: go_error where
  "err_canceled = sentinel KCanceled ''context canceled''"

definition err_deadline :: go_error where
  "err_deadline = sentinel KDeadline ''context deadline exceeded''"

section \<open>Quoting\<close>

definition hex_digit :: "nat \<Rightarrow> char" where
  "hex_digit n = (if n < 10 then byte (48 + n) else byte (87 + n))"

definition hex_escape :: "nat \<Rightarrow> string" where
  "hex_escape n = [bslash, CHR ''x'', hex_digit (n div 16), hex_digit (n mod 16)]"

text \<open>One rune of \<open>strconv.Quote\<close>. Runes above 127 are taken as printable, which those of
  names and paths are.\<close>

definition quote_rune :: "nat \<times> string \<Rightarrow> string" where
  "quote_rune rb = (case rb of (r, bs) \<Rightarrow>
     if r = 34 then [bslash, dquote]
     else if r = 92 then [bslash, bslash]
     else if r = 7 then [bslash, CHR ''a'']
     else if r = 8 then [bslash, CHR ''b'']
     else if r = 12 then [bslash, CHR ''f'']
     else if r = 10 then [bslash, CHR ''n'']
     else if r = 13 then [bslash, CHR ''r'']
     else if r = 9 then [bslash, CHR ''t'']
     else if r = 11 then [bslash, CHR ''v'']
     else if r < 32 \<or> r = 127 then hex_escape r
     else if r = rune_error \<and> length bs = 1 then hex_escape (code_of (hd bs))
     else bs)"

definition quote :: "string \<Rightarrow> string" where
  "quote s = dquote # concat (map quote_rune (runes s)) @ [dquote]"

end
