(* ===== verification/Retry.thy ===== *)
theory Retry
  imports Transcript Go_Error Guardrails Regexp "HOL-Library.Word"
begin

text \<open>
  Model of \<open>src/loop/retry.go\<close>: classification of provider errors, the backoff delay with its
  64-bit shift, the server's retry hint, and the retry loop around one assistant turn. The events of
  the loop (\<open>src/loop/types.go\<close>) are a datatype with the fields that are active for each type.
\<close>

datatype event =
    EvLoopStart
  | EvLoopEnd "message list"
  | EvTurnStart
  | EvTurnEnd message
  | EvMessageStart message
  | EvMessageEnd message
  | EvTextDelta message string
  | EvToolStart tool_call
  | EvToolEnd tool_call tool_result message
  | EvError string
  | EvRetry string int int duration
  | EvAutoContinue message
  | EvGuardNudge string guard_kind int
  | EvGuardHalt string guard_kind int

record retry_policy =
  rp_disabled :: bool
  rp_max_retries :: int
  rp_base_delay :: duration
  rp_max_delay :: duration

definition default_max_retries :: int where "default_max_retries = 3"
definition default_base_delay :: duration where "default_base_delay = 2000000000"
definition default_max_delay :: duration where "default_max_delay = 30000000000"

definition retry_with_defaults :: "retry_policy \<Rightarrow> retry_policy" where
  "retry_with_defaults p = p\<lparr>
     rp_max_retries := (if rp_max_retries p \<le> 0 then default_max_retries else rp_max_retries p),
     rp_base_delay := (if rp_base_delay p \<le> 0 then default_base_delay else rp_base_delay p),
     rp_max_delay := (if rp_max_delay p \<le> 0 then default_max_delay else rp_max_delay p)\<rparr>"

section \<open>Classification\<close>

datatype error_class = ClassFatal | ClassTransient | ClassOverflow

text \<open>\<open>a.?b\<close>\<close>

definition gap :: "string \<Rightarrow> string \<Rightarrow> rx" where
  "gap a b = seq_of [ilit a, any_opt, ilit b]"

definition any_run :: "string \<Rightarrow> string \<Rightarrow> rx" where
  "any_run a b = seq_of [ilit a, Star Any, ilit b]"

definition fatal_re :: rx where
  "fatal_re = alt_of [gap ''api'' ''key'', ilit ''unauthoriz'', ilit ''unauthenticated'',
     ilit ''forbidden'', gap ''permission'' ''denied'',
     seq_of [ilit ''invalid'', any_opt, alt_of [ilit ''request'', ilit ''argument'']],
     ilit ''billing'', ilit ''payment'', any_run ''quota exceeded'' ''plan'',
     ilit ''model not found'', ilit ''404'']"

definition overflow_re :: rx where
  "overflow_re = alt_of [ilit ''prompt is too long'', gap ''context'' ''window'',
     gap ''context'' ''length'', gap ''maximum'' ''context'', any_run ''input token count'' ''exceed'',
     any_run ''exceeds'' ''token'', ilit ''too many tokens'',
     ilit ''reduce the length of the messages'']"

definition transient_re :: rx where
  "transient_re = alt_of [seq_of [WordB, ilit ''429'', WordB],
     seq_of [WordB, ilit ''50'', OneOf [(48, 48), (50, 50), (51, 51), (52, 52)], WordB],
     ilit ''too many requests'', gap ''rate'' ''limit'', gap ''resource'' ''exhausted'',
     ilit ''overloaded'', gap ''service'' ''unavailable'',
     seq_of [ilit ''internal '', opt_rx (ilit ''server ''), ilit ''error''], ilit ''bad gateway'',
     ilit ''gateway timeout'',
     seq_of [ilit ''connection '', alt_of [ilit ''reset'', ilit ''refused'', ilit ''closed'']],
     ilit ''broken pipe'', ilit ''socket hang up'', ilit ''unexpected EOF'',
     seq_of [ilit ''stream '', alt_of [ilit ''closed'', ilit ''ended'', ilit ''reset'']],
     ilit ''closed before done'', ilit ''premature'', ilit ''fetch failed'', ilit ''temporar'',
     ilit ''try again'', ilit ''retry'',
     seq_of [ilit ''time'', opt_rx (ilit ''d''), opt_rx (ilit '' ''), ilit ''out'']]"

definition classify :: "string \<Rightarrow> error_class" where
  "classify msg =
     (if rx_match overflow_re msg then ClassOverflow
      else if rx_match fatal_re msg then ClassFatal
      else if rx_match transient_re msg then ClassTransient
      else ClassFatal)"

definition classify_provider_error :: "go_error option \<Rightarrow> error_class" where
  "classify_provider_error e = (case e of None \<Rightarrow> ClassFatal | Some e \<Rightarrow> classify (err_text e))"

lemma classify_provider_error_Some [simp]: "classify_provider_error (Some e) = classify (err_text e)"
  by (simp add: classify_provider_error_def)

section \<open>Delays\<close>

text \<open>\<open>retryHintRe\<close>: group 1 is the number, group 2 the unit.\<close>

definition quotes :: "(nat \<times> nat) list" where
  "quotes = [(34, 34), (39, 39)]"

definition retry_hint_re :: rx where
  "retry_hint_re = seq_of [
     alt_of [
       seq_of [gap ''retry'' ''delay'', opt_rx (OneOf quotes), Star space_rx,
         OneOf [(58, 58), (61, 61)], Star space_rx, opt_rx (OneOf quotes)],
       seq_of [gap ''retry'' ''after'',
         plus_rx (OneOf (quotes @ [(58, 58), (9, 10), (12, 13), (32, 32)]))]],
     Cap 1 (seq_of [plus_rx digit_rx, opt_rx (seq_of [Lit 46, plus_rx digit_rx])]),
     Star space_rx,
     opt_rx (Cap 2 (alt_of [ilit ''ms'', ilit ''s'']))]"

text \<open>The number as a decimal fraction \<open>m / 10 ^ k\<close>.\<close>

fun decimal :: "nat list \<Rightarrow> nat \<Rightarrow> nat" where
  "decimal [] acc = acc"
| "decimal (d # ds) acc = decimal ds (10 * acc + (d - 48))"

definition parse_decimal :: "nat list \<Rightarrow> nat \<times> nat" where
  "parse_decimal ds =
     (let whole = takeWhile (\<lambda>d. d \<noteq> 46) ds; frac = drop (Suc (length whole)) ds
      in (decimal (whole @ frac) 0, length frac))"

text \<open>\<open>ParseFloat\<close> fails beyond the range of a float64; a product outside int64 converts to the
  least int64, as on amd64. Within the range the value is the exact one, cut to nanoseconds.\<close>

definition parse_retry_hint :: "string \<Rightarrow> duration" where
  "parse_retry_hint msg =
     (case rx_submatch retry_hint_re msg of
        None \<Rightarrow> 0
      | Some caps \<Rightarrow>
          (let (m, k) = parse_decimal (case map_of caps 1 of None \<Rightarrow> [] | Some ds \<Rightarrow> ds);
               unit = (if map_of caps 2 = Some [109, 115] then 1000000 else 1000000000)
           in if m = 0 \<or> 2 ^ 1024 * 10 ^ k \<le> m then 0
              else let d = int (m * unit div 10 ^ k) in if d < 2 ^ 63 then d else - (2 ^ 63)))"

text \<open>\<open>p.BaseDelay << attempt\<close> on a signed 64-bit duration.\<close>

definition shift_delay :: "duration \<Rightarrow> nat \<Rightarrow> duration" where
  "shift_delay d attempt = sint (push_bit attempt (word_of_int d :: 64 word))"

definition cap_delay :: "duration \<Rightarrow> duration \<Rightarrow> duration" where
  "cap_delay mx d = (if d > mx then mx else d)"

definition retry_delay :: "retry_policy \<Rightarrow> nat \<Rightarrow> go_error option \<Rightarrow> duration" where
  "retry_delay p attempt err =
     (let d = cap_delay (rp_max_delay p) (shift_delay (rp_base_delay p) attempt)
      in case err of
           None \<Rightarrow> d
         | Some e \<Rightarrow>
             (let hint = parse_retry_hint (err_text e)
              in if hint > d then cap_delay (rp_max_delay p) hint else d))"

section \<open>The retry loop\<close>

definition overflow_error :: "go_error \<Rightarrow> go_error" where
  "overflow_error e = \<lparr>err_text = ''loop: context window exceeded: '' @ err_text e,
     err_kinds = KOverflow # err_kinds e\<rparr>"

text \<open>What the loop needs of its surroundings, over a world \<open>'w\<close>: one assistant turn with the
  events it emits, \<open>ctx.Err()\<close>, and the sleep, which reports the context's error when the context
  ends first.\<close>

type_synonym 'w turn_fun = "'w \<Rightarrow> (go_error + message) \<times> event list \<times> 'w"
type_synonym 'w ctx_fun = "'w \<Rightarrow> go_error option \<times> 'w"
type_synonym 'w sleep_fun = "duration \<Rightarrow> 'w \<Rightarrow> go_error option \<times> 'w"

definition retry_event :: "retry_policy \<Rightarrow> nat \<Rightarrow> go_error \<Rightarrow> event" where
  "retry_event p attempt e =
     EvRetry (err_text e) (int attempt + 1) (rp_max_retries p + 1) (retry_delay p attempt (Some e))"

definition attempts_error :: "nat \<Rightarrow> go_error \<Rightarrow> go_error" where
  "attempts_error attempt e =
     wrap_error (''loop: provider failed after '' @ itoa (Suc attempt) @ '' attempts: '') e []"

function retry_loop ::
    "retry_policy \<Rightarrow> 'w ctx_fun \<Rightarrow> 'w sleep_fun \<Rightarrow> 'w turn_fun \<Rightarrow> nat \<Rightarrow> 'w
      \<Rightarrow> (go_error + message) \<times> event list \<times> 'w" where
  "retry_loop p ctx slp turn attempt w =
    (case turn w of
       (Inr m, ev, w1) \<Rightarrow> (Inr m, ev, w1)
     | (Inl e, ev, w1) \<Rightarrow>
        (case ctx w1 of
           (Some _, w2) \<Rightarrow> (Inl e, ev, w2)
         | (None, w2) \<Rightarrow>
            (case classify_provider_error (Some e) of
               ClassOverflow \<Rightarrow> (Inl (overflow_error e), ev, w2)
             | ClassFatal \<Rightarrow> (Inl e, ev, w2)
             | ClassTransient \<Rightarrow>
                 (if rp_max_retries p \<le> int attempt then (Inl (attempts_error attempt e), ev, w2)
                  else
                    (case slp (retry_delay p attempt (Some e)) w2 of
                       (Some ce, w3) \<Rightarrow> (Inl ce, ev @ [retry_event p attempt e], w3)
                     | (None, w3) \<Rightarrow>
                         (let (r, ev', w4) = retry_loop p ctx slp turn (Suc attempt) w3
                          in (r, ev @ [retry_event p attempt e] @ ev', w4)))))))"
  by pat_completeness auto
termination
  by (relation "measure (\<lambda>(p, ctx, slp, turn, attempt, w). nat (rp_max_retries p - int attempt))") auto

declare retry_loop.simps [simp del]

definition run_turn_with_retry ::
    "retry_policy \<Rightarrow> 'w ctx_fun \<Rightarrow> 'w sleep_fun \<Rightarrow> 'w turn_fun \<Rightarrow> 'w
      \<Rightarrow> (go_error + message) \<times> event list \<times> 'w" where
  "run_turn_with_retry p ctx slp turn w =
     (if rp_disabled p then turn w else retry_loop (retry_with_defaults p) ctx slp turn 0 w)"

section \<open>What the loop does\<close>

text \<open>\<open>k\<close> transient failures in a row, each followed by a full sleep: what must precede the
  attempt that decides the outcome.\<close>

inductive transient_run ::
    "retry_policy \<Rightarrow> 'w ctx_fun \<Rightarrow> 'w sleep_fun \<Rightarrow> 'w turn_fun \<Rightarrow> nat \<Rightarrow> nat \<Rightarrow> 'w \<Rightarrow> event list
      \<Rightarrow> 'w \<Rightarrow> bool"
  for p :: retry_policy and ctx :: "'w ctx_fun" and slp :: "'w sleep_fun" and turn :: "'w turn_fun"
where
  none: "transient_run p ctx slp turn a 0 w [] w"
| again: "turn w = (Inl e, ev, w1) \<Longrightarrow> ctx w1 = (None, w2) \<Longrightarrow>
     classify (err_text e) = ClassTransient \<Longrightarrow> int a < rp_max_retries p \<Longrightarrow>
     slp (retry_delay p a (Some e)) w2 = (None, w3) \<Longrightarrow>
     transient_run p ctx slp turn (Suc a) k w3 ev' w4 \<Longrightarrow>
     transient_run p ctx slp turn a (Suc k) w (ev @ [retry_event p a e] @ ev') w4"

inductive_cases transient_run_0E: "transient_run p ctx slp turn a 0 w ev w'"
inductive_cases transient_run_SucE: "transient_run p ctx slp turn a (Suc k) w ev w'"

lemma transient_run_bound:
  "transient_run p ctx slp turn a k w ev w' \<Longrightarrow> k = 0 \<or> int (a + k) \<le> rp_max_retries p"
  by (induction rule: transient_run.induct) auto

lemma retry_loop_Inr:
  "turn w = (Inr m, ev, w') \<Longrightarrow> retry_loop p ctx slp turn a w = (Inr m, ev, w')"
  by (simp add: retry_loop.simps)

lemma retry_loop_again:
  assumes "turn w = (Inl e, ev, w1)" and "ctx w1 = (None, w2)"
    and "classify (err_text e) = ClassTransient" and "int a < rp_max_retries p"
    and "slp (retry_delay p a (Some e)) w2 = (None, w3)"
  shows "retry_loop p ctx slp turn a w =
    (let (r, ev', w4) = retry_loop p ctx slp turn (Suc a) w3
     in (r, ev @ [retry_event p a e] @ ev', w4))"
  using assms(4) by (subst retry_loop.simps) (simp add: assms(1-3,5) classify_provider_error_def)

lemma retry_loop_stops:
  assumes "turn w = (Inl e, ev, w1)"
    and "\<nexists>w2 w3. ctx w1 = (None, w2) \<and> classify (err_text e) = ClassTransient
      \<and> int a < rp_max_retries p \<and> slp (retry_delay p a (Some e)) w2 = (None, w3)"
  shows "isl (fst (retry_loop p ctx slp turn a w))"
proof (cases "ctx w1")
  case (Pair c w2)
  obtain s w3 where s: "slp (retry_delay p a (Some e)) w2 = (s, w3)" by fastforce
  show ?thesis
    using assms(2) Pair s
    by (subst retry_loop.simps)
       (cases c; cases "classify (err_text e)"; cases s; simp add: assms(1) not_le)
qed

lemma retry_loop_complete:
  assumes "transient_run p ctx slp turn a k w ev w'"
  shows "retry_loop p ctx slp turn a w =
    (let (r, ev', w4) = retry_loop p ctx slp turn (a + k) w' in (r, ev @ ev', w4))"
  using assms
proof (induction rule: transient_run.induct)
  case (none a w)
  show ?case by (cases "retry_loop p ctx slp turn a w") simp
next
  case (again w e ev w1 w2 a w3 k ev' w4)
  obtain r x w5 where r: "retry_loop p ctx slp turn (Suc (a + k)) w4 = (r, x, w5)"
    by (metis surj_pair)
  have "retry_loop p ctx slp turn (Suc a) w3 = (r, ev' @ x, w5)" using again.IH by (simp add: r)
  then show ?case using retry_loop_again [of turn w e ev w1 ctx w2 a p slp w3] again.hyps r by simp
qed

lemma retry_loop_sound:
  assumes "retry_loop p ctx slp turn a w = (Inr m, ev, w')"
  shows "\<exists>k wk ev1 ev2. transient_run p ctx slp turn a k w ev1 wk
    \<and> turn wk = (Inr m, ev2, w') \<and> ev = ev1 @ ev2"
  using assms
proof (induction "nat (rp_max_retries p - int a)" arbitrary: a w ev rule: less_induct)
  case (less a w ev)
  obtain r ev0 w1 where t: "turn w = (r, ev0, w1)" by (metis surj_pair)
  show ?case
  proof (cases r)
    case (Inr m')
    then have "m' = m" "ev = ev0" "w' = w1"
      using less(2) t retry_loop_Inr [of turn w m' ev0 w1 p ctx slp a] by simp_all
    then have "turn w = (Inr m, ev, w')" using t Inr by simp
    then show ?thesis using transient_run.none [of p ctx slp turn a w] by (metis append_Nil)
  next
    case (Inl e)
    obtain w2 w3 where c: "ctx w1 = (None, w2)" and cl: "classify (err_text e) = ClassTransient"
      and a: "int a < rp_max_retries p" and s: "slp (retry_delay p a (Some e)) w2 = (None, w3)"
    proof -
      have "\<not> isl (fst (retry_loop p ctx slp turn a w))" using less(2) by simp
      then show thesis using retry_loop_stops [of turn w e ev0 w1 ctx a p slp] t Inl that by blast
    qed
    obtain r' ev' w4 where rec: "retry_loop p ctx slp turn (Suc a) w3 = (r', ev', w4)"
      by (metis surj_pair)
    have eq: "retry_loop p ctx slp turn a w = (r', ev0 @ [retry_event p a e] @ ev', w4)"
      using retry_loop_again [of turn w e ev0 w1 ctx w2 a p slp w3] t Inl c cl a s rec by simp
    then have r': "r' = Inr m" "w4 = w'" and ev: "ev = ev0 @ [retry_event p a e] @ ev'"
      using less(2) by simp_all
    have "\<exists>k wk ev1 ev2. transient_run p ctx slp turn (Suc a) k w3 ev1 wk
        \<and> turn wk = (Inr m, ev2, w') \<and> ev' = ev1 @ ev2"
      using less(1) [of "Suc a" w3 ev'] a rec r' by simp
    then obtain k wk ev1 ev2 where IH: "transient_run p ctx slp turn (Suc a) k w3 ev1 wk"
      "turn wk = (Inr m, ev2, w')" "ev' = ev1 @ ev2" by blast
    have "transient_run p ctx slp turn a (Suc k) w (ev0 @ [retry_event p a e] @ ev1) wk"
      using t Inl c cl a s IH(1) by (intro transient_run.again) simp_all
    moreover have "ev = (ev0 @ [retry_event p a e] @ ev1) @ ev2" using IH(3) ev by simp
    ultimately show ?thesis using IH(2) by blast
  qed
qed

lemma retry_defaults_pos:
  "0 < rp_max_retries (retry_with_defaults p)" "0 < rp_base_delay (retry_with_defaults p)"
  "0 < rp_max_delay (retry_with_defaults p)"
  "rp_disabled (retry_with_defaults p) = rp_disabled p"
  by (auto simp: retry_with_defaults_def default_max_retries_def default_base_delay_def
      default_max_delay_def)

lemma shift_delay_exact:
  assumes "0 \<le> d" and "d * 2 ^ a < 2 ^ 63"
  shows "shift_delay d a = d * 2 ^ a"
proof -
  have "shift_delay d a = sint (word_of_int (d * 2 ^ a) :: 64 word)"
    by (simp add: shift_delay_def push_bit_eq_mult)
  also have "\<dots> = d * 2 ^ a"
  proof -
    have "0 \<le> d * 2 ^ a" using assms(1) by simp
    then have "- (2 ^ 63) \<le> d * 2 ^ a" by (rule order_trans [rotated]) simp
    then show ?thesis
      using assms(2) unfolding sint_sbintrunc' by (intro signed_take_bit_int_eq_self) auto
  qed
  finally show ?thesis .
qed

section \<open>Counting the calls of the provider\<close>

text \<open>The same surroundings with a counter of the turns taken.\<close>

definition counted :: "'w turn_fun \<Rightarrow> ('w \<times> nat) turn_fun" where
  "counted turn = (\<lambda>(w, n). let (r, ev, w') = turn w in (r, ev, (w', Suc n)))"

definition uncounted :: "('w \<Rightarrow> 'a \<times> 'w) \<Rightarrow> 'w \<times> nat \<Rightarrow> 'a \<times> ('w \<times> nat)" where
  "uncounted f = (\<lambda>(w, n). let (r, w') = f w in (r, (w', n)))"

abbreviation counted_retry ::
    "retry_policy \<Rightarrow> 'w ctx_fun \<Rightarrow> 'w sleep_fun \<Rightarrow> 'w turn_fun \<Rightarrow> nat \<Rightarrow> 'w \<times> nat
      \<Rightarrow> (go_error + message) \<times> event list \<times> 'w \<times> nat" where
  "counted_retry p ctx slp turn \<equiv>
     retry_loop p (uncounted ctx) (\<lambda>d. uncounted (slp d)) (counted turn)"

lemma counted_stop:
  assumes "turn w = (r, ev, w1)" and "isl r \<Longrightarrow> \<nexists>w2 w3 e. r = Inl e \<and> ctx w1 = (None, w2)
      \<and> classify (err_text e) = ClassTransient
      \<and> int a < rp_max_retries p \<and> slp (retry_delay p a (Some e)) w2 = (None, w3)"
  shows "snd (snd (snd (counted_retry p ctx slp turn a (w, n)))) = Suc n"
proof (cases r)
  case (Inr m)
  then show ?thesis
    using retry_loop_Inr [of "counted turn" "(w, n)" m ev "(w1, Suc n)" p "uncounted ctx"
        "\<lambda>d. uncounted (slp d)" a] assms(1)
    by (simp add: counted_def)
next
  case (Inl e)
  show ?thesis
  proof (cases "ctx w1")
    case (Pair c w2)
    obtain s w3 where s: "slp (retry_delay p a (Some e)) w2 = (s, w3)" by fastforce
    show ?thesis
      using assms(2) Pair s Inl
      by (subst retry_loop.simps)
         (cases c; cases "classify (err_text e)"; cases s;
          simp add: assms(1) not_le counted_def uncounted_def)
  qed
qed

lemma counted_bound:
  assumes "int a \<le> rp_max_retries p"
  shows "snd (snd (snd (counted_retry p ctx slp turn a (w, n)))) \<le> n + Suc (nat (rp_max_retries p) - a)"
  using assms
proof (induction "nat (rp_max_retries p - int a)" arbitrary: a w n rule: less_induct)
  case (less a w n)
  obtain r ev w1 where t: "turn w = (r, ev, w1)" by (metis surj_pair)
  show ?case
  proof (cases "\<exists>w2 w3 e. r = Inl e \<and> ctx w1 = (None, w2) \<and> classify (err_text e) = ClassTransient
      \<and> int a < rp_max_retries p \<and> slp (retry_delay p a (Some e)) w2 = (None, w3)")
    case False
    then have "snd (snd (snd (counted_retry p ctx slp turn a (w, n)))) = Suc n"
      using counted_stop [of turn w r ev w1 ctx a p slp n] t by blast
    then show ?thesis by simp
  next
    case True
    then obtain e w2 w3 where e: "r = Inl e" "ctx w1 = (None, w2)" "classify (err_text e) = ClassTransient"
      "int a < rp_max_retries p" "slp (retry_delay p a (Some e)) w2 = (None, w3)" by blast
    obtain r' ev' x where rec: "counted_retry p ctx slp turn (Suc a) (w3, Suc n) = (r', ev', x)"
      by (metis surj_pair)
    have "counted_retry p ctx slp turn a (w, n) = (r', ev @ [retry_event p a e] @ ev', x)"
      using retry_loop_again [of "counted turn" "(w, n)" e ev "(w1, Suc n)" "uncounted ctx"
          "(w2, Suc n)" a p "\<lambda>d. uncounted (slp d)" "(w3, Suc n)"] t e rec
      by (simp add: counted_def uncounted_def)
    moreover have "snd x \<le> Suc n + Suc (nat (rp_max_retries p) - Suc a)"
      using less(1) [of "Suc a" w3 "Suc n"] e(4) rec by simp
    ultimately show ?thesis using e(4) by simp
  qed
qed

section \<open>Properties\<close>

text \<open>C9. A provider turn succeeds exactly when some attempt succeeds after at most \<open>MaxRetries\<close>
  attempts that all failed with a transient error and were each followed by a complete backoff
  sleep; the result is that attempt's message, and the events are those of the failed attempts, one
  retry event after each, and those of the last attempt.\<close>

theorem retry_succeeds_iff:
  assumes "\<not> rp_disabled p"
  shows "run_turn_with_retry p ctx slp turn w = (Inr m, ev, w') \<longleftrightarrow>
    (\<exists>k wk ev1 ev2. int k \<le> rp_max_retries (retry_with_defaults p)
       \<and> transient_run (retry_with_defaults p) ctx slp turn 0 k w ev1 wk
       \<and> turn wk = (Inr m, ev2, w') \<and> ev = ev1 @ ev2)" (is "?L \<longleftrightarrow> ?R")
proof
  assume ?L
  then have "retry_loop (retry_with_defaults p) ctx slp turn 0 w = (Inr m, ev, w')"
    using assms by (simp add: run_turn_with_retry_def)
  from retry_loop_sound [OF this] obtain k wk ev1 ev2
    where k: "transient_run (retry_with_defaults p) ctx slp turn 0 k w ev1 wk"
      "turn wk = (Inr m, ev2, w')" "ev = ev1 @ ev2" by blast
  have "int k \<le> rp_max_retries (retry_with_defaults p)"
    using transient_run_bound [OF k(1)] retry_defaults_pos(1) [of p] by auto
  with k show ?R by blast
next
  assume ?R
  then obtain k wk ev1 ev2
    where k: "transient_run (retry_with_defaults p) ctx slp turn 0 k w ev1 wk"
      "turn wk = (Inr m, ev2, w')" "ev = ev1 @ ev2" by blast
  note l = retry_loop_complete [OF k(1)]
  note r = retry_loop_Inr [of turn wk m ev2 w' "retry_with_defaults p" ctx slp k, OF k(2)]
  show ?L unfolding run_turn_with_retry_def using assms l r k(3) by simp
qed

text \<open>The provider is called at most \<open>MaxRetries + 1\<close> times for one turn, whatever it
  answers: counted by running the same code in a world that counts the turns.\<close>

theorem retry_attempts_bounded:
  "snd (snd (snd (run_turn_with_retry p (uncounted ctx) (\<lambda>d. uncounted (slp d)) (counted turn) (w, 0))))
     \<le> Suc (if rp_disabled p then 0 else nat (rp_max_retries (retry_with_defaults p)))"
proof (cases "rp_disabled p")
  case True
  then show ?thesis by (simp add: run_turn_with_retry_def counted_def Let_def split_beta)
next
  case False
  then show ?thesis
    using counted_bound [of 0 "retry_with_defaults p" ctx slp turn w 0] retry_defaults_pos(1) [of p]
    by (simp add: run_turn_with_retry_def)
qed

text \<open>C11. How a turn fails, after \<open>k\<close> transient failures: an overflow surfaces at once as the
  overflow error, whatever else the text matches; a fatal error surfaces unchanged; the last
  transient failure surfaces with the number of attempts. None of the three is followed by another
  attempt or by a retry event.\<close>

theorem retry_failures:
  assumes "\<not> rp_disabled p" and "transient_run (retry_with_defaults p) ctx slp turn 0 k w ev wk"
    and "turn wk = (Inl e, ev', w1)" and "ctx w1 = (None, w2)"
  shows "run_turn_with_retry p ctx slp turn w =
    (Inl (case classify (err_text e) of
            ClassOverflow \<Rightarrow> overflow_error e
          | ClassFatal \<Rightarrow> e
          | ClassTransient \<Rightarrow> attempts_error k e), ev @ ev', w2)
    \<or> classify (err_text e) = ClassTransient \<and> int k < rp_max_retries (retry_with_defaults p)"
proof (rule disjCI)
  let ?p = "retry_with_defaults p"
  assume n: "\<not> (classify (err_text e) = ClassTransient \<and> int k < rp_max_retries ?p)"
  have "retry_loop ?p ctx slp turn k wk = (Inl (case classify (err_text e) of
            ClassOverflow \<Rightarrow> overflow_error e | ClassFatal \<Rightarrow> e
          | ClassTransient \<Rightarrow> attempts_error k e), ev', w2)"
    using assms(3,4) n
    by (subst retry_loop.simps) (cases "classify (err_text e)"; simp)
  then show "run_turn_with_retry p ctx slp turn w = (Inl (case classify (err_text e) of
            ClassOverflow \<Rightarrow> overflow_error e | ClassFatal \<Rightarrow> e
          | ClassTransient \<Rightarrow> attempts_error k e), ev @ ev', w2)"
    using retry_loop_complete [OF assms(2)] assms(1) by (simp add: run_turn_with_retry_def)
qed

text \<open>While the doubled base delay fits a 64-bit duration, every backoff is positive and at
  most \<open>MaxDelay\<close>, and it is the doubled base delay unless that is capped or the server asked for
  longer.\<close>

theorem retry_delay_bounds:
  assumes "rp_base_delay (retry_with_defaults p) * 2 ^ a < 2 ^ 63"
  shows "let q = retry_with_defaults p; d = retry_delay q a err in
    0 < d \<and> d \<le> rp_max_delay q \<and> min (rp_max_delay q) (rp_base_delay q * 2 ^ a) \<le> d
    \<and> retry_delay q a None = min (rp_max_delay q) (rp_base_delay q * 2 ^ a)"
proof -
  let ?q = "retry_with_defaults p"
  have s: "shift_delay (rp_base_delay ?q) a = rp_base_delay ?q * 2 ^ a"
    using assms retry_defaults_pos(2) [of p] by (intro shift_delay_exact) auto
  have "0 < rp_base_delay ?q * 2 ^ a" using retry_defaults_pos(2) [of p] by simp
  then show ?thesis using retry_defaults_pos(3) [of p]
    by (auto simp: Let_def retry_delay_def cap_delay_def s split: option.split)
qed

definition zero_retry :: retry_policy where
  "zero_retry = \<lparr>rp_disabled = False, rp_max_retries = 0, rp_base_delay = 0, rp_max_delay = 0\<rparr>"

text \<open>With a retry budget above 33 the shift wraps: the backoff before retry 34 is negative and
  the one before retry 55 is zero, so the loop no longer waits.\<close>

theorem retry_delay_wraps:
  "let q = retry_with_defaults (zero_retry\<lparr>rp_max_retries := 60\<rparr>) in
     retry_delay q 32 None = 30000000000
     \<and> retry_delay q 33 None < 0 \<and> retry_delay q 54 None = 0"
  by (simp add: Let_def retry_with_defaults_def zero_retry_def default_base_delay_def
      default_max_delay_def retry_delay_def cap_delay_def shift_delay_def)

text \<open>The fatal pattern \<open>404\<close> carries no word boundaries, unlike \<open>429\<close> and \<open>503\<close>: an
  overloaded server's error that quotes an identifier with these digits in it is not retried. The
  overflow patterns are tried before the fatal ones. A stream that closes early is retried.\<close>

theorem classify_digits_anywhere:
  "classify ''HTTP 503: Service Unavailable'' = ClassTransient
   \<and> classify ''HTTP 503: Service Unavailable (id 84042)'' = ClassFatal
   \<and> classify ''invalid request: context length 4096'' = ClassOverflow
   \<and> classify ''loop: provider stream closed before done event'' = ClassTransient"
  by code_simp

text \<open>Two time-outs, then an answer; the world counts the calls.\<close>

definition flaky_turn :: "nat turn_fun" where
  "flaky_turn n = (if n < 2 then (Inl (new_error ''timeout''), [], Suc n) else (Inr zero_message, [], Suc n))"

definition no_cancel :: "nat ctx_fun" where "no_cancel n = (None, n)"
definition full_sleep :: "nat sleep_fun" where "full_sleep d n = (None, n)"

lemma classify_timeout: "classify ''timeout'' = ClassTransient"
  by code_simp

lemma flaky_run:
  "transient_run (retry_with_defaults zero_retry) no_cancel full_sleep flaky_turn 0 2 0
     [retry_event (retry_with_defaults zero_retry) 0 (new_error ''timeout''),
      retry_event (retry_with_defaults zero_retry) 1 (new_error ''timeout'')] 2"
proof -
  let ?p = "retry_with_defaults zero_retry"
  have m: "rp_max_retries ?p = 3"
    by (simp add: retry_with_defaults_def zero_retry_def default_max_retries_def)
  have step: "transient_run ?p no_cancel full_sleep flaky_turn (Suc a) k (Suc n) ev w \<Longrightarrow> n < 2 \<Longrightarrow> a < 3 \<Longrightarrow>
      transient_run ?p no_cancel full_sleep flaky_turn a (Suc k) n
        ([] @ [retry_event ?p a (new_error ''timeout'')] @ ev) w" for a k n ev w
    by (rule transient_run.again) (auto simp: flaky_turn_def no_cancel_def full_sleep_def classify_timeout m)
  have one: "transient_run ?p no_cancel full_sleep flaky_turn 1 1 1
      [retry_event ?p 1 (new_error ''timeout'')] 2"
    using step [OF transient_run.none, of 1 1] by (simp add: numeral_2_eq_2)
  then show ?thesis
    using step [of 0 1 0 "[retry_event ?p 1 (new_error ''timeout'')]" 2] by (simp add: numeral_2_eq_2)
qed

theorem retry_succeeds_iff_witness:
  "run_turn_with_retry zero_retry no_cancel full_sleep flaky_turn 0 =
     (Inr zero_message, [retry_event (retry_with_defaults zero_retry) 0 (new_error ''timeout''),
        retry_event (retry_with_defaults zero_retry) 1 (new_error ''timeout'')], 3)"
proof -
  have "\<not> rp_disabled zero_retry" by (simp add: zero_retry_def)
  moreover have "int 2 \<le> rp_max_retries (retry_with_defaults zero_retry)"
    by (simp add: retry_with_defaults_def zero_retry_def default_max_retries_def)
  moreover have "flaky_turn 2 = (Inr zero_message, [], 3)" by (simp add: flaky_turn_def)
  ultimately show ?thesis
    using retry_succeeds_iff [of zero_retry no_cancel full_sleep flaky_turn 0 zero_message _ 3] flaky_run
    by (metis append_Nil2)
qed

definition denied_turn :: "nat turn_fun" where
  "denied_turn n = (Inl (new_error ''invalid API key''), [], Suc n)"

theorem retry_failures_witness:
  "run_turn_with_retry zero_retry no_cancel full_sleep denied_turn 0
     = (Inl (new_error ''invalid API key''), [], 1)"
proof -
  have c: "classify ''invalid API key'' = ClassFatal" by code_simp
  have "\<not> rp_disabled zero_retry" by (simp add: zero_retry_def)
  from retry_failures [OF this transient_run.none, of denied_turn 0 "new_error ''invalid API key''" "[]" 1
      no_cancel 1 full_sleep]
  show ?thesis by (simp add: denied_turn_def no_cancel_def c)
qed

theorem retry_delay_bounds_witness:
  "0 < retry_delay (retry_with_defaults zero_retry) 3 None
   \<and> retry_delay (retry_with_defaults zero_retry) 3 None = 16000000000"
  using retry_delay_bounds [of zero_retry 3 None]
  by (simp add: Let_def retry_with_defaults_def zero_retry_def default_base_delay_def
      default_max_delay_def)

end
