(* ===== verification/Tool_Calls.thy ===== *)
theory Tool_Calls
  imports Transcript Go_Error Retry
begin

text \<open>
  Model of the tool half of \<open>src/loop/run.go\<close> and of the tool, permission and hook interfaces of
  \<open>src/loop/types.go\<close>: \<open>executeToolCall\<close>, \<open>executeKnownToolCall\<close>, \<open>decidePermission\<close>,
  \<open>runPostToolHooks\<close>, \<open>executeToolCalls\<close> in both modes. Hosts (executors, permission handlers,
  hooks) are functions over a world \<open>'w\<close> that they may change; nil interfaces are \<open>None\<close>.
\<close>

section \<open>Tools, permissions, hooks\<close>

record tool_spec =
  ts_name :: string
  ts_description :: string
  ts_parameters :: bytes
  ts_requires_permission :: bool
  ts_permission_action :: string
  ts_permission_target :: "(tool_call \<Rightarrow> string) option"
  ts_prompt_snippet :: string
  ts_prompt_guidelines :: "string list"

type_synonym 'w executor = "tool_call \<Rightarrow> 'w \<Rightarrow> (go_error + tool_result) \<times> 'w"

record 'w tool =
  tl_spec :: tool_spec
  tl_execute :: "'w executor option"

abbreviation tl_name :: "'w tool \<Rightarrow> string" where
  "tl_name t \<equiv> ts_name (tl_spec t)"

record permission_request =
  pr_tool :: string
  pr_action :: string
  pr_target :: string
  pr_args :: bytes
  pr_session :: string

datatype remember_scope = RememberNever | RememberSession | RememberSessionTarget | RememberForever

record permission_decision =
  pd_allow :: bool
  pd_reason :: string
  pd_remember :: remember_scope

type_synonym 'w permission = "permission_request \<Rightarrow> 'w \<Rightarrow> (go_error + permission_decision) \<times> 'w"

definition allow_all :: "'w permission" where
  "allow_all r w = (Inr \<lparr>pd_allow = True, pd_reason = [], pd_remember = RememberNever\<rparr>, w)"

definition deny_all :: "string \<Rightarrow> 'w permission" where
  "deny_all reason r w = (Inr \<lparr>pd_allow = False,
     pd_reason = (if reason = [] then ''permission denied'' else reason),
     pd_remember = RememberNever\<rparr>, w)"

record 'w hook =
  hk_pre :: "tool_call \<Rightarrow> 'w \<Rightarrow> go_error option \<times> 'w"
  hk_post :: "tool_call \<Rightarrow> tool_result \<Rightarrow> 'w \<Rightarrow> (go_error + tool_result) \<times> 'w"

text \<open>What a run gets from outside the request: \<open>ctx.Err()\<close>, timers, the clock, package
  \<open>encoding/json\<close> on tool arguments (the error text of \<open>Unmarshal\<close> or \<open>Marshal\<close>, \<open>None\<close> for a
  decoded nil map, or the re-encoded object), the digest of the guardrails, and the order in which
  the scheduler lets the goroutines of a parallel round run.\<close>

record 'w run_env =
  en_ctx :: "'w ctx_fun"
  en_sleep :: "'w sleep_fun"
  en_now :: "'w \<Rightarrow> go_time"
  en_json :: "bytes \<Rightarrow> string + bytes option"
  en_digest :: "string \<Rightarrow> string"
  en_order :: "nat \<Rightarrow> 'w \<Rightarrow> nat list"

record 'w tool_setup =
  su_tools :: "'w tool list"
  su_permission :: "'w permission option"
  su_hooks :: "'w hook option list"
  su_session :: string
  su_parallel :: bool

section \<open>One tool call\<close>

definition error_result :: "string \<Rightarrow> tool_result" where
  "error_result t = \<lparr>res_content = [text_part t], res_is_error = True, res_meta = []\<rparr>"

definition tool_result_message :: "go_time \<Rightarrow> tool_call \<Rightarrow> tool_result \<Rightarrow> message" where
  "tool_result_message now c r = zero_message\<lparr>msg_role := RoleTool, msg_content := res_content r,
     msg_call_id := tc_id c, msg_tool_name := tc_name c, msg_is_error := res_is_error r,
     msg_created := now, msg_meta := res_meta r\<rparr>"

definition normalize_arguments :: "(bytes \<Rightarrow> string + bytes option) \<Rightarrow> tool_call \<Rightarrow> string + tool_call" where
  "normalize_arguments json c =
     (if tc_args c = [] then Inr (c\<lparr>tc_args := ''{}''\<rparr>)
      else case json (tc_args c) of
        Inl e \<Rightarrow> Inl e
      | Inr None \<Rightarrow> Inl ''arguments must be a JSON object''
      | Inr (Some args) \<Rightarrow> Inr (c\<lparr>tc_args := args\<rparr>))"

fun run_pre_hooks :: "'w hook option list \<Rightarrow> tool_call \<Rightarrow> 'w \<Rightarrow> go_error option \<times> 'w" where
  "run_pre_hooks [] c w = (None, w)"
| "run_pre_hooks (None # hs) c w = run_pre_hooks hs c w"
| "run_pre_hooks (Some h # hs) c w =
     (case hk_pre h c w of
        (Some e, w') \<Rightarrow> (Some e, w')
      | (None, w') \<Rightarrow> run_pre_hooks hs c w')"

fun post_hooks_in :: "'w hook option list \<Rightarrow> tool_call \<Rightarrow> tool_result \<Rightarrow> 'w
    \<Rightarrow> (go_error + tool_result) \<times> 'w" where
  "post_hooks_in [] c r w = (Inr r, w)"
| "post_hooks_in (None # hs) c r w = post_hooks_in hs c r w"
| "post_hooks_in (Some h # hs) c r w =
     (case hk_post h c r w of
        (Inl e, w') \<Rightarrow> (Inl e, w')
      | (Inr r', w') \<Rightarrow> post_hooks_in hs c r' w')"

definition run_post_hooks :: "'w hook option list \<Rightarrow> tool_call \<Rightarrow> tool_result \<Rightarrow> 'w
    \<Rightarrow> (go_error + tool_result) \<times> 'w" where
  "run_post_hooks hs = post_hooks_in (rev hs)"

definition permission_request_of :: "string \<Rightarrow> tool_spec \<Rightarrow> tool_call \<Rightarrow> permission_request" where
  "permission_request_of session t c =
     (let target = (case ts_permission_target t of None \<Rightarrow> [] | Some f \<Rightarrow> f c) in
      \<lparr>pr_tool = ts_name t,
       pr_action = (if ts_permission_action t = [] then ts_name t else ts_permission_action t),
       pr_target = (if target = [] then tc_args c else target),
       pr_args = tc_args c,
       pr_session = session\<rparr>)"

definition decide_permission :: "'w tool_setup \<Rightarrow> tool_spec \<Rightarrow> tool_call \<Rightarrow> 'w
    \<Rightarrow> (go_error + permission_decision) \<times> 'w" where
  "decide_permission su t c w =
     (case su_permission su of
        None \<Rightarrow> (Inr \<lparr>pd_allow = False,
                    pd_reason = ''permission denied: no permission handler configured'',
                    pd_remember = RememberNever\<rparr>, w)
      | Some decide \<Rightarrow> decide (permission_request_of (su_session su) t c) w)"

text \<open>The part of \<open>executeKnownToolCall\<close> after the permission check.\<close>

definition invoke_tool :: "'w tool_setup \<Rightarrow> 'w tool \<Rightarrow> tool_call \<Rightarrow> 'w
    \<Rightarrow> (go_error + tool_result) \<times> 'w" where
  "invoke_tool su t c w =
     (case tl_execute t of
        None \<Rightarrow> run_post_hooks (su_hooks su) c
                  (error_result (''tool '' @ quote (tc_name c) @ '' has no executor'')) w
      | Some ex \<Rightarrow>
          (case ex c w of
             (Inl e, w') \<Rightarrow> run_post_hooks (su_hooks su) c (error_result (err_text e)) w'
           | (Inr r, w') \<Rightarrow> run_post_hooks (su_hooks su) c r w'))"

definition execute_known :: "'w tool_setup \<Rightarrow> 'w tool \<Rightarrow> tool_call \<Rightarrow> 'w
    \<Rightarrow> (go_error + tool_result) \<times> 'w" where
  "execute_known su t c w =
     (case run_pre_hooks (su_hooks su) c w of
        (Some e, w1) \<Rightarrow>
          (if err_is KSkipTool e then (Inr (error_result ''tool skipped by hook''), w1) else (Inl e, w1))
      | (None, w1) \<Rightarrow>
          (if ts_requires_permission (tl_spec t)
           then (case decide_permission su (tl_spec t) c w1 of
                   (Inl e, w2) \<Rightarrow> (Inl e, w2)
                 | (Inr d, w2) \<Rightarrow>
                     (if pd_allow d then invoke_tool su t c w2
                      else run_post_hooks (su_hooks su) c
                             (error_result (if pd_reason d = [] then ''permission denied'' else pd_reason d))
                             w2))
           else invoke_tool su t c w1))"

text \<open>\<open>executeToolCall\<close>: the call as it is referred to afterwards, the result, the error.\<close>

definition execute_tool_call :: "'w run_env \<Rightarrow> 'w tool_setup \<Rightarrow> tool_call \<Rightarrow> 'w
    \<Rightarrow> tool_call \<times> (go_error + tool_result) \<times> 'w" where
  "execute_tool_call env su c w =
     (case normalize_arguments (en_json env) c of
        Inl e \<Rightarrow> (c, Inr (error_result
                   (''invalid arguments for tool '' @ quote (tc_name c) @ '': '' @ e)), w)
      | Inr c' \<Rightarrow>
          (case find (\<lambda>t. tl_name t = tc_name c') (su_tools su) of
             None \<Rightarrow> (c', Inr (error_result (''unknown tool '' @ quote (tc_name c'))), w)
           | Some t \<Rightarrow> (let (r, w') = execute_known su t c' w in (c', r, w'))))"

section \<open>The calls of one turn\<close>

record call_outcome =
  co_call :: tool_call
  co_result :: "go_error + tool_result"
  co_message :: message

definition outcome_of :: "'w run_env \<Rightarrow> 'w tool_setup \<Rightarrow> tool_call \<Rightarrow> 'w \<Rightarrow> call_outcome \<times> 'w" where
  "outcome_of env su c w =
     (let (c', r, w') = execute_tool_call env su c w in
      (\<lparr>co_call = c', co_result = r,
        co_message = tool_result_message (en_now env w') c'
          (case r of Inl e \<Rightarrow> zero_result | Inr x \<Rightarrow> x)\<rparr>, w'))"

text \<open>Sequential mode: stop at a cancelled context or at the first call that fails the run.\<close>

fun run_sequential :: "'w run_env \<Rightarrow> 'w tool_setup \<Rightarrow> tool_call list \<Rightarrow> 'w
    \<Rightarrow> (go_error + call_outcome list) \<times> event list \<times> 'w" where
  "run_sequential env su [] w = (Inr [], [], w)"
| "run_sequential env su (c # cs) w =
     (case en_ctx env w of
        (Some e, w1) \<Rightarrow> (Inl e, [], w1)
      | (None, w1) \<Rightarrow>
          (case outcome_of env su c w1 of (o1, w2) \<Rightarrow>
             (case co_result o1 of
                Inl e \<Rightarrow> (Inl e, [EvToolStart c], w2)
              | Inr _ \<Rightarrow>
                  (case run_sequential env su cs w2 of
                     (Inl e, ev, w3) \<Rightarrow> (Inl e, EvToolStart c # ev, w3)
                   | (Inr os, ev, w3) \<Rightarrow> (Inr (o1 # os), EvToolStart c # ev, w3)))))"

text \<open>Parallel mode: every call runs, in an order the scheduler chooses; the outcomes are stored
  under the index of the call.\<close>

definition full_order :: "nat \<Rightarrow> nat list \<Rightarrow> nat list" where
  "full_order n xs = (let ys = dedup_from [] (filter (\<lambda>i. i < n) xs)
     in ys @ filter (\<lambda>i. i \<notin> set ys) [0..<n])"

fun run_order :: "'w run_env \<Rightarrow> 'w tool_setup \<Rightarrow> tool_call list \<Rightarrow> nat list \<Rightarrow> 'w
    \<Rightarrow> (nat \<times> call_outcome) list \<times> 'w" where
  "run_order env su cs [] w = ([], w)"
| "run_order env su cs (i # is) w =
     (let (o1, w1) = outcome_of env su (cs ! i) w; (os, w2) = run_order env su cs is w1
      in ((i, o1) # os, w2))"

definition run_parallel :: "'w run_env \<Rightarrow> 'w tool_setup \<Rightarrow> tool_call list \<Rightarrow> 'w
    \<Rightarrow> (go_error + call_outcome list) \<times> event list \<times> 'w" where
  "run_parallel env su cs w =
     (let (os, w') = run_order env su cs (full_order (length cs) (en_order env (length cs) w)) w
      in (Inr (map (\<lambda>i. the (map_of os i)) [0..<length cs]), map EvToolStart cs, w'))"

text \<open>The results are appended, and their end events emitted, in source order up to the first
  call that failed the run.\<close>

fun collect_outcomes :: "call_outcome list \<Rightarrow> (go_error + message list) \<times> event list" where
  "collect_outcomes [] = (Inr [], [])"
| "collect_outcomes (x # xs) =
     (case co_result x of
        Inl e \<Rightarrow> (Inl e, [])
      | Inr r \<Rightarrow>
          (case collect_outcomes xs of
             (Inl e, ev) \<Rightarrow> (Inl e, EvToolEnd (co_call x) r (co_message x) # ev)
           | (Inr ms, ev) \<Rightarrow>
               (Inr (co_message x # ms), EvToolEnd (co_call x) r (co_message x) # ev)))"

definition finish_round :: "'w run_env \<Rightarrow> (go_error + call_outcome list) \<times> event list \<times> 'w
    \<Rightarrow> (go_error + message list) \<times> event list \<times> 'w" where
  "finish_round env x =
     (case x of
        (Inl e, ev, w) \<Rightarrow> (Inl e, ev, w)
      | (Inr os, ev, w) \<Rightarrow>
          (case en_ctx env w of
             (Some e, w') \<Rightarrow> (Inl e, ev, w')
           | (None, w') \<Rightarrow> (let (r, ev') = collect_outcomes os in (r, ev @ ev', w'))))"

definition execute_tool_calls :: "'w run_env \<Rightarrow> 'w tool_setup \<Rightarrow> tool_call list \<Rightarrow> 'w
    \<Rightarrow> (go_error + message list) \<times> event list \<times> 'w" where
  "execute_tool_calls env su cs w =
     finish_round env ((if su_parallel su then run_parallel else run_sequential) env su cs w)"

section \<open>Every call is answered, in order\<close>

definition answers :: "tool_call \<Rightarrow> call_outcome \<Rightarrow> bool" where
  "answers c x \<longleftrightarrow> tc_id (co_call x) = tc_id c \<and> tc_name (co_call x) = tc_name c
     \<and> is_tool (co_message x) \<and> msg_call_id (co_message x) = tc_id c
     \<and> msg_tool_name (co_message x) = tc_name c"

lemma normalize_arguments_id:
  "normalize_arguments json c = Inr c' \<Longrightarrow> tc_id c' = tc_id c \<and> tc_name c' = tc_name c"
  by (auto simp: normalize_arguments_def split: if_splits sum.splits option.splits)

lemma execute_tool_call_id:
  "execute_tool_call env su c w = (c', r, w') \<Longrightarrow> tc_id c' = tc_id c \<and> tc_name c' = tc_name c"
  by (auto simp: execute_tool_call_def Let_def dest: normalize_arguments_id
      split: sum.splits option.splits prod.splits)

lemma outcome_answers: "answers c (fst (outcome_of env su c w))"
proof -
  obtain c' r w' where x: "execute_tool_call env su c w = (c', r, w')" by (metis surj_pair)
  then show ?thesis using execute_tool_call_id [OF x]
    by (simp add: outcome_of_def answers_def tool_result_message_def is_tool_def)
qed

text \<open>What a round of tool calls relies on, in either mode: an outcome for every call, in source
  order, and the start events in source order.\<close>

locale round_runner =
  fixes run :: "'w run_env \<Rightarrow> 'w tool_setup \<Rightarrow> tool_call list \<Rightarrow> 'w
    \<Rightarrow> (go_error + call_outcome list) \<times> event list \<times> 'w"
  assumes run_answers: "run env su cs w = (Inr xs, ev, w') \<Longrightarrow> list_all2 answers cs xs"
    and run_starts: "run env su cs w = (Inr xs, ev, w') \<Longrightarrow> ev = map EvToolStart cs"

lemma collect_outcomes_Inr:
  "collect_outcomes xs = (Inr ms, ev) \<Longrightarrow> ms = map co_message xs
     \<and> list_all2 (\<lambda>x e. \<exists>r. co_result x = Inr r \<and> e = EvToolEnd (co_call x) r (co_message x)) xs ev"
proof (induction xs arbitrary: ms ev)
  case (Cons x xs)
  then show ?case by (auto split: sum.splits prod.splits)
qed simp

definition ends_call :: "tool_call \<Rightarrow> event \<Rightarrow> bool" where
  "ends_call c e \<longleftrightarrow> (\<exists>c' r m. e = EvToolEnd c' r m \<and> tc_id c' = tc_id c \<and> msg_call_id m = tc_id c)"

definition replies :: "tool_call \<Rightarrow> message \<Rightarrow> bool" where
  "replies c m \<longleftrightarrow> is_tool m \<and> msg_call_id m = tc_id c \<and> msg_tool_name m = tc_name c"

context round_runner
begin

lemma round_replies:
  assumes "finish_round env (run env su cs w) = (Inr ms, ev, w')"
  shows "list_all2 replies cs ms
    \<and> (\<exists>ends. ev = map EvToolStart cs @ ends \<and> list_all2 ends_call cs ends)"
proof -
  obtain x ev1 w1 where r: "run env su cs w = (x, ev1, w1)" by (metis surj_pair)
  with assms obtain xs where xs: "x = Inr xs" by (cases x) (auto simp: finish_round_def)
  with assms r obtain ends where c: "collect_outcomes xs = (Inr ms, ends)" and ev: "ev = ev1 @ ends"
    by (auto simp: finish_round_def Let_def split: prod.splits option.splits)
  note a = run_answers [OF r [unfolded xs]]
  note s = run_starts [OF r [unfolded xs]]
  have m: "list_all2 replies cs ms"
    using a collect_outcomes_Inr [OF c]
    by (auto simp: list_all2_conv_all_nth replies_def answers_def)
  have "list_all2 ends_call cs ends"
    using a collect_outcomes_Inr [OF c]
    unfolding list_all2_conv_all_nth ends_call_def answers_def by fastforce
  then show ?thesis using m s ev by blast
qed

lemma round_length:
  "finish_round env (run env su cs w) = (Inr ms, ev, w') \<Longrightarrow> length ms = length cs"
  using round_replies by (metis list_all2_lengthD)

end

lemma run_sequential_Inr:
  "run_sequential env su cs w = (Inr xs, ev, w') \<Longrightarrow> list_all2 answers cs xs \<and> ev = map EvToolStart cs"
proof (induction cs arbitrary: w xs ev)
  case (Cons c cs)
  obtain k w1 where k: "en_ctx env w = (k, w1)" by fastforce
  obtain o1 w2 where o1: "outcome_of env su c w1 = (o1, w2)" by fastforce
  obtain r ev3 w3 where r: "run_sequential env su cs w2 = (r, ev3, w3)" by (metis surj_pair)
  have "answers c o1" using outcome_answers [of c env su w1] o1 by simp
  then show ?case using Cons.prems k o1 r Cons.IH [of w2 _ ev3]
    by (auto split: option.splits sum.splits)
qed simp

lemma full_order_set: "set (full_order n xs) = {0..<n}"
  by (auto simp: full_order_def Let_def set_dedup_from)

lemma full_order_distinct: "distinct (full_order n xs)"
  by (auto simp: full_order_def Let_def distinct_dedup_from)

lemma run_order_outcomes:
  "run_order env su cs is w = (xs, w') \<Longrightarrow> map fst xs = is \<and> (\<forall>(i, x)\<in>set xs. answers (cs ! i) x)"
proof (induction "is" arbitrary: w xs w')
  case (Cons i "is")
  obtain o1 w1 where o1: "outcome_of env su (cs ! i) w = (o1, w1)" by fastforce
  obtain ys w2 where ys: "run_order env su cs is w1 = (ys, w2)" by fastforce
  have "answers (cs ! i) o1" using outcome_answers [of "cs ! i" env su w] o1 by simp
  then show ?case using Cons.prems Cons.IH [OF ys] o1 ys by auto
qed simp

lemma run_parallel_Inr:
  assumes "run_parallel env su cs w = (Inr xs, ev, w')"
  shows "list_all2 answers cs xs \<and> ev = map EvToolStart cs"
proof -
  let ?is = "full_order (length cs) (en_order env (length cs) w)"
  obtain ys w2 where ys: "run_order env su cs ?is w = (ys, w2)" by fastforce
  then have xs: "xs = map (\<lambda>i. the (map_of ys i)) [0..<length cs]" and ev: "ev = map EvToolStart cs"
    using assms by (simp_all add: run_parallel_def)
  note o = run_order_outcomes [OF ys]
  have "answers (cs ! i) (the (map_of ys i))" if "i < length cs" for i
  proof -
    have "i \<in> fst ` set ys" using that o full_order_set by (metis atLeastLessThan_iff le0 list.set_map)
    then obtain x where "map_of ys i = Some x" by (metis map_of_eq_None_iff not_None_eq)
    then show ?thesis using o map_of_SomeD by fastforce
  qed
  then show ?thesis using xs ev by (simp add: list_all2_conv_all_nth)
qed

interpretation sequential: round_runner run_sequential
  by unfold_locales (simp_all add: run_sequential_Inr)

interpretation parallel: round_runner run_parallel
  by unfold_locales (simp_all add: run_parallel_Inr)

lemma execute_tool_calls_replies:
  "execute_tool_calls env su cs w = (Inr ms, ev, w') \<Longrightarrow> list_all2 replies cs ms
    \<and> (\<exists>ends. ev = map EvToolStart cs @ ends \<and> list_all2 ends_call cs ends)"
  using sequential.round_replies [of env su cs w ms ev w'] parallel.round_replies [of env su cs w ms ev w']
  unfolding execute_tool_calls_def by presburger

section \<open>Denied calls never reach an executor\<close>

definition denies :: "'w permission option \<Rightarrow> bool" where
  "denies p = (case p of None \<Rightarrow> True
     | Some decide \<Rightarrow> (\<forall>r w. case fst (decide r w) of Inl _ \<Rightarrow> True | Inr d \<Rightarrow> \<not> pd_allow d))"

definition same_free_tool :: "'w tool \<Rightarrow> 'w tool \<Rightarrow> bool" where
  "same_free_tool t t' \<longleftrightarrow> tl_spec t = tl_spec t'
     \<and> (ts_requires_permission (tl_spec t) \<or> tl_execute t = tl_execute t')"

text \<open>Two setups that differ at most in the executors of tools that require permission.\<close>

definition same_free_setup :: "'w tool_setup \<Rightarrow> 'w tool_setup \<Rightarrow> bool" where
  "same_free_setup su su' \<longleftrightarrow> list_all2 same_free_tool (su_tools su) (su_tools su')
     \<and> su' = su\<lparr>su_tools := su_tools su'\<rparr>"

lemma same_free_fields:
  "same_free_setup su su' \<Longrightarrow> su_permission su' = su_permission su \<and> su_hooks su' = su_hooks su
     \<and> su_session su' = su_session su \<and> su_parallel su' = su_parallel su"
  unfolding same_free_setup_def
  by (metis tool_setup.select_convs(2,3,4,5) tool_setup.surjective tool_setup.update_convs(1))

lemma execute_known_denied:
  assumes "same_free_setup su su'" and "same_free_tool t t'" and "denies (su_permission su)"
  shows "execute_known su' t' c w = execute_known su t c w"
proof -
  have f: "su_permission su' = su_permission su" "su_hooks su' = su_hooks su"
    "su_session su' = su_session su"
    using same_free_fields [OF assms(1)] by auto
  have t: "tl_spec t' = tl_spec t" using assms(2) by (simp add: same_free_tool_def)
  have d: "decide_permission su' s c w = decide_permission su s c w" for s w
    by (cases "su_permission su") (simp_all add: decide_permission_def f)
  have nd: "\<not> pd_allow d" if "decide_permission su s c w = (Inr d, w2)" for s w d w2
  proof (cases "su_permission su")
    case (Some decide)
    then have "case fst (decide (permission_request_of (su_session su) s c) w) of
        Inl _ \<Rightarrow> True | Inr d \<Rightarrow> \<not> pd_allow d"
      using assms(3) by (simp add: denies_def)
    then show ?thesis using that Some by (simp add: decide_permission_def)
  qed (use that in \<open>auto simp: decide_permission_def\<close>)
  show ?thesis
  proof (cases "ts_requires_permission (tl_spec t)")
    case True
    then show ?thesis unfolding execute_known_def t f d
      by (auto split: prod.splits option.splits sum.splits dest: nd)
  next
    case False
    then have "invoke_tool su' t' c w = invoke_tool su t c w" for w
      using assms(2)
      by (simp add: invoke_tool_def f same_free_tool_def
          cong: case_congs)
    then show ?thesis unfolding execute_known_def t f using False
      by (simp split: option.split prod.split)
  qed
qed

lemma find_same_free:
  "list_all2 same_free_tool ts ts' \<Longrightarrow>
     rel_option same_free_tool (find (\<lambda>t. tl_name t = n) ts) (find (\<lambda>t. tl_name t = n) ts')"
  by (induction rule: list_all2_induct) (auto simp: same_free_tool_def)

lemma execute_tool_call_denied:
  assumes "same_free_setup su su'" and "denies (su_permission su)"
  shows "execute_tool_call env su' c w = execute_tool_call env su c w"
proof -
  have l: "list_all2 same_free_tool (su_tools su) (su_tools su')"
    using assms(1) by (simp add: same_free_setup_def)
  show ?thesis
  proof (cases "normalize_arguments (en_json env) c")
    case (Inr c')
    from find_same_free [OF l, of "tc_name c'"] show ?thesis
      by (cases rule: option.rel_cases)
         (simp_all add: execute_tool_call_def Inr execute_known_denied [OF assms(1) _ assms(2)])
  qed (simp add: execute_tool_call_def)
qed

lemma outcome_of_denied:
  "same_free_setup su su' \<Longrightarrow> denies (su_permission su) \<Longrightarrow> outcome_of env su' = outcome_of env su"
  by (intro ext) (simp add: outcome_of_def execute_tool_call_denied)

lemma execute_tool_calls_denied:
  assumes "same_free_setup su su'" and "denies (su_permission su)"
  shows "execute_tool_calls env su' cs w = execute_tool_calls env su cs w"
proof -
  note o = outcome_of_denied [OF assms]
  have s: "run_sequential env su' cs w = run_sequential env su cs w" for w
    by (induction cs arbitrary: w)
       (simp_all add: o cong: case_congs)
  have "run_order env su' cs is w = run_order env su cs is w" for "is" w
    by (induction "is" arbitrary: w) (simp_all add: o)
  then have "run_parallel env su' cs w = run_parallel env su cs w"
    by (simp add: run_parallel_def)
  with s show ?thesis using same_free_fields [OF assms(1)] by (simp add: execute_tool_calls_def)
qed

end
