(* ===== verification/Agent_Loop.thy ===== *)
theory Agent_Loop
  imports Harden Autocontinue Tool_Calls
begin

text \<open>
  Model of the agent loop, \<open>Run\<close> and \<open>runAssistantTurn\<close> of \<open>src/loop/run.go\<close>, over the provider
  interface of \<open>src/loop/types.go\<close>. A provider stream is the finite list of what the loop receives
  from the channel, each item with the time of its receipt; the end of the list is the closing of the
  channel, and \<open>RecvCancel\<close> is the branch of the \<open>select\<close> that fires when the context ends first.
  \<open>defer\<close>d and direct emissions are collected in order in the list of events.
\<close>

section \<open>Provider streams\<close>

record provider_request =
  pq_model :: string
  pq_system :: string
  pq_messages :: "message list"
  pq_tools :: "tool_spec list"
  pq_options :: metadata

datatype provider_event =
    PStart "message option"
  | PTextDelta int string
  | PThinkingDelta int string
  | PToolCall "tool_call option"
  | PDone "message option"
  | PError string
  | PUnknown string

datatype received = RecvEvent provider_event | RecvCancel go_error

type_synonym stream = "(go_time \<times> received) list"
type_synonym 'w provider = "provider_request \<Rightarrow> 'w \<Rightarrow> (go_error + stream) \<times> 'w"

text \<open>\<open>appendToPart\<close>, \<open>appendDelta\<close>\<close>

definition append_to_part :: "string \<Rightarrow> content_part \<Rightarrow> content_part" where
  "append_to_part delta p =
     (case part_type p of
        TypeText \<Rightarrow> p\<lparr>part_text := part_text p @ delta\<rparr>
      | TypeThinking \<Rightarrow> p\<lparr>part_thinking := part_thinking p @ delta\<rparr>
      | _ \<Rightarrow> p)"

definition append_delta :: "content_type \<Rightarrow> int \<Rightarrow> string \<Rightarrow> message \<Rightarrow> message" where
  "append_delta kind index delta m =
     (let ps = msg_content m in
      if 0 \<le> index \<and> index < int (length ps) \<and> part_type (ps ! nat index) = kind then
        m\<lparr>msg_content := ps[nat index := append_to_part delta (ps ! nat index)]\<rparr>
      else if ps \<noteq> [] \<and> part_type (last ps) = kind then
        m\<lparr>msg_content := butlast ps @ [append_to_part delta (last ps)]\<rparr>
      else m\<lparr>msg_content := ps @ [append_to_part delta (zero_part\<lparr>part_type := kind\<rparr>)]\<rparr>)"

definition fresh_assistant :: "string \<Rightarrow> go_time \<Rightarrow> message" where
  "fresh_assistant model now =
     zero_message\<lparr>msg_role := RoleAssistant, msg_model := model, msg_created := now\<rparr>"

definition default_role :: "message \<Rightarrow> message" where
  "default_role m = (if msg_role m = RoleOther [] then m\<lparr>msg_role := RoleAssistant\<rparr> else m)"

definition default_created :: "go_time \<Rightarrow> message \<Rightarrow> message" where
  "default_created now m = (if msg_created m = 0 then m\<lparr>msg_created := now\<rparr> else m)"

definition default_stop :: "message \<Rightarrow> message" where
  "default_stop m =
     (if msg_stop m = StopOther [] then
        m\<lparr>msg_stop := (if collect_tool_calls m \<noteq> [] then StopToolUse else StopStop)\<rparr>
      else m)"

record turn_state =
  tu_message :: message
  tu_started :: bool
  tu_done :: bool

definition ensure_started :: "string \<Rightarrow> go_time \<Rightarrow> turn_state \<Rightarrow> turn_state \<times> event list" where
  "ensure_started model now s =
     (if tu_started s then (s, [])
      else (let m = fresh_assistant model now in
            (s\<lparr>tu_message := m, tu_started := True\<rparr>, [EvMessageStart m])))"

text \<open>One received event: the next state or the error that ends the turn.\<close>

definition stream_step :: "string \<Rightarrow> go_time \<Rightarrow> provider_event \<Rightarrow> turn_state
    \<Rightarrow> (go_error + turn_state) \<times> event list" where
  "stream_step model now e s =
     (case e of
        PStart m \<Rightarrow>
          (let a = default_created now (default_role
                     (case m of Some a \<Rightarrow> a | None \<Rightarrow> fresh_assistant model now))
           in (Inr (s\<lparr>tu_message := a, tu_started := True\<rparr>), [EvMessageStart a]))
      | PTextDelta i d \<Rightarrow>
          (let (s1, ev) = ensure_started model now s; a = append_delta TypeText i d (tu_message s1)
           in (Inr (s1\<lparr>tu_message := a\<rparr>), ev @ [EvTextDelta a d]))
      | PThinkingDelta i d \<Rightarrow>
          (let (s1, ev) = ensure_started model now s
           in (Inr (s1\<lparr>tu_message := append_delta TypeThinking i d (tu_message s1)\<rparr>), ev))
      | PToolCall c \<Rightarrow>
          (let (s1, ev) = ensure_started model now s; a = tu_message s1
           in case c of
                None \<Rightarrow> (Inl (new_error ''loop: provider tool_call event missing tool call''), ev)
              | Some c \<Rightarrow> (Inr (s1\<lparr>tu_message := a\<lparr>msg_content := msg_content a @ [call_part c]\<rparr>\<rparr>), ev))
      | PDone m \<Rightarrow>
          (let (s1, ev) = ensure_started model now s;
               a = (case m of Some a \<Rightarrow> default_role a | None \<Rightarrow> tu_message s1);
               a = default_stop (default_created now a)
           in (Inr (s1\<lparr>tu_message := a, tu_done := True\<rparr>), ev @ [EvMessageEnd a]))
      | PError t \<Rightarrow> (Inl (new_error (if t = [] then ''loop: provider error'' else t)), [])
      | PUnknown t \<Rightarrow> (Inl (new_error (''loop: unknown provider event type '' @ quote t)), []))"

definition err_stream_closed :: go_error where
  "err_stream_closed = new_error ''loop: provider stream closed before done event''"

fun read_stream :: "string \<Rightarrow> stream \<Rightarrow> turn_state \<Rightarrow> (go_error + message) \<times> event list" where
  "read_stream model [] s =
     ((if tu_done s then Inr (tu_message s) else Inl err_stream_closed), [])"
| "read_stream model ((now, RecvCancel e) # rest) s = (Inl e, [])"
| "read_stream model ((now, RecvEvent e) # rest) s =
     (case stream_step model now e s of
        (Inl err, ev) \<Rightarrow> (Inl err, ev)
      | (Inr s', ev) \<Rightarrow> (let (r, ev') = read_stream model rest s' in (r, ev @ ev')))"

section \<open>Requests and results\<close>

record 'w run_request =
  rq_provider :: "'w provider option"
  rq_model :: string
  rq_system :: string
  rq_messages :: "message list"
  rq_setup :: "'w tool_setup"
  rq_options :: metadata
  rq_max_turns :: int
  rq_retry :: retry_policy
  rq_auto_continue :: bool
  rq_guardrails :: guard_policy

definition provider_request_of :: "'w run_request \<Rightarrow> message list \<Rightarrow> provider_request" where
  "provider_request_of rq ms = \<lparr>pq_model = rq_model rq, pq_system = rq_system rq, pq_messages = ms,
     pq_tools = map tl_spec (su_tools (rq_setup rq)), pq_options = rq_options rq\<rparr>"

definition run_assistant_turn :: "'w provider \<Rightarrow> 'w run_request \<Rightarrow> message list \<Rightarrow> 'w turn_fun" where
  "run_assistant_turn prov rq ms w =
     (case prov (provider_request_of rq ms) w of
        (Inl e, w') \<Rightarrow> (Inl (wrap_error ''loop: provider stream: '' e []), [], w')
      | (Inr items, w') \<Rightarrow>
          (let (r, ev) = read_stream (rq_model rq) items
                 \<lparr>tu_message = zero_message, tu_started = False, tu_done = False\<rparr>
           in (r, ev, w')))"

record run_state =
  st_messages :: "message list"
  st_new :: "message list"
  st_last :: "nat option"
  st_last_new :: "nat option"
  st_auto :: nat
  st_guard :: guard_state

definition push_message :: "message \<Rightarrow> run_state \<Rightarrow> run_state" where
  "push_message m s = s\<lparr>st_messages := st_messages s @ [m], st_new := st_new s @ [m]\<rparr>"

definition push_messages :: "message list \<Rightarrow> run_state \<Rightarrow> run_state" where
  "push_messages ms s = s\<lparr>st_messages := st_messages s @ ms, st_new := st_new s @ ms\<rparr>"

definition push_assistant :: "message \<Rightarrow> run_state \<Rightarrow> run_state" where
  "push_assistant m s = (push_message m s)\<lparr>st_last := Some (length (st_messages s)),
     st_last_new := Some (length (st_new s))\<rparr>"

definition tag_at :: "nat option \<Rightarrow> message list \<Rightarrow> message list" where
  "tag_at i ms = (case i of None \<Rightarrow> ms | Some i \<Rightarrow> ms[i := (ms ! i)\<lparr>msg_stop := StopMaxTurns\<rparr>])"

definition tag_max_turns :: "run_state \<Rightarrow> run_state" where
  "tag_max_turns s = s\<lparr>st_messages := tag_at (st_last s) (st_messages s),
     st_new := tag_at (st_last_new s) (st_new s)\<rparr>"

section \<open>The loop\<close>

definition default_max_turns :: int where "default_max_turns = 32"

definition effective_max_turns :: "'w run_request \<Rightarrow> int" where
  "effective_max_turns rq = (if rq_max_turns rq \<le> 0 then default_max_turns else rq_max_turns rq)"

definition max_turns_error :: "int \<Rightarrow> go_error" where
  "max_turns_error n = new_error (''loop: maximum turns exceeded ('' @ itoa_int n @ '')'')"

definition guard_error :: "guard_kind \<Rightarrow> string \<Rightarrow> go_error" where
  "guard_error k t = sentinel (case k of Repeat \<Rightarrow> KRepeatedToolCalls | Mistakes \<Rightarrow> KTooManyMistakes) t"

datatype turn_end = Stopped "go_error option" | Continues

text \<open>One iteration of the loop.\<close>

definition after_tools :: "'w run_env \<Rightarrow> tool_call list \<Rightarrow> message list \<Rightarrow> message \<Rightarrow> run_state
    \<Rightarrow> turn_end \<times> run_state \<times> event list" where
  "after_tools env calls results assistant s =
     (let (v, g) = guard_observe (en_digest env) (st_guard s) calls results;
          s1 = (push_messages results s)\<lparr>st_guard := g\<rparr>
      in case v of
           GuardOK \<Rightarrow> (Continues, s1, [EvTurnEnd assistant])
         | GuardNudge k n t \<Rightarrow>
             (Continues, push_message (guardrail_user_message t k) s1,
              [EvGuardNudge t k n, EvTurnEnd assistant])
         | GuardHalt k n t \<Rightarrow> (Stopped (Some (guard_error k t)), s1, [EvGuardHalt t k n]))"

definition after_assistant :: "'w run_env \<Rightarrow> 'w run_request \<Rightarrow> message \<Rightarrow> run_state \<Rightarrow> 'w
    \<Rightarrow> turn_end \<times> run_state \<times> event list \<times> 'w" where
  "after_assistant env rq assistant s w =
     (let calls = collect_tool_calls assistant in
      if calls = [] then
        (if rq_auto_continue rq \<and> su_tools (rq_setup rq) \<noteq> [] \<and> st_auto s < max_auto_continues
            \<and> stall_intent assistant
         then (Continues, push_message auto_continue_user_message (s\<lparr>st_auto := Suc (st_auto s)\<rparr>),
               [EvAutoContinue assistant, EvTurnEnd assistant], w)
         else (Stopped None, s, [EvTurnEnd assistant], w))
      else
        (case en_ctx env w of
           (Some e, w1) \<Rightarrow> (Stopped (Some e), s, [], w1)
         | (None, w1) \<Rightarrow>
             (case execute_tool_calls env (rq_setup rq) calls w1 of
                (Inl e, ev, w2) \<Rightarrow> (Stopped (Some e), s, ev, w2)
              | (Inr results, ev, w2) \<Rightarrow>
                  (let (t, s', ev') = after_tools env calls results assistant s
                   in (t, s', ev @ ev', w2)))))"

definition run_turn :: "'w run_env \<Rightarrow> 'w provider \<Rightarrow> 'w run_request \<Rightarrow> run_state \<Rightarrow> 'w
    \<Rightarrow> turn_end \<times> run_state \<times> event list \<times> 'w" where
  "run_turn env prov rq s w =
     (case en_ctx env w of
        (Some e, w1) \<Rightarrow> (Stopped (Some e), s, [], w1)
      | (None, w1) \<Rightarrow>
          (case run_turn_with_retry (rq_retry rq) (en_ctx env) (en_sleep env)
                  (run_assistant_turn prov rq (st_messages s)) w1 of
             (Inl e, ev, w2) \<Rightarrow> (Stopped (Some e), s, EvTurnStart # ev, w2)
           | (Inr a, ev, w2) \<Rightarrow>
               (let (t, s', ev', w3) = after_assistant env rq a (push_assistant a s) w2
                in (t, s', EvTurnStart # ev @ ev', w3))))"

text \<open>\<open>for turn := 0; turn < maxTurns; turn++\<close>, with the turns left as a natural number.\<close>

fun run_loop :: "'w run_env \<Rightarrow> 'w provider \<Rightarrow> 'w run_request \<Rightarrow> nat \<Rightarrow> run_state \<Rightarrow> 'w
    \<Rightarrow> go_error option \<times> run_state \<times> event list \<times> 'w" where
  "run_loop env prov rq 0 s w =
     (Some (max_turns_error (effective_max_turns rq)), tag_max_turns s, [], w)"
| "run_loop env prov rq (Suc n) s w =
     (case run_turn env prov rq s w of
        (Stopped e, s', ev, w') \<Rightarrow> (e, s', ev, w')
      | (Continues, s', ev, w') \<Rightarrow>
          (let (e, s'', ev', w'') = run_loop env prov rq n s' w' in (e, s'', ev @ ev', w'')))"

record run_result =
  rr_messages :: "message list"
  rr_new :: "message list"

definition initial_run_state :: "'w run_request \<Rightarrow> run_state" where
  "initial_run_state rq = \<lparr>st_messages = harden_history (rq_messages rq) (rq_model rq), st_new = [],
     st_last = None, st_last_new = None, st_auto = 0, st_guard = new_guard_state (rq_guardrails rq)\<rparr>"

definition err_no_provider :: go_error where
  "err_no_provider = new_error ''loop: provider is required''"

definition run :: "'w run_env \<Rightarrow> 'w run_request \<Rightarrow> 'w
    \<Rightarrow> (run_result \<times> go_error option) \<times> event list \<times> 'w" where
  "run env rq w =
     (case rq_provider rq of
        None \<Rightarrow> ((\<lparr>rr_messages = [], rr_new = []\<rparr>, Some err_no_provider), [], w)
      | Some prov \<Rightarrow>
          (let (e, s, ev, w') = run_loop env prov rq (nat (effective_max_turns rq))
                                  (initial_run_state rq) w
           in ((\<lparr>rr_messages = st_messages s, rr_new = st_new s\<rparr>, e),
               EvLoopStart # ev @ (case e of None \<Rightarrow> [] | Some x \<Rightarrow> [EvError (err_text x)])
                 @ [EvLoopEnd (st_new s)], w')))"

section \<open>The transcript a run leaves behind\<close>

lemmas push_defs = push_message_def push_messages_def push_assistant_def

text \<open>The new messages are a suffix of the transcript, and the remembered positions of the last
  assistant turn denote the same message in both.\<close>

definition run_inv :: "message list \<Rightarrow> run_state \<Rightarrow> bool" where
  "run_inv hist s \<longleftrightarrow> st_messages s = hist @ st_new s
     \<and> st_last s = map_option ((+) (length hist)) (st_last_new s)
     \<and> pred_option (\<lambda>i. i < length (st_new s)) (st_last_new s)"

lemma run_inv_push:
  "run_inv hist s \<Longrightarrow> run_inv hist (push_message m s)"
  "run_inv hist s \<Longrightarrow> run_inv hist (push_messages ms s)"
  "run_inv hist s \<Longrightarrow> run_inv hist (push_assistant m s)"
  by (auto simp: run_inv_def push_defs pred_option_def option.pred_set elim!: option.set_cases)

lemma run_inv_update [simp]:
  "run_inv hist (s\<lparr>st_guard := g\<rparr>) = run_inv hist s"
  "run_inv hist (s\<lparr>st_auto := n\<rparr>) = run_inv hist s"
  by (simp_all add: run_inv_def)

lemma run_inv_after_tools:
  "run_inv hist s \<Longrightarrow> after_tools env cs ms a s = (t, s', ev) \<Longrightarrow> run_inv hist s'"
  by (auto simp: after_tools_def Let_def run_inv_push split: prod.splits guard_verdict.splits)

lemma run_inv_after_assistant:
  "run_inv hist s \<Longrightarrow> after_assistant env rq a s w = (t, s', ev, w') \<Longrightarrow> run_inv hist s'"
  by (auto simp: after_assistant_def Let_def run_inv_push
      dest: run_inv_after_tools split: if_splits option.splits prod.splits sum.splits)

lemma run_inv_turn:
  "run_inv hist s \<Longrightarrow> run_turn env prov rq s w = (t, s', ev, w') \<Longrightarrow> run_inv hist s'"
  by (auto simp: run_turn_def Let_def dest: run_inv_after_assistant [OF run_inv_push(3)]
      split: option.splits prod.splits sum.splits)

lemma run_inv_tag: "run_inv hist s \<Longrightarrow> run_inv hist (tag_max_turns s)"
  by (cases "st_last_new s")
     (auto simp: run_inv_def tag_max_turns_def tag_at_def list_update_append nth_append)

lemma run_inv_loop:
  "run_inv hist s \<Longrightarrow> run_loop env prov rq n s w = (e, s', ev, w') \<Longrightarrow> run_inv hist s'"
proof (induction n arbitrary: s w e s' ev w')
  case 0
  then show ?case by (auto simp: run_inv_tag)
next
  case (Suc n)
  obtain t s1 ev1 w1 where t: "run_turn env prov rq s w = (t, s1, ev1, w1)" by (metis surj_pair)
  note i = run_inv_turn [OF Suc.prems(1) t]
  obtain e2 s2 ev2 w2 where l: "run_loop env prov rq n s1 w1 = (e2, s2, ev2, w2)"
    by (metis surj_pair)
  show ?case using Suc.prems(2) t i l Suc.IH [OF i l] by (cases t) simp_all
qed

lemma run_inv_initial: "run_inv (harden_history (rq_messages rq) (rq_model rq)) (initial_run_state rq)"
  by (simp add: run_inv_def initial_run_state_def)

section \<open>Answered calls\<close>

lemma harden_history_answered: "calls_answered (harden_history ms active)"
  using harden_history_well_formed [of ms active] by (simp add: well_formed_def)

lemma replies_tools: "list_all2 replies cs ms \<Longrightarrow> list_all is_tool ms"
  by (induction rule: list_all2_induct) (auto simp: replies_def)

lemma replies_cover:
  "list_all2 replies cs ms \<Longrightarrow> c \<in> set cs \<Longrightarrow> \<exists>m\<in>set ms. is_tool m \<and> msg_call_id m = tc_id c"
  by (induction rule: list_all2_induct) (auto simp: replies_def)

lemma round_answered:
  assumes "list_all2 replies (collect_tool_calls a) ms" and "calls_answered xs"
  shows "calls_answered (xs @ a # ms)"
  by (rule calls_answered_append [OF assms(2)])
     (use replies_cover [OF assms(1)] calls_answered_tools [OF replies_tools [OF assms(1)]] in auto)

lemma answered_single: "collect_tool_calls a = [] \<Longrightarrow> calls_answered [a]"
  by simp

definition silent_user :: "message \<Rightarrow> bool" where
  "silent_user m \<longleftrightarrow> \<not> is_assistant m"

lemma silent_nudges:
  "silent_user (guardrail_user_message t k)" "silent_user auto_continue_user_message"
  by (simp_all add: silent_user_def is_assistant_def guardrail_user_message_def
      auto_continue_user_message_def user_text_def)

lemma answered_silent: "calls_answered xs \<Longrightarrow> silent_user m \<Longrightarrow> calls_answered (xs @ [m])"
  by (rule calls_answered_append) (simp_all add: silent_user_def)

text \<open>A provider that speaks as the assistant: the messages in its start and done events have the
  assistant's role or none. \<open>streamAssistant\<close> fills in a missing role but keeps any other.\<close>

definition assistant_item :: "go_time \<times> received \<Rightarrow> bool" where
  "assistant_item x =
     (case snd x of
        RecvEvent (PStart (Some m)) \<Rightarrow> is_assistant (default_role m)
      | RecvEvent (PDone (Some m)) \<Rightarrow> is_assistant (default_role m)
      | _ \<Rightarrow> True)"

definition speaks_as_assistant :: "'w provider \<Rightarrow> bool" where
  "speaks_as_assistant prov \<longleftrightarrow>
     (\<forall>rq w items w'. prov rq w = (Inr items, w') \<longrightarrow> list_all assistant_item items)"

lemma is_assistant_kept [simp]:
  "is_assistant (append_delta k i d m) = is_assistant m"
  "is_assistant (default_created now m) = is_assistant m"
  "is_assistant (default_stop m) = is_assistant m"
  "is_assistant (m\<lparr>msg_content := ps\<rparr>) = is_assistant m"
  "is_assistant (fresh_assistant model now)"
  "is_assistant (default_role (fresh_assistant model now))"
  by (simp_all add: is_assistant_def append_delta_def default_created_def default_stop_def
      fresh_assistant_def default_role_def Let_def)

definition assistant_state :: "turn_state \<Rightarrow> bool" where
  "assistant_state s \<longleftrightarrow> (tu_started s \<longrightarrow> is_assistant (tu_message s)) \<and> (tu_done s \<longrightarrow> tu_started s)"

lemma ensure_started_assistant:
  "assistant_state s \<Longrightarrow> ensure_started model now s = (s', ev)
    \<Longrightarrow> assistant_state s' \<and> tu_started s' \<and> is_assistant (tu_message s')"
  by (auto simp: ensure_started_def assistant_state_def Let_def split: if_splits)

lemma stream_step_assistant:
  assumes s: "assistant_state s" and i: "assistant_item (now, RecvEvent e)"
    and x: "stream_step model now e s = (Inr s', ev)"
  shows "assistant_state s'"
proof -
  obtain s1 ev1 where e: "ensure_started model now s = (s1, ev1)" by fastforce
  have "assistant_state s1" "tu_started s1" "is_assistant (tu_message s1)"
    using ensure_started_assistant [OF s e] by simp_all
  then show ?thesis using i x e
    by (cases e) (auto simp: stream_step_def assistant_state_def assistant_item_def Let_def
        split: option.splits)
qed

lemma read_stream_assistant:
  "assistant_state s \<Longrightarrow> list_all assistant_item items \<Longrightarrow> read_stream model items s = (Inr a, ev)
    \<Longrightarrow> is_assistant a"
proof (induction model items s arbitrary: ev rule: read_stream.induct)
  case (1 model s)
  then show ?case by (auto simp: assistant_state_def split: if_splits)
next
  case (3 model now e rest s)
  obtain x ev1 where x: "stream_step model now e s = (x, ev1)" by fastforce
  show ?case
  proof (cases x)
    case (Inr s')
    obtain r2 ev2 where r2: "read_stream model rest s' = (r2, ev2)" by fastforce
    have "assistant_state s'"
      using stream_step_assistant "3.prems"(1,2) x [unfolded Inr] by auto
    then show ?thesis using "3.prems" x Inr r2 "3.IH" [OF x [symmetric] Inr] by auto
  qed (use "3.prems" x in auto)
qed simp

lemma run_assistant_turn_assistant:
  assumes "speaks_as_assistant prov" and "run_assistant_turn prov rq ms w = (Inr a, ev, w')"
  shows "is_assistant a"
proof -
  obtain items w1 where p: "prov (provider_request_of rq ms) w = (Inr items, w1)"
    using assms(2) by (auto simp: run_assistant_turn_def split: prod.splits sum.splits)
  then have "list_all assistant_item items" using assms(1) by (auto simp: speaks_as_assistant_def)
  moreover obtain ev1 where "read_stream (rq_model rq) items
      \<lparr>tu_message = zero_message, tu_started = False, tu_done = False\<rparr> = (Inr a, ev1)"
    using assms(2) p by (auto simp: run_assistant_turn_def split: prod.splits)
  moreover have "assistant_state \<lparr>tu_message = zero_message, tu_started = False, tu_done = False\<rparr>"
    by (simp add: assistant_state_def)
  ultimately show ?thesis using read_stream_assistant by blast
qed

lemma retry_loop_value:
  assumes turn: "\<And>w a ev w'. turn w = (Inr a, ev, w') \<Longrightarrow> P a"
  shows "retry_loop p ctx slp turn n w = (Inr a, ev, w') \<Longrightarrow> P a"
proof (induction "nat (rp_max_retries p - int n)" arbitrary: n w ev w' rule: less_induct)
  case (less n w ev w')
  obtain x ev1 w1 where t: "turn w = (x, ev1, w1)" by (metis surj_pair)
  obtain k w2 where k: "ctx w1 = (k, w2)" by fastforce
  show ?case
  proof (cases x)
    case (Inl e)
    obtain sl w3 where sl: "slp (retry_delay p n (Some e)) w2 = (sl, w3)" by fastforce
    obtain r4 ev4 w4 where rec: "retry_loop p ctx slp turn (Suc n) w3 = (r4, ev4, w4)"
      by (metis surj_pair)
    have "P a" if "int n < rp_max_retries p" "r4 = Inr a"
      using less(1) [OF _ rec [unfolded that(2)]] that(1) by simp
    then show ?thesis using less(2) t Inl k sl rec
      by (subst (asm) retry_loop.simps)
         (cases k; cases "classify (err_text e)"; cases sl; auto split: if_splits)
  next
    case (Inr m)
    then show ?thesis using less(2) t turn [of w m ev1 w1] retry_loop_Inr [of turn w m ev1 w1 p ctx slp n]
      by simp
  qed
qed

lemma run_turn_with_retry_assistant:
  assumes "speaks_as_assistant prov"
    and "run_turn_with_retry p ctx slp (run_assistant_turn prov rq ms) w = (Inr a, ev, w')"
  shows "is_assistant a"
  using assms(2) run_assistant_turn_assistant [OF assms(1)]
  by (auto simp: run_turn_with_retry_def split: if_splits elim!: retry_loop_value [rotated])

text \<open>After an iteration that goes on, or that ends the run without an error, every call has its
  result. In the second case the last message is the turn just taken, which has no calls and is
  announced by the last event; \<open>P\<close> is what is known of the messages the turns deliver.\<close>

definition settled_end :: "(message \<Rightarrow> bool) \<Rightarrow> turn_end \<Rightarrow> run_state \<Rightarrow> event list \<Rightarrow> bool" where
  "settled_end P t s ev \<longleftrightarrow>
     (case t of
        Continues \<Rightarrow> calls_answered (st_new s)
      | Stopped None \<Rightarrow> calls_answered (st_new s) \<and> st_new s \<noteq> []
          \<and> collect_tool_calls (last (st_new s)) = [] \<and> P (last (st_new s))
          \<and> (\<exists>before. ev = before @ [EvTurnEnd (last (st_new s))])
      | Stopped (Some e) \<Rightarrow> True)"

lemma settled_end_prefix: "settled_end P t s ev \<Longrightarrow> settled_end P t s (before @ ev)"
  by (auto simp: settled_end_def split: turn_end.splits option.splits)

lemma after_tools_settled:
  assumes "list_all2 replies (collect_tool_calls a) ms" and "calls_answered xs"
    and "st_new s = xs @ [a]" and "after_tools env cs ms a s = (t, s', ev)"
  shows "settled_end P t s' ev"
proof -
  have c: "calls_answered (xs @ a # ms)" using round_answered [OF assms(1,2)] .
  have "calls_answered ((xs @ a # ms) @ [guardrail_user_message t k])" for t k
    using answered_silent [OF c silent_nudges(1)] .
  with c assms(3,4) show ?thesis
    by (auto simp: after_tools_def settled_end_def push_defs Let_def
        split: prod.splits guard_verdict.splits)
qed

lemma after_assistant_settled:
  assumes "calls_answered (st_new s)" and "P a"
    and "after_assistant env rq a (push_assistant a s) w = (t, s', ev, w')"
  shows "settled_end P t s' ev"
proof (cases "collect_tool_calls a = []")
  case True
  have c: "calls_answered (st_new s @ [a])"
    by (intro calls_answered_append assms(1) answered_single True)
  have "calls_answered ((st_new s @ [a]) @ [auto_continue_user_message])"
    using answered_silent [OF c silent_nudges(2)] .
  with c True assms(2,3) show ?thesis
    by (auto simp: after_assistant_def settled_end_def push_defs Let_def split: if_splits)
next
  case False
  obtain k w1 where k: "en_ctx env w = (k, w1)" by fastforce
  obtain r ev1 w2 where r: "execute_tool_calls env (rq_setup rq) (collect_tool_calls a) w1 = (r, ev1, w2)"
    by (metis surj_pair)
  show ?thesis
  proof (cases "k = None \<and> \<not> isl r")
    case True
    then obtain ms where ms: "r = Inr ms" by (cases r) auto
    obtain t1 s1 ev2 where u: "after_tools env (collect_tool_calls a) ms a (push_assistant a s) = (t1, s1, ev2)"
      by (metis surj_pair)
    have "settled_end P t1 s1 ev2"
      using after_tools_settled [OF _ assms(1) _ u] execute_tool_calls_replies [OF r [unfolded ms]]
      by (simp add: push_defs)
    then show ?thesis using assms(3) False True k r ms u
      by (auto simp: after_assistant_def Let_def settled_end_prefix)
  next
    case f: False
    then have "\<exists>e. t = Stopped (Some e)" using assms(3) False k r
      by (auto simp: after_assistant_def Let_def split: option.splits sum.splits)
    then show ?thesis by (auto simp: settled_end_def)
  qed
qed

abbreviation assistant_of :: "'w provider \<Rightarrow> message \<Rightarrow> bool" where
  "assistant_of prov a \<equiv> speaks_as_assistant prov \<longrightarrow> is_assistant a"

lemma run_turn_settled:
  assumes c: "calls_answered (st_new s)" and t: "run_turn env prov rq s w = (t, s', ev, w')"
  shows "settled_end (assistant_of prov) t s' ev"
proof -
  obtain k w1 where k: "en_ctx env w = (k, w1)" by fastforce
  obtain r ev1 w2 where r: "run_turn_with_retry (rq_retry rq) (en_ctx env) (en_sleep env)
      (run_assistant_turn prov rq (st_messages s)) w1 = (r, ev1, w2)" by (metis surj_pair)
  show ?thesis
  proof (cases "k = None \<and> \<not> isl r")
    case True
    then obtain a where a: "r = Inr a" by (cases r) auto
    obtain t1 s1 ev2 w3 where n: "after_assistant env rq a (push_assistant a s) w2 = (t1, s1, ev2, w3)"
      by (metis surj_pair)
    have "assistant_of prov a" using run_turn_with_retry_assistant [OF _ r [unfolded a]] by simp
    then have "settled_end (assistant_of prov) t1 s1 ev2"
      by (rule after_assistant_settled [OF c _ n])
    then have "settled_end (assistant_of prov) t1 s1 ((EvTurnStart # ev1) @ ev2)"
      by (rule settled_end_prefix)
    then show ?thesis using t True k r a n by (auto simp: run_turn_def)
  next
    case False
    then have "\<exists>e. t = Stopped (Some e)" using t k r
      by (auto simp: run_turn_def split: option.splits sum.splits)
    then show ?thesis by (auto simp: settled_end_def)
  qed
qed

lemma run_loop_settled:
  "calls_answered (st_new s) \<Longrightarrow> run_loop env prov rq n s w = (None, s', ev, w')
    \<Longrightarrow> settled_end (assistant_of prov) (Stopped None) s' ev"
proof (induction n arbitrary: s w s' ev w')
  case (Suc n)
  obtain t s1 ev1 w1 where t: "run_turn env prov rq s w = (t, s1, ev1, w1)" by (metis surj_pair)
  note i = run_turn_settled [OF Suc.prems(1) t]
  obtain e2 s2 ev2 w2 where l: "run_loop env prov rq n s1 w1 = (e2, s2, ev2, w2)"
    by (metis surj_pair)
  show ?case
  proof (cases t)
    case Continues
    then have "calls_answered (st_new s1)" using i by (simp add: settled_end_def)
    moreover have "e2 = None" "s' = s2" and ev: "ev = ev1 @ ev2"
      using Suc.prems(2) t l Continues by simp_all
    ultimately have "settled_end (assistant_of prov) (Stopped None) s' ev2"
      using Suc.IH [of s1 w1] l by blast
    then show ?thesis unfolding ev by (rule settled_end_prefix)
  next
    case (Stopped e)
    then show ?thesis using i t Suc.prems(2) by simp
  qed
qed simp

section \<open>The events of a run\<close>

text \<open>Events that only \<open>Run\<close> itself emits.\<close>

fun loop_level :: "event \<Rightarrow> bool" where
  "loop_level EvLoopStart = True"
| "loop_level (EvLoopEnd _) = True"
| "loop_level EvTurnStart = True"
| "loop_level (EvTurnEnd _) = True"
| "loop_level (EvAutoContinue _) = True"
| "loop_level (EvGuardNudge _ _ _) = True"
| "loop_level (EvGuardHalt _ _ _) = True"
| "loop_level (EvError _) = True"
| "loop_level _ = False"

abbreviation inner_events :: "event list \<Rightarrow> bool" where
  "inner_events ev \<equiv> filter loop_level ev = []"

lemma ensure_started_inner: "ensure_started model now s = (s', ev) \<Longrightarrow> inner_events ev"
  by (auto simp: ensure_started_def Let_def split: if_splits)

lemma stream_step_inner: "stream_step model now e s = (r, ev) \<Longrightarrow> inner_events ev"
  by (auto simp: stream_step_def Let_def dest: ensure_started_inner
      split: provider_event.splits prod.splits option.splits)

lemma read_stream_inner: "read_stream model items s = (r, ev) \<Longrightarrow> inner_events ev"
proof (induction model items s arbitrary: r ev rule: read_stream.induct)
  case (3 model now e rest s)
  obtain x ev1 where x: "stream_step model now e s = (x, ev1)" by fastforce
  note i = stream_step_inner [OF x]
  show ?case
  proof (cases x)
    case (Inr s')
    obtain r2 ev2 where r2: "read_stream model rest s' = (r2, ev2)" by fastforce
    show ?thesis using "3.prems" x Inr r2 i "3.IH" [OF x [symmetric] Inr r2] by auto
  qed (use "3.prems" x i in auto)
qed auto

lemma run_assistant_turn_inner: "run_assistant_turn prov rq ms w = (r, ev, w') \<Longrightarrow> inner_events ev"
  by (auto simp: run_assistant_turn_def Let_def dest: read_stream_inner
      split: prod.splits sum.splits)

lemma retry_loop_inner:
  assumes turn: "\<And>w r ev w'. turn w = (r, ev, w') \<Longrightarrow> inner_events ev"
  shows "retry_loop p ctx slp turn a w = (r, ev, w') \<Longrightarrow> inner_events ev"
proof (induction "nat (rp_max_retries p - int a)" arbitrary: a w r ev w' rule: less_induct)
  case (less a w r ev w')
  obtain x ev1 w1 where t: "turn w = (x, ev1, w1)" by (metis surj_pair)
  note i = turn [OF t]
  obtain k w2 where k: "ctx w1 = (k, w2)" by fastforce
  show ?case
  proof (cases x)
    case (Inl e)
    obtain sl w3 where sl: "slp (retry_delay p a (Some e)) w2 = (sl, w3)" by fastforce
    obtain r4 ev4 w4 where rec: "retry_loop p ctx slp turn (Suc a) w3 = (r4, ev4, w4)"
      by (metis surj_pair)
    have "inner_events ev4" if "int a < rp_max_retries p"
      using less(1) [OF _ rec] that by simp
    then show ?thesis using less(2) t Inl i k sl rec
      by (subst (asm) retry_loop.simps)
         (cases k; cases "classify (err_text e)"; cases sl;
          auto simp: retry_event_def split: if_splits)
  next
    case (Inr m)
    then show ?thesis using less(2) t i retry_loop_Inr [of turn w m ev1 w1 p ctx slp a] by simp
  qed
qed

lemma run_turn_with_retry_inner:
  "run_turn_with_retry p ctx slp (run_assistant_turn prov rq ms) w = (r, ev, w') \<Longrightarrow> inner_events ev"
  by (auto simp: run_turn_with_retry_def dest: run_assistant_turn_inner
      split: if_splits elim!: retry_loop_inner [rotated])

lemma run_sequential_inner: "run_sequential env su cs w = (r, ev, w') \<Longrightarrow> inner_events ev"
proof (induction cs arbitrary: w r ev w')
  case (Cons c cs)
  then show ?case
    by (auto split: option.splits prod.splits sum.splits)
qed auto

lemma collect_outcomes_inner: "collect_outcomes xs = (r, ev) \<Longrightarrow> inner_events ev"
  by (induction xs arbitrary: r ev) (auto split: sum.splits prod.splits)

lemma inner_starts: "inner_events (map EvToolStart cs)"
  by (induction cs) auto

lemma execute_tool_calls_inner:
  assumes "execute_tool_calls env su cs w = (r, ev, w')"
  shows "inner_events ev"
proof -
  obtain x ev1 w1
    where x: "(if su_parallel su then run_parallel else run_sequential) env su cs w = (x, ev1, w1)"
    by (metis surj_pair)
  then have "inner_events ev1"
    by (auto simp: run_parallel_def Let_def inner_starts dest: run_sequential_inner
        split: if_splits prod.splits)
  then show ?thesis using assms x
    by (auto simp: execute_tool_calls_def finish_round_def Let_def dest: collect_outcomes_inner
        split: sum.splits prod.splits option.splits)
qed

text \<open>The loop events of one iteration.\<close>

definition turn_trace :: "turn_end \<Rightarrow> event list \<Rightarrow> bool" where
  "turn_trace t ev \<longleftrightarrow>
     (case t of
        Continues \<Rightarrow> (\<exists>a. ev = [EvTurnStart, EvTurnEnd a] \<or> ev = [EvTurnStart, EvAutoContinue a, EvTurnEnd a]
          \<or> (\<exists>x k n. ev = [EvTurnStart, EvGuardNudge x k n, EvTurnEnd a]))
      | Stopped None \<Rightarrow> (\<exists>a. ev = [EvTurnStart, EvTurnEnd a])
      | Stopped (Some e) \<Rightarrow> ev = [] \<or> ev = [EvTurnStart] \<or> (\<exists>x k n. ev = [EvTurnStart, EvGuardHalt x k n]))"

definition auto_count :: "event list \<Rightarrow> nat" where
  "auto_count ev = length (filter (\<lambda>e. case e of EvAutoContinue _ \<Rightarrow> True | _ \<Rightarrow> False) ev)"

lemma auto_count_simps [simp]:
  "auto_count [] = 0" "auto_count (e # ev) = (case e of EvAutoContinue _ \<Rightarrow> 1 | _ \<Rightarrow> 0) + auto_count ev"
  "auto_count (ev @ ev') = auto_count ev + auto_count ev'"
  by (auto simp: auto_count_def split: event.splits)

lemma after_assistant_trace:
  assumes "after_assistant env rq a s w = (t, s', ev, w')"
  shows "turn_trace t (EvTurnStart # filter loop_level ev)
    \<and> st_auto s' = st_auto s + auto_count (filter loop_level ev)
    \<and> (st_auto s \<le> max_auto_continues \<longrightarrow> st_auto s' \<le> max_auto_continues)"
proof (cases "collect_tool_calls a = []")
  case True
  with assms show ?thesis
    by (auto simp: after_assistant_def turn_trace_def push_defs split: if_splits)
next
  case False
  obtain k w1 where k: "en_ctx env w = (k, w1)" by fastforce
  obtain r ev1 w2 where r: "execute_tool_calls env (rq_setup rq) (collect_tool_calls a) w1 = (r, ev1, w2)"
    by (metis surj_pair)
  note i = execute_tool_calls_inner [OF r]
  show ?thesis using assms False k r i
    by (auto simp: after_assistant_def after_tools_def turn_trace_def push_defs Let_def
        split: option.splits sum.splits prod.splits guard_verdict.splits)
qed

lemma run_turn_trace:
  assumes "run_turn env prov rq s w = (t, s', ev, w')"
  shows "turn_trace t (filter loop_level ev)
    \<and> st_auto s' = st_auto s + auto_count (filter loop_level ev)
    \<and> (st_auto s \<le> max_auto_continues \<longrightarrow> st_auto s' \<le> max_auto_continues)"
proof -
  obtain k w1 where k: "en_ctx env w = (k, w1)" by fastforce
  obtain r ev1 w2 where r: "run_turn_with_retry (rq_retry rq) (en_ctx env) (en_sleep env)
      (run_assistant_turn prov rq (st_messages s)) w1 = (r, ev1, w2)"
    by (metis surj_pair)
  note i = run_turn_with_retry_inner [OF r]
  show ?thesis
  proof (cases "k = None \<and> \<not> isl r")
    case True
    then obtain a where a: "r = Inr a" by (cases r) auto
    obtain t1 s1 ev2 w3 where u: "after_assistant env rq a (push_assistant a s) w2 = (t1, s1, ev2, w3)"
      by (metis surj_pair)
    show ?thesis using after_assistant_trace [OF u] assms k r i True a u
      by (auto simp: run_turn_def push_defs)
  next
    case False
    then show ?thesis using assms k r i
      by (auto simp: run_turn_def turn_trace_def split: option.splits sum.splits)
  qed
qed

text \<open>The whole loop: iterations that go on, then one that stops, or the budget runs out.\<close>

fun loop_trace :: "nat \<Rightarrow> go_error option \<Rightarrow> event list \<Rightarrow> bool" where
  "loop_trace 0 e ev \<longleftrightarrow> e \<noteq> None \<and> ev = []"
| "loop_trace (Suc n) e ev \<longleftrightarrow> turn_trace (Stopped e) ev
     \<or> (\<exists>ev1 ev2. ev = ev1 @ ev2 \<and> turn_trace Continues ev1 \<and> loop_trace n e ev2)"

lemma run_loop_trace:
  assumes "run_loop env prov rq n s w = (e, s', ev, w')" and "st_auto s \<le> max_auto_continues"
  shows "loop_trace n e (filter loop_level ev)
    \<and> st_auto s + auto_count (filter loop_level ev) \<le> max_auto_continues"
  using assms
proof (induction n arbitrary: s w e s' ev w')
  case (Suc n)
  obtain t s1 ev1 w1 where t: "run_turn env prov rq s w = (t, s1, ev1, w1)" by (metis surj_pair)
  note i = run_turn_trace [OF t]
  obtain e2 s2 ev2 w2 where l: "run_loop env prov rq n s1 w1 = (e2, s2, ev2, w2)"
    by (metis surj_pair)
  show ?case
  proof (cases t)
    case Continues
    then have eq: "e = e2" "ev = ev1 @ ev2" using Suc.prems(1) t l by simp_all
    have "loop_trace n e2 (filter loop_level ev2)"
      and "st_auto s1 + auto_count (filter loop_level ev2) \<le> max_auto_continues"
      using Suc.IH [OF l] i Suc.prems(2) by auto
    then show ?thesis using i Continues eq by auto
  next
    case (Stopped x)
    then show ?thesis using i t Suc.prems by auto
  qed
qed auto

definition turn_count :: "event list \<Rightarrow> nat" where
  "turn_count ev = length (filter (\<lambda>e. e = EvTurnStart) ev)"

lemma turn_count_append: "turn_count (xs @ ys) = turn_count xs + turn_count ys"
  by (simp add: turn_count_def)

lemma turn_trace_count: "turn_trace t ev \<Longrightarrow> turn_count ev \<le> 1"
  by (cases t) (auto simp: turn_trace_def turn_count_def split: option.splits)

lemma loop_trace_count: "loop_trace n e ev \<Longrightarrow> turn_count ev \<le> n"
proof (induction n arbitrary: ev)
  case (Suc n)
  from Suc.prems consider "turn_trace (Stopped e) ev"
    | ev1 ev2 where "ev = ev1 @ ev2" "turn_trace Continues ev1" "loop_trace n e ev2" by auto
  then show ?case
  proof cases
    case 1
    then show ?thesis using turn_trace_count by fastforce
  next
    case 2
    then show ?thesis using Suc.IH [of ev2] turn_trace_count [of Continues ev1]
      by (simp add: turn_count_append)
  qed
qed (auto simp: turn_count_def)

lemma turn_count_filter: "turn_count (filter loop_level ev) = turn_count ev"
  by (induction ev) (auto simp: turn_count_def)

lemma auto_count_filter: "auto_count (filter loop_level ev) = auto_count ev"
  by (induction ev) (auto split: event.split)

lemma effective_max_turns_pos: "0 < effective_max_turns rq"
  by (simp add: effective_max_turns_def default_max_turns_def)

section \<open>Runs under a permission handler that denies\<close>

lemma after_assistant_denied:
  assumes "same_free_setup (rq_setup rq) su" and "denies (su_permission (rq_setup rq))"
  shows "after_assistant env (rq\<lparr>rq_setup := su\<rparr>) a s w = after_assistant env rq a s w"
proof -
  have "su_tools su = [] \<longleftrightarrow> su_tools (rq_setup rq) = []"
    using assms(1) by (auto simp: same_free_setup_def)
  then show ?thesis
    by (simp add: after_assistant_def execute_tool_calls_denied [OF assms] Let_def cong: case_congs)
qed

lemma provider_request_free:
  assumes "same_free_setup (rq_setup rq) su"
  shows "provider_request_of (rq\<lparr>rq_setup := su\<rparr>) ms = provider_request_of rq ms"
proof -
  have "list_all2 same_free_tool ts ts' \<Longrightarrow> map tl_spec ts' = map tl_spec ts"
    for ts ts' :: "'a tool list"
    by (induction rule: list_all2_induct) (auto simp: same_free_tool_def)
  then show ?thesis using assms by (simp add: provider_request_of_def same_free_setup_def)
qed

lemma run_loop_denied:
  assumes "same_free_setup (rq_setup rq) su" and "denies (su_permission (rq_setup rq))"
  shows "run_loop env prov (rq\<lparr>rq_setup := su\<rparr>) n s w = run_loop env prov rq n s w"
proof -
  have "run_assistant_turn prov (rq\<lparr>rq_setup := su\<rparr>) ms = run_assistant_turn prov rq ms" for ms
    by (intro ext)
       (simp add: run_assistant_turn_def provider_request_free [OF assms(1)] cong: case_congs)
  then have "run_turn env prov (rq\<lparr>rq_setup := su\<rparr>) = run_turn env prov rq"
    by (intro ext) (simp add: run_turn_def after_assistant_denied [OF assms] cong: case_congs)
  then show ?thesis
    by (induction n arbitrary: s w) (simp_all add: effective_max_turns_def cong: case_congs turn_end.case_cong)
qed

lemma run_denied:
  assumes "same_free_setup (rq_setup rq) su" and "denies (su_permission (rq_setup rq))"
  shows "run env (rq\<lparr>rq_setup := su\<rparr>) w = run env rq w"
  by (simp add: run_def run_loop_denied [OF assms] initial_run_state_def effective_max_turns_def
      cong: case_congs)

section \<open>Properties\<close>

text \<open>C15. However a run ends, the transcript it returns is the hardened input followed by the new
  messages: nothing is lost, reordered or inserted elsewhere, and the max-turns tag is put on the
  same message in both.\<close>

theorem run_extends_history:
  "let r = fst (fst (run env rq w)) in
     rr_messages r = (if rq_provider rq = None then []
       else harden_history (rq_messages rq) (rq_model rq)) @ rr_new r"
proof (cases "rq_provider rq")
  case (Some prov)
  obtain e s ev w' where l: "run_loop env prov rq (nat (effective_max_turns rq))
      (initial_run_state rq) w = (e, s, ev, w')" by (metis surj_pair)
  show ?thesis using run_inv_loop [OF run_inv_initial l] Some l
    by (simp add: run_def run_inv_def Let_def)
qed (simp add: run_def Let_def)

text \<open>C16. A run that ends without an error leaves a transcript in which every tool call has its
  result, and its last message is the turn just taken: it is announced by the last turn-end event,
  it requests no tools, and it is an assistant message whenever the provider speaks as the assistant
  (a nudge or an auto-continue message never ends a run).\<close>

theorem run_ends_settled:
  assumes "rq_provider rq = Some prov" and "run env rq w = ((r, None), ev, w')"
  shows "calls_answered (rr_messages r) \<and> rr_new r \<noteq> [] \<and> collect_tool_calls (last (rr_new r)) = []
    \<and> (\<exists>before. ev = before @ [EvTurnEnd (last (rr_new r)), EvLoopEnd (rr_new r)])
    \<and> (speaks_as_assistant prov \<longrightarrow> is_assistant (last (rr_new r)))"
proof -
  obtain e s ev' w'' where l: "run_loop env prov rq (nat (effective_max_turns rq))
      (initial_run_state rq) w = (e, s, ev', w'')" by (metis surj_pair)
  have e: "e = None" and r: "r = \<lparr>rr_messages = st_messages s, rr_new = st_new s\<rparr>"
    and ev: "ev = EvLoopStart # ev' @ [EvLoopEnd (st_new s)]"
    using assms l by (auto simp: run_def)
  have "settled_end (assistant_of prov) (Stopped None) s ev'"
    using run_loop_settled [of "initial_run_state rq"] l e by (simp add: initial_run_state_def)
  moreover have "run_inv (harden_history (rq_messages rq) (rq_model rq)) s"
    using run_inv_loop [OF run_inv_initial l] .
  moreover have "calls_answered (harden_history (rq_messages rq) (rq_model rq))"
    by (rule harden_history_answered)
  ultimately show ?thesis using r ev
    by (auto simp: settled_end_def run_inv_def calls_answered_append)
qed

text \<open>C17. The events of a run are bracketed by its start and its end, which carries the new
  messages. Between them the loop's own events follow the grammar of \<open>loop_trace\<close>: complete turns,
  then the turn that ends the run, at most \<open>MaxTurns\<close> of them and at most two automatic
  continuations; an error event closes the sequence exactly when the run fails.\<close>

theorem run_event_structure:
  "let ((r, e), ev, w') = run env rq w in
     ev = [] \<and> e = Some err_no_provider
   \<or> (\<exists>mid. ev = EvLoopStart # mid @ (case e of None \<Rightarrow> [] | Some x \<Rightarrow> [EvError (err_text x)])
            @ [EvLoopEnd (rr_new r)]
        \<and> loop_trace (nat (effective_max_turns rq)) e (filter loop_level mid)
        \<and> int (turn_count ev) \<le> effective_max_turns rq \<and> auto_count ev \<le> max_auto_continues)"
proof (cases "rq_provider rq")
  case (Some prov)
  obtain e s ev w' where l: "run_loop env prov rq (nat (effective_max_turns rq))
      (initial_run_state rq) w = (e, s, ev, w')" by (metis surj_pair)
  have t: "loop_trace (nat (effective_max_turns rq)) e (filter loop_level ev)"
    and a: "auto_count (filter loop_level ev) \<le> max_auto_continues"
    using run_loop_trace [OF l] by (simp_all add: initial_run_state_def)
  have "turn_count (EvLoopStart # ev @ xs @ [EvLoopEnd y]) = turn_count ev"
    and "auto_count (EvLoopStart # ev @ xs @ [EvLoopEnd y]) = auto_count ev"
    if "xs = (case e of None \<Rightarrow> [] | Some x \<Rightarrow> [EvError (err_text x)])" for xs y
    using that by (auto simp: turn_count_def split: option.split)
  then show ?thesis
    using Some l t a loop_trace_count [OF t] effective_max_turns_pos [of rq]
    by (auto simp: run_def turn_count_filter auto_count_filter)
qed (simp add: run_def)

text \<open>C18. A run whose permission handler denies (or that has none) is the same run whatever the
  executors of the tools that require permission do: same transcript, events, error and effects on
  the world. No such executor is ever reached.\<close>

theorem run_denied_noninterference:
  assumes "same_free_setup (rq_setup rq) su" and "denies (su_permission (rq_setup rq))"
  shows "run env (rq\<lparr>rq_setup := su\<rparr>) w = run env rq w"
  using assms by (rule run_denied)

text \<open>C19. A round of tool calls that succeeds, in either mode and under any schedule, yields one
  tool message per call, in the order of the calls and bearing their ids and names; its events are
  the starts in source order followed by the ends in source order.\<close>

theorem tool_round_in_source_order:
  assumes "execute_tool_calls env su cs w = (Inr ms, ev, w')"
  shows "list_all2 replies cs ms
    \<and> (\<exists>ends. ev = map EvToolStart cs @ ends \<and> list_all2 ends_call cs ends)"
  using assms by (rule execute_tool_calls_replies)

section \<open>Sample runs\<close>

text \<open>The world counts the provider calls. The provider first calls the tool \<open>ls\<close>, then answers
  with the given text; the tool requires permission.\<close>

definition sample_env :: "nat run_env" where
  "sample_env = \<lparr>en_ctx = no_cancel, en_sleep = full_sleep, en_now = (\<lambda>_. 7),
     en_json = (\<lambda>a. Inr (Some a)), en_digest = (\<lambda>s. s), en_order = (\<lambda>n _. [1])\<rparr>"

definition sample_provider :: "string \<Rightarrow> nat provider" where
  "sample_provider text rq n =
     (Inr (if n = 0 then [(5, RecvEvent (PToolCall (Some \<lparr>tc_id = ''1'', tc_name = ''ls'', tc_args = ''{}''\<rparr>))),
                          (5, RecvEvent (PDone None))]
           else [(6, RecvEvent (PTextDelta 0 text)), (6, RecvEvent (PDone None))]), Suc n)"

definition sample_spec :: tool_spec where
  "sample_spec = \<lparr>ts_name = ''ls'', ts_description = [], ts_parameters = [],
     ts_requires_permission = True, ts_permission_action = [], ts_permission_target = None,
     ts_prompt_snippet = [], ts_prompt_guidelines = []\<rparr>"

definition sample_setup :: "nat executor option \<Rightarrow> nat permission option \<Rightarrow> nat tool_setup" where
  "sample_setup ex p = \<lparr>su_tools = [\<lparr>tl_spec = sample_spec, tl_execute = ex\<rparr>], su_permission = p,
     su_hooks = [], su_session = ''s'', su_parallel = True\<rparr>"

definition counting_ls :: "nat executor" where
  "counting_ls c n = (Inr (zero_result\<lparr>res_content := [text_part (tc_args c)]\<rparr>), n + 10)"

definition sample_request :: "string \<Rightarrow> int \<Rightarrow> nat permission option \<Rightarrow> nat run_request" where
  "sample_request text n p = \<lparr>rq_provider = Some (sample_provider text), rq_model = ''m'', rq_system = [],
     rq_messages = [user_text ''list''], rq_setup = sample_setup (Some counting_ls) p, rq_options = [],
     rq_max_turns = n, rq_retry = zero_retry, rq_auto_continue = True,
     rq_guardrails = strict_policy\<rparr>"

lemma sample_provider_speaks: "speaks_as_assistant (sample_provider text)"
  by (auto simp: speaks_as_assistant_def sample_provider_def assistant_item_def)

theorem run_ends_settled_witness:
  "let r = fst (fst (run sample_env (sample_request ''ok'' 5 (Some allow_all)) 0)) in
     length (rr_messages r) = 4 \<and> calls_answered (rr_messages r)
     \<and> collect_tool_calls (last (rr_new r)) = [] \<and> is_assistant (last (rr_new r))"
proof -
  let ?run = "run sample_env (sample_request ''ok'' 5 (Some allow_all)) 0"
  have "snd (fst ?run) = None" and l: "length (rr_messages (fst (fst ?run))) = 4"
    by code_simp+
  then have r: "?run = ((fst (fst ?run), None), fst (snd ?run), snd (snd ?run))"
    by (metis prod.collapse)
  have p: "rq_provider (sample_request ''ok'' 5 (Some allow_all)) = Some (sample_provider ''ok'')"
    by (simp add: sample_request_def)
  show ?thesis using run_ends_settled [OF p r] l sample_provider_speaks [of "''ok''"]
    by (simp add: Let_def)
qed

theorem run_denied_noninterference_witness:
  "run sample_env ((sample_request ''ok'' 5 None)\<lparr>rq_setup := sample_setup None None\<rparr>) 0
     = run sample_env (sample_request ''ok'' 5 None) 0
   \<and> snd (snd (run sample_env (sample_request ''ok'' 5 None) 0)) = 2
   \<and> snd (snd (run sample_env (sample_request ''ok'' 5 (Some allow_all)) 0)) = 12"
proof -
  have s: "same_free_setup (rq_setup (sample_request ''ok'' 5 None)) (sample_setup None None)"
    by (simp add: same_free_setup_def sample_request_def sample_setup_def same_free_tool_def
        sample_spec_def)
  have d: "denies (su_permission (rq_setup (sample_request ''ok'' 5 None)))"
    by (simp add: sample_request_def sample_setup_def denies_def)
  have "snd (snd (run sample_env (sample_request ''ok'' 5 None) 0)) = 2"
    "snd (snd (run sample_env (sample_request ''ok'' 5 (Some allow_all)) 0)) = 12"
    by code_simp+
  then show ?thesis using run_denied_noninterference [OF s d, of sample_env 0] by simp
qed

definition two_calls :: "tool_call list" where
  "two_calls = [\<lparr>tc_id = ''1'', tc_name = ''ls'', tc_args = []\<rparr>,
     \<lparr>tc_id = ''2'', tc_name = ''cat'', tc_args = []\<rparr>]"

theorem tool_round_in_source_order_witness:
  "let x = execute_tool_calls sample_env (sample_setup (Some counting_ls) (Some allow_all)) two_calls 0 in
     en_order sample_env 2 0 = [1]
     \<and> list_all2 replies two_calls (projr (fst x)) \<and> length (fst (snd x)) = 4"
proof -
  let ?x = "execute_tool_calls sample_env (sample_setup (Some counting_ls) (Some allow_all)) two_calls 0"
  have "\<not> isl (fst ?x)" and l: "length (fst (snd ?x)) = 4" and o: "en_order sample_env 2 0 = [1]"
    by code_simp+
  then have "?x = (Inr (projr (fst ?x)), fst (snd ?x), snd (snd ?x))"
    by (metis prod.collapse sum.collapse(2))
  from tool_round_in_source_order [OF this] l o show ?thesis by (simp add: Let_def)
qed

text \<open>The max-turns tag does not imply pending tool calls: when the budget ends on a turn that
  was continued automatically, the last assistant message is tagged although it requests no tool.\<close>

theorem max_turns_without_pending_calls:
  "let rq = sample_request ''I will now update it.'' 1 None;
       x = run sample_env rq 1; ms = rr_new (fst (fst x)) in
     map err_text (case snd (fst x) of None \<Rightarrow> [] | Some e \<Rightarrow> [e]) = [''loop: maximum turns exceeded (1)'']
     \<and> map msg_stop ms = [StopMaxTurns, StopOther []] \<and> map collect_tool_calls ms = [[], []]"
  by code_simp

end
