(* ===== verification/Go_Time.thy ===== *)
theory Go_Time
  imports Prelude
begin

text \<open>
  The instants of package \<open>time\<close>: nanoseconds since the zero instant, 1 January of year 1, UTC.
  \<open>Format(time.RFC3339)\<close> on UTC instants, by the proleptic Gregorian calendar.
\<close>

definition ns_per_second :: int where "ns_per_second = 1000000000"

text \<open>Year, month and day of a number of days since the zero instant; years start in March so that
  the leap day is the last one.\<close>

definition civil_date :: "int \<Rightarrow> int \<times> int \<times> int" where
  "civil_date d =
     (let z = d + 306; era = z div 146097; doe = z mod 146097;
          yoe = (doe - doe div 1460 + doe div 36524 - doe div 146096) div 365;
          doy = doe - (365 * yoe + yoe div 4 - yoe div 100);
          mp = (5 * doy + 2) div 153;
          m = (if mp < 10 then mp + 3 else mp - 9);
          y = yoe + era * 400 + (if m \<le> 2 then 1 else 0)
      in (y, m, doy - (153 * mp + 2) div 5 + 1))"

definition pad :: "nat \<Rightarrow> int \<Rightarrow> string" where
  "pad w n = (let s = itoa_int n in replicate (w - length s) (CHR ''0'') @ s)"

definition rfc3339 :: "go_time \<Rightarrow> string" where
  "rfc3339 t =
     (let s = t div ns_per_second; (y, m, d) = civil_date (s div 86400); r = s mod 86400
      in pad 4 y @ ''-'' @ pad 2 m @ ''-'' @ pad 2 d @ ''T'' @ pad 2 (r div 3600) @ '':''
         @ pad 2 (r mod 3600 div 60) @ '':'' @ pad 2 (r mod 60) @ ''Z'')"

lemma rfc3339_examples:
  "rfc3339 0 = ''0001-01-01T00:00:00Z''"
  "rfc3339 (62135596800 * 1000000000) = ''1970-01-01T00:00:00Z''"
  "rfc3339 (63844847999 * 1000000000) = ''2024-02-29T23:59:59Z''"
  by code_simp+

section \<open>Durations\<close>

text \<open>The arithmetic of \<open>time.Duration\<close> wraps at 64 bits.\<close>

definition wrap64 :: "int \<Rightarrow> int" where
  "wrap64 n = signed_take_bit 63 n"

lemma wrap64_id: "- (2 ^ 63) \<le> n \<Longrightarrow> n < 2 ^ 63 \<Longrightarrow> wrap64 n = n"
  by (simp add: wrap64_def signed_take_bit_int_eq_self)

text \<open>\<open>Duration.String\<close>: a fraction has no trailing zeros.\<close>

definition fraction :: "nat \<Rightarrow> int \<Rightarrow> string" where
  "fraction prec v =
     (let ds = trim_right_set [CHR ''0''] (pad prec (v mod 10 ^ prec)) in if ds = [] then [] else CHR ''.'' # ds)"

definition duration_string :: "duration \<Rightarrow> string" where
  "duration_string d =
     (let u = \<bar>d\<bar>; sign = (if d < 0 then ''-'' else []);
          secs = u div ns_per_second; mins = secs div 60; hours = mins div 60
      in if d = 0 then ''0s''
         else sign @
           (if u < 1000 then itoa_int u @ ''ns''
            else if u < 1000000 then itoa_int (u div 1000) @ fraction 3 u @ [byte 194, byte 181, CHR ''s'']
            else if u < ns_per_second then itoa_int (u div 1000000) @ fraction 6 u @ ''ms''
            else (if hours > 0 then itoa_int hours @ ''h'' else [])
              @ (if mins > 0 then itoa_int (mins mod 60) @ ''m'' else [])
              @ itoa_int (secs mod 60) @ fraction 9 u @ ''s''))"

lemma duration_string_examples:
  "duration_string 1500000000 = ''1.5s''" "duration_string 3605000000000 = ''1h0m5s''" "duration_string 20000000 = ''20ms''"
  by code_simp+

end
