(* ===== verification/Compaction.thy ===== *)
theory Compaction
  imports Agent_Loop Go_Time
begin

text \<open>
  Model of \<open>src/compactor.go\<close>: the two compactors, \<open>KeepRecentMessages\<close> and
  \<open>SummarizingCompactor\<close>, with token estimation, the choice of the split point, the cumulative file
  ledger and the rendering of the summarised region. A compactor is a function of the transcript
  over the world of its provider. \<open>json_path\<close>, the decoding of the \<open>path\<close> field of a call's
  arguments, is a parameter.
\<close>

type_synonym 'w compactor = "message list \<Rightarrow> 'w \<Rightarrow> (go_error + message list) \<times> 'w"

section \<open>Dropping old messages\<close>

definition build_compaction_summary :: "message list \<Rightarrow> message" where
  "build_compaction_summary dropped = zero_message\<lparr>msg_role := RoleAssistant, msg_content := [text_part
     (''Earlier conversation context omitted by compaction ('' @ itoa (length dropped) @ '' message''
      @ (if length dropped \<noteq> 1 then ''s'' else [])
      @ '' dropped). Continue from the messages that follow.'')]\<rparr>"

definition keep_recent :: "int \<Rightarrow> 'w compactor" where
  "keep_recent n ms w =
     (if n \<le> 0 then (Inl (new_error (''glue: KeepRecentMessages: n must be positive, got '' @ itoa_int n)), w)
      else if int (length ms) \<le> n then (Inr ms, w)
      else
        (let dropped = length ms - nat n;
             summary = (build_compaction_summary (take dropped ms))\<lparr>msg_meta :=
               [(''compaction'', MStr ''keep_recent''), (''dropped'', MInt (int dropped))]\<rparr>
         in (Inr (summary # drop dropped ms), w)))"

section \<open>Token estimates\<close>

fun words_from :: "bool \<Rightarrow> string \<Rightarrow> nat" where
  "words_from in_word [] = 0"
| "words_from in_word (c # s) =
     (if ascii_space c then words_from False s
      else (if in_word then 0 else 1) + words_from True s)"

definition count_words :: "string \<Rightarrow> nat" where
  "count_words s = words_from False s"

definition part_words :: "content_part \<Rightarrow> nat" where
  "part_words p =
     (case part_type p of
        TypeText \<Rightarrow> count_words (part_text p)
      | TypeThinking \<Rightarrow> count_words (part_thinking p)
      | TypeToolCall \<Rightarrow>
          (case part_call p of
             None \<Rightarrow> 0
           | Some c \<Rightarrow> count_words (tc_name c) + count_words (tc_args c))
      | _ \<Rightarrow> 0)"

definition message_words :: "message \<Rightarrow> nat" where
  "message_words m = sum_list (map part_words (msg_content m))"

definition estimate_tokens :: "message list \<Rightarrow> nat" where
  "estimate_tokens ms =
     (let words = sum_list (map message_words ms)
      in if words = 0 then 0 else max 1 ((words * 3 + 3) div 4))"

section \<open>The split point\<close>

fun split_walk :: "message list \<Rightarrow> int \<Rightarrow> nat \<Rightarrow> nat \<Rightarrow> nat" where
  "split_walk ms budget 0 used = 0"
| "split_walk ms budget (Suc i) used =
     (let used' = used + estimate_tokens [ms ! i]
      in if int used' > budget \<and> i < length ms - 1 then Suc i else split_walk ms budget i used')"

definition split_by_token_budget :: "message list \<Rightarrow> int \<Rightarrow> nat" where
  "split_by_token_budget ms budget = split_walk ms budget (length ms) 0"

fun walk_back :: "message list \<Rightarrow> nat \<Rightarrow> nat" where
  "walk_back ms 0 = 0"
| "walk_back ms (Suc i) = (if is_tool (ms ! Suc i) then walk_back ms i else Suc i)"

definition safe_split_point :: "message list \<Rightarrow> int \<Rightarrow> nat" where
  "safe_split_point ms split =
     (if split \<le> 0 then 0
      else if int (length ms) \<le> split then length ms
      else walk_back ms (nat split))"

section \<open>The file ledger\<close>

definition add_path :: "string \<Rightarrow> string list \<Rightarrow> string list" where
  "add_path p xs = (if p = [] \<or> p \<in> set xs then xs else xs @ [p])"

fun meta_string :: "meta_value \<Rightarrow> string option" where
  "meta_string (MStr s) = Some s"
| "meta_string _ = None"

definition metadata_strings :: "meta_value option \<Rightarrow> string list" where
  "metadata_strings v =
     (case v of
        Some (MStrings xs) \<Rightarrow> xs
      | Some (MList vs) \<Rightarrow> List.map_filter meta_string vs
      | _ \<Rightarrow> [])"

definition read_key :: string where "read_key = ''glue/compaction:read_files''"
definition modified_key :: string where "modified_key = ''glue/compaction:modified_files''"

type_synonym ledger = "string list \<times> string list"

definition ledger_call :: "(bytes \<Rightarrow> string option) \<Rightarrow> tool_call \<Rightarrow> ledger \<Rightarrow> ledger" where
  "ledger_call json_path c l =
     (case l of (reads, mods) \<Rightarrow>
       (case json_path (tc_args c) of
          None \<Rightarrow> (reads, mods)
        | Some p \<Rightarrow>
            (let name = to_lower (tc_name c) in
             if p = [] then (reads, mods)
             else if contains name ''write'' \<or> contains name ''edit'' then (reads, add_path p mods)
             else if contains name ''read'' then (add_path p reads, mods)
             else (reads, mods))))"

definition ledger_message :: "(bytes \<Rightarrow> string option) \<Rightarrow> message \<Rightarrow> ledger \<Rightarrow> ledger" where
  "ledger_message json_path m l =
     (let l1 = (if map_of (msg_meta m) ''compaction'' = Some (MStr ''summarizing'')
                then (case l of (reads, mods) \<Rightarrow>
                  (fold add_path (metadata_strings (map_of (msg_meta m) read_key)) reads,
                   fold add_path (metadata_strings (map_of (msg_meta m) modified_key)) mods))
                else l)
      in fold (ledger_call json_path) (collect_tool_calls m) l1)"

definition extract_file_ledger :: "(bytes \<Rightarrow> string option) \<Rightarrow> message list \<Rightarrow> ledger" where
  "extract_file_ledger json_path ms = fold (ledger_message json_path) ms ([], [])"

definition render_file_ledger :: "ledger \<Rightarrow> string" where
  "render_file_ledger l =
     (case l of (reads, mods) \<Rightarrow>
       if reads = [] \<and> mods = [] then []
       else ''## File Ledger (cumulative across compactions)''
         @ (if mods \<noteq> [] then nl # ''- Modified: '' @ join '', '' mods else [])
         @ (if reads \<noteq> [] then nl # ''- Read: '' @ join '', '' reads else []))"

section \<open>The summary request and its answer\<close>

definition role_tag :: "message_role \<Rightarrow> string" where
  "role_tag r = (case r of RoleAssistant \<Rightarrow> ''ASSISTANT'' | RoleTool \<Rightarrow> ''TOOL'' | _ \<Rightarrow> ''USER'')"

definition render_part :: "content_part \<Rightarrow> string option" where
  "render_part p =
     (case part_type p of
        TypeText \<Rightarrow> Some (part_text p)
      | TypeToolCall \<Rightarrow> map_option (\<lambda>c. ''[tool_call name='' @ tc_name c @ '' args='' @ tc_args c @ '']'')
          (part_call p)
      | _ \<Rightarrow> None)"

definition render_message :: "message \<Rightarrow> string" where
  "render_message m = role_tag (msg_role m) @ '': ''
     @ join '' '' (List.map_filter render_part (msg_content m)) @ [nl]"

definition render_transcript :: "message list \<Rightarrow> string" where
  "render_transcript ms = concat (map render_message ms)"

definition assistant_message_text :: "message \<Rightarrow> string" where
  "assistant_message_text m = join_texts (msg_content m) []"

fun collect_summary :: "stream \<Rightarrow> string \<Rightarrow> message option \<Rightarrow> go_error + string" where
  "collect_summary [] deltas final =
     (case final of
        None \<Rightarrow> Inr deltas
      | Some m \<Rightarrow> Inr (if assistant_message_text m \<noteq> [] then assistant_message_text m else deltas))"
| "collect_summary ((t, RecvCancel e) # rest) deltas final = Inl e"
| "collect_summary ((t, RecvEvent e) # rest) deltas final =
     (case e of
        PTextDelta i d \<Rightarrow> collect_summary rest (deltas @ d) final
      | PDone m \<Rightarrow> collect_summary rest deltas m
      | PError x \<Rightarrow> Inl (new_error (if x \<noteq> [] then x else ''provider stream errored''))
      | _ \<Rightarrow> collect_summary rest deltas final)"

fun time_bounds :: "message list \<Rightarrow> go_time \<Rightarrow> go_time \<Rightarrow> go_time \<times> go_time" where
  "time_bounds [] lo hi = (lo, hi)"
| "time_bounds (m # ms) lo hi =
     (if msg_created m = 0 then time_bounds ms lo hi
      else time_bounds ms (if lo = 0 \<or> msg_created m < lo then msg_created m else lo)
             (if hi = 0 \<or> hi < msg_created m then msg_created m else hi))"

section \<open>Summarising\<close>

record 'w summarizer =
  sm_provider :: "'w provider option"
  sm_model :: string
  sm_target_tokens :: int
  sm_keep_recent :: int
  sm_keep_recent_tokens :: int
  sm_system_prompt :: string

definition default_target_tokens :: int where "default_target_tokens = 8000"
definition default_keep_recent :: int where "default_keep_recent = 8"

definition handoff_prefix :: string where
  "handoff_prefix = ''Another assistant instance worked on this task and produced the state snapshot below before its context was compacted. Build on the work already done; avoid repeating completed steps.''"

text \<open>The marker that replaces the summarised region.\<close>

definition summary_marker :: "message list \<Rightarrow> string \<Rightarrow> ledger \<Rightarrow> message" where
  "summary_marker older summary l =
     (case l of (reads, mods) \<Rightarrow>
       (let rendered = render_file_ledger l; (lo, hi) = time_bounds older 0 0
        in zero_message\<lparr>msg_role := RoleAssistant,
             msg_content := [text_part (handoff_prefix @ [nl, nl] @ summary
               @ (if rendered \<noteq> [] then [nl, nl] @ rendered else []))],
             msg_meta := [(''compaction'', MStr ''summarizing''),
                 (''original_message_count'', MInt (int (length older)))]
               @ (if reads \<noteq> [] then [(read_key, MStrings reads)] else [])
               @ (if mods \<noteq> [] then [(modified_key, MStrings mods)] else [])
               @ (if lo \<noteq> 0 then [(''original_first_ts'', MStr (rfc3339 lo)),
                                   (''original_last_ts'', MStr (rfc3339 hi))] else [])\<rparr>))"

definition choose_split :: "'w summarizer \<Rightarrow> message list \<Rightarrow> nat" where
  "choose_split s ms =
     (let keep = (if sm_keep_recent s \<le> 0 then default_keep_recent else sm_keep_recent s)
      in safe_split_point ms
           (if sm_keep_recent_tokens s > 0 then int (split_by_token_budget ms (sm_keep_recent_tokens s))
            else int (length ms) - keep))"

definition summary_request :: "'w summarizer \<Rightarrow> string \<Rightarrow> message list \<Rightarrow> provider_request" where
  "summary_request s default_prompt older = \<lparr>pq_model = sm_model s,
     pq_system = (if sm_system_prompt s = [] then default_prompt else sm_system_prompt s),
     pq_messages = [user_text (render_transcript older)], pq_tools = [], pq_options = []\<rparr>"

definition sm_error :: "string \<Rightarrow> go_error" where
  "sm_error t = new_error (''glue: SummarizingCompactor: '' @ t)"

definition summarize :: "string \<Rightarrow> (bytes \<Rightarrow> string option) \<Rightarrow> 'w summarizer \<Rightarrow> 'w compactor" where
  "summarize default_prompt json_path s ms w =
     (case sm_provider s of
        None \<Rightarrow> (Inl (sm_error ''Provider is required''), w)
      | Some prov \<Rightarrow>
          (let keep = (if sm_keep_recent s \<le> 0 then default_keep_recent else sm_keep_recent s);
               target = (if sm_target_tokens s \<le> 0 then default_target_tokens else sm_target_tokens s);
               split = choose_split s ms; older = take split ms
           in if (int (length ms) \<le> keep \<and> sm_keep_recent_tokens s \<le> 0)
                \<or> int (estimate_tokens ms) \<le> target \<or> split = 0
              then (Inr ms, w)
              else
                (case prov (summary_request s default_prompt older) w of
                   (Inl e, w') \<Rightarrow> (Inl (wrap_error ''glue: SummarizingCompactor: provider.Stream: '' e []), w')
                 | (Inr items, w') \<Rightarrow>
                     (case collect_summary items [] None of
                        Inl e \<Rightarrow> (Inl (wrap_error ''glue: SummarizingCompactor: '' e []), w')
                      | Inr summary \<Rightarrow>
                          (if trim_space summary = [] then (Inl (sm_error ''provider returned no text''), w')
                           else
                             (let marker = summary_marker older summary (extract_file_ledger json_path older)
                              in if estimate_tokens older \<le> estimate_tokens [marker] then (Inr ms, w')
                                 else (Inr (marker # drop split ms), w')))))))"

section \<open>The split point is safe\<close>

lemma walk_back_le: "walk_back ms i \<le> i"
  by (induction i) auto

lemma walk_back_stops: "walk_back ms i = 0 \<or> \<not> is_tool (ms ! walk_back ms i)"
  by (induction i) auto

lemma split_walk_bound: "split_walk ms b i u \<le> length ms - 1"
proof (induction i arbitrary: u)
  case (Suc i)
  then show ?case by (auto simp: Let_def)
qed simp

lemma safe_split_bound: "safe_split_point ms (int k) \<le> k"
  using walk_back_le [of ms k] by (auto simp: safe_split_point_def)

lemma safe_split_not_tool:
  "safe_split_point ms k < length ms \<Longrightarrow>
     safe_split_point ms k = 0 \<or> \<not> is_tool (ms ! safe_split_point ms k)"
  using walk_back_stops [of ms "nat k"]
  by (cases "k \<le> 0"; cases "int (length ms) \<le> k") (simp_all add: safe_split_point_def)

lemma choose_split_bound: "ms \<noteq> [] \<Longrightarrow> choose_split s ms < length ms"
proof -
  assume ms: "ms \<noteq> []"
  have a: "safe_split_point ms (int (split_by_token_budget ms b)) < length ms" for b
    using safe_split_bound [of ms "split_by_token_budget ms b"] split_walk_bound [of ms b "length ms" 0] ms
    unfolding split_by_token_budget_def by (cases ms) auto
  have b: "safe_split_point ms (int (length ms) - k) < length ms" if "0 < k" for k :: int
    using that ms walk_back_le [of ms "nat (int (length ms) - k)"] by (auto simp: safe_split_point_def)
  show ?thesis unfolding choose_split_def Let_def
    using a [of "sm_keep_recent_tokens s"] b [of default_keep_recent] b [of "sm_keep_recent s"]
    by (auto simp: default_keep_recent_def)
qed

lemma choose_split_not_tool:
  "ms \<noteq> [] \<Longrightarrow> choose_split s ms = 0 \<or> \<not> is_tool (ms ! choose_split s ms)"
  using safe_split_not_tool [of ms] choose_split_bound [of ms s]
  unfolding choose_split_def Let_def by blast

section \<open>The ledger only grows\<close>

definition ledger_le :: "ledger \<Rightarrow> ledger \<Rightarrow> bool" where
  "ledger_le l l' \<longleftrightarrow> set (fst l) \<subseteq> set (fst l') \<and> set (snd l) \<subseteq> set (snd l')"

lemma ledger_le_refl [simp]: "ledger_le l l"
  by (simp add: ledger_le_def)

lemma ledger_le_trans: "ledger_le a b \<Longrightarrow> ledger_le b c \<Longrightarrow> ledger_le a c"
  by (auto simp: ledger_le_def)

lemma set_add_path: "set (add_path p xs) = set xs \<union> (if p = [] then {} else {p})"
  by (auto simp: add_path_def)

lemma set_fold_add_path: "set (fold add_path ps xs) = set xs \<union> (set ps - {[]})"
  by (induction ps arbitrary: xs) (auto simp: set_add_path)

lemma distinct_fold_add_path: "distinct xs \<Longrightarrow> distinct (fold add_path ps xs)"
  by (induction ps arbitrary: xs) (auto simp: add_path_def)

lemma ledger_call_le: "ledger_le l (ledger_call jp c l)"
  by (auto simp: ledger_call_def ledger_le_def Let_def set_add_path split: option.splits prod.splits)

lemma fold_ledger_call_le: "ledger_le l (fold (ledger_call jp) cs l)"
  by (rule fold_increasing [of ledger_le, OF ledger_le_refl ledger_le_trans ledger_call_le])

lemma ledger_message_le: "ledger_le l (ledger_message jp m l)"
proof -
  let ?l = "if map_of (msg_meta m) ''compaction'' = Some (MStr ''summarizing'')
      then (case l of (reads, mods) \<Rightarrow>
        (fold add_path (metadata_strings (map_of (msg_meta m) read_key)) reads,
         fold add_path (metadata_strings (map_of (msg_meta m) modified_key)) mods)) else l"
  have "ledger_le l ?l" by (auto simp: ledger_le_def set_fold_add_path split: prod.split)
  then show ?thesis unfolding ledger_message_def Let_def
    by (rule ledger_le_trans [OF _ fold_ledger_call_le])
qed

lemma fold_ledger_le: "ledger_le l (fold (ledger_message jp) ms l)"
  by (rule fold_increasing [of ledger_le, OF ledger_le_refl ledger_le_trans ledger_message_le])

definition is_snapshot :: "message \<Rightarrow> bool" where
  "is_snapshot m \<longleftrightarrow> map_of (msg_meta m) ''compaction'' = Some (MStr ''summarizing'')"

definition snapshot_ledger :: "message \<Rightarrow> ledger" where
  "snapshot_ledger m = (metadata_strings (map_of (msg_meta m) read_key),
     metadata_strings (map_of (msg_meta m) modified_key))"

definition nonempty_paths :: "ledger \<Rightarrow> bool" where
  "nonempty_paths l \<longleftrightarrow> [] \<notin> set (fst l) \<and> [] \<notin> set (snd l)"

lemma snapshot_carried:
  assumes "is_snapshot m" and "nonempty_paths (snapshot_ledger m)"
  shows "ledger_le (snapshot_ledger m) (ledger_message jp m l)"
proof -
  obtain r d where l: "l = (r, d)" by fastforce
  have "ledger_le (snapshot_ledger m)
      (fold add_path (fst (snapshot_ledger m)) r, fold add_path (snd (snapshot_ledger m)) d)"
    using assms(2) by (auto simp: ledger_le_def set_fold_add_path nonempty_paths_def)
  then show ?thesis using assms(1) l
    by (auto simp: ledger_message_def is_snapshot_def snapshot_ledger_def
        intro: ledger_le_trans [OF _ fold_ledger_call_le])
qed

lemma extract_carries_snapshot:
  assumes "m \<in> set ms" and "is_snapshot m" and "nonempty_paths (snapshot_ledger m)"
  shows "ledger_le (snapshot_ledger m) (extract_file_ledger jp ms)"
proof -
  obtain us vs where "ms = us @ m # vs" using assms(1) by (meson split_list)
  then show ?thesis
    using ledger_le_trans [OF snapshot_carried [OF assms(2,3), of jp "fold (ledger_message jp) us ([], [])"]
        fold_ledger_le [of _ jp vs]]
    by (simp add: extract_file_ledger_def)
qed

lemma marker_ledger: "is_snapshot (summary_marker older t l) \<and> snapshot_ledger (summary_marker older t l) = l"
proof -
  obtain r d where l: "l = (r, d)" by fastforce
  show ?thesis unfolding l
    by (cases "r = []"; cases "d = []")
       (auto simp: summary_marker_def is_snapshot_def snapshot_ledger_def read_key_def modified_key_def
         metadata_strings_def literal_defs Let_def split: prod.split)
qed

lemma marker_plain: "is_assistant (summary_marker older t l) \<and> collect_tool_calls (summary_marker older t l) = []"
  by (simp add: summary_marker_def is_assistant_def collect_tool_calls_def List.map_filter_simps
      part_tool_call_def literal_defs Let_def split: prod.split)

lemma nonempty_add: "nonempty_paths (r, d) \<Longrightarrow> nonempty_paths (fold add_path ps r, fold add_path qs d)"
  by (auto simp: nonempty_paths_def set_fold_add_path)

lemma nonempty_call: "nonempty_paths l \<Longrightarrow> nonempty_paths (ledger_call jp c l)"
  by (auto simp: nonempty_paths_def ledger_call_def Let_def set_add_path split: option.splits prod.splits)

lemma nonempty_message: "nonempty_paths l \<Longrightarrow> nonempty_paths (ledger_message jp m l)"
proof -
  assume l: "nonempty_paths l"
  have "nonempty_paths k \<Longrightarrow> nonempty_paths (fold (ledger_call jp) cs k)" for cs k
    by (rule fold_invariant_all [of nonempty_paths, OF _ nonempty_call])
  then show ?thesis using l by (auto simp: ledger_message_def Let_def nonempty_add split: prod.split)
qed

lemma nonempty_extract: "nonempty_paths (extract_file_ledger jp ms)"
proof -
  have "nonempty_paths l \<Longrightarrow> nonempty_paths (fold (ledger_message jp) ms l)" for l
    by (rule fold_invariant_all [of nonempty_paths, OF _ nonempty_message])
  then show ?thesis by (simp add: extract_file_ledger_def nonempty_paths_def)
qed

section \<open>What clients rely on\<close>

text \<open>A successful compaction returns its input, or one plain assistant marker followed by a proper
  suffix of the input.\<close>

definition compacts_to :: "message list \<Rightarrow> message list \<Rightarrow> bool" where
  "compacts_to ms out \<longleftrightarrow> out = ms
     \<or> (\<exists>m k. 0 < k \<and> k < length ms \<and> out = m # drop k ms \<and> is_assistant m \<and> collect_tool_calls m = [])"

locale compactor =
  fixes compact :: "'w compactor"
  assumes compact_shape: "compact ms w = (Inr out, w') \<Longrightarrow> compacts_to ms out"
begin

lemma compact_length: "compact ms w = (Inr out, w') \<Longrightarrow> length out \<le> length ms"
  by (drule compact_shape) (auto simp: compacts_to_def)

lemma compact_suffix:
  "compact ms w = (Inr out, w') \<Longrightarrow> out = ms \<or> (\<exists>m k. 0 < k \<and> out = m # drop k ms)"
  by (drule compact_shape) (auto simp: compacts_to_def)

text \<open>What is kept is never empty unless the transcript was.\<close>

lemma compact_last: "compact ms w = (Inr out, w') \<Longrightarrow> ms \<noteq> [] \<Longrightarrow> out \<noteq> [] \<and> last out = last ms"
  by (drule compact_shape) (auto simp: compacts_to_def)

end

lemma keep_recent_shape: "keep_recent n ms w = (Inr out, w') \<Longrightarrow> compacts_to ms out"
proof -
  assume k: "keep_recent n ms w = (Inr out, w')"
  show ?thesis
  proof (cases "int (length ms) \<le> n")
    case False
    with k have n: "0 < n" by (auto simp: keep_recent_def split: if_splits)
    let ?m = "hd out" and ?k = "length ms - nat n"
    have "out = ?m # drop ?k ms" "is_assistant ?m" "collect_tool_calls ?m = []"
      using k False n
      by (auto simp: keep_recent_def build_compaction_summary_def is_assistant_def literal_defs
          collect_tool_calls_def List.map_filter_simps part_tool_call_def Let_def)
    moreover have "0 < ?k" "?k < length ms" using False n by auto
    ultimately show ?thesis unfolding compacts_to_def by blast
  qed (use k in \<open>auto simp: keep_recent_def compacts_to_def split: if_splits\<close>)
qed

lemma summarize_cases:
  assumes "summarize dp jp s ms w = (Inr out, w')"
  obtains "out = ms" | t where "out = summary_marker (take (choose_split s ms) ms) t
      (extract_file_ledger jp (take (choose_split s ms) ms)) # drop (choose_split s ms) ms"
    and "0 < choose_split s ms" and "choose_split s ms < length ms"
    and "estimate_tokens [summary_marker (take (choose_split s ms) ms) t
      (extract_file_ledger jp (take (choose_split s ms) ms))] < estimate_tokens (take (choose_split s ms) ms)"
proof (cases "out = ms")
  case False
  then have ms: "ms \<noteq> []" using assms
    by (auto simp: summarize_def estimate_tokens_def Let_def default_target_tokens_def split: option.splits if_splits)
  show thesis using assms False choose_split_bound [OF ms, of s] that(2)
    by (auto simp: summarize_def Let_def not_le
        split: option.splits if_splits prod.splits sum.splits)
qed (rule that(1))

lemma summarize_shape: "summarize dp jp s ms w = (Inr out, w') \<Longrightarrow> compacts_to ms out"
  by (erule summarize_cases) (use marker_plain in \<open>auto simp: compacts_to_def\<close>)

interpretation keep_recent: compactor "keep_recent n" for n
  by unfold_locales (rule keep_recent_shape)

interpretation summarizer: compactor "summarize dp jp s" for dp jp s
  by unfold_locales (rule summarize_shape)

section \<open>Properties\<close>

text \<open>C21. A successful summarising compaction leaves the transcript alone or replaces a non-empty
  proper prefix by one marker that is estimated smaller than what it replaces; the tail is kept word
  for word and does not begin with a tool result, so no result is separated from its call.\<close>

theorem summarize_replaces_prefix:
  assumes "summarize dp jp s ms w = (Inr out, w')"
  shows "out = ms \<or> (\<exists>marker k. 0 < k \<and> k < length ms \<and> out = marker # drop k ms
    \<and> \<not> is_tool (ms ! k) \<and> is_snapshot marker
    \<and> estimate_tokens [marker] < estimate_tokens (take k ms))"
  using assms
proof (rule summarize_cases)
  fix t
  let ?k = "choose_split s ms"
  let ?m = "summary_marker (take ?k ms) t (extract_file_ledger jp (take ?k ms))"
  assume a: "out = ?m # drop ?k ms" "0 < ?k" "?k < length ms"
    "estimate_tokens [?m] < estimate_tokens (take ?k ms)"
  have "ms \<noteq> []" using a(3) by auto
  then have "\<not> is_tool (ms ! ?k)" using choose_split_not_tool [of ms s] a(2) by auto
  then show ?thesis using a marker_ledger by blast
qed simp

text \<open>C22. The file ledger is cumulative: the paths that any snapshot in the summarised region
  carries as read or modified are in the ledger of the new snapshot.\<close>

theorem summarize_keeps_ledger:
  assumes "summarize dp jp s ms w = (Inr out, w')" and "out \<noteq> ms"
    and "m \<in> set (take (length ms + 1 - length out) ms)" and "is_snapshot m"
    and "nonempty_paths (snapshot_ledger m)"
  shows "is_snapshot (hd out) \<and> ledger_le (snapshot_ledger m) (snapshot_ledger (hd out))
    \<and> nonempty_paths (snapshot_ledger (hd out))"
  using assms(1)
proof (rule summarize_cases)
  fix t
  let ?k = "choose_split s ms"
  assume a: "out = summary_marker (take ?k ms) t (extract_file_ledger jp (take ?k ms)) # drop ?k ms"
    "0 < ?k" "?k < length ms"
  then have "length ms + 1 - length out = ?k" by simp
  then have "m \<in> set (take ?k ms)" using assms(3) by simp
  from extract_carries_snapshot [OF this assms(4,5), of jp] show ?thesis
    using a marker_ledger nonempty_extract by simp
qed (use assms(2) in simp)

text \<open>A transcript whose first message is a long snapshot that lists a file as read.\<close>

definition old_snapshot :: message where
  "old_snapshot = (user_text (concat (replicate 80 ''a '')))\<lparr>msg_role := RoleAssistant,
     msg_meta := [(''compaction'', MStr ''summarizing''), (read_key, MStrings [''f''])]\<rparr>"

definition sample_transcript :: "message list" where
  "sample_transcript = [old_snapshot, user_text ''go'']"

definition sample_summarizer :: "nat summarizer" where
  "sample_summarizer = \<lparr>sm_provider = Some (\<lambda>rq n. (Inr [(1, RecvEvent (PTextDelta 0 ''done'')),
       (1, RecvEvent (PDone None))], n)), sm_model = [], sm_target_tokens = 1, sm_keep_recent = 1,
     sm_keep_recent_tokens = 0, sm_system_prompt = ''summarize''\<rparr>"

definition sample_compacted :: "message list" where
  "sample_compacted = projr (fst (summarize [] (\<lambda>_. None) sample_summarizer sample_transcript 0))"

lemma sample_summarize:
  "summarize [] (\<lambda>_. None) sample_summarizer sample_transcript 0 = (Inr sample_compacted, 0)"
  "length sample_compacted = 2" "hd sample_compacted \<noteq> hd sample_transcript"
  by code_simp+

theorem summarize_replaces_prefix_witness:
  "\<exists>marker k. 0 < k \<and> sample_compacted = marker # drop k sample_transcript \<and> is_snapshot marker"
  using summarize_replaces_prefix [OF sample_summarize(1)] sample_summarize(3) by auto

theorem summarize_keeps_ledger_witness:
  "''f'' \<in> set (fst (snapshot_ledger (hd sample_compacted)))"
proof -
  have m: "old_snapshot \<in> set (take (length sample_transcript + 1 - length sample_compacted) sample_transcript)"
    by (simp add: sample_summarize(2)) (simp add: sample_transcript_def)
  have l: "is_snapshot old_snapshot" "snapshot_ledger old_snapshot = ([''f''], [])"
    by code_simp+
  then have "nonempty_paths (snapshot_ledger old_snapshot)" by (simp add: nonempty_paths_def)
  moreover have "sample_compacted \<noteq> sample_transcript" using sample_summarize(3) by metis
  ultimately show ?thesis
    using summarize_keeps_ledger [OF sample_summarize(1) _ m l(1)] l(2) by (simp add: ledger_le_def)
qed

end
