(* ===== verification/Project_Context.thy ===== *)
theory Project_Context
  imports Go_Error "HOL-Library.AList"
begin

text \<open>
  Model of \<open>src/context.go\<close>: skills and roles, the front matter of their Markdown files, and the
  assembly of system prompts. File access is a record of functions; maps with string keys are
  association lists read with \<^const>\<open>map_of\<close> whose keys are distinct, and \<open>sort.Strings\<close> is
  insertion sort on the byte order of strings. The loading of the catalogs merges into the agent in
  theory \<open>Sessions\<close>.
\<close>

section \<open>Sorting strings\<close>

fun bytes_le :: "string \<Rightarrow> string \<Rightarrow> bool" where
  "bytes_le [] t = True"
| "bytes_le (c # s) [] = False"
| "bytes_le (c # s) (d # t) =
     (if code_of c < code_of d then True else if code_of d < code_of c then False else bytes_le s t)"

fun insert_string :: "string \<Rightarrow> string list \<Rightarrow> string list" where
  "insert_string x [] = [x]"
| "insert_string x (y # ys) = (if bytes_le x y then x # y # ys else y # insert_string x ys)"

definition sort_strings :: "string list \<Rightarrow> string list" where
  "sort_strings xs = foldr insert_string xs []"

lemma set_insert_string [simp]: "set (insert_string x xs) = insert x (set xs)"
  by (induction xs) auto

lemma set_sort_strings [simp]: "set (sort_strings xs) = set xs"
  by (induction xs) (auto simp: sort_strings_def)

lemma code_of_inj: "code_of a = code_of b \<Longrightarrow> a = b"
  by (metis byte_code_of)

lemma bytes_le_refl: "bytes_le s s"
  by (induction s) auto

lemma bytes_le_total: "bytes_le s t \<or> bytes_le t s"
  by (induction s t rule: bytes_le.induct) auto

lemma bytes_le_antisym: "bytes_le s t \<Longrightarrow> bytes_le t s \<Longrightarrow> s = t"
proof (induction s t rule: bytes_le.induct)
  case (1 t)
  then show ?case by (cases t) auto
next
  case (3 c s d t)
  then show ?case by (auto split: if_splits dest: code_of_inj)
qed simp

lemma bytes_le_trans: "bytes_le s t \<Longrightarrow> bytes_le t u \<Longrightarrow> bytes_le s u"
proof (induction s arbitrary: t u)
  case (Cons c s)
  then obtain d t' where t: "t = d # t'" by (cases t) auto
  with Cons.prems obtain e u' where u: "u = e # u'" by (cases u) auto
  show ?case using Cons.prems Cons.IH [of t' u'] unfolding t u by (auto split: if_splits)
qed simp

lemma insert_string_sorted: "sorted_wrt bytes_le xs \<Longrightarrow> sorted_wrt bytes_le (insert_string x xs)"
proof (induction xs)
  case (Cons y ys)
  then show ?case using bytes_le_total [of x y] by (auto intro: bytes_le_trans)
qed simp

lemma sort_strings_sorted: "sorted_wrt bytes_le (sort_strings xs)"
  by (induction xs) (auto simp: sort_strings_def insert_string_sorted)

section \<open>Skills, roles, front matter\<close>

record skill =
  sk_name :: string
  sk_description :: string
  sk_instructions :: string

record role =
  ro_name :: string
  ro_description :: string
  ro_instructions :: string
  ro_model :: string

record project_context =
  pc_agents_md :: string
  pc_skills :: "(string \<times> skill) list"
  pc_roles :: "(string \<times> role) list"

record parsed_markdown =
  pm_name :: string
  pm_description :: string
  pm_model :: string
  pm_body :: string

definition front_open :: string where "front_open = ''---'' @ [nl]"
definition front_open_cr :: string where "front_open_cr = ''---'' @ [cr, nl]"
definition front_close :: string where "front_close = nl # ''---''"

definition front_line :: "string \<Rightarrow> parsed_markdown \<Rightarrow> parsed_markdown" where
  "front_line line p =
     (let (k, v, found) = cut line '':'' in
      if \<not> found then p
      else if trim_space k = ''name'' then (if trim_space v \<noteq> [] then p\<lparr>pm_name := trim_space v\<rparr> else p)
      else if trim_space k = ''description'' then p\<lparr>pm_description := trim_space v\<rparr>
      else if trim_space k = ''model'' then p\<lparr>pm_model := trim_space v\<rparr>
      else p)"

definition parse_frontmatter :: "string \<Rightarrow> string \<Rightarrow> go_error + parsed_markdown" where
  "parse_frontmatter content default_name =
     (let trimmed = trim_space content;
          parsed = \<lparr>pm_name = default_name, pm_description = [], pm_model = [], pm_body = trimmed\<rparr>
      in if \<not> has_prefix trimmed front_open \<and> \<not> has_prefix trimmed front_open_cr then Inr parsed
         else
           (let rest = trim_prefix (trim_prefix trimmed front_open) front_open_cr in
            case index_of rest front_close of
              None \<Rightarrow> Inl (new_error ''frontmatter is unterminated (expected closing '---')'')
            | Some i \<Rightarrow>
                (let body = trim_prefix (trim_prefix (drop i rest) front_close) [nl]
                 in Inr (fold front_line (split_on nl (take i rest))
                           (parsed\<lparr>pm_body := trim_space body\<rparr>)))))"

section \<open>System prompts\<close>

definition skill_line :: "(string \<times> skill) list \<Rightarrow> string \<Rightarrow> string" where
  "skill_line skills name =
     (case map_of skills name of
        None \<Rightarrow> []
      | Some s \<Rightarrow> nl # ''- '' @ sk_name s
          @ (if sk_description s \<noteq> [] then '' '' @ [CHR 0xE2, CHR 0x80, CHR 0x94] @ '' '' @ sk_description s
             else []))"

definition compose_system_prompt :: "string \<Rightarrow> string \<Rightarrow> (string \<times> skill) list \<Rightarrow> string" where
  "compose_system_prompt base agents_md skills = join [nl, nl]
     ((if trim_space base \<noteq> [] then [trim_space base] else [])
      @ (if trim_space agents_md \<noteq> [] then [trim_space agents_md] else [])
      @ (if skills \<noteq> []
         then [''## Available Skills'' @ concat (map (skill_line skills) (sort_strings (map fst skills)))]
         else []))"

definition append_role :: "string \<Rightarrow> role \<Rightarrow> string" where
  "append_role system r =
     (if trim_space (ro_instructions r) = [] then system
      else
        (let block = ''## Role: '' @ ro_name r @ [nl] @ trim_space (ro_instructions r)
         in if trim_space system = [] then block else trim_space system @ [nl, nl] @ block))"

text \<open>\<open>args\<close> is what \<open>json.MarshalIndent\<close> makes of the arguments, if there are any.\<close>

definition build_skill_prompt :: "skill \<Rightarrow> (string + string) option \<Rightarrow> go_error + string" where
  "build_skill_prompt s args =
     (case args of
        None \<Rightarrow> Inr (sk_instructions s)
      | Some (Inl e) \<Rightarrow> Inl (new_error (''glue: encode skill args: '' @ e))
      | Some (Inr data) \<Rightarrow> Inr (sk_instructions s @ [nl, nl] @ ''Arguments:'' @ [nl] @ data))"

section \<open>Loading from the work directory\<close>

record file_access =
  fa_exists :: "string \<Rightarrow> bool"
  fa_read :: "string \<Rightarrow> go_error + bytes"
  fa_dir :: "string \<Rightarrow> go_error + (string \<times> bool) list"

definition child :: "string \<Rightarrow> string \<Rightarrow> string" where
  "child dir name = (if dir = ''/'' then dir @ name else dir @ ''/'' @ name)"

text \<open>\<open>filepath.Dir\<close> of a clean absolute path, and the ancestors of one, nearest first.\<close>

definition parent_dir :: "string \<Rightarrow> string" where
  "parent_dir p =
     (case last_index_of p ''/'' of None \<Rightarrow> ''.'' | Some 0 \<Rightarrow> ''/'' | Some i \<Rightarrow> take i p)"

lemma last_index_of_less: "last_index_of s p = Some i \<Longrightarrow> p \<noteq> [] \<Longrightarrow> i < length s"
proof (induction s arbitrary: i)
  case (Cons c s)
  then show ?case by (auto split: option.splits if_splits)
qed auto

function ancestors :: "string \<Rightarrow> string list" where
  "ancestors d = (if length (parent_dir d) < length d then d # ancestors (parent_dir d) else [d])"
  by pat_completeness auto
termination by (relation "measure length") auto

declare ancestors.simps [simp del]

definition agents_chain :: "(string \<Rightarrow> bool) \<Rightarrow> string \<Rightarrow> string list" where
  "agents_chain exists d =
     (let up = ancestors d; below = takeWhile (\<lambda>a. \<not> exists (child a ''.git'')) up
      in if length below = length up then [d] else rev (take (Suc (length below)) up))"

fun read_chain :: "file_access \<Rightarrow> string list \<Rightarrow> go_error + string list" where
  "read_chain fa [] = Inr []"
| "read_chain fa (d # ds) =
     (case fa_read fa (child d ''AGENTS.md'') of
        Inl e \<Rightarrow> (if err_is KNotExist e then read_chain fa ds else Inl e)
      | Inr data \<Rightarrow>
          (case read_chain fa ds of
             Inl e \<Rightarrow> Inl e
           | Inr parts \<Rightarrow> Inr ((if trim_space data \<noteq> [] then [trim_space data] else []) @ parts)))"

definition load_agents_md :: "file_access \<Rightarrow> string \<Rightarrow> go_error + string" where
  "load_agents_md fa dir = map_sum id (join [nl, nl]) (read_chain fa (agents_chain (fa_exists fa) dir))"

text \<open>\<open>strings.TrimSuffix(name, filepath.Ext(name))\<close>\<close>

definition trim_ext :: "string \<Rightarrow> string" where
  "trim_ext name = (case last_index_of name ''.'' of None \<Rightarrow> name | Some i \<Rightarrow> take i name)"

fun load_role_files :: "file_access \<Rightarrow> string \<Rightarrow> (string \<times> bool) list \<Rightarrow> (string \<times> role) list
    \<Rightarrow> go_error + (string \<times> role) list" where
  "load_role_files fa dir [] acc = Inr acc"
| "load_role_files fa dir ((name, is_dir) # es) acc =
     (if is_dir \<or> \<not> has_suffix (to_lower name) ''.md'' then load_role_files fa dir es acc
      else case fa_read fa (child dir name) of
        Inl e \<Rightarrow> Inl e
      | Inr data \<Rightarrow>
          (case parse_frontmatter data (trim_ext name) of
             Inl e \<Rightarrow> Inl (wrap_error (''glue: role '' @ quote name @ '' frontmatter: '') e [])
           | Inr p \<Rightarrow> load_role_files fa dir es
               (AList.update (pm_name p) \<lparr>ro_name = pm_name p, ro_description = pm_description p,
                  ro_instructions = pm_body p, ro_model = pm_model p\<rparr> acc)))"

fun load_skill_files :: "file_access \<Rightarrow> string \<Rightarrow> (string \<times> bool) list \<Rightarrow> (string \<times> skill) list
    \<Rightarrow> go_error + (string \<times> skill) list" where
  "load_skill_files fa dir [] acc = Inr acc"
| "load_skill_files fa dir ((name, is_dir) # es) acc =
     (if \<not> is_dir then load_skill_files fa dir es acc
      else case fa_read fa (child (child dir name) ''SKILL.md'') of
        Inl e \<Rightarrow> (if err_is KNotExist e then load_skill_files fa dir es acc else Inl e)
      | Inr data \<Rightarrow>
          (case parse_frontmatter data name of
             Inl e \<Rightarrow> Inl (wrap_error (''glue: skill '' @ quote name @ '' frontmatter: '') e [])
           | Inr p \<Rightarrow> load_skill_files fa dir es
               (AList.update (pm_name p) \<lparr>sk_name = pm_name p, sk_description = pm_description p,
                  sk_instructions = pm_body p\<rparr> acc)))"

definition load_roles :: "file_access \<Rightarrow> string \<Rightarrow> go_error + (string \<times> role) list" where
  "load_roles fa dir =
     (case fa_dir fa dir of
        Inl e \<Rightarrow> (if err_is KNotExist e then Inr [] else Inl e)
      | Inr es \<Rightarrow> load_role_files fa dir es [])"

definition load_skills :: "file_access \<Rightarrow> string \<Rightarrow> go_error + (string \<times> skill) list" where
  "load_skills fa dir =
     (case fa_dir fa dir of
        Inl e \<Rightarrow> (if err_is KNotExist e then Inr [] else Inl e)
      | Inr es \<Rightarrow> load_skill_files fa dir es [])"

text \<open>\<open>LoadContext\<close> of a clean absolute work directory.\<close>

definition load_context :: "file_access \<Rightarrow> string \<Rightarrow> go_error + project_context" where
  "load_context fa dir =
     (if trim_space dir = [] then Inr \<lparr>pc_agents_md = [], pc_skills = [], pc_roles = []\<rparr>
      else case load_agents_md fa dir of
        Inl e \<Rightarrow> Inl e
      | Inr md \<Rightarrow>
          (case load_skills fa (child (child dir ''.agents'') ''skills'') of
             Inl e \<Rightarrow> Inl e
           | Inr sk \<Rightarrow>
               (case load_roles fa (child dir ''roles'') of
                  Inl e \<Rightarrow> Inl e
                | Inr ro \<Rightarrow> Inr \<lparr>pc_agents_md = md, pc_skills = sk, pc_roles = ro\<rparr>)))"

text \<open>The chain runs from the directory that holds \<open>.git\<close> down to the work directory.\<close>

lemma ancestors_head: "\<exists>us. ancestors d = d # us"
  by (subst ancestors.simps) simp

lemma agents_chain_last: "agents_chain exists d \<noteq> [] \<and> last (agents_chain exists d) = d"
proof -
  obtain us where "ancestors d = d # us" using ancestors_head by blast
  then show ?thesis by (auto simp: agents_chain_def Let_def)
qed

lemma agents_chain_top:
  assumes "length (agents_chain exists d) \<noteq> 1"
  shows "exists (child (hd (agents_chain exists d)) ''.git'')"
proof (cases "length (takeWhile (\<lambda>a. \<not> exists (child a ''.git'')) (ancestors d)) = length (ancestors d)")
  case True
  with assms show ?thesis by (simp add: agents_chain_def Let_def)
next
  case False
  let ?n = "length (takeWhile (\<lambda>a. \<not> exists (child a ''.git'')) (ancestors d))"
  have n: "?n < length (ancestors d)" using False by (metis length_takeWhile_le le_neq_implies_less)
  then have "exists (child (ancestors d ! ?n) ''.git'')" using nth_length_takeWhile by fastforce
  moreover have "hd (agents_chain exists d) = ancestors d ! ?n"
    using False n by (simp add: agents_chain_def Let_def hd_rev take_Suc_conv_app_nth)
  ultimately show ?thesis by simp
qed

end
