(* ===== verification/Sessions.thy ===== *)
theory Sessions
  imports Compaction Project_Context
begin

text \<open>
  Model of \<open>src/store.go\<close>, \<open>src/agent.go\<close> and \<open>src/session.go\<close>: session states and stores, the
  agent with its in-memory sessions, forking and cloning, and \<open>Session.Prompt\<close> with compaction, the
  environment block, the overflow retry and the save. A session is locked for the whole of a prompt
  in the code, so one prompt is one step here. Event handlers only observe and have no counterpart;
  pointers to sessions become the value stored in the agent.
\<close>

section \<open>Session states and stores\<close>

record session_state =
  ss_version :: int
  ss_id :: string
  ss_messages :: "message list"
  ss_metadata :: metadata
  ss_created :: go_time
  ss_updated :: go_time

definition session_state_version :: int where "session_state_version = 1"

record session_summary =
  sy_id :: string
  sy_created :: go_time
  sy_updated :: go_time
  sy_messages :: nat
  sy_user :: nat
  sy_assistant :: nat

record list_options =
  lo_prefix :: string
  lo_limit :: int
  lo_offset :: int

record 'w store =
  sto_load :: "string \<Rightarrow> 'w \<Rightarrow> (go_error + session_state option) \<times> 'w"
  sto_save :: "string \<Rightarrow> session_state \<Rightarrow> 'w \<Rightarrow> go_error option \<times> 'w"
  sto_delete :: "string \<Rightarrow> 'w \<Rightarrow> go_error option \<times> 'w"
  sto_list :: "(list_options \<Rightarrow> 'w \<Rightarrow> (go_error + session_summary list) \<times> 'w) option"

definition parent_id_key :: string where "parent_id_key = ''glue/tree:parent_session_id''"
definition parent_index_key :: string where "parent_index_key = ''glue/tree:parent_message_index''"

definition session_parent :: "session_state \<Rightarrow> (string \<times> int) option" where
  "session_parent st =
     (case (map_of (ss_metadata st) parent_id_key, map_of (ss_metadata st) parent_index_key) of
        (Some (MStr i), Some (MInt n)) \<Rightarrow> (if i = [] then None else Some (i, n))
      | (Some (MStr i), Some (MFloat n)) \<Rightarrow> (if i = [] then None else Some (i, n))
      | _ \<Rightarrow> None)"

definition err_session_not_found :: go_error where
  "err_session_not_found = sentinel KNotFound ''glue: session not found''"

definition err_listing_not_supported :: go_error where
  "err_listing_not_supported = sentinel KUnsupported ''glue: store does not support session listing''"

section \<open>Forking and cloning\<close>

definition fork_session :: "go_time \<Rightarrow> 'w store option \<Rightarrow> string \<Rightarrow> int \<Rightarrow> string \<Rightarrow> 'w
    \<Rightarrow> go_error option \<times> 'w" where
  "fork_session now sto src at new_id w =
     (case sto of
        None \<Rightarrow> (Some (new_error ''glue: agent has no store; cannot fork''), w)
      | Some sto \<Rightarrow>
          (case sto_load sto src w of
             (Inl e, w1) \<Rightarrow> (Some e, w1)
           | (Inr None, w1) \<Rightarrow> (Some err_session_not_found, w1)
           | (Inr (Some st), w1) \<Rightarrow>
               (if at < 0 \<or> int (length (ss_messages st)) < at then
                  (Some (new_error (''glue: ForkSession atMessage '' @ itoa_int at @ '' out of range [0, ''
                     @ itoa (length (ss_messages st)) @ '']'')), w1)
                else sto_save sto new_id
                  \<lparr>ss_version = session_state_version, ss_id = new_id,
                   ss_messages = take (nat at) (ss_messages st),
                   ss_metadata = AList.update parent_index_key (MInt at)
                     (AList.update parent_id_key (MStr src) (ss_metadata st)),
                   ss_created = now, ss_updated = now\<rparr> w1)))"

definition clone_session :: "go_time \<Rightarrow> 'w store option \<Rightarrow> string \<Rightarrow> string \<Rightarrow> 'w
    \<Rightarrow> go_error option \<times> 'w" where
  "clone_session now sto src new_id w =
     (case sto of
        None \<Rightarrow> (Some (new_error ''glue: agent has no store; cannot clone''), w)
      | Some sto \<Rightarrow>
          (case sto_load sto src w of
             (Inl e, w1) \<Rightarrow> (Some e, w1)
           | (Inr None, w1) \<Rightarrow> (Some err_session_not_found, w1)
           | (Inr (Some st), w1) \<Rightarrow> sto_save sto new_id
               \<lparr>ss_version = session_state_version, ss_id = new_id, ss_messages = ss_messages st,
                ss_metadata = ss_metadata st, ss_created = now, ss_updated = now\<rparr> w1))"

definition list_sessions :: "'w store option \<Rightarrow> list_options \<Rightarrow> 'w
    \<Rightarrow> (go_error + session_summary list) \<times> 'w" where
  "list_sessions sto opts w =
     (case sto of
        None \<Rightarrow> (Inl err_listing_not_supported, w)
      | Some sto \<Rightarrow>
          (case sto_list sto of
             None \<Rightarrow> (Inl err_listing_not_supported, w)
           | Some f \<Rightarrow> f opts w))"

section \<open>Agents\<close>

record session =
  se_id :: string
  se_messages :: "message list"
  se_metadata :: metadata
  se_created :: go_time
  se_updated :: go_time
  se_role :: string

record 'w agent =
  ag_provider :: "'w provider option"
  ag_model :: string
  ag_system_prompt :: string
  ag_tools :: "'w tool list"
  ag_options :: metadata
  ag_max_turns :: int
  ag_auto_continue :: bool
  ag_env_context :: "('w \<Rightarrow> string) option"
  ag_store :: "'w store option"
  ag_work_dir :: string
  ag_role :: string
  ag_permission :: "'w permission option"
  ag_hooks :: "'w hook option list"
  ag_compactor :: "'w compactor option"
  ag_threshold :: int
  ag_agents_md :: string
  ag_skills :: "(string \<times> skill) list"
  ag_roles :: "(string \<times> role) list"
  ag_context_loaded :: bool
  ag_sessions :: "(string \<times> session) list"

text \<open>Programmatic entries win over loaded ones.\<close>

definition merge_catalog :: "(string \<times> 'a) list \<Rightarrow> (string \<times> 'a) list \<Rightarrow> (string \<times> 'a) list" where
  "merge_catalog own loaded = own @ filter (\<lambda>(k, v). map_of own k = None) loaded"

definition ensure_context :: "file_access \<Rightarrow> 'w agent \<Rightarrow> go_error + 'w agent" where
  "ensure_context fa ag =
     (if ag_context_loaded ag then Inr ag
      else if ag_work_dir ag = [] then Inr (ag\<lparr>ag_context_loaded := True\<rparr>)
      else case load_context fa (ag_work_dir ag) of
        Inl e \<Rightarrow> Inl e
      | Inr pc \<Rightarrow> Inr (ag\<lparr>ag_agents_md := pc_agents_md pc,
          ag_skills := merge_catalog (ag_skills ag) (pc_skills pc),
          ag_roles := merge_catalog (ag_roles ag) (pc_roles pc), ag_context_loaded := True\<rparr>))"

definition load_session_state :: "'w agent \<Rightarrow> string \<Rightarrow> 'w
    \<Rightarrow> (go_error + (session_state \<times> bool)) \<times> 'w" where
  "load_session_state ag i w =
     (let fresh = \<lparr>ss_version = session_state_version, ss_id = i, ss_messages = [], ss_metadata = [],
                    ss_created = 0, ss_updated = 0\<rparr>
      in case ag_store ag of
           None \<Rightarrow> (Inr (fresh, False), w)
         | Some sto \<Rightarrow>
             (case sto_load sto i w of
                (Inl e, w') \<Rightarrow> (Inl e, w')
              | (Inr None, w') \<Rightarrow> (Inr (fresh, False), w')
              | (Inr (Some st), w') \<Rightarrow>
                  (Inr (st\<lparr>ss_id := (if ss_id st = [] then i else ss_id st),
                          ss_version := (if ss_version st = 0 then session_state_version
                                         else ss_version st)\<rparr>, True), w')))"

definition agent_session :: "('w \<Rightarrow> go_time) \<Rightarrow> file_access \<Rightarrow> 'w agent \<Rightarrow> string \<Rightarrow> string \<Rightarrow> 'w
    \<Rightarrow> (go_error + session) \<times> 'w agent \<times> 'w" where
  "agent_session now fa ag i0 role w =
     (let i = (if i0 = [] then ''default'' else i0) in
      case map_of (ag_sessions ag) i of
        Some se \<Rightarrow> (Inr se, ag, w)
      | None \<Rightarrow>
          (case ensure_context fa ag of
             Inl e \<Rightarrow> (Inl e, ag, w)
           | Inr ag1 \<Rightarrow>
               (case load_session_state ag1 i w of
                  (Inl e, w1) \<Rightarrow> (Inl e, ag1, w1)
                | (Inr (st, found), w1) \<Rightarrow>
                    (let se = \<lparr>se_id = i, se_messages = ss_messages st, se_metadata = ss_metadata st,
                           se_created = (if found then ss_created st else now w1),
                           se_updated = (if found then ss_updated st else now w1), se_role = role\<rparr>
                     in (Inr se, ag1\<lparr>ag_sessions := (i, se) # ag_sessions ag1\<rparr>, w1)))))"

section \<open>Prompts\<close>

definition env_context_key :: string where "env_context_key = ''glue/env:context''"

definition is_env_context :: "message \<Rightarrow> bool" where
  "is_env_context m \<longleftrightarrow> map_of (msg_meta m) env_context_key = Some (MBool True)"

definition text_of_parts :: "message \<Rightarrow> string" where
  "text_of_parts m = concat (map part_text (filter (\<lambda>p. part_type p = TypeText) (msg_content m)))"

definition last_env_context_text :: "message list \<Rightarrow> string" where
  "last_env_context_text ms =
     (case last_such is_env_context ms of None \<Rightarrow> [] | Some m \<Rightarrow> text_of_parts m)"

datatype 'w prompt_option =
    OptModel string
  | OptRole string
  | OptSystemPrompt string
  | OptTools "'w tool list"
  | OptProviderOptions metadata
  | OptMaxTurns int
  | OptPermission "'w permission option"
  | OptJSONSchema string

record 'w prompt_config =
  cf_model :: string
  cf_system :: string
  cf_tools :: "'w tool list"
  cf_options :: metadata
  cf_max_turns :: int
  cf_schema :: "string option"
  cf_role :: string
  cf_model_set :: bool
  cf_permission :: "'w permission option"
  cf_permission_set :: bool

fun apply_option :: "'w prompt_option \<Rightarrow> 'w prompt_config \<Rightarrow> 'w prompt_config" where
  "apply_option (OptModel m) c = c\<lparr>cf_model := m, cf_model_set := True\<rparr>"
| "apply_option (OptRole r) c = c\<lparr>cf_role := r\<rparr>"
| "apply_option (OptSystemPrompt s) c = c\<lparr>cf_system := s\<rparr>"
| "apply_option (OptTools ts) c = c\<lparr>cf_tools := ts\<rparr>"
| "apply_option (OptProviderOptions o1) c = c\<lparr>cf_options := o1\<rparr>"
| "apply_option (OptMaxTurns n) c = c\<lparr>cf_max_turns := n\<rparr>"
| "apply_option (OptPermission p) c = c\<lparr>cf_permission := p, cf_permission_set := True\<rparr>"
| "apply_option (OptJSONSchema s) c = c\<lparr>cf_schema := Some s\<rparr>"

definition prompt_config_of :: "'w agent \<Rightarrow> session \<Rightarrow> 'w prompt_option list \<Rightarrow> go_error + 'w prompt_config" where
  "prompt_config_of ag se opts =
     (let c0 = \<lparr>cf_model = ag_model ag,
                cf_system = compose_system_prompt (ag_system_prompt ag) (ag_agents_md ag) (ag_skills ag),
                cf_tools = ag_tools ag, cf_options = ag_options ag, cf_max_turns = ag_max_turns ag,
                cf_schema = None, cf_role = (if se_role se \<noteq> [] then se_role se else ag_role ag),
                cf_model_set = False, cf_permission = None, cf_permission_set = False\<rparr>;
          c = fold apply_option opts c0
      in if cf_role c = [] then Inr c
         else case map_of (ag_roles ag) (cf_role c) of
           None \<Rightarrow> Inl (new_error (''glue: role '' @ quote (cf_role c) @ '' not found''))
         | Some r \<Rightarrow> Inr (c\<lparr>cf_system := append_role (cf_system c) r,
             cf_model := (if ro_model r \<noteq> [] \<and> \<not> cf_model_set c then ro_model r else cf_model c)\<rparr>))"

definition maybe_compact :: "'w compactor option \<Rightarrow> int \<Rightarrow> message list \<Rightarrow> 'w
    \<Rightarrow> (go_error + message list option) \<times> 'w" where
  "maybe_compact c threshold ms w =
     (case c of
        None \<Rightarrow> (Inr None, w)
      | Some compact \<Rightarrow>
          (if threshold \<le> 0 \<or> int (length ms) \<le> threshold then (Inr None, w)
           else case compact ms w of
             (Inl e, w') \<Rightarrow> (Inl e, w')
           | (Inr out, w') \<Rightarrow> (Inr (if length out = length ms then None else Some out), w')))"

text \<open>The transcript to retry with after an overflow: a compaction that made it shorter.\<close>

definition overflow_compact :: "'w compactor option \<Rightarrow> go_error option \<Rightarrow> message list \<Rightarrow> 'w
    \<Rightarrow> message list option \<times> 'w" where
  "overflow_compact c err base w =
     (case (c, err) of
        (Some compact, Some e) \<Rightarrow>
          (if err_is KOverflow e
           then (case compact base w of
                   (Inl _, w') \<Rightarrow> (None, w')
                 | (Inr out, w') \<Rightarrow>
                     ((if out \<noteq> [] \<and> length out < length base then Some out else None), w'))
           else (None, w))
      | _ \<Rightarrow> (None, w))"

definition env_message :: "('w \<Rightarrow> string) option \<Rightarrow> ('w \<Rightarrow> go_time) \<Rightarrow> message list \<Rightarrow> 'w \<Rightarrow> message list" where
  "env_message gen now base w =
     (case gen of
        None \<Rightarrow> []
      | Some f \<Rightarrow>
          (let block = trim_space (f w) in
           if block \<noteq> [] \<and> block \<noteq> last_env_context_text base
           then [(user_text block)\<lparr>msg_created := now w, msg_meta := [(env_context_key, MBool True)]\<rparr>]
           else []))"

definition zero_guard :: guard_policy where
  "zero_guard = \<lparr>gp_disabled = False, gp_repeat_nudge = 0, gp_repeat_halt = 0,
     gp_mistake_nudge = 0, gp_mistake_halt = 0\<rparr>"

definition session_request :: "'w agent \<Rightarrow> session \<Rightarrow> 'w prompt_config \<Rightarrow> message list \<Rightarrow> 'w run_request" where
  "session_request ag se c ms = \<lparr>rq_provider = ag_provider ag, rq_model = cf_model c,
     rq_system = cf_system c, rq_messages = ms,
     rq_setup = \<lparr>su_tools = cf_tools c,
        su_permission = (if cf_permission_set c then cf_permission c else ag_permission ag),
        su_hooks = ag_hooks ag, su_session = se_id se, su_parallel = False\<rparr>,
     rq_options = cf_options c, rq_max_turns = cf_max_turns c, rq_retry = zero_retry,
     rq_auto_continue = ag_auto_continue ag, rq_guardrails = zero_guard\<rparr>"

record prompt_result =
  pt_text :: string
  pt_message :: "message option"
  pt_new :: "message list"
  pt_messages :: "message list"

definition empty_prompt_result :: prompt_result where
  "empty_prompt_result = \<lparr>pt_text = [], pt_message = None, pt_new = [], pt_messages = []\<rparr>"

definition assistant_text :: "message list \<Rightarrow> string" where
  "assistant_text ms = (case last_such is_assistant ms of None \<Rightarrow> [] | Some m \<Rightarrow> text_of_parts m)"

definition state_of_session :: "session \<Rightarrow> session_state" where
  "state_of_session se = \<lparr>ss_version = session_state_version, ss_id = se_id se,
     ss_messages = se_messages se, ss_metadata = se_metadata se, ss_created = se_created se,
     ss_updated = se_updated se\<rparr>"

definition save_session :: "'w agent \<Rightarrow> session \<Rightarrow> 'w \<Rightarrow> go_error option \<times> 'w" where
  "save_session ag se w =
     (case ag_store ag of None \<Rightarrow> (None, w) | Some sto \<Rightarrow> sto_save sto (se_id se) (state_of_session se) w)"

definition join_errors :: "go_error option \<Rightarrow> go_error option \<Rightarrow> go_error option" where
  "join_errors a b =
     (case (a, b) of
        (Some x, Some y) \<Rightarrow> Some \<lparr>err_text = err_text x @ [nl] @ err_text y, err_kinds = err_kinds x @ err_kinds y\<rparr>
      | (Some x, None) \<Rightarrow> Some x
      | (None, y) \<Rightarrow> y)"

text \<open>The part of \<open>Prompt\<close> after the pre-run compaction: the run, its retry, the update of the
  session, the save.\<close>

definition prompt_run :: "'w run_env \<Rightarrow> 'w agent \<Rightarrow> session \<Rightarrow> 'w prompt_config \<Rightarrow> message \<Rightarrow> 'w
    \<Rightarrow> (prompt_result \<times> go_error option) \<times> event list \<times> session \<times> 'w" where
  "prompt_run env ag se c user w =
     (let base = se_messages se;
          tail = env_message (ag_env_context ag) (en_now env) base w @ [user];
          ((r1, e1), ev1, w1) = run env (session_request ag se c (base @ tail)) w;
          (retry, w2) = overflow_compact (ag_compactor ag) e1 base w1;
          (base', r, e, ev, w3) = (case retry of
             None \<Rightarrow> (base, r1, e1, ev1, w2)
           | Some out \<Rightarrow>
               (let ((r2, e2), ev2, w') = run env (session_request ag se c (out @ tail)) w2
                in (out, r2, e2, ev1 @ ev2, w')));
          se' = se\<lparr>se_messages := base' @ tail @ rr_new r, se_updated := en_now env w3\<rparr>;
          (save_err, w4) = save_session ag se' w3
      in ((\<lparr>pt_text = assistant_text (rr_new r), pt_message = last_such is_assistant (rr_new r),
            pt_new = rr_new r, pt_messages = se_messages se'\<rparr>, join_errors e save_err), ev, se', w4))"

definition prompt :: "'w run_env \<Rightarrow> 'w agent \<Rightarrow> session \<Rightarrow> string \<Rightarrow> 'w prompt_option list \<Rightarrow> 'w
    \<Rightarrow> (prompt_result \<times> go_error option) \<times> event list \<times> session \<times> 'w" where
  "prompt env ag se text opts w =
     (if ag_provider ag = None then
        ((empty_prompt_result, Some (new_error ''glue: agent provider is required'')), [], se, w)
      else case prompt_config_of ag se opts of
        Inl e \<Rightarrow> ((empty_prompt_result, Some e), [], se, w)
      | Inr c \<Rightarrow>
          (let user = (user_text text)\<lparr>msg_created := en_now env w\<rparr> in
           case maybe_compact (ag_compactor ag) (ag_threshold ag) (se_messages se) w of
             (Inl e, w1) \<Rightarrow> ((empty_prompt_result, Some e), [], se, w1)
           | (Inr None, w1) \<Rightarrow> prompt_run env ag se c user w1
           | (Inr (Some out), w1) \<Rightarrow>
               prompt_run env ag (se\<lparr>se_messages := out, se_updated := en_now env w1\<rparr>) c user w1))"

section \<open>Structured prompts and skills\<close>

text \<open>\<open>indent\<close> decodes a schema and prints it indented, or fails with the text of the decoder's
  error; \<open>decode\<close> is \<open>json.Unmarshal\<close> into the caller's target.\<close>

definition build_json_prompt :: "string \<Rightarrow> string option \<Rightarrow> string" where
  "build_json_prompt text schema = text @ [nl, nl]
     @ ''Respond with only valid JSON. Do not include markdown fences, prose, or commentary.''
     @ (case schema of None \<Rightarrow> []
        | Some d \<Rightarrow> [nl, nl] @ ''The JSON must conform to this schema:'' @ [nl] @ d)"

definition probe_config :: "'w prompt_config" where
  "probe_config = \<lparr>cf_model = [], cf_system = [], cf_tools = [], cf_options = [], cf_max_turns = 0,
     cf_schema = None, cf_role = [], cf_model_set = False, cf_permission = None,
     cf_permission_set = False\<rparr>"

definition prompt_json :: "(string \<Rightarrow> string + string) \<Rightarrow> (string \<Rightarrow> string + 'a) \<Rightarrow> 'w run_env \<Rightarrow> 'w agent
    \<Rightarrow> session \<Rightarrow> string \<Rightarrow> 'w prompt_option list \<Rightarrow> 'w
    \<Rightarrow> ((prompt_result \<times> (go_error + 'a)) \<times> event list \<times> session \<times> 'w)" where
  "prompt_json indent decode env ag se text opts w =
     (let probe = fold apply_option opts probe_config in
      case (case cf_schema probe of None \<Rightarrow> Inr None | Some s \<Rightarrow> map_sum id Some (indent s)) of
        Inl e \<Rightarrow> ((empty_prompt_result, Inl (new_error (''glue: invalid JSON schema: '' @ e))), [], se, w)
      | Inr schema \<Rightarrow>
          (let po = AList.update ''response_mime_type'' (MStr ''application/json'') (cf_options probe);
               po = (case schema of None \<Rightarrow> po
                     | Some d \<Rightarrow> AList.update ''response_json_schema'' (MJson d) po)
           in case prompt env ag se (build_json_prompt text schema) (opts @ [OptProviderOptions po]) w of
                ((r, Some e), ev, se', w') \<Rightarrow> ((r, Inl e), ev, se', w')
              | ((r, None), ev, se', w') \<Rightarrow>
                  ((r, (case decode (trim_space (pt_text r)) of
                          Inl e \<Rightarrow> Inl (new_error (''glue: decode JSON result: '' @ e))
                        | Inr x \<Rightarrow> Inr x)), ev, se', w')))"

definition run_skill :: "'w run_env \<Rightarrow> 'w agent \<Rightarrow> session \<Rightarrow> string \<Rightarrow> (string + string) option
    \<Rightarrow> 'w prompt_option list \<Rightarrow> 'w \<Rightarrow> (prompt_result \<times> go_error option) \<times> event list \<times> session \<times> 'w" where
  "run_skill env ag se name args opts w =
     (case map_of (ag_skills ag) name of
        None \<Rightarrow> ((empty_prompt_result, Some (new_error (''glue: skill '' @ quote name @ '' not found''))), [], se, w)
      | Some sk \<Rightarrow>
          (case build_skill_prompt sk args of
             Inl e \<Rightarrow> ((empty_prompt_result, Some e), [], se, w)
           | Inr text \<Rightarrow> prompt env ag se text opts w))"

section \<open>Compaction by any compactor\<close>

context compactor
begin

lemma maybe_compact_shape:
  "maybe_compact (Some compact) n ms w = (Inr (Some out), w') \<Longrightarrow> compacts_to ms out \<and> length out < length ms"
  by (auto simp: maybe_compact_def dest: compact_shape compact_length le_neq_implies_less
      split: if_splits prod.splits sum.splits)

lemma overflow_compact_shape:
  "overflow_compact (Some compact) e ms w = (Some out, w') \<Longrightarrow>
     compacts_to ms out \<and> length out < length ms \<and> e \<noteq> None \<and> err_is KOverflow (the e)"
  by (auto simp: overflow_compact_def dest: compact_shape
      split: option.splits if_splits prod.splits sum.splits)

lemma compacts_to_last: "compacts_to ms out \<Longrightarrow> ms \<noteq> [] \<Longrightarrow> out \<noteq> [] \<and> last out = last ms"
  by (auto simp: compacts_to_def)

end

lemma maybe_compact_None [simp]: "maybe_compact None n ms w = (Inr None, w)"
  by (simp add: maybe_compact_def)

lemma overflow_compact_None [simp]: "overflow_compact None e ms w = (None, w)"
  by (simp add: overflow_compact_def)

lemma overflow_compact_only:
  "overflow_compact c e ms w = (Some out, w') \<Longrightarrow> \<exists>x. e = Some x \<and> err_is KOverflow x"
  by (auto simp: overflow_compact_def split: option.splits if_splits)

text \<open>The transcripts a prompt may start its run from: one or two compactions of the session's.\<close>

definition base_of :: "message list \<Rightarrow> message list \<Rightarrow> bool" where
  "base_of ms base \<longleftrightarrow> (\<exists>mid. compacts_to ms mid \<and> compacts_to mid base)"

lemma compacts_to_refl [simp]: "compacts_to ms ms"
  by (simp add: compacts_to_def)

lemma base_of_last: "base_of ms base \<Longrightarrow> ms \<noteq> [] \<Longrightarrow> base \<noteq> [] \<and> last base = last ms"
  by (auto simp: base_of_def compacts_to_def)

definition good_compactor :: "'w compactor option \<Rightarrow> bool" where
  "good_compactor c \<longleftrightarrow> (case c of None \<Rightarrow> True | Some f \<Rightarrow> compactor f)"

lemma prompt_run_shape:
  assumes "prompt_run env ag se c user w = ((r, e), ev, se', w')" and "good_compactor (ag_compactor ag)"
  shows "\<exists>base block. compacts_to (se_messages se) base \<and> length block \<le> 1 \<and> list_all is_env_context block
    \<and> se_messages se' = base @ block @ [user] @ pt_new r \<and> pt_messages r = se_messages se'
    \<and> se_id se' = se_id se"
proof -
  let ?base = "se_messages se"
  let ?block = "env_message (ag_env_context ag) (en_now env) ?base w"
  let ?tail = "?block @ [user]"
  obtain r1 e1 ev1 w1 where r1: "run env (session_request ag se c (?base @ ?tail)) w = ((r1, e1), ev1, w1)"
    by (metis surj_pair)
  obtain retry w2 where rt: "overflow_compact (ag_compactor ag) e1 ?base w1 = (retry, w2)" by fastforce
  have b: "compacts_to ?base (case retry of None \<Rightarrow> ?base | Some out \<Rightarrow> out)"
  proof (cases retry)
    case (Some out)
    then obtain f where f: "ag_compactor ag = Some f" using rt by (cases "ag_compactor ag") auto
    then have "compactor f" using assms(2) by (simp add: good_compactor_def)
    from compactor.overflow_compact_shape [OF this, of e1 ?base w1 out w2] show ?thesis
      using rt f Some by simp
  qed simp
  have "length ?block \<le> 1 \<and> list_all is_env_context ?block"
    by (auto simp: env_message_def is_env_context_def user_text_def Let_def split: option.split)
  moreover have "se_messages se' = (case retry of None \<Rightarrow> ?base | Some out \<Rightarrow> out) @ ?tail @ pt_new r"
    and "pt_messages r = se_messages se'" and "se_id se' = se_id se"
    using assms(1) r1 rt by (auto simp: prompt_run_def Let_def split: option.splits prod.splits)
  ultimately show ?thesis using b by (metis append.assoc)
qed

lemma prompt_cases:
  assumes "prompt env ag se text opts w = ((r, e), ev, se', w')" and "ev \<noteq> []"
  obtains c se1 w1 where "prompt_run env ag se1 c ((user_text text)\<lparr>msg_created := en_now env w\<rparr>) w1
      = ((r, e), ev, se', w')"
    and "se1 = se \<or> (\<exists>out. maybe_compact (ag_compactor ag) (ag_threshold ag) (se_messages se) w
      = (Inr (Some out), w1) \<and> se_messages se1 = out)"
    and "se_id se1 = se_id se" and "prompt_config_of ag se opts = Inr c"
proof -
  obtain c where c: "prompt_config_of ag se opts = Inr c" and p: "ag_provider ag \<noteq> None"
    using assms by (auto simp: prompt_def split: if_splits sum.splits)
  obtain k w1 where k: "maybe_compact (ag_compactor ag) (ag_threshold ag) (se_messages se) w = (k, w1)"
    by fastforce
  show thesis
  proof (cases k)
    case (Inl x)
    then show thesis using assms c p k by (simp add: prompt_def)
  next
    case (Inr o1)
    then show thesis
      using assms(1) c p k that [of se c w1] that [of "se\<lparr>se_messages := the o1, se_updated := en_now env w1\<rparr>" c w1]
      by (cases o1) (simp_all add: prompt_def)
  qed
qed

section \<open>How often a prompt runs the loop\<close>

definition run_count :: "event list \<Rightarrow> nat" where
  "run_count ev = length (filter (\<lambda>e. e = EvLoopStart) ev)"

lemma run_count_simps [simp]:
  "run_count [] = 0" "run_count (e # ev) = (if e = EvLoopStart then 1 else 0) + run_count ev"
  "run_count (ev @ ev') = run_count ev + run_count ev'"
  by (simp_all add: run_count_def)

lemma run_count_filter: "run_count (filter loop_level ev) = run_count ev"
  by (induction ev) auto

lemma turn_trace_no_start: "turn_trace t ev \<Longrightarrow> run_count ev = 0"
  by (cases t) (auto simp: turn_trace_def split: option.splits)

lemma loop_trace_no_start: "loop_trace n e ev \<Longrightarrow> run_count ev = 0"
proof (induction n arbitrary: ev)
  case (Suc n)
  then show ?case using turn_trace_no_start by fastforce
qed simp

lemma run_starts_once: "fst (snd (run env rq w)) = [] \<or> run_count (fst (snd (run env rq w))) = 1"
proof (cases "rq_provider rq")
  case (Some prov)
  obtain e s ev w' where l: "run_loop env prov rq (nat (effective_max_turns rq))
      (initial_run_state rq) w = (e, s, ev, w')" by (metis surj_pair)
  have "loop_trace (nat (effective_max_turns rq)) e (filter loop_level ev)"
    using run_loop_trace [OF l] by (simp add: initial_run_state_def)
  then have "run_count ev = 0" using loop_trace_no_start run_count_filter by metis
  then show ?thesis using Some l by (auto simp: run_def split: option.split)
qed (simp add: run_def)

lemma prompt_run_count:
  assumes "prompt_run env ag se c user w = ((r, e), ev, se', w')"
  shows "run_count ev \<le> 1 \<or> (run_count ev = 2 \<and> ag_compactor ag \<noteq> None
    \<and> (\<exists>ms r1 x ev1 w1. run env (session_request ag se c ms) w = ((r1, Some x), ev1, w1) \<and> err_is KOverflow x))"
proof -
  let ?ms = "se_messages se @ env_message (ag_env_context ag) (en_now env) (se_messages se) w @ [user]"
  obtain r1 e1 ev1 w1 where r1: "run env (session_request ag se c ?ms) w = ((r1, e1), ev1, w1)"
    by (metis surj_pair)
  obtain retry w2 where rt: "overflow_compact (ag_compactor ag) e1 (se_messages se) w1 = (retry, w2)"
    by fastforce
  have s1: "run_count ev1 \<le> 1" using run_starts_once [of env "session_request ag se c ?ms" w] r1 by auto
  show ?thesis
  proof (cases retry)
    case None
    then have "fst (snd (prompt_run env ag se c user w)) = ev1"
      unfolding prompt_run_def using r1 rt by (simp add: Let_def split_beta)
    then show ?thesis using assms s1 by simp
  next
    case (Some out)
    let ?ms2 = "out @ env_message (ag_env_context ag) (en_now env) (se_messages se) w @ [user]"
    obtain r2 e2 ev2 w3 where r2: "run env (session_request ag se c ?ms2) w2 = ((r2, e2), ev2, w3)"
      by (metis surj_pair)
    have s2: "run_count ev2 \<le> 1" using run_starts_once [of env "session_request ag se c ?ms2" w2] r2 by auto
    obtain x where x: "e1 = Some x" "err_is KOverflow x" using overflow_compact_only [OF rt [unfolded Some]] by blast
    have "ag_compactor ag \<noteq> None" using rt Some by (cases "ag_compactor ag") auto
    moreover have "fst (snd (prompt_run env ag se c user w)) = ev1 @ ev2"
      unfolding prompt_run_def using r1 rt r2 Some by (simp add: Let_def split_beta)
    then have "ev = ev1 @ ev2" using assms by simp
    moreover have "run_count ev1 + run_count ev2 \<le> 1 \<or> run_count ev1 + run_count ev2 = 2"
      using s1 s2 by linarith
    ultimately show ?thesis using r1 x by (simp only: run_count_simps) blast
  qed
qed

section \<open>Properties\<close>

text \<open>C23. A prompt that reaches the loop stores the transcript it started from (the session's, or a
  compaction of it that keeps its most recent messages), at most one environment block, the user's
  message and the new messages of the run, in this order.\<close>

theorem prompt_transcript:
  assumes "prompt env ag se text opts w = ((r, e), ev, se', w')" and "ev \<noteq> []"
    and "good_compactor (ag_compactor ag)"
  shows "\<exists>base block. base_of (se_messages se) base \<and> length block \<le> 1 \<and> list_all is_env_context block
    \<and> se_messages se' = base @ block @ [(user_text text)\<lparr>msg_created := en_now env w\<rparr>] @ pt_new r
    \<and> pt_messages r = se_messages se' \<and> se_id se' = se_id se"
  using assms(1,2)
proof (rule prompt_cases)
  fix c se1 w1
  assume p: "prompt_run env ag se1 c ((user_text text)\<lparr>msg_created := en_now env w\<rparr>) w1 = ((r, e), ev, se', w')"
    and s: "se1 = se \<or> (\<exists>out. maybe_compact (ag_compactor ag) (ag_threshold ag) (se_messages se) w
      = (Inr (Some out), w1) \<and> se_messages se1 = out)" and i: "se_id se1 = se_id se"
  have c1: "compacts_to (se_messages se) (se_messages se1)"
  proof (cases "se1 = se")
    case False
    then obtain out where out: "maybe_compact (ag_compactor ag) (ag_threshold ag) (se_messages se) w
      = (Inr (Some out), w1)" "se_messages se1 = out" using s by blast
    then obtain f where f: "ag_compactor ag = Some f" by (cases "ag_compactor ag") auto
    then have "compactor f" using assms(3) by (simp add: good_compactor_def)
    from compactor.maybe_compact_shape [OF this] show ?thesis using out f by metis
  qed simp
  from prompt_run_shape [OF p assms(3)] show ?thesis
    using c1 i unfolding base_of_def by metis
qed

text \<open>A prompt runs the loop at most twice, and twice only when the agent has a compactor and
  the first run ended with a context overflow.\<close>

theorem prompt_retries_overflow_once:
  "let ((r, e), ev, se', w') = prompt env ag se text opts w in
     run_count ev \<le> 1 \<or> (run_count ev = 2 \<and> ag_compactor ag \<noteq> None
       \<and> (\<exists>rq r1 x ev1 w0 w1. run env rq w0 = ((r1, Some x), ev1, w1) \<and> err_is KOverflow x))"
proof -
  obtain r e ev se' w' where p: "prompt env ag se text opts w = ((r, e), ev, se', w')"
    by (metis surj_pair)
  show ?thesis
  proof (cases "ev = []")
    case False
    with p show ?thesis
    proof (rule prompt_cases)
      fix c se1 w1
      assume "prompt_run env ag se1 c ((user_text text)\<lparr>msg_created := en_now env w\<rparr>) w1
        = ((r, e), ev, se', w')"
      from prompt_run_count [OF this] show ?thesis unfolding p by simp blast
    qed
  qed (use p in simp)
qed

text \<open>An agent whose provider calls a tool, then reports an overflow, then answers.\<close>

definition overflow_provider :: "nat provider" where
  "overflow_provider rq n =
     (if n = 11 then (Inl (new_error ''prompt is too long''), Suc n) else sample_provider ''ok'' rq n)"

definition sample_agent :: "int \<Rightarrow> nat agent" where
  "sample_agent threshold = \<lparr>ag_provider = Some overflow_provider, ag_model = ''m'', ag_system_prompt = [],
     ag_tools = su_tools (sample_setup (Some counting_ls) None), ag_options = [], ag_max_turns = 5,
     ag_auto_continue = False, ag_env_context = Some (\<lambda>_. ''cwd: /''), ag_store = None, ag_work_dir = [],
     ag_role = [], ag_permission = Some allow_all, ag_hooks = [], ag_compactor = Some (keep_recent 1),
     ag_threshold = threshold, ag_agents_md = [], ag_skills = [], ag_roles = [],
     ag_context_loaded = True, ag_sessions = []\<rparr>"

definition sample_session :: session where
  "sample_session = \<lparr>se_id = ''s'', se_messages = [user_text ''a'', user_text ''b'', user_text ''c''],
     se_metadata = [], se_created = 1, se_updated = 1, se_role = []\<rparr>"

definition sample_prompt :: "int \<Rightarrow> nat \<Rightarrow> (prompt_result \<times> go_error option) \<times> event list \<times> session \<times> nat" where
  "sample_prompt threshold = prompt sample_env (sample_agent threshold) sample_session ''hi'' []"

lemma keep_recent_good: "good_compactor (Some (keep_recent n))"
  by (simp add: good_compactor_def keep_recent.compactor_axioms)

theorem prompt_transcript_witness:
  "let x = sample_prompt 2 12; se' = fst (snd (snd x)) in
     length (se_messages se') = 5 \<and> pt_messages (fst (fst x)) = se_messages se'"
proof -
  let ?x = "sample_prompt 2 12"
  have x: "?x = ((fst (fst ?x), snd (fst ?x)), fst (snd ?x), fst (snd (snd ?x)), snd (snd (snd ?x)))"
    by simp
  have "fst (snd ?x) \<noteq> []" and l: "length (se_messages (fst (snd (snd ?x)))) = 5"
    by code_simp+
  moreover have "good_compactor (ag_compactor (sample_agent 2))"
    by (simp add: sample_agent_def keep_recent_good)
  ultimately show ?thesis
    using prompt_transcript [OF x [unfolded sample_prompt_def]] by (auto simp: sample_prompt_def Let_def)
qed

text \<open>When the overflow comes after the first run has executed tools, the retry starts over
  from the prompt and the messages of the first run are dropped: the tool has run (the world shows
  it), but neither its call nor its result is in the new messages or in the stored transcript.\<close>

theorem overflow_retry_forgets_tools:
  "let x = sample_prompt 0 0; r = fst (fst x) in
     snd (fst x) = None \<and> snd (snd (snd x)) = 13 \<and> run_count (fst (snd x)) = 2
     \<and> list_ex (\<lambda>e. case e of EvToolEnd _ _ _ \<Rightarrow> True | _ \<Rightarrow> False) (fst (snd x))
     \<and> map collect_tool_calls (pt_new r) = [[]]
     \<and> \<not> list_ex is_tool (se_messages (fst (snd (snd x))))"
  by code_simp

end
