(* ===== verification/Session_Store.thy ===== *)
theory Session_Store
  imports Sessions
begin

text \<open>
  The contract of \<open>Store\<close> (\<open>src/store.go\<close>) as a locale, the tree operations of the agent proved
  against it, and the model of the file store (\<open>src/stores/file/store.go\<close>) that implements it. The
  file store keeps one JSON file per session; a file is the state that decoding it gives, which
  differs from the state that was saved by the JSON round trip of the metadata (integers come back as
  floats, rounded to 53 bits, string lists as lists of values). Texts are taken to be valid UTF-8, as
  everywhere where JSON is written: \<open>encoding/json\<close> replaces a byte that is not. The file system is a map
  from file names to contents and a queue of the outcomes of the next system calls.
\<close>

section \<open>Integers in JSON\<close>

text \<open>A number read back into an \<open>any\<close> is a \<open>float64\<close>: an integer is rounded to 53 bits, to the nearest and
  to the even one of two.\<close>

fun bit_length :: "nat \<Rightarrow> nat" where
  "bit_length n = (if n = 0 then 0 else Suc (bit_length (n div 2)))"

declare bit_length.simps [simp del]

definition round53 :: "nat \<Rightarrow> nat" where
  "round53 x =
     (let k = bit_length x - 53; q = x div 2 ^ k; r = x mod 2 ^ k
      in (if 2 * r > 2 ^ k \<or> (2 * r = 2 ^ k \<and> odd q) then q + 1 else q) * 2 ^ k)"

definition float53 :: "int \<Rightarrow> int" where
  "float53 n = (if n < 0 then - int (round53 (nat (- n))) else int (round53 (nat n)))"

lemma bit_length_le: "bit_length x \<le> b \<longleftrightarrow> x < 2 ^ b"
proof (induction x arbitrary: b rule: bit_length.induct)
  case (1 x)
  show ?case
  proof (cases "x = 0")
    case False
    then show ?thesis using 1 [OF False]
      by (cases b) (auto simp: bit_length.simps [of x] div_less_iff_less_mult mult.commute)
  qed (simp add: bit_length.simps)
qed

lemma round53_exact: "2 ^ (bit_length x - 53) dvd x \<Longrightarrow> round53 x = x"
  by (simp add: round53_def Let_def)

lemma round53_small: "x \<le> 2 ^ 53 \<Longrightarrow> round53 x = x"
proof (rule round53_exact)
  assume x: "x \<le> 2 ^ 53"
  show "2 ^ (bit_length x - 53) dvd x"
  proof (cases "x = 2 ^ 53")
    case True
    have "bit_length x \<le> 54" using True by (simp add: bit_length_le)
    then have "(2 :: nat) ^ (bit_length x - 53) dvd 2 ^ 53" by (intro le_imp_power_dvd) simp
    then show ?thesis by (simp only: True)
  next
    case False
    then have "bit_length x \<le> 53" using x by (simp add: bit_length_le)
    then show ?thesis by simp
  qed
qed

lemma round53_idem [simp]: "round53 (round53 x) = round53 x"
proof -
  define k where "k = bit_length x - 53"
  define q where "q = x div 2 ^ k"
  have "bit_length x \<le> 53 + k" by (simp add: k_def)
  then have "x < 2 ^ (53 + k)" by (simp only: bit_length_le)
  then have "q < 2 ^ 53" by (simp add: q_def div_less_iff_less_mult power_add)
  moreover obtain m where m: "round53 x = m * 2 ^ k" "m = q \<or> m = q + 1"
    by (simp add: round53_def Let_def k_def q_def)
  ultimately have le: "m \<le> 2 ^ 53" by auto
  have "2 ^ (bit_length (m * 2 ^ k) - 53) dvd m * 2 ^ k"
  proof (cases "m = 2 ^ 53")
    case True
    then have e: "m * 2 ^ k = 2 ^ (53 + k)" by (simp add: power_add)
    have "bit_length (2 ^ (53 + k)) \<le> 54 + k" by (simp add: bit_length_le)
    then show ?thesis unfolding e by (intro le_imp_power_dvd) simp
  next
    case False
    then have "m * 2 ^ k < 2 ^ (53 + k)" using le by (simp add: power_add)
    then have "bit_length (m * 2 ^ k) - 53 \<le> k" using bit_length_le [of "m * 2 ^ k" "53 + k"] by simp
    then show ?thesis by (intro dvd_mult le_imp_power_dvd)
  qed
  then show ?thesis unfolding m(1) by (rule round53_exact)
qed

lemma float53_idem [simp]: "float53 (float53 n) = float53 n"
proof (cases "n < 0")
  case True
  then show ?thesis by (cases "round53 (nat (- n)) = 0") (simp_all add: float53_def round53_small)
qed (simp add: float53_def)

lemma float53_exact: "\<bar>n\<bar> \<le> 2 ^ 53 \<Longrightarrow> float53 n = n"
  by (auto simp: float53_def round53_small nat_le_iff)

section \<open>The contract\<close>

text \<open>A state whose saving needs no defaults.\<close>

definition complete_state :: "session_state \<Rightarrow> bool" where
  "complete_state st \<longleftrightarrow> ss_id st \<noteq> [] \<and> ss_version st \<noteq> 0 \<and> ss_created st \<noteq> 0 \<and> ss_updated st \<noteq> 0"

text \<open>\<open>contents\<close> is what a store holds in a world, \<open>image\<close> what becomes of a state by storing it.\<close>

locale session_store =
  fixes sto :: "'w store"
    and contents :: "'w \<Rightarrow> string \<Rightarrow> session_state option"
    and image :: "session_state \<Rightarrow> session_state"
  assumes load_contents: "sto_load sto i w = (Inr r, w') \<Longrightarrow> r = contents w i"
    and load_keeps: "sto_load sto i w = (x, w') \<Longrightarrow> contents w' = contents w"
    and save_contents: "sto_save sto i st w = (None, w') \<Longrightarrow> complete_state st
      \<Longrightarrow> contents w' = (contents w)(i \<mapsto> image st)"
    and save_atomic: "sto_save sto i st w = (Some e, w') \<Longrightarrow> contents w' = contents w"
    and delete_contents: "sto_delete sto i w = (None, w') \<Longrightarrow> contents w' = (contents w)(i := None)"
    and delete_atomic: "sto_delete sto i w = (Some e, w') \<Longrightarrow> contents w' = contents w"
    and image_parent: "session_parent (image st) = map_option (apsnd float53) (session_parent st)"
    and image_length: "length (ss_messages (image st)) = length (ss_messages st)"
    and image_complete: "complete_state (image st) = complete_state st"
begin

lemma load_after_save:
  assumes "sto_save sto i st w = (None, w1)" and "complete_state st" and "sto_load sto i w1 = (Inr r, w2)"
  shows "r = Some (image st)"
  using save_contents [OF assms(1,2)] load_contents [OF assms(3)] by simp

lemma load_other_after_save:
  assumes "sto_save sto i st w = (None, w1)" and "complete_state st" and "j \<noteq> i"
    and "sto_load sto j w1 = (Inr r, w2)"
  shows "r = contents w j"
  using save_contents [OF assms(1,2)] load_contents [OF assms(4)] assms(3) by simp

text \<open>Forking: the new session is the stored image of the prefix, linked to its parent; every other
  session is untouched, and a failed fork changes nothing.\<close>

lemma fork_contents:
  assumes "fork_session now (Some sto) src at new_id w = (None, w')" and "new_id \<noteq> []" and "now \<noteq> 0"
  shows "\<exists>st fork. contents w src = Some st \<and> 0 \<le> at \<and> at \<le> int (length (ss_messages st))
    \<and> contents w' = (contents w)(new_id \<mapsto> image fork)
    \<and> ss_messages fork = take (nat at) (ss_messages st) \<and> ss_id fork = new_id
    \<and> session_parent (image fork) = (if src = [] then None else Some (src, float53 at))"
proof -
  obtain st w1 where l: "sto_load sto src w = (Inr (Some st), w1)"
    and r: "0 \<le> at" "at \<le> int (length (ss_messages st))"
    using assms(1) by (auto simp: fork_session_def split: option.splits sum.splits prod.splits if_splits)
  let ?fork = "\<lparr>ss_version = session_state_version, ss_id = new_id,
    ss_messages = take (nat at) (ss_messages st),
    ss_metadata = AList.update parent_index_key (MInt at)
      (AList.update parent_id_key (MStr src) (ss_metadata st)), ss_created = now, ss_updated = now\<rparr>"
  have s: "sto_save sto new_id ?fork w1 = (None, w')"
    using assms(1) l r by (simp add: fork_session_def)
  have c: "complete_state ?fork"
    using assms(2,3) by (simp add: complete_state_def session_state_version_def)
  have "parent_id_key \<noteq> parent_index_key" by (simp add: parent_id_key_def parent_index_key_def)
  then have "session_parent ?fork = (if src = [] then None else Some (src, at))"
    by (simp add: session_parent_def update_conv')
  then show ?thesis
    using load_contents [OF l] load_keeps [OF l] save_contents [OF s c] r image_parent [of ?fork]
    by (intro exI [of _ st] exI [of _ ?fork]) simp
qed

lemma fork_failure:
  "fork_session now (Some sto) src at new_id w = (Some e, w') \<Longrightarrow> contents w' = contents w"
  by (auto simp: fork_session_def load_keeps dest: save_atomic load_keeps
      split: option.splits sum.splits prod.splits if_splits)

lemma clone_contents:
  assumes "clone_session now (Some sto) src new_id w = (None, w')" and "new_id \<noteq> []" and "now \<noteq> 0"
  shows "\<exists>st copy. contents w src = Some st \<and> contents w' = (contents w)(new_id \<mapsto> image copy)
    \<and> ss_messages copy = ss_messages st
    \<and> session_parent (image copy) = map_option (apsnd float53) (session_parent st)"
proof -
  obtain st w1 where l: "sto_load sto src w = (Inr (Some st), w1)"
    using assms(1) by (auto simp: clone_session_def split: option.splits sum.splits prod.splits)
  let ?copy = "\<lparr>ss_version = session_state_version, ss_id = new_id, ss_messages = ss_messages st,
    ss_metadata = ss_metadata st, ss_created = now, ss_updated = now\<rparr>"
  have s: "sto_save sto new_id ?copy w1 = (None, w')" using assms(1) l by (simp add: clone_session_def)
  have c: "complete_state ?copy"
    using assms(2,3) by (simp add: complete_state_def session_state_version_def)
  have "session_parent ?copy = session_parent st" by (simp add: session_parent_def)
  then show ?thesis
    using load_contents [OF l] load_keeps [OF l] save_contents [OF s c] image_parent [of ?copy]
    by (intro exI [of _ st] exI [of _ ?copy]) simp
qed

end

section \<open>File names\<close>

text \<open>\<open>url.PathEscape\<close>: the bytes it leaves alone, and two upper-case hex digits for the others.\<close>

definition segment_byte :: "nat \<Rightarrow> bool" where
  "segment_byte n = ((48 \<le> n \<and> n \<le> 57) \<or> (65 \<le> n \<and> n \<le> 90) \<or> (97 \<le> n \<and> n \<le> 122)
     \<or> n \<in> {45, 95, 46, 126, 36, 38, 43, 61, 58, 64})"

definition upper_hex :: "nat \<Rightarrow> char" where
  "upper_hex n = (if n < 10 then byte (48 + n) else byte (55 + n))"

definition escape_byte :: "char \<Rightarrow> string" where
  "escape_byte c = (if segment_byte (code_of c) then [c]
     else [CHR ''%'', upper_hex (code_of c div 16), upper_hex (code_of c mod 16)])"

definition path_escape :: "string \<Rightarrow> string" where
  "path_escape s = concat (map escape_byte s)"

definition session_file :: "string \<Rightarrow> string" where
  "session_file i = path_escape i @ ''.json''"

lemma code_of_bound: "code_of c < 256"
  unfolding code_of_def by (metis of_char_mod_256 mod_less_divisor zero_less_numeral)

text \<open>\<open>url.PathUnescape\<close>\<close>

definition hex_value :: "char \<Rightarrow> nat option" where
  "hex_value c = (let n = code_of c in
     if 48 \<le> n \<and> n \<le> 57 then Some (n - 48)
     else if 65 \<le> n \<and> n \<le> 70 then Some (n - 55)
     else if 97 \<le> n \<and> n \<le> 102 then Some (n - 87) else None)"

fun path_unescape :: "string \<Rightarrow> string option" where
  "path_unescape [] = Some []"
| "path_unescape (c # s) =
     (if c = CHR ''%'' then
        (case s of
           a # b # t \<Rightarrow>
             (case (hex_value a, hex_value b) of
                (Some x, Some y) \<Rightarrow> map_option (\<lambda>u. byte (16 * x + y) # u) (path_unescape t)
              | _ \<Rightarrow> None)
         | _ \<Rightarrow> None)
      else map_option (\<lambda>u. c # u) (path_unescape s))"

lemma hex_value_upper: "n < 16 \<Longrightarrow> hex_value (upper_hex n) = Some n"
  by (auto simp: hex_value_def upper_hex_def Let_def)

lemma upper_hex_segment: "n < 16 \<Longrightarrow> upper_hex n \<noteq> CHR ''/''"
proof -
  assume n: "n < 16"
  have "code_of (upper_hex n) \<noteq> 47" using n by (simp add: upper_hex_def)
  then show ?thesis by (auto simp: code_of_def)
qed

lemma path_unescape_escape: "path_unescape (path_escape s) = Some s"
proof (induction s)
  case (Cons c s)
  have b: "code_of c div 16 < 16" "code_of c mod 16 < 16"
    using code_of_bound [of c] by (simp_all add: less_mult_imp_div_less)
  show ?case
  proof (cases "segment_byte (code_of c)")
    case True
    then have "c \<noteq> CHR ''%''" by (auto simp: segment_byte_def code_of_def)
    then show ?thesis using True Cons by (simp add: path_escape_def escape_byte_def)
  next
    case False
    have "16 * (code_of c div 16) + code_of c mod 16 = code_of c" by simp
    then show ?thesis using False Cons b
      by (simp add: path_escape_def escape_byte_def hex_value_upper)
  qed
qed (simp add: path_escape_def)

lemma path_escape_inj: "path_escape s = path_escape t \<Longrightarrow> s = t"
  by (metis path_unescape_escape option.inject)

lemma session_file_inj: "session_file i = session_file j \<longleftrightarrow> i = j"
  using path_escape_inj [of i j] by (auto simp: session_file_def)

lemma path_escape_no_slash: "CHR ''/'' \<notin> set (path_escape s)"
proof -
  have "CHR ''/'' \<notin> set (escape_byte c)" for c
  proof -
    have "upper_hex (code_of c div 16) \<noteq> CHR ''/''" "upper_hex (code_of c mod 16) \<noteq> CHR ''/''"
      using code_of_bound [of c] by (intro upper_hex_segment; simp add: less_mult_imp_div_less)+
    moreover have "segment_byte (code_of c) \<Longrightarrow> c \<noteq> CHR ''/''"
      by (auto simp: segment_byte_def code_of_def)
    ultimately show ?thesis by (auto simp: escape_byte_def)
  qed
  then show ?thesis by (auto simp: path_escape_def)
qed

section \<open>The JSON round trip\<close>

fun json_value :: "meta_value \<Rightarrow> meta_value" where
  "json_value (MInt n) = MFloat (float53 n)"
| "json_value (MFloat n) = MFloat (float53 n)"
| "json_value (MStrings xs) = MList (map MStr xs)"
| "json_value (MList vs) = MList (map json_value vs)"
| "json_value v = v"

definition json_meta :: "metadata \<Rightarrow> metadata" where
  "json_meta = map (\<lambda>(k, v). (k, json_value v))"

definition json_state :: "session_state \<Rightarrow> session_state" where
  "json_state st = st\<lparr>ss_messages := map (\<lambda>m. m\<lparr>msg_meta := json_meta (msg_meta m)\<rparr>) (ss_messages st),
     ss_metadata := json_meta (ss_metadata st)\<rparr>"

lemma map_of_json_meta: "map_of (json_meta xs) k = map_option json_value (map_of xs k)"
  unfolding json_meta_def by (induction xs) auto

lemma json_value_idem [simp]: "json_value (json_value v) = json_value v"
proof (induction v)
  case (MStrings xs)
  then show ?case by simp
qed auto

lemma json_parent: "session_parent (json_state st) = map_option (apsnd float53) (session_parent st)"
  unfolding session_parent_def json_state_def
  by (auto simp: map_of_json_meta split: option.split meta_value.split)

section \<open>The file store\<close>

text \<open>A file holds a decodable state or, with the decoder's complaint, something else. Every system
  call takes its outcome from the queue; an empty queue means success.\<close>

record file_world =
  fw_files :: "(string \<times> (string + session_state)) list"
  fw_outcomes :: "go_error option list"
  fw_now :: go_time

definition sys_call :: "file_world \<Rightarrow> go_error option \<times> file_world" where
  "sys_call w = (case fw_outcomes w of [] \<Rightarrow> (None, w) | x # xs \<Rightarrow> (x, w\<lparr>fw_outcomes := xs\<rparr>))"

definition file_path :: "string \<Rightarrow> string \<Rightarrow> go_error + string" where
  "file_path dir i =
     (if trim_space dir = [] then Inl (new_error ''file store: directory is required'')
      else if trim_space i = [] then Inl (new_error ''file store: session id is required'')
      else Inr (session_file i))"

definition with_defaults :: "string \<Rightarrow> session_state \<Rightarrow> session_state" where
  "with_defaults i st = st\<lparr>ss_id := (if ss_id st = [] then i else ss_id st),
     ss_version := (if ss_version st = 0 then session_state_version else ss_version st)\<rparr>"

text \<open>\<open>os.ReadFile\<close>: a file that is not there is not found, unless the call fails in another way; the system
  reports \<open>ErrNotExist\<close> only for a file that is not there. \<open>os.Remove\<close> likewise.\<close>

definition file_load :: "string \<Rightarrow> string \<Rightarrow> file_world \<Rightarrow> (go_error + session_state option) \<times> file_world" where
  "file_load dir i w =
     (case file_path dir i of
        Inl e \<Rightarrow> (Inl e, w)
      | Inr f \<Rightarrow>
          (case (sys_call w, map_of (fw_files w) f) of
             ((Some e, w'), content) \<Rightarrow>
               ((if content = None \<and> err_is KNotExist e then Inr None else Inl e), w')
           | ((None, w'), None) \<Rightarrow> (Inr None, w')
           | ((None, w'), Some (Inl e)) \<Rightarrow>
               (Inl (new_error (''file store: load '' @ quote i @ '': '' @ e)), w')
           | ((None, w'), Some (Inr st)) \<Rightarrow> (Inr (Some (with_defaults i st)), w')))"

text \<open>\<open>MkdirAll\<close>, \<open>CreateTemp\<close>, \<open>Write\<close>, \<open>Close\<close> and \<open>Rename\<close>, in this order: the first that fails
  ends the save, and only the last one touches the session's file.\<close>

fun sys_calls :: "nat \<Rightarrow> file_world \<Rightarrow> go_error option \<times> file_world" where
  "sys_calls 0 w = (None, w)"
| "sys_calls (Suc n) w =
     (case sys_call w of (Some e, w') \<Rightarrow> (Some e, w') | (None, w') \<Rightarrow> sys_calls n w')"

definition file_save :: "string \<Rightarrow> string \<Rightarrow> session_state \<Rightarrow> file_world \<Rightarrow> go_error option \<times> file_world" where
  "file_save dir i st w =
     (case file_path dir i of
        Inl e \<Rightarrow> (Some e, w)
      | Inr f \<Rightarrow>
          (let st1 = (with_defaults i st)\<lparr>
                 ss_created := (if ss_created st = 0 then fw_now w else ss_created st),
                 ss_updated := (if ss_updated st = 0 then fw_now w else ss_updated st)\<rparr>
           in case sys_calls 5 w of
                (Some e, w') \<Rightarrow> (Some e, w')
              | (None, w') \<Rightarrow>
                  (None, w'\<lparr>fw_files := AList.update f (Inr (json_state st1)) (fw_files w')\<rparr>)))"

definition file_delete :: "string \<Rightarrow> string \<Rightarrow> file_world \<Rightarrow> go_error option \<times> file_world" where
  "file_delete dir i w =
     (case file_path dir i of
        Inl e \<Rightarrow> (Some e, w)
      | Inr f \<Rightarrow>
          (case sys_call w of
             (Some e, w') \<Rightarrow> ((if map_of (fw_files w) f = None \<and> err_is KNotExist e then None else Some e), w')
           | (None, w') \<Rightarrow> (None, w'\<lparr>fw_files := AList.delete f (fw_files w')\<rparr>)))"

definition count_role :: "message_role \<Rightarrow> message list \<Rightarrow> nat" where
  "count_role r ms = length (filter (\<lambda>m. msg_role m = r) ms)"

definition summary_of_state :: "session_state \<Rightarrow> session_summary" where
  "summary_of_state st = \<lparr>sy_id = ss_id st, sy_created = ss_created st, sy_updated = ss_updated st,
     sy_messages = length (ss_messages st), sy_user = count_role RoleUser (ss_messages st),
     sy_assistant = count_role RoleAssistant (ss_messages st)\<rparr>"

fun collect_summaries :: "string \<Rightarrow> string \<Rightarrow> string list \<Rightarrow> file_world
    \<Rightarrow> (go_error + session_summary list) \<times> file_world" where
  "collect_summaries dir pre [] w = (Inr [], w)"
| "collect_summaries dir pre (f # fs) w =
     (if \<not> has_suffix f ''.json'' then collect_summaries dir pre fs w
      else case path_unescape (trim_suffix f ''.json'') of
        None \<Rightarrow> (Inl (new_error (''file store: decode session file '' @ f)), w)
      | Some i \<Rightarrow>
          (if pre \<noteq> [] \<and> \<not> has_prefix i pre then collect_summaries dir pre fs w
           else case file_load dir i w of
             (Inl e, w1) \<Rightarrow> (Inl e, w1)
           | (Inr None, w1) \<Rightarrow> collect_summaries dir pre fs w1
           | (Inr (Some st), w1) \<Rightarrow>
               (case collect_summaries dir pre fs w1 of
                  (Inl e, w2) \<Rightarrow> (Inl e, w2)
                | (Inr ys, w2) \<Rightarrow> (Inr (summary_of_state st # ys), w2))))"

definition summary_before :: "session_summary \<Rightarrow> session_summary \<Rightarrow> bool" where
  "summary_before a b =
     (if sy_updated a \<noteq> sy_updated b then sy_updated b < sy_updated a
      else sy_id a \<noteq> sy_id b \<and> bytes_le (sy_id a) (sy_id b))"

definition file_list :: "string \<Rightarrow> list_options \<Rightarrow> file_world
    \<Rightarrow> (go_error + session_summary list) \<times> file_world" where
  "file_list dir opts w =
     (if trim_space dir = [] then (Inl (new_error ''file store: directory is required''), w)
      else case sys_call w of
        (Some e, w1) \<Rightarrow> ((if err_is KNotExist e then Inr [] else Inl e), w1)
      | (None, w1) \<Rightarrow>
          (case collect_summaries dir (trim_space (lo_prefix opts)) (map fst (fw_files w1)) w1 of
             (Inl e, w2) \<Rightarrow> (Inl e, w2)
           | (Inr ys, w2) \<Rightarrow>
               (let offset = nat (max 0 (lo_offset opts));
                    limit = nat (if lo_limit opts \<le> 0 then 50 else lo_limit opts)
                in (Inr (take limit (drop offset (sort_by summary_before ys))), w2))))"

definition file_store :: "string \<Rightarrow> file_world store" where
  "file_store dir = \<lparr>sto_load = file_load dir, sto_save = file_save dir, sto_delete = file_delete dir,
     sto_list = Some (file_list dir)\<rparr>"

section \<open>The file store meets the contract\<close>

definition file_contents :: "string \<Rightarrow> file_world \<Rightarrow> string \<Rightarrow> session_state option" where
  "file_contents dir w i =
     (case file_path dir i of
        Inl _ \<Rightarrow> None
      | Inr f \<Rightarrow>
          (case map_of (fw_files w) f of
             Some (Inr st) \<Rightarrow> Some (with_defaults i st)
           | _ \<Rightarrow> None))"

lemma sys_call_files: "sys_call w = (x, w') \<Longrightarrow> fw_files w' = fw_files w"
  by (auto simp: sys_call_def split: list.splits)

lemma sys_calls_files: "sys_calls n w = (x, w') \<Longrightarrow> fw_files w' = fw_files w"
proof (induction n arbitrary: w)
  case (Suc n)
  then show ?case by (auto dest: sys_call_files split: prod.splits option.splits)
qed simp

lemma file_contents_files: "fw_files w' = fw_files w \<Longrightarrow> file_contents dir w' = file_contents dir w"
  by (auto simp: file_contents_def fun_eq_iff split: sum.split)

lemma with_defaults_id: "complete_state st \<Longrightarrow> with_defaults i st = st"
  by (simp add: complete_state_def with_defaults_def)

lemma json_complete [simp]: "complete_state (json_state st) = complete_state st"
  by (simp add: complete_state_def json_state_def)

interpretation files: session_store "file_store dir" "file_contents dir" json_state for dir
proof
  fix i w r w'
  assume "sto_load (file_store dir) i w = (Inr r, w')"
  then show "r = file_contents dir w i"
    by (auto simp: file_store_def file_load_def file_contents_def
        split: sum.splits option.splits prod.splits if_splits)
next
  fix i w x w'
  assume "sto_load (file_store dir) i w = (x, w')"
  then have "fw_files w' = fw_files w"
    by (auto simp: file_store_def file_load_def dest: sys_call_files
        split: sum.splits option.splits prod.splits)
  then show "file_contents dir w' = file_contents dir w" by (rule file_contents_files)
next
  fix i st w w'
  assume s: "sto_save (file_store dir) i st w = (None, w')" and c: "complete_state st"
  then obtain f where f: "file_path dir i = Inr f"
    by (auto simp: file_store_def file_save_def split: sum.splits)
  have fi: "f = session_file i" "trim_space dir \<noteq> []" "trim_space i \<noteq> []"
    using f by (auto simp: file_path_def split: if_splits)
  have st: "(with_defaults i st)\<lparr>ss_created := (if ss_created st = 0 then fw_now w else ss_created st),
      ss_updated := (if ss_updated st = 0 then fw_now w else ss_updated st)\<rparr> = st"
    using c by (simp add: with_defaults_id) (simp add: complete_state_def)
  have w': "fw_files w' = AList.update f (Inr (json_state st)) (fw_files w)"
    using s f unfolding file_store_def file_save_def Let_def st
    by (auto dest: sys_calls_files simp: st split: prod.splits option.splits)
  show "file_contents dir w' = (file_contents dir w)(i \<mapsto> json_state st)"
  proof
    fix j
    show "file_contents dir w' j = ((file_contents dir w)(i \<mapsto> json_state st)) j"
      using fi w' c with_defaults_id [of "json_state st" j]
      by (auto simp: file_contents_def file_path_def update_conv' session_file_inj)
  qed
next
  fix i st w e w'
  assume "sto_save (file_store dir) i st w = (Some e, w')"
  then have "fw_files w' = fw_files w"
    by (auto simp: file_store_def file_save_def Let_def dest: sys_calls_files
        split: sum.splits option.splits prod.splits)
  then show "file_contents dir w' = file_contents dir w" by (rule file_contents_files)
next
  fix i w w'
  assume d: "sto_delete (file_store dir) i w = (None, w')"
  then obtain f where f: "file_path dir i = Inr f"
    by (auto simp: file_store_def file_delete_def split: sum.splits)
  then have fi: "f = session_file i" by (auto simp: file_path_def split: if_splits)
  show "file_contents dir w' = (file_contents dir w)(i := None)"
  proof
    fix j
    obtain x v where s: "sys_call w = (x, v)" by fastforce
    note v = sys_call_files [OF s]
    show "file_contents dir w' j = ((file_contents dir w)(i := None)) j"
    proof (cases x)
      case (Some e)
      then have "map_of (fw_files w) f = None" "fw_files w' = fw_files w" using d f s v
        by (auto simp: file_store_def file_delete_def split: if_splits)
      then have "file_contents dir w' = file_contents dir w" "file_contents dir w i = None"
        using f by (auto intro: file_contents_files simp: file_contents_def)
      then show ?thesis by simp
    next
      case None
      then have "fw_files w' = AList.delete f (fw_files w)" using d f s v
        by (auto simp: file_store_def file_delete_def)
      then show ?thesis using fi
        by (auto simp: file_contents_def file_path_def delete_conv' session_file_inj split: sum.splits)
    qed
  qed
next
  fix i w e w'
  assume "sto_delete (file_store dir) i w = (Some e, w')"
  then have "fw_files w' = fw_files w"
    by (auto simp: file_store_def file_delete_def dest: sys_call_files
        split: sum.splits option.splits prod.splits if_splits)
  then show "file_contents dir w' = file_contents dir w" by (rule file_contents_files)
qed (simp_all add: json_parent, simp add: json_state_def)

section \<open>Properties\<close>

text \<open>C26. Forking on the file store: on success the new session is stored with exactly the first
  \<open>atMessage\<close> messages of the source (up to the JSON form of their metadata) and with a readable
  link to its parent, whose index is the float that JSON makes of it and so exact up to \<open>2 ^ 53\<close>, and no
  other session changes; a fork that fails changes nothing.\<close>

theorem file_fork_session:
  assumes "new_id \<noteq> []" and "now \<noteq> 0"
  shows "case fork_session now (Some (file_store dir)) src at new_id w of
      (Some e, w') \<Rightarrow> file_contents dir w' = file_contents dir w
    | (None, w') \<Rightarrow> (\<exists>st fork. file_contents dir w src = Some st \<and> 0 \<le> at \<and> at \<le> int (length (ss_messages st))
        \<and> file_contents dir w' = (file_contents dir w)(new_id \<mapsto> json_state fork)
        \<and> ss_messages fork = take (nat at) (ss_messages st) \<and> ss_id fork = new_id
        \<and> session_parent (json_state fork) = (if src = [] then None else Some (src, float53 at))
        \<and> (at \<le> 2 ^ 53 \<longrightarrow> float53 at = at))"
proof -
  obtain e w' where f: "fork_session now (Some (file_store dir)) src at new_id w = (e, w')" by fastforce
  show ?thesis
  proof (cases e)
    case None
    from files.fork_contents [OF f [unfolded None] assms] obtain st fork
      where "file_contents dir w src = Some st" and "0 \<le> at" and "at \<le> int (length (ss_messages st))"
        and "file_contents dir w' = (file_contents dir w)(new_id \<mapsto> json_state fork)"
        and "ss_messages fork = take (nat at) (ss_messages st)" and "ss_id fork = new_id"
        and "session_parent (json_state fork) = (if src = [] then None else Some (src, float53 at))" by blast
    moreover have "at \<le> 2 ^ 53 \<longrightarrow> float53 at = at" using \<open>0 \<le> at\<close> by (simp add: float53_exact)
    ultimately show ?thesis using f None by auto
  next
    case (Some x)
    then show ?thesis using files.fork_failure [OF f [unfolded Some]] f by simp
  qed
qed

text \<open>Session ids and file names correspond one to one: the name decodes to the id, so distinct
  sessions have distinct files, and it has no separator, so every file is directly in the store's
  directory whatever the id is.\<close>

theorem session_file_roundtrip:
  "path_unescape (trim_suffix (session_file i) ''.json'') = Some i
   \<and> (session_file i = session_file j \<longleftrightarrow> i = j)
   \<and> CHR ''/'' \<notin> set (session_file i) \<and> has_suffix (session_file i) ''.json''"
proof -
  have s: "has_suffix (session_file i) ''.json''"
    by (simp add: session_file_def has_suffix_def)
  have "trim_suffix (session_file i) ''.json'' = path_escape i"
    using s by (simp add: trim_suffix_def session_file_def)
  moreover have "CHR ''/'' \<notin> set (session_file i)"
    using path_escape_no_slash [of i] by (simp add: session_file_def)
  ultimately show ?thesis using s by (simp add: path_unescape_escape session_file_inj)
qed

definition sample_files :: file_world where
  "sample_files = \<lparr>fw_files = [(session_file ''a/b'', Inr \<lparr>ss_version = 1, ss_id = ''a/b'',
       ss_messages = [user_text ''x'', user_text ''y''], ss_metadata = [], ss_created = 1, ss_updated = 1\<rparr>)],
     fw_outcomes = [], fw_now = 5\<rparr>"

theorem file_fork_session_witness:
  "let (e, w') = fork_session 9 (Some (file_store ''d'')) ''a/b'' 1 ''c'' sample_files in
     e = None \<and> map_option (\<lambda>st. length (ss_messages st)) (file_contents ''d'' w' ''c'') = Some 1
     \<and> file_contents ''d'' w' ''a/b'' = file_contents ''d'' sample_files ''a/b''"
proof -
  obtain e w' where f: "fork_session 9 (Some (file_store ''d'')) ''a/b'' 1 ''c'' sample_files = (e, w')"
    by fastforce
  have e: "fst (fork_session 9 (Some (file_store ''d'')) ''a/b'' 1 ''c'' sample_files) = None"
    "map_option (\<lambda>st. length (ss_messages st)) (file_contents ''d'' sample_files ''a/b'') = Some 2"
    by code_simp+
  have "e = None" using e(1) f by simp
  have "(''c'' :: string) \<noteq> []" and "(9 :: go_time) \<noteq> 0" by simp_all
  from file_fork_session [OF this, where dir = "''d''" and src = "''a/b''" and at = 1 and w = sample_files] show ?thesis
    using f e(2) \<open>e = None\<close> by (auto simp: json_state_def)
qed

end
