(* ===== verification/Goals.thy ===== *)
theory Goals
  imports Session_Store
begin

text \<open>
  Model of \<open>src/goal.go\<close>: the data of a goal and the loop of \<open>PursueGoal\<close> with its budget and progress
  guards. The loop is stated over the operations it calls (\<open>goal_ops\<close>): the planner, the maker, the
  checker and the checkpoint, which \<open>Goal_Runs\<close> defines by prompts to sessions of the agent and saves to
  its store. A status is the text of a constant in the code; \<open>GoalOther\<close> is any other text.
\<close>

section \<open>Data\<close>

datatype goal_status =
    GoalRunning | GoalPaused | GoalAchieved | GoalBlocked | GoalBudgetLimited | GoalMaxIterations
  | GoalErrored | GoalOther string

record checklist_item =
  it_title :: string
  it_done :: bool
  it_evidence :: string

record 'w goal_spec =
  gl_objective :: string
  gl_prefix :: string
  gl_model :: string
  gl_checker_model :: string
  gl_max_iterations :: int
  gl_max_turns :: int
  gl_token_budget :: int
  gl_no_progress_limit :: int
  gl_checklist :: "checklist_item list"
  gl_start_iteration :: int
  gl_work_dir :: string
  gl_tools :: "'w tool list"
  gl_checker_tools :: "'w tool list"
  gl_system_prompt :: string
  gl_checker_prompt :: string
  gl_permission :: "'w permission option"

record goal_result =
  gr_status :: goal_status
  gr_objective :: string
  gr_checklist :: "checklist_item list"
  gr_iterations :: int
  gr_usage :: usage
  gr_summary :: string

datatype goal_event_type =
    GePlan | GeIterationStart | GeMakerDone | GeVerdict | GeDone | GeBlocked | GeBudget | GeMaxIterations

record goal_event =
  ge_type :: goal_event_type
  ge_iteration :: int
  ge_message :: string
  ge_checklist :: "checklist_item list"
  ge_usage :: usage

record goal_record =
  gk_id :: string
  gk_objective :: string
  gk_status :: goal_status
  gk_checklist :: "checklist_item list"
  gk_iterations :: int
  gk_usage :: usage
  gk_summary :: string
  gk_work_dir :: string
  gk_updated :: go_time

record goal_verdict =
  vd_done :: bool
  vd_items :: "checklist_item list"
  vd_summary :: string

definition add_usage :: "usage \<Rightarrow> usage \<Rightarrow> usage" where
  "add_usage a b = \<lparr>input_tokens = input_tokens a + input_tokens b,
     output_tokens = output_tokens a + output_tokens b,
     cache_read_tokens = cache_read_tokens a + cache_read_tokens b,
     cache_write_tokens = cache_write_tokens a + cache_write_tokens b,
     total_tokens = total_tokens a + total_tokens b\<rparr>"

definition sum_usage :: "message list \<Rightarrow> usage" where
  "sum_usage ms = fold (\<lambda>m u. case msg_usage m of None \<Rightarrow> u | Some x \<Rightarrow> add_usage u x) ms zero_usage"

definition all_done :: "checklist_item list \<Rightarrow> bool" where
  "all_done items \<longleftrightarrow> items \<noteq> [] \<and> list_all it_done items"

definition remaining_key :: "checklist_item list \<Rightarrow> string" where
  "remaining_key items = join [CHR 0x00]
     (sort_strings (map (\<lambda>i. trim_space (it_title i)) (filter (\<lambda>i. \<not> it_done i) items)))"

definition goal_with_defaults :: "string \<Rightarrow> 'w goal_spec \<Rightarrow> 'w goal_spec" where
  "goal_with_defaults default_prompt s = s\<lparr>
     gl_objective := trim_space (gl_objective s),
     gl_prefix := (if gl_prefix s = [] then ''goal'' else gl_prefix s),
     gl_max_iterations := (if gl_max_iterations s \<le> 0 then 10 else gl_max_iterations s),
     gl_no_progress_limit := (if gl_no_progress_limit s \<le> 0 then 2 else gl_no_progress_limit s),
     gl_start_iteration := (if gl_start_iteration s \<le> 0 then 1 else gl_start_iteration s),
     gl_checker_model := (if gl_checker_model s = [] then gl_model s else gl_checker_model s),
     gl_checker_prompt := (if trim_space (gl_checker_prompt s) = [] then default_prompt
                           else gl_checker_prompt s)\<rparr>"

section \<open>The loop\<close>

record 'w goal_ops =
  gp_ctx :: "'w ctx_fun"
  gp_plan :: "'w \<Rightarrow> (go_error + checklist_item list) \<times> usage \<times> 'w"
  gp_maker :: "int \<Rightarrow> checklist_item list \<Rightarrow> 'w \<Rightarrow> go_error option \<times> usage \<times> 'w"
  gp_checker :: "int \<Rightarrow> checklist_item list \<Rightarrow> 'w \<Rightarrow> (go_error + goal_verdict) \<times> usage \<times> 'w"
  gp_checkpoint :: "goal_record \<Rightarrow> 'w \<Rightarrow> 'w"

record goal_state =
  gs_checklist :: "checklist_item list"
  gs_iterations :: int
  gs_usage :: usage
  gs_summary :: string
  gs_prev :: string
  gs_stalled :: int

definition record_of :: "'w goal_spec \<Rightarrow> goal_status \<Rightarrow> goal_state \<Rightarrow> goal_record" where
  "record_of spec st g = \<lparr>gk_id = gl_prefix spec, gk_objective = gl_objective spec, gk_status = st,
     gk_checklist = gs_checklist g, gk_iterations = gs_iterations g, gk_usage = gs_usage g,
     gk_summary = gs_summary g, gk_work_dir = gl_work_dir spec, gk_updated = 0\<rparr>"

definition result_of :: "'w goal_spec \<Rightarrow> goal_status \<Rightarrow> goal_state \<Rightarrow> goal_result" where
  "result_of spec st g = \<lparr>gr_status = st, gr_objective = gl_objective spec,
     gr_checklist = gs_checklist g, gr_iterations = gs_iterations g, gr_usage = gs_usage g,
     gr_summary = gs_summary g\<rparr>"

definition goal_event_of :: "goal_event_type \<Rightarrow> int \<Rightarrow> string \<Rightarrow> goal_state \<Rightarrow> goal_event" where
  "goal_event_of t i msg g = \<lparr>ge_type = t, ge_iteration = i, ge_message = msg,
     ge_checklist = gs_checklist g, ge_usage = gs_usage g\<rparr>"

definition maker_done_event :: "int \<Rightarrow> usage \<Rightarrow> goal_event" where
  "maker_done_event i u = \<lparr>ge_type = GeMakerDone, ge_iteration = i, ge_message = [],
     ge_checklist = [], ge_usage = u\<rparr>"

text \<open>A failed run is paused when the context has ended and errored otherwise.\<close>

definition pause_or_errored :: "'w goal_ops \<Rightarrow> 'w \<Rightarrow> goal_status \<times> 'w" where
  "pause_or_errored ops w = (case gp_ctx ops w of (c, w') \<Rightarrow>
     (if c \<noteq> None then GoalPaused else GoalErrored, w'))"

definition stop_failed :: "'w goal_ops \<Rightarrow> 'w goal_spec \<Rightarrow> string \<Rightarrow> go_error \<Rightarrow> goal_state
    \<Rightarrow> goal_event list \<Rightarrow> 'w \<Rightarrow> (goal_result \<times> go_error option) option \<times> goal_state \<times> goal_event list \<times> 'w" where
  "stop_failed ops spec who e g evs w =
     (let (st, w1) = pause_or_errored ops w
      in (Some (result_of spec GoalErrored g, Some (wrap_error
             (''glue: goal '' @ who @ '' iteration '' @ itoa_int (gs_iterations g) @ '': '') e [])),
          g, evs, gp_checkpoint ops (record_of spec st g) w1))"

definition spend :: "usage \<Rightarrow> goal_state \<Rightarrow> goal_state" where
  "spend u g = g\<lparr>gs_usage := add_usage (gs_usage g) u\<rparr>"

text \<open>What the verdict makes of the state, and the progress counter.\<close>

definition apply_verdict :: "goal_verdict \<Rightarrow> goal_state \<Rightarrow> goal_state" where
  "apply_verdict v g = g\<lparr>
     gs_checklist := (if vd_items v \<noteq> [] then vd_items v else gs_checklist g),
     gs_summary := trim_space (vd_summary v)\<rparr>"

definition track_progress :: "int \<Rightarrow> goal_state \<Rightarrow> goal_state" where
  "track_progress i g = g\<lparr>
     gs_stalled := (if i > 1 \<and> remaining_key (gs_checklist g) = gs_prev g then gs_stalled g + 1 else 0),
     gs_prev := remaining_key (gs_checklist g)\<rparr>"

text \<open>The decision after a verdict: achieved, blocked, or another iteration.\<close>

definition decide :: "'w goal_ops \<Rightarrow> 'w goal_spec \<Rightarrow> int \<Rightarrow> bool \<Rightarrow> goal_state \<Rightarrow> goal_event list \<Rightarrow> 'w
    \<Rightarrow> (goal_result \<times> go_error option) option \<times> goal_state \<times> goal_event list \<times> 'w" where
  "decide ops spec i finished g evs w =
     (if finished \<and> all_done (gs_checklist g) then
        (Some (result_of spec GoalAchieved g, None), g,
         evs @ [goal_event_of GeDone i (gs_summary g) g],
         gp_checkpoint ops (record_of spec GoalAchieved g) w)
      else
        (let g' = track_progress i g in
         if gs_stalled g' \<ge> gl_no_progress_limit spec then
           (Some (result_of spec GoalBlocked g', None), g', evs @ [goal_event_of GeBlocked i [] g'],
            gp_checkpoint ops (record_of spec GoalBlocked g') w)
         else (None, g', evs, w)))"

text \<open>One iteration: an outcome when it ends the run, the state, the events.\<close>

definition goal_iteration :: "'w goal_ops \<Rightarrow> 'w goal_spec \<Rightarrow> int \<Rightarrow> goal_state \<Rightarrow> 'w
    \<Rightarrow> (goal_result \<times> go_error option) option \<times> goal_state \<times> goal_event list \<times> 'w" where
  "goal_iteration ops spec i g w =
     (case gp_ctx ops w of
        (Some e, w1) \<Rightarrow>
          (Some (result_of spec GoalErrored g, Some e), g, [],
           gp_checkpoint ops (record_of spec GoalPaused g) w1)
      | (None, w1) \<Rightarrow>
          (if gl_token_budget spec > 0 \<and> total_tokens (gs_usage g) \<ge> gl_token_budget spec then
             (Some (result_of spec GoalBudgetLimited g, None), g,
              [goal_event_of GeBudget (gs_iterations g) [] g],
              gp_checkpoint ops (record_of spec GoalBudgetLimited g) w1)
           else
             (let g1 = g\<lparr>gs_iterations := i\<rparr>; ev1 = [goal_event_of GeIterationStart i [] g1] in
              case gp_maker ops i (gs_checklist g1) w1 of
                (Some e, u, w2) \<Rightarrow>
                  stop_failed ops spec ''maker'' e (spend u g1) ev1 w2
              | (None, u, w2) \<Rightarrow>
                  (let g2 = spend u g1; ev2 = ev1 @ [maker_done_event i (gs_usage g2)]
                   in case gp_checker ops i (gs_checklist g2) w2 of
                        (Inl e, u', w3) \<Rightarrow> stop_failed ops spec ''checker'' e (spend u' g2) ev2 w3
                      | (Inr v, u', w3) \<Rightarrow>
                          (let g3 = apply_verdict v (spend u' g2);
                               ev3 = ev2 @ [goal_event_of GeVerdict i (gs_summary g3) g3]
                           in decide ops spec i (vd_done v) g3 ev3
                                (gp_checkpoint ops (record_of spec GoalRunning g3) w3))))))"

text \<open>Iterations left, the number of the next one, the state.\<close>

fun goal_loop :: "'w goal_ops \<Rightarrow> 'w goal_spec \<Rightarrow> nat \<Rightarrow> int \<Rightarrow> goal_state \<Rightarrow> 'w
    \<Rightarrow> (goal_result \<times> go_error option) \<times> goal_event list \<times> 'w" where
  "goal_loop ops spec 0 i g w =
     ((result_of spec GoalMaxIterations g, None),
      [goal_event_of GeMaxIterations (gs_iterations g) [] g],
      gp_checkpoint ops (record_of spec GoalMaxIterations g) w)"
| "goal_loop ops spec (Suc n) i g w =
     (case goal_iteration ops spec i g w of
        (Some res, _, ev, w') \<Rightarrow> (res, ev, w')
      | (None, g', ev, w') \<Rightarrow>
          (let (res, ev', w'') = goal_loop ops spec n (i + 1) g' w' in (res, ev @ ev', w'')))"

text \<open>\<open>GoalResult{}\<close>: the status is the empty string.\<close>

definition empty_goal_result :: goal_result where
  "empty_goal_result = \<lparr>gr_status = GoalOther [], gr_objective = [], gr_checklist = [],
     gr_iterations = 0, gr_usage = zero_usage, gr_summary = []\<rparr>"

text \<open>\<open>PursueGoal\<close> on an agent with a provider, after \<open>withDefaults\<close>.\<close>

definition pursue_goal :: "'w goal_ops \<Rightarrow> string \<Rightarrow> 'w goal_spec \<Rightarrow> 'w
    \<Rightarrow> (goal_result \<times> go_error option) \<times> goal_event list \<times> 'w" where
  "pursue_goal ops default_prompt spec0 w =
     (let spec = goal_with_defaults default_prompt spec0 in
      if gl_objective spec = [] then
        ((empty_goal_result, Some (new_error ''glue: goal objective is required'')), [], w)
      else
        (let (items, u, w1) =
               (if gl_checklist spec \<noteq> [] then (gl_checklist spec, zero_usage, w)
                else case gp_plan ops w of
                  (Inl e, u, w') \<Rightarrow> ([], u, w')
                | (Inr xs, u, w') \<Rightarrow> (xs, u, w'));
             items' = (if items = [] then [\<lparr>it_title = gl_objective spec, it_done = False, it_evidence = []\<rparr>]
                       else items);
             g = \<lparr>gs_checklist = items', gs_iterations = 0, gs_usage = u, gs_summary = [],
                  gs_prev = [], gs_stalled = 0\<rparr>;
             w2 = gp_checkpoint ops (record_of spec GoalRunning g) w1;
             (r, ev, w3) = goal_loop ops spec (nat (gl_max_iterations spec)) (gl_start_iteration spec) g w2
         in (r, goal_event_of GePlan 0 [] g # ev, w3)))"

section \<open>What the loop guarantees\<close>

text \<open>The last verdict of a run that ends achieved.\<close>

definition confirmed :: "'w goal_ops \<Rightarrow> checklist_item list \<Rightarrow> bool" where
  "confirmed ops final \<longleftrightarrow> (\<exists>i items w v u w'. gp_checker ops i items w = (Inr v, u, w')
     \<and> vd_done v \<and> final = (if vd_items v \<noteq> [] then vd_items v else items) \<and> all_done final)"

lemma decide_achieved:
  "decide ops spec i finished g evs w = (Some (r, e), g', evs', w') \<Longrightarrow> gr_status r = GoalAchieved
     \<Longrightarrow> e = None \<and> finished \<and> all_done (gs_checklist g) \<and> gr_checklist r = gs_checklist g"
  by (auto simp: decide_def result_of_def Let_def split: if_splits)

lemma stop_failed_errored: "stop_failed ops spec who e0 g evs w = (Some (r, e), x) \<Longrightarrow> gr_status r = GoalErrored"
  by (auto simp: stop_failed_def result_of_def split: prod.splits)

lemma spend_checklist [simp]: "gs_checklist (spend u g) = gs_checklist g"
  by (simp add: spend_def)

lemma spend_other [simp]:
  "gs_iterations (spend u g) = gs_iterations g" "gs_prev (spend u g) = gs_prev g"
  "gs_stalled (spend u g) = gs_stalled g"
  by (simp_all add: spend_def)

lemma confirmedI:
  assumes "gp_checker ops i items w = (Inr v, u, w')" and "vd_done v" and "gs_checklist g = items"
    and "all_done (gs_checklist (apply_verdict v g))"
  shows "confirmed ops (gs_checklist (apply_verdict v g))"
  unfolding confirmed_def using assms
  by (intro exI [of _ i] exI [of _ items] exI [of _ w] exI [of _ v]) (simp add: apply_verdict_def)

lemma goal_iteration_achieved:
  "goal_iteration ops spec i g w = (Some (r, e), g', evs, w') \<Longrightarrow> gr_status r = GoalAchieved
     \<Longrightarrow> e = None \<and> confirmed ops (gr_checklist r)"
  by (clarsimp simp: goal_iteration_def Let_def result_of_def dest!: stop_failed_errored decide_achieved
      split: option.splits sum.splits prod.splits if_splits) (simp_all add: confirmedI)

lemma goal_loop_achieved:
  "goal_loop ops spec n i g w = ((r, e), evs, w') \<Longrightarrow> gr_status r = GoalAchieved
     \<Longrightarrow> e = None \<and> confirmed ops (gr_checklist r)"
proof (induction n arbitrary: i g w evs)
  case (Suc n)
  then show ?case
    by (auto dest: goal_iteration_achieved simp: Let_def split: option.splits prod.splits)
qed (auto simp: result_of_def)

text \<open>The numbers of the iterations that started, and the open items of the verdicts.\<close>

definition started :: "goal_event list \<Rightarrow> int list" where
  "started evs = map ge_iteration (filter (\<lambda>ev. ge_type ev = GeIterationStart) evs)"

definition verdict_keys :: "goal_event list \<Rightarrow> string list" where
  "verdict_keys evs = map (\<lambda>ev. remaining_key (ge_checklist ev)) (filter (\<lambda>ev. ge_type ev = GeVerdict) evs)"

definition within_budget :: "'w goal_spec \<Rightarrow> goal_event \<Rightarrow> bool" where
  "within_budget spec ev \<longleftrightarrow> (ge_type ev = GeIterationStart \<and> 0 < gl_token_budget spec
     \<longrightarrow> total_tokens (ge_usage ev) < gl_token_budget spec)"

lemma goal_event_of_sel [simp]:
  "ge_type (goal_event_of t i m g) = t" "ge_iteration (goal_event_of t i m g) = i"
  "ge_checklist (goal_event_of t i m g) = gs_checklist g" "ge_usage (goal_event_of t i m g) = gs_usage g"
  "ge_type (maker_done_event i u) = GeMakerDone"
  by (simp_all add: goal_event_of_def maker_done_event_def)

lemma started_simps [simp]:
  "started [] = []" "started (evs @ evs') = started evs @ started evs'"
  "started (ev # evs) = (if ge_type ev = GeIterationStart then [ge_iteration ev] else []) @ started evs"
  by (simp_all add: started_def)

lemma verdict_keys_simps [simp]:
  "verdict_keys [] = []" "verdict_keys (evs @ evs') = verdict_keys evs @ verdict_keys evs'"
  "verdict_keys (ev # evs) =
     (if ge_type ev = GeVerdict then [remaining_key (ge_checklist ev)] else []) @ verdict_keys evs"
  by (simp_all add: verdict_keys_def)

lemmas iteration_splits = option.splits sum.splits prod.splits if_splits

lemma goal_iteration_starts:
  "goal_iteration ops spec i g w = (res, g', evs, w')
   \<Longrightarrow> (started evs = [] \<and> res \<noteq> None \<or> started evs = [i]) \<and> list_all (within_budget spec) evs"
  by (auto simp: goal_iteration_def decide_def stop_failed_def within_budget_def Let_def
      split: iteration_splits)

lemma goal_loop_starts:
  "goal_loop ops spec n i g w = (res, evs, w')
   \<Longrightarrow> (\<exists>k\<le>n. started evs = map (\<lambda>j. i + int j) [0..<k]) \<and> list_all (within_budget spec) evs"
proof (induction n arbitrary: i g w res evs w')
  case 0
  then show ?case by (auto simp: within_budget_def)
next
  case (Suc n)
  obtain stop g' ev w1 where it: "goal_iteration ops spec i g w = (stop, g', ev, w1)"
    by (metis surj_pair)
  show ?case
  proof (cases stop)
    case (Some x)
    then have "started evs = [] \<or> started evs = map (\<lambda>j. i + int j) [0..<1]"
        "list_all (within_budget spec) evs"
      using Suc.prems it goal_iteration_starts [OF it] by auto
    then show ?thesis by (metis le0 Suc_le_mono list.map(1) upt_0 One_nat_def)
  next
    case None
    obtain res1 ev1 w2 where l: "goal_loop ops spec n (i + 1) g' w1 = (res1, ev1, w2)"
      by (metis surj_pair)
    obtain k where k: "k \<le> n" "started ev1 = map (\<lambda>j. i + 1 + int j) [0..<k]"
      and b: "list_all (within_budget spec) ev1"
      using Suc.IH [OF l] by auto
    have "started evs = i # map (\<lambda>j. i + 1 + int j) [0..<k]" "list_all (within_budget spec) evs"
      using Suc.prems it None l k b goal_iteration_starts [OF it] by auto
    moreover have "i # map (\<lambda>j. i + 1 + int j) [0..<k] = map (\<lambda>j. i + int j) [0..<Suc k]"
      by (simp add: upt_conv_Cons map_Suc_upt [symmetric] del: upt_Suc)
    ultimately show ?thesis using k(1) by (intro conjI exI [of _ "Suc k"]) auto
  qed
qed

text \<open>The number of equal neighbours at the front of a list: the length of its first run, less one.\<close>

fun repeats :: "'a list \<Rightarrow> nat" where
  "repeats (x # y # zs) = (if x = y then Suc (repeats (y # zs)) else 0)"
| "repeats _ = 0"

lemma repeats_replicate: "k \<le> repeats (x # xs) \<Longrightarrow> take (Suc k) (x # xs) = replicate (Suc k) x"
proof (induction "x # xs" arbitrary: x xs k rule: repeats.induct)
  case (1 y zs x)
  then show ?case by (cases k) (auto split: if_splits)
qed simp

lemma repeats_length: "repeats (x # xs) < length (x # xs)"
  by (induction "x # xs" arbitrary: x xs rule: repeats.induct) auto
lemma repeats_suffix:
  assumes "n \<le> repeats (rev ks)" and "0 < n"
  shows "\<exists>k. n < length ks \<and> drop (length ks - Suc n) ks = replicate (Suc n) k"
proof (cases "rev ks")
  case Nil
  then show ?thesis using assms by simp
next
  case (Cons x xs)
  have n: "n \<le> repeats (x # xs)" using assms(1) by (simp only: Cons)
  have "take (Suc n) (rev ks) = replicate (Suc n) x"
    unfolding Cons by (rule repeats_replicate [OF n])
  then have "rev (drop (length ks - Suc n) ks) = replicate (Suc n) x" by (simp only: take_rev)
  then have "drop (length ks - Suc n) ks = replicate (Suc n) x" by (metis rev_rev_ident rev_replicate)
  moreover have "length (rev ks) = length (x # xs)" by (simp only: Cons)
  then have "n < length ks" using n repeats_length [of x xs] by simp
  ultimately show ?thesis by blast
qed

text \<open>The counter after the verdicts with keys \<open>ks\<close>, the latest first.\<close>

definition counts :: "int \<Rightarrow> string list \<Rightarrow> goal_state \<Rightarrow> bool" where
  "counts i ks g \<longleftrightarrow> gs_stalled g = int (repeats ks) \<and> (if ks = [] then i \<le> 1 else 1 < i \<and> gs_prev g = hd ks)"

lemma counts_track:
  assumes "counts i ks g0" and "gs_stalled g = gs_stalled g0" and "gs_prev g = gs_prev g0" and "1 \<le> i"
  shows "counts (i + 1) (remaining_key (gs_checklist g) # ks) (track_progress i g)"
  using assms by (cases ks) (auto simp: counts_def track_progress_def)

lemma apply_verdict_other [simp]:
  "gs_stalled (apply_verdict v g) = gs_stalled g" "gs_prev (apply_verdict v g) = gs_prev g"
  by (simp_all add: apply_verdict_def)

text \<open>What an iteration does to the counter: it goes on with the counter up to date, or stops, and it
  stops as blocked only when the counter has reached the limit.\<close>

definition counted_step :: "'w goal_spec \<Rightarrow> int \<Rightarrow> string list \<Rightarrow> (goal_result \<times> go_error option) option
    \<Rightarrow> goal_state \<Rightarrow> goal_event list \<Rightarrow> bool" where
  "counted_step spec i ks stop g evs \<longleftrightarrow>
     (case stop of
        None \<Rightarrow> counts (i + 1) (rev (verdict_keys evs) @ ks) g
      | Some (r, _) \<Rightarrow> gr_status r = GoalBlocked
          \<longrightarrow> gl_no_progress_limit spec \<le> int (repeats (rev (verdict_keys evs) @ ks)))"

lemma decide_counted:
  assumes "decide ops spec i finished g1 evs1 w1 = (stop, g', evs, w')" and "counts i ks g" and "1 \<le> i"
    and "gs_stalled g1 = gs_stalled g" and "gs_prev g1 = gs_prev g"
    and "verdict_keys evs1 = [remaining_key (gs_checklist g1)]"
  shows "counted_step spec i ks stop g' evs"
  using assms(1,6) counts_track [OF assms(2,4,5,3)]
  by (auto simp: decide_def counted_step_def Let_def result_of_def counts_def split: if_splits)

lemma stop_counted: "gr_status r \<noteq> GoalBlocked \<Longrightarrow> counted_step spec i ks (Some (r, e)) g evs"
  by (simp add: counted_step_def)

lemma stop_failed_counted:
  "stop_failed ops spec0 who e g1 evs1 w = (stop, g', evs, w') \<Longrightarrow> counted_step spec i ks stop g' evs"
  by (auto simp: stop_failed_def stop_counted result_of_def split: prod.splits)

lemma goal_iteration_counted:
  assumes "goal_iteration ops spec i g w = (stop, g', evs, w')" and "counts i ks g" and "1 \<le> i"
  shows "counted_step spec i ks stop g' evs"
proof -
  note d = decide_counted [OF _ assms(2,3)]
  show ?thesis using assms(1) unfolding goal_iteration_def Let_def
    by (auto split: iteration_splits intro: d stop_failed_counted simp: stop_counted result_of_def)
qed

lemma goal_loop_blocked:
  "goal_loop ops spec n i g w = ((r, e), evs, w') \<Longrightarrow> counts i ks g \<Longrightarrow> 1 \<le> i \<Longrightarrow> gr_status r = GoalBlocked
   \<Longrightarrow> gl_no_progress_limit spec \<le> int (repeats (rev (verdict_keys evs) @ ks))"
proof (induction n arbitrary: i g w evs ks)
  case 0
  then show ?case by (auto simp: result_of_def)
next
  case (Suc n)
  obtain stop g' ev w1 where it: "goal_iteration ops spec i g w = (stop, g', ev, w1)"
    by (metis surj_pair)
  have c: "counted_step spec i ks stop g' ev" by (rule goal_iteration_counted [OF it Suc.prems(2,3)])
  show ?case
  proof (cases stop)
    case (Some x)
    then show ?thesis using Suc.prems(1,4) it c by (simp add: counted_step_def)
  next
    case None
    obtain res1 ev1 w2 where l: "goal_loop ops spec n (i + 1) g' w1 = (res1, ev1, w2)"
      by (metis surj_pair)
    from Suc.prems(1) it None l have "res1 = (r, e)" "evs = ev @ ev1" "w2 = w'" by auto
    then show ?thesis using Suc.IH [of "i + 1" g' w1 ev1 "rev (verdict_keys ev) @ ks"] l c None Suc.prems(3,4)
      by (simp add: counted_step_def)
  qed
qed

lemma pursue_goal_loop:
  assumes "pursue_goal ops dp spec0 w = ((r, e), evs, w')" and "spec = goal_with_defaults dp spec0"
    and "gl_objective spec \<noteq> []"
  obtains g w2 ev where "goal_loop ops spec (nat (gl_max_iterations spec)) (gl_start_iteration spec) g w2
      = ((r, e), ev, w')"
    and "evs = goal_event_of GePlan 0 [] g # ev" and "gs_stalled g = 0" and "gs_prev g = []"
  using assms(1,3) unfolding pursue_goal_def Let_def assms(2) [symmetric]
  by (auto split: prod.splits sum.splits if_splits)

lemma defaults_start [simp]: "1 \<le> gl_start_iteration (goal_with_defaults dp spec)"
  by (simp add: goal_with_defaults_def)

lemma pursue_goal_empty:
  assumes "pursue_goal ops dp spec0 w = ((r, e), evs, w')" and "gl_objective (goal_with_defaults dp spec0) = []"
  shows "gr_status r = GoalOther []" and "evs = []" and "e \<noteq> None"
  using assms by (simp_all add: pursue_goal_def Let_def empty_goal_result_def split: if_splits) auto

section \<open>Properties\<close>

text \<open>C28. A run ends achieved only when a verdict of the checker said that the goal is done and every
  item of the final checklist is done; the final checklist is the one of that verdict (or the one it
  was asked about, when it listed none).\<close>

theorem pursue_goal_achieved:
  assumes "pursue_goal ops dp spec w = ((r, e), evs, w')" and "gr_status r = GoalAchieved"
  shows "e = None \<and> (\<exists>i items w1 v u w2. gp_checker ops i items w1 = (Inr v, u, w2) \<and> vd_done v
     \<and> gr_checklist r = (if vd_items v \<noteq> [] then vd_items v else items)
     \<and> gr_checklist r \<noteq> [] \<and> (\<forall>it \<in> set (gr_checklist r). it_done it))"
proof (cases "gl_objective (goal_with_defaults dp spec) = []")
  case True
  then show ?thesis using pursue_goal_empty [OF assms(1)] assms(2) by simp
next
  case False
  obtain g w2 ev n i where "goal_loop ops (goal_with_defaults dp spec) n i g w2 = ((r, e), ev, w')"
    using pursue_goal_loop [OF assms(1) refl False] by metis
  from goal_loop_achieved [OF this assms(2)]
  have "e = None" and "confirmed ops (gr_checklist r)" by auto
  then show ?thesis unfolding confirmed_def all_done_def list_all_iff by blast
qed

text \<open>The iterations that start are numbered consecutively from the start iteration, there are at
  most \<open>MaxIterations\<close> of them, and with a token budget none starts once the budget is spent.\<close>

theorem pursue_goal_iterations:
  assumes "pursue_goal ops dp spec0 w = ((r, e), evs, w')" and "spec = goal_with_defaults dp spec0"
  shows "(\<exists>k. int k \<le> gl_max_iterations spec
            \<and> started evs = map (\<lambda>j. gl_start_iteration spec + int j) [0..<k])
     \<and> list_all (within_budget spec) evs"
proof (cases "gl_objective spec = []")
  case True
  have "0 \<le> gl_max_iterations spec" by (simp add: assms(2) goal_with_defaults_def)
  then show ?thesis using pursue_goal_empty [OF assms(1)] True assms(2)
    by (intro conjI exI [of _ 0]) auto
next
  case False
  have m: "0 \<le> gl_max_iterations spec" by (simp add: assms(2) goal_with_defaults_def)
  obtain g w2 ev where l: "goal_loop ops spec (nat (gl_max_iterations spec)) (gl_start_iteration spec) g w2
      = ((r, e), ev, w')" and evs: "evs = goal_event_of GePlan 0 [] g # ev"
    using pursue_goal_loop [OF assms(1,2) False] by metis
  obtain k where k: "k \<le> nat (gl_max_iterations spec)"
      "started ev = map (\<lambda>j. gl_start_iteration spec + int j) [0..<k]"
    and b: "list_all (within_budget spec) ev" using goal_loop_starts [OF l] by auto
  have "int k \<le> gl_max_iterations spec" using k(1) m by linarith
  moreover have "started evs = map (\<lambda>j. gl_start_iteration spec + int j) [0..<k]"
    using k(2) evs by simp
  moreover have "list_all (within_budget spec) evs" using b evs by (simp add: within_budget_def)
  ultimately show ?thesis by blast
qed

text \<open>A run ends blocked only when the last \<open>NoProgressLimit + 1\<close> verdicts left the same items open;
  in a run that starts past iteration one, a checklist without open items counts as a verdict before
  the first.\<close>

theorem pursue_goal_blocked:
  assumes "pursue_goal ops dp spec0 w = ((r, e), evs, w')" and "gr_status r = GoalBlocked"
    and "spec = goal_with_defaults dp spec0"
    and "keys = (if gl_start_iteration spec > 1 then [[]] else []) @ verdict_keys evs"
  shows "\<exists>key. length keys > nat (gl_no_progress_limit spec)
     \<and> drop (length keys - Suc (nat (gl_no_progress_limit spec))) keys
         = replicate (Suc (nat (gl_no_progress_limit spec))) key"
proof (cases "gl_objective spec = []")
  case True
  then have "gr_status r = GoalOther []" using pursue_goal_empty(1) [OF assms(1)] assms(3) by simp
  then show ?thesis using assms(2) by simp
next
  case False
  let ?ks = "if gl_start_iteration spec > 1 then [[]] else []" and ?n = "nat (gl_no_progress_limit spec)"
  from False obtain g w2 ev where l: "goal_loop ops spec (nat (gl_max_iterations spec)) (gl_start_iteration spec) g w2
      = ((r, e), ev, w')" and evs: "evs = goal_event_of GePlan 0 [] g # ev"
    and g: "gs_stalled g = 0" "gs_prev g = []"
    by (rule pursue_goal_loop [OF assms(1,3)])
  have i: "1 \<le> gl_start_iteration spec" using assms(3) by simp
  have "counts (gl_start_iteration spec) ?ks g"
    unfolding counts_def using g by (cases "gl_start_iteration spec > 1") simp_all
  from goal_loop_blocked [OF l this i assms(2)]
  have "gl_no_progress_limit spec \<le> int (repeats (rev (verdict_keys ev) @ ?ks))" .
  moreover have "rev keys = rev (verdict_keys ev) @ ?ks" using assms(4) evs by simp
  ultimately have r: "?n \<le> repeats (rev keys)" by (simp add: nat_le_iff)
  have "0 < ?n" by (simp add: assms(3) goal_with_defaults_def)
  then show ?thesis using repeats_suffix [OF r] by blast
qed

text \<open>A run over a counter of checkpoints: the planner lists two items, the maker spends 30 tokens, the
  checker answers by a function of the iteration and the checklist.\<close>

definition sample_ops :: "(int \<Rightarrow> checklist_item list \<Rightarrow> goal_verdict) \<Rightarrow> nat goal_ops" where
  "sample_ops judge = \<lparr>gp_ctx = (\<lambda>w. (None, w)),
     gp_plan = (\<lambda>w. (Inr [\<lparr>it_title = ''parser'', it_done = False, it_evidence = []\<rparr>,
                          \<lparr>it_title = ''tests'', it_done = False, it_evidence = []\<rparr>], zero_usage, w)),
     gp_maker = (\<lambda>i items w. (None, zero_usage\<lparr>total_tokens := 30\<rparr>, w)),
     gp_checker = (\<lambda>i items w. (Inr (judge i items), zero_usage, w)),
     gp_checkpoint = (\<lambda>rec w. Suc w)\<rparr>"

definition sample_spec :: "nat goal_spec" where
  "sample_spec = \<lparr>gl_objective = ''ship'', gl_prefix = [], gl_model = [], gl_checker_model = [],
     gl_max_iterations = 5, gl_max_turns = 0, gl_token_budget = 70, gl_no_progress_limit = 0,
     gl_checklist = [], gl_start_iteration = 0, gl_work_dir = [], gl_tools = [], gl_checker_tools = [],
     gl_system_prompt = [], gl_checker_prompt = [], gl_permission = None\<rparr>"

definition keep_all :: "int \<Rightarrow> checklist_item list \<Rightarrow> goal_verdict" where
  "keep_all i items = \<lparr>vd_done = False, vd_items = items, vd_summary = ''none''\<rparr>"

definition finish_all :: "int \<Rightarrow> checklist_item list \<Rightarrow> goal_verdict" where
  "finish_all i items = \<lparr>vd_done = True, vd_items = map (\<lambda>it. it\<lparr>it_done := True\<rparr>) items, vd_summary = []\<rparr>"

definition finish_first :: "int \<Rightarrow> checklist_item list \<Rightarrow> goal_verdict" where
  "finish_first i items = \<lparr>vd_done = True,
     vd_items = map (\<lambda>it. it\<lparr>it_done := True\<rparr>) (take 1 items), vd_summary = []\<rparr>"

definition sample_goal :: "(int \<Rightarrow> checklist_item list \<Rightarrow> goal_verdict) \<Rightarrow> nat goal_spec \<Rightarrow> goal_result \<times> goal_event list" where
  "sample_goal judge spec = (case pursue_goal (sample_ops judge) [] spec 0 of ((r, e), evs, w) \<Rightarrow> (r, evs))"

theorem pursue_goal_achieved_witness:
  "gr_status (fst (sample_goal finish_all sample_spec)) = GoalAchieved
   \<and> list_all it_done (gr_checklist (fst (sample_goal finish_all sample_spec)))"
proof -
  let ?x = "pursue_goal (sample_ops finish_all) [] sample_spec (0 :: nat)"
  have s: "gr_status (fst (sample_goal finish_all sample_spec)) = GoalAchieved" by code_simp
  have x: "?x = ((fst (fst ?x), snd (fst ?x)), fst (snd ?x), snd (snd ?x))" by simp
  have f: "fst (sample_goal finish_all sample_spec) = fst (fst ?x)"
    by (simp add: sample_goal_def split: prod.split)
  show ?thesis using pursue_goal_achieved [OF x] s unfolding f list_all_iff by blast
qed

theorem pursue_goal_iterations_witness:
  "started (snd (sample_goal keep_all (sample_spec\<lparr>gl_no_progress_limit := 9\<rparr>))) = [1, 2, 3]
   \<and> list_all (within_budget sample_spec) (snd (sample_goal keep_all (sample_spec\<lparr>gl_no_progress_limit := 9\<rparr>)))"
proof -
  let ?spec = "sample_spec\<lparr>gl_no_progress_limit := 9\<rparr>"
  let ?x = "pursue_goal (sample_ops keep_all) [] ?spec (0 :: nat)"
  have x: "?x = ((fst (fst ?x), snd (fst ?x)), fst (snd ?x), snd (snd ?x))" by simp
  have f: "snd (sample_goal keep_all ?spec) = fst (snd ?x)"
    by (simp add: sample_goal_def split: prod.split)
  have "started (snd (sample_goal keep_all ?spec)) = [1, 2, 3]" by code_simp
  moreover have "within_budget (goal_with_defaults [] ?spec) = within_budget sample_spec"
    by (simp add: within_budget_def goal_with_defaults_def sample_spec_def fun_eq_iff)
  ultimately show ?thesis using pursue_goal_iterations [OF x refl] unfolding f by auto
qed

theorem pursue_goal_blocked_witness:
  "gr_status (fst (sample_goal keep_all sample_spec)) = GoalBlocked
   \<and> (\<exists>key. drop (length (verdict_keys (snd (sample_goal keep_all sample_spec))) - 3)
        (verdict_keys (snd (sample_goal keep_all sample_spec))) = [key, key, key])"
proof -
  let ?x = "pursue_goal (sample_ops keep_all) [] sample_spec (0 :: nat)"
  have x: "?x = ((fst (fst ?x), snd (fst ?x)), fst (snd ?x), snd (snd ?x))" by simp
  have f: "sample_goal keep_all sample_spec = (fst (fst ?x), fst (snd ?x))"
    by (simp add: sample_goal_def split: prod.split)
  have s: "gr_status (fst (sample_goal keep_all sample_spec)) = GoalBlocked" by code_simp
  then have "gr_status (fst (fst ?x)) = GoalBlocked" unfolding f by simp
  from pursue_goal_blocked [OF x this refl refl] s show ?thesis unfolding f
    by (simp add: goal_with_defaults_def sample_spec_def numeral_3_eq_3 numeral_2_eq_2)
qed

text \<open>A verdict may leave out items it was asked about: a goal planned as two deliverables ends
  achieved although the second one is not in the final checklist and no verdict marked it done.\<close>

theorem achieved_without_every_item:
  "let (r, evs) = sample_goal finish_first sample_spec in
     gr_status r = GoalAchieved \<and> map it_title (ge_checklist (hd evs)) = [''parser'', ''tests'']
     \<and> map it_title (gr_checklist r) = [''parser'']"
  by code_simp

end
