(* ===== verification/Goal_Runs.thy ===== *)
theory Goal_Runs
  imports Goals
begin

text \<open>
  The operations of a goal on an agent (\<open>src/goal.go\<close>) and its durable record (\<open>src/goal_store.go\<close>): the
  planner, the maker and the checker as prompts to sessions of the agent, the record in the metadata
  of the session at the goal's prefix, loading and listing of records, and the operations of
  \<open>goal_ops\<close> they give. The JSON coding of checklists, usage and answers is a parameter
  (\<open>goal_codec\<close>); what is proved of it needs only that decoding inverts encoding.
\<close>

section \<open>Prompts\<close>

definition en_dash :: string where "en_dash = map byte [226, 128, 147]"
definition em_dash :: string where "em_dash = map byte [226, 128, 148]"

definition render_item :: "checklist_item \<Rightarrow> string" where
  "render_item it = ''  '' @ (if it_done it then ''[x]'' else ''[ ]'') @ '' '' @ it_title it
     @ (if it_evidence it = [] then [] else '' '' @ em_dash @ '' '' @ it_evidence it)"

definition render_checklist :: "checklist_item list \<Rightarrow> string" where
  "render_checklist items = (if items = [] then ''  (empty)'' else join [nl] (map render_item items))"

definition plan_prompt :: "string \<Rightarrow> string" where
  "plan_prompt objective =
     ''Decompose this goal into a checklist of concrete, independently verifiable deliverables.'' @ [nl, nl]
     @ ''Goal: '' @ objective @ [nl, nl]
     @ ''Each item must be checkable against real evidence (a file exists, a test passes, a command succeeds). Prefer 2''
     @ en_dash
     @ ''8 items; avoid vague items like \"make it good\". Return the items with empty/false done ''
     @ em_dash @ '' nothing has been built yet.''"

definition maker_prompt :: "string \<Rightarrow> int \<Rightarrow> checklist_item list \<Rightarrow> string" where
  "maker_prompt objective i items =
     ''You are working autonomously toward a goal. This is iteration '' @ itoa_int i @ ''.'' @ [nl, nl]
     @ ''Goal: '' @ objective @ [nl, nl]
     @ ''Current checklist (verified state '' @ em_dash @ '' trust only what is marked done):'' @ [nl]
     @ render_checklist items @ [nl, nl]
     @ ''Read the actual code and tests to reconstruct context, then make real progress on the unfinished items. Run the build and tests to validate your work. Do not claim the goal is complete ''
     @ em_dash @ '' a separate verifier decides that. Focus on moving at least one unfinished item to genuinely done.''"

definition checker_prompt :: "string \<Rightarrow> checklist_item list \<Rightarrow> string" where
  "checker_prompt objective items =
     ''Audit progress toward this goal and return a verdict.'' @ [nl, nl]
     @ ''Goal: '' @ objective @ [nl, nl]
     @ ''Checklist to verify:'' @ [nl] @ render_checklist items @ [nl, nl]
     @ ''For every item, independently gather evidence (read files, run the build and tests, inspect diffs) and decide whether it is genuinely complete. Do not trust prior claims. Return every item with its verified done flag and a short evidence note, set \"done\" true only if all items are complete, and give a one-line summary of what remains.''"

section \<open>Planner, maker, checker\<close>

text \<open>The schemas of the answers, as the JSON text their maps print to.\<close>

definition goal_plan_schema :: string where
  "goal_plan_schema = ''{\"properties\":{\"items\":{\"items\":{\"properties\":{\"title\":{\"type\":\"string\"}},\"required\":[\"title\"],\"type\":\"object\"},\"type\":\"array\"}},\"required\":[\"items\"],\"type\":\"object\"}''"

definition goal_verdict_schema :: string where
  "goal_verdict_schema = ''{\"properties\":{\"done\":{\"type\":\"boolean\"},\"items\":{\"items\":{\"properties\":{\"done\":{\"type\":\"boolean\"},\"evidence\":{\"type\":\"string\"},\"title\":{\"type\":\"string\"}},\"required\":[\"title\",\"done\"],\"type\":\"object\"},\"type\":\"array\"},\"summary\":{\"type\":\"string\"}},\"required\":[\"done\",\"items\"],\"type\":\"object\"}''"

text \<open>The codings of records and the decoders of the answers.\<close>

record goal_codec =
  gc_indent :: "string \<Rightarrow> string + string"
  gc_plan :: "string \<Rightarrow> string + checklist_item list"
  gc_verdict :: "string \<Rightarrow> string + goal_verdict"
  gc_items_text :: "checklist_item list \<Rightarrow> string"
  gc_items :: "string \<Rightarrow> checklist_item list"
  gc_usage_text :: "usage \<Rightarrow> string"
  gc_usage :: "string \<Rightarrow> usage"

text \<open>The options all three prompts share; every option sets a field of its own, so their order does not
  matter. The world of a goal is the agent, whose sessions it prompts, with the agent's world.\<close>

type_synonym 'w goal_world = "'w agent \<times> 'w"

definition put_session :: "session \<Rightarrow> 'w agent \<Rightarrow> 'w agent" where
  "put_session se ag = ag\<lparr>ag_sessions := AList.update (se_id se) se (ag_sessions ag)\<rparr>"

definition shared_options :: "string \<Rightarrow> 'w goal_spec \<Rightarrow> 'w tool list \<Rightarrow> 'w prompt_option list" where
  "shared_options model spec tools =
     (if model \<noteq> [] then [OptModel model] else []) @ (if tools \<noteq> [] then [OptTools tools] else [])
     @ (if gl_max_turns spec > 0 then [OptMaxTurns (gl_max_turns spec)] else [])
     @ (if gl_permission spec \<noteq> None then [OptPermission (gl_permission spec)] else [])"

definition plan_items :: "checklist_item list \<Rightarrow> checklist_item list" where
  "plan_items items = map (\<lambda>it. \<lparr>it_title = trim_space (it_title it), it_done = False, it_evidence = []\<rparr>)
     (filter (\<lambda>it. trim_space (it_title it) \<noteq> []) items)"

definition plan_goal :: "'w run_env \<Rightarrow> file_access \<Rightarrow> goal_codec \<Rightarrow> 'w goal_spec \<Rightarrow> 'w goal_world
    \<Rightarrow> (go_error + checklist_item list) \<times> usage \<times> 'w goal_world" where
  "plan_goal env fa gc spec = (\<lambda>(ag, w).
     case agent_session (en_now env) fa ag (gl_prefix spec @ '':plan'') [] w of
       (Inl e, ag1, w1) \<Rightarrow> (Inl e, zero_usage, (ag1, w1))
     | (Inr se, ag1, w1) \<Rightarrow>
         (case prompt_json (gc_indent gc) (gc_plan gc) env ag1 se (plan_prompt (gl_objective spec))
              (OptJSONSchema goal_plan_schema # shared_options (gl_model spec) spec []) w1 of
            ((r, a), _, se', w2) \<Rightarrow>
              (map_sum id plan_items a, sum_usage (pt_new r), (put_session se' ag1, w2))))"

definition run_goal_maker :: "'w run_env \<Rightarrow> file_access \<Rightarrow> 'w goal_spec \<Rightarrow> int \<Rightarrow> checklist_item list \<Rightarrow> 'w goal_world
    \<Rightarrow> go_error option \<times> usage \<times> 'w goal_world" where
  "run_goal_maker env fa spec i items = (\<lambda>(ag, w).
     case agent_session (en_now env) fa ag (gl_prefix spec @ '':iter-'' @ itoa_int i) [] w of
       (Inl e, ag1, w1) \<Rightarrow> (Some e, zero_usage, (ag1, w1))
     | (Inr se, ag1, w1) \<Rightarrow>
         (case prompt env ag1 se (maker_prompt (gl_objective spec) i items)
              ((if gl_system_prompt spec \<noteq> [] then [OptSystemPrompt (gl_system_prompt spec)] else [])
               @ shared_options (gl_model spec) spec (gl_tools spec)) w1 of
            ((r, e), _, se', w2) \<Rightarrow> (e, sum_usage (pt_new r), (put_session se' ag1, w2))))"

definition run_goal_checker :: "'w run_env \<Rightarrow> file_access \<Rightarrow> goal_codec \<Rightarrow> 'w goal_spec \<Rightarrow> int
    \<Rightarrow> checklist_item list \<Rightarrow> 'w goal_world \<Rightarrow> (go_error + goal_verdict) \<times> usage \<times> 'w goal_world" where
  "run_goal_checker env fa gc spec i items = (\<lambda>(ag, w).
     case agent_session (en_now env) fa ag (gl_prefix spec @ '':check-'' @ itoa_int i) [] w of
       (Inl e, ag1, w1) \<Rightarrow> (Inl e, zero_usage, (ag1, w1))
     | (Inr se, ag1, w1) \<Rightarrow>
         (case prompt_json (gc_indent gc) (gc_verdict gc) env ag1 se
              (checker_prompt (gl_objective spec) items)
              ([OptJSONSchema goal_verdict_schema, OptSystemPrompt (gl_checker_prompt spec)]
               @ shared_options (gl_checker_model spec) spec (gl_checker_tools spec)) w1 of
            ((r, a), _, se', w2) \<Rightarrow> (a, sum_usage (pt_new r), (put_session se' ag1, w2))))"

section \<open>The durable record\<close>

definition goal_objective_key :: string where "goal_objective_key = ''glue/goal:objective''"
definition goal_status_key :: string where "goal_status_key = ''glue/goal:status''"
definition goal_checklist_key :: string where "goal_checklist_key = ''glue/goal:checklist''"
definition goal_iterations_key :: string where "goal_iterations_key = ''glue/goal:iterations''"
definition goal_usage_key :: string where "goal_usage_key = ''glue/goal:usage''"
definition goal_summary_key :: string where "goal_summary_key = ''glue/goal:summary''"
definition goal_work_dir_key :: string where "goal_work_dir_key = ''glue/goal:workdir''"

lemmas goal_keys = goal_objective_key_def goal_status_key_def goal_checklist_key_def
  goal_iterations_key_def goal_usage_key_def goal_summary_key_def goal_work_dir_key_def

fun status_text :: "goal_status \<Rightarrow> string" where
  "status_text GoalRunning = ''running''"
| "status_text GoalPaused = ''paused''"
| "status_text GoalAchieved = ''achieved''"
| "status_text GoalBlocked = ''blocked''"
| "status_text GoalBudgetLimited = ''budget_limited''"
| "status_text GoalMaxIterations = ''max_iterations''"
| "status_text GoalErrored = ''errored''"
| "status_text (GoalOther s) = s"

definition known_statuses :: "goal_status list" where
  "known_statuses = [GoalRunning, GoalPaused, GoalAchieved, GoalBlocked, GoalBudgetLimited,
     GoalMaxIterations, GoalErrored]"

definition status_of_text :: "string \<Rightarrow> goal_status" where
  "status_of_text s = (case find (\<lambda>st. status_text st = s) known_statuses of Some st \<Rightarrow> st | None \<Rightarrow> GoalOther s)"

definition resumable :: "goal_record \<Rightarrow> bool" where
  "resumable rec \<longleftrightarrow> gk_status rec \<in> {GoalPaused, GoalErrored, GoalBlocked, GoalMaxIterations, GoalBudgetLimited}
     \<and> gk_checklist rec \<noteq> []"

definition goal_metadata :: "goal_codec \<Rightarrow> goal_record \<Rightarrow> metadata \<Rightarrow> metadata" where
  "goal_metadata gc rec m = fold (\<lambda>(k, v). AList.update k v)
     [(goal_objective_key, MStr (gk_objective rec)), (goal_status_key, MStr (status_text (gk_status rec))),
      (goal_checklist_key, MStr (gc_items_text gc (gk_checklist rec))),
      (goal_iterations_key, MInt (gk_iterations rec)),
      (goal_usage_key, MStr (gc_usage_text gc (gk_usage rec))), (goal_summary_key, MStr (gk_summary rec)),
      (goal_work_dir_key, MStr (gk_work_dir rec))] m"

definition save_goal_record :: "goal_codec \<Rightarrow> ('w \<Rightarrow> go_time) \<Rightarrow> 'w store option \<Rightarrow> goal_record \<Rightarrow> 'w
    \<Rightarrow> go_error option \<times> 'w" where
  "save_goal_record gc now sto rec w =
     (case sto of
        None \<Rightarrow> (None, w)
      | Some s \<Rightarrow>
          (case sto_load s (gk_id rec) w of
             (Inl e, w1) \<Rightarrow> (Some e, w1)
           | (Inr found, w1) \<Rightarrow>
               (let st = (case found of Some st \<Rightarrow> st
                          | None \<Rightarrow> \<lparr>ss_version = 1, ss_id = gk_id rec, ss_messages = [], ss_metadata = [],
                                     ss_created = now w1, ss_updated = 0\<rparr>)
                in sto_save s (gk_id rec) (st\<lparr>ss_metadata := goal_metadata gc rec (ss_metadata st),
                     ss_updated := now w1\<rparr>) w1)))"

fun meta_text :: "meta_value option \<Rightarrow> string option" where
  "meta_text (Some (MStr s)) = Some s"
| "meta_text _ = None"

definition meta_or :: "metadata \<Rightarrow> string \<Rightarrow> 'a \<Rightarrow> (string \<Rightarrow> 'a) \<Rightarrow> 'a" where
  "meta_or m k dflt f = (case meta_text (map_of m k) of None \<Rightarrow> dflt | Some s \<Rightarrow> f s)"

definition goal_record_from_state :: "goal_codec \<Rightarrow> session_state \<Rightarrow> goal_record option" where
  "goal_record_from_state gc st =
     (let m = ss_metadata st in
      case meta_text (map_of m goal_objective_key) of
        None \<Rightarrow> None
      | Some objective \<Rightarrow>
          (if trim_space objective = [] then None
           else Some \<lparr>gk_id = ss_id st, gk_objective = objective,
             gk_status = meta_or m goal_status_key (GoalOther []) status_of_text,
             gk_checklist = meta_or m goal_checklist_key [] (gc_items gc),
             gk_iterations = (case map_of m goal_iterations_key of
                Some (MInt n) \<Rightarrow> n | Some (MFloat n) \<Rightarrow> n | _ \<Rightarrow> 0),
             gk_usage = meta_or m goal_usage_key zero_usage (gc_usage gc),
             gk_summary = meta_or m goal_summary_key [] id,
             gk_work_dir = meta_or m goal_work_dir_key [] id, gk_updated = ss_updated st\<rparr>))"

definition load_goal :: "goal_codec \<Rightarrow> 'w store option \<Rightarrow> string \<Rightarrow> 'w \<Rightarrow> (go_error + goal_record option) \<times> 'w" where
  "load_goal gc sto i w =
     (case sto of
        None \<Rightarrow> (Inr None, w)
      | Some s \<Rightarrow>
          (case sto_load s i w of
             (Inl e, w1) \<Rightarrow> (Inl e, w1)
           | (Inr None, w1) \<Rightarrow> (Inr None, w1)
           | (Inr (Some st), w1) \<Rightarrow> (Inr (goal_record_from_state gc st), w1)))"

fun collect_goals :: "goal_codec \<Rightarrow> 'w store \<Rightarrow> string \<Rightarrow> session_summary list \<Rightarrow> 'w
    \<Rightarrow> (go_error + goal_record list) \<times> 'w" where
  "collect_goals gc s pre [] w = (Inr [], w)"
| "collect_goals gc s pre (y # ys) w =
     (if contains (trim_prefix (sy_id y) pre) '':'' then collect_goals gc s pre ys w
      else case sto_load s (sy_id y) w of
        (Inl e, w1) \<Rightarrow> (Inl e, w1)
      | (Inr None, w1) \<Rightarrow> collect_goals gc s pre ys w1
      | (Inr (Some st), w1) \<Rightarrow>
          (case collect_goals gc s pre ys w1 of
             (Inl e, w2) \<Rightarrow> (Inl e, w2)
           | (Inr rs, w2) \<Rightarrow> (Inr (case goal_record_from_state gc st of None \<Rightarrow> rs | Some r \<Rightarrow> r # rs), w2)))"

definition list_goals :: "goal_codec \<Rightarrow> 'w store option \<Rightarrow> string \<Rightarrow> int \<Rightarrow> 'w \<Rightarrow> (go_error + goal_record list) \<times> 'w" where
  "list_goals gc sto pre limit w =
     (case list_sessions sto \<lparr>lo_prefix = pre, lo_limit = 1000, lo_offset = 0\<rparr> w of
        (Inl e, w1) \<Rightarrow> (Inl e, w1)
      | (Inr ys, w1) \<Rightarrow>
          (case sto of
             None \<Rightarrow> (Inr [], w1)
           | Some s \<Rightarrow>
               (case collect_goals gc s pre ys w1 of
                  (Inl e, w2) \<Rightarrow> (Inl e, w2)
                | (Inr rs, w2) \<Rightarrow>
                    (let out = sort_by (\<lambda>a b. gk_updated b < gk_updated a) rs
                     in (Inr (if limit > 0 then take (nat limit) out else out), w2)))))"

text \<open>The operations of a goal that runs on an agent.\<close>

definition agent_goal_ops :: "'w run_env \<Rightarrow> file_access \<Rightarrow> goal_codec \<Rightarrow> 'w goal_spec \<Rightarrow> ('w goal_world) goal_ops" where
  "agent_goal_ops env fa gc spec = \<lparr>
     gp_ctx = (\<lambda>(ag, w). case en_ctx env w of (c, w') \<Rightarrow> (c, (ag, w'))),
     gp_plan = plan_goal env fa gc spec,
     gp_maker = run_goal_maker env fa spec,
     gp_checker = run_goal_checker env fa gc spec,
     gp_checkpoint = (\<lambda>rec (ag, w). (ag, snd (save_goal_record gc (en_now env) (ag_store ag) rec w)))\<rparr>"

section \<open>Records survive a store\<close>

text \<open>A status is a string of Go; the other constructor is for the strings without one of their own.\<close>

definition proper_status :: "goal_status \<Rightarrow> bool" where
  "proper_status st \<longleftrightarrow> (case st of GoalOther s \<Rightarrow> s \<notin> set (map status_text known_statuses) | _ \<Rightarrow> True)"

lemma status_of_text [simp]: "status_of_text (status_text st) = st" if "proper_status st"
  using that by (cases st) (auto simp: status_of_text_def known_statuses_def proper_status_def)

lemma goal_metadata_lookup:
  "map_of (goal_metadata gc rec m) goal_objective_key = Some (MStr (gk_objective rec))"
  "map_of (goal_metadata gc rec m) goal_status_key = Some (MStr (status_text (gk_status rec)))"
  "map_of (goal_metadata gc rec m) goal_checklist_key = Some (MStr (gc_items_text gc (gk_checklist rec)))"
  "map_of (goal_metadata gc rec m) goal_iterations_key = Some (MInt (gk_iterations rec))"
  "map_of (goal_metadata gc rec m) goal_usage_key = Some (MStr (gc_usage_text gc (gk_usage rec)))"
  "map_of (goal_metadata gc rec m) goal_summary_key = Some (MStr (gk_summary rec))"
  "map_of (goal_metadata gc rec m) goal_work_dir_key = Some (MStr (gk_work_dir rec))"
  by (simp_all add: goal_metadata_def update_conv' goal_keys)

definition goal_record_keys :: "string list" where
  "goal_record_keys = [goal_objective_key, goal_status_key, goal_checklist_key, goal_iterations_key, goal_usage_key,
     goal_summary_key, goal_work_dir_key]"

lemma goal_metadata_other:
  "k \<notin> set goal_record_keys \<Longrightarrow> map_of (goal_metadata gc rec m) k = map_of m k"
  by (simp add: goal_metadata_def goal_record_keys_def update_conv')

text \<open>A store whose image keeps the identity of a state and its metadata up to their JSON form.\<close>

locale record_store = session_store +
  assumes image_id: "ss_id (image st) = ss_id st"
    and image_updated: "ss_updated (image st) = ss_updated st"
    and image_messages: "ss_messages (image st) = map (\<lambda>m. m\<lparr>msg_meta := json_meta (msg_meta m)\<rparr>) (ss_messages st)"
    and image_meta: "map_of (ss_metadata (image st)) k = map_option json_value (map_of (ss_metadata st) k)"
begin

lemma record_image:
  assumes "gc_items gc (gc_items_text gc (gk_checklist rec)) = gk_checklist rec"
    and "gc_usage gc (gc_usage_text gc (gk_usage rec)) = gk_usage rec"
    and "proper_status (gk_status rec)" and "trim_space (gk_objective rec) \<noteq> []"
    and "ss_metadata st = goal_metadata gc rec m" and "ss_id st = gk_id rec"
  shows "goal_record_from_state gc (image st) 
    = Some (rec\<lparr>gk_iterations := float53 (gk_iterations rec), gk_updated := ss_updated st\<rparr>)"
  using assms(1-4,6)
  by (simp add: goal_record_from_state_def meta_or_def image_meta image_id image_updated assms(5)
      goal_metadata_lookup Let_def)

lemma save_goal_contents:
  assumes "save_goal_record gc now (Some sto) rec w = (None, w')" and "gk_id rec \<noteq> []"
    and "\<forall>t. now t \<noteq> 0" and "\<forall>st. contents w (gk_id rec) = Some st \<longrightarrow> complete_state st \<and> ss_id st = gk_id rec"
  shows "\<exists>st t. contents w' = (contents w)(gk_id rec \<mapsto> image st) \<and> ss_id st = gk_id rec
    \<and> ss_updated st = now t
    \<and> ss_messages st = (case contents w (gk_id rec) of None \<Rightarrow> [] | Some st0 \<Rightarrow> ss_messages st0)
    \<and> ss_metadata st = goal_metadata gc rec
         (case contents w (gk_id rec) of None \<Rightarrow> [] | Some st0 \<Rightarrow> ss_metadata st0)"
proof -
  obtain found w1 where l: "sto_load sto (gk_id rec) w = (Inr found, w1)"
    using assms(1) by (auto simp: save_goal_record_def split: sum.splits prod.splits)
  have f: "found = contents w (gk_id rec)" "contents w1 = contents w"
    using load_contents [OF l] load_keeps [OF l] by simp_all
  define st0 where "st0 = (case found of Some st \<Rightarrow> st
     | None \<Rightarrow> \<lparr>ss_version = 1, ss_id = gk_id rec, ss_messages = [], ss_metadata = [],
                ss_created = now w1, ss_updated = 0\<rparr>)"
  define st where "st = st0\<lparr>ss_metadata := goal_metadata gc rec (ss_metadata st0), ss_updated := now w1\<rparr>"
  have s: "sto_save sto (gk_id rec) st w1 = (None, w')"
    using assms(1) l by (simp add: save_goal_record_def st_def st0_def Let_def)
  have c: "complete_state st" and i: "ss_id st = gk_id rec"
    using assms(2-4) f(1) by (auto simp: complete_state_def st_def st0_def split: option.split)
  show ?thesis
    using save_contents [OF s c] i f
    by (intro exI [of _ st] exI [of _ w1]) (auto simp: st_def st0_def split: option.split)
qed

end

interpretation file_records: record_store "file_store dir" "file_contents dir" json_state for dir
  by unfold_locales (simp_all add: json_state_def map_of_json_meta)

section \<open>Properties\<close>

text \<open>C32. A goal record with a non-blank objective that the file store accepts is read back as it was saved,
  with the time of the save: status, checklist, usage, and the iteration count, which JSON turns into a
  float and so keeps exactly up to \<open>2 ^ 53\<close>. The messages of the session at the goal's id stay, with the
  JSON form of their metadata, its other metadata stays likewise, and no other session changes. The
  encoders of the checklist and the usage are inverted by their decoders (\<open>encoding/json\<close> on plain
  structures), and a session already stored at the goal's id is complete and has that id.\<close>

theorem goal_record_roundtrip:
  assumes "save_goal_record gc now (Some (file_store dir)) rec w = (None, w1)"
    and "load_goal gc (Some (file_store dir)) (gk_id rec) w1 = (Inr r, w2)"
    and "gc_items gc (gc_items_text gc (gk_checklist rec)) = gk_checklist rec"
    and "gc_usage gc (gc_usage_text gc (gk_usage rec)) = gk_usage rec"
    and "proper_status (gk_status rec)" and "trim_space (gk_objective rec) \<noteq> []"
    and "gk_id rec \<noteq> []" and "\<forall>t. now t \<noteq> 0"
    and "\<forall>st. file_contents dir w (gk_id rec) = Some st \<longrightarrow> complete_state st \<and> ss_id st = gk_id rec"
  shows "(\<exists>t. r = Some (rec\<lparr>gk_iterations := float53 (gk_iterations rec), gk_updated := now t\<rparr>))
    \<and> (\<bar>gk_iterations rec\<bar> \<le> 2 ^ 53 \<longrightarrow> float53 (gk_iterations rec) = gk_iterations rec)
    \<and> (\<forall>j. j \<noteq> gk_id rec \<longrightarrow> file_contents dir w1 j = file_contents dir w j)
    \<and> (\<exists>st. file_contents dir w1 (gk_id rec) = Some st
        \<and> ss_messages st = (case file_contents dir w (gk_id rec) of None \<Rightarrow> []
            | Some st0 \<Rightarrow> map (\<lambda>m. m\<lparr>msg_meta := json_meta (msg_meta m)\<rparr>) (ss_messages st0))
        \<and> (\<forall>k. k \<notin> set goal_record_keys \<longrightarrow> map_of (ss_metadata st) k
            = (case file_contents dir w (gk_id rec) of None \<Rightarrow> None
               | Some st0 \<Rightarrow> map_option json_value (map_of (ss_metadata st0) k))))"
proof -
  obtain st t where c: "file_contents dir w1 = (file_contents dir w)(gk_id rec \<mapsto> json_state st)"
    and st: "ss_id st = gk_id rec" "ss_updated st = now t"
      "ss_messages st = (case file_contents dir w (gk_id rec) of None \<Rightarrow> [] | Some st0 \<Rightarrow> ss_messages st0)"
      "ss_metadata st = goal_metadata gc rec
         (case file_contents dir w (gk_id rec) of None \<Rightarrow> [] | Some st0 \<Rightarrow> ss_metadata st0)"
    using file_records.save_goal_contents [OF assms(1,7-9)] by blast
  have here: "file_contents dir w1 (gk_id rec) = Some (json_state st)" using c by simp
  then have "r = goal_record_from_state gc (json_state st)"
    using assms(2) files.load_contents [where dir = dir and i = "gk_id rec" and w = w1]
    by (auto simp: load_goal_def split: sum.splits option.splits prod.splits)
  then have "r = Some (rec\<lparr>gk_iterations := float53 (gk_iterations rec), gk_updated := now t\<rparr>)"
    using file_records.record_image [OF assms(3-6) st(4,1)] st(2) by simp
  moreover have "ss_messages (json_state st) = (case file_contents dir w (gk_id rec) of None \<Rightarrow> []
      | Some st0 \<Rightarrow> map (\<lambda>m. m\<lparr>msg_meta := json_meta (msg_meta m)\<rparr>) (ss_messages st0))"
    unfolding file_records.image_messages st(3) by (simp split: option.split)
  moreover have "map_of (ss_metadata (json_state st)) k = (case file_contents dir w (gk_id rec) of None \<Rightarrow> None
      | Some st0 \<Rightarrow> map_option json_value (map_of (ss_metadata st0) k))" if "k \<notin> set goal_record_keys" for k
    using that unfolding file_records.image_meta st(4)
    by (simp add: goal_metadata_other goal_record_keys_def split: option.split)
  ultimately show ?thesis using c here by (auto simp: float53_exact)
qed

definition sample_codec :: goal_codec where
  "sample_codec = \<lparr>gc_indent = Inr, gc_plan = (\<lambda>s. Inl s), gc_verdict = (\<lambda>s. Inl s),
     gc_items_text = (\<lambda>xs. concat (map it_title xs)),
     gc_items = (\<lambda>s. map (\<lambda>c. \<lparr>it_title = [c], it_done = False, it_evidence = []\<rparr>) s),
     gc_usage_text = (\<lambda>u. itoa_int (total_tokens u)),
     gc_usage = (\<lambda>s. zero_usage\<lparr>total_tokens := 7\<rparr>)\<rparr>"

definition sample_record :: goal_record where
  "sample_record = \<lparr>gk_id = ''goal-1'', gk_objective = ''ship'', gk_status = GoalPaused,
     gk_checklist = [\<lparr>it_title = ''a'', it_done = False, it_evidence = []\<rparr>], gk_iterations = 3,
     gk_usage = zero_usage\<lparr>total_tokens := 7\<rparr>, gk_summary = [], gk_work_dir = ''/w'', gk_updated = 0\<rparr>"

theorem goal_record_roundtrip_witness:
  "let w1 = snd (save_goal_record sample_codec (\<lambda>_. 5) (Some (file_store ''d'')) sample_record sample_files)
   in case load_goal sample_codec (Some (file_store ''d'')) ''goal-1'' w1 of
        (Inr (Some rec), _) \<Rightarrow> rec = sample_record\<lparr>gk_updated := 5\<rparr> | _ \<Rightarrow> False"
proof -
  let ?s = "save_goal_record sample_codec (\<lambda>_. 5) (Some (file_store ''d'')) sample_record sample_files"
  let ?l = "load_goal sample_codec (Some (file_store ''d'')) ''goal-1'' (snd ?s)"
  have "fst ?s = None" by code_simp
  then have s: "?s = (None, snd ?s)" by (simp add: prod_eq_iff)
  have "case file_contents ''d'' sample_files ''goal-1'' of None \<Rightarrow> True | Some _ \<Rightarrow> False" by code_simp
  then have f: "file_contents ''d'' sample_files ''goal-1'' = None" by (simp split: option.splits)
  have "case fst ?l of Inr _ \<Rightarrow> True | Inl _ \<Rightarrow> False" by code_simp
  then have l: "load_goal sample_codec (Some (file_store ''d'')) (gk_id sample_record) (snd ?s)
      = (Inr (projr (fst ?l)), snd ?l)"
    by (auto simp: sample_record_def prod_eq_iff split: sum.splits)
  have t: "trim_space ''ship'' \<noteq> []" by code_simp
  have "projr (fst ?l) = Some (sample_record\<lparr>gk_updated := 5\<rparr>)"
    using goal_record_roundtrip [OF s l] f t float53_exact [of 3]
    by (simp add: sample_codec_def sample_record_def proper_status_def)
  with l have "?l = (Inr (Some (sample_record\<lparr>gk_updated := 5\<rparr>)), snd ?l)"
    by (simp add: sample_record_def)
  then obtain y where y: "?l = (Inr (Some (sample_record\<lparr>gk_updated := 5\<rparr>)), y)" by blast
  show ?thesis unfolding Let_def y by simp
qed

end
