(* ===== verification/Output_Capture.thy ===== *)
theory Output_Capture
  imports Go_Error
begin

text \<open>
  Model of \<open>src/executor.go\<close>: the bounded capture of a process's output streams (\<open>limitedOutput\<close>), fed
  by arbitrary chunks, and \<open>LocalExecutor.Run\<close> around it. A stream is a byte string; the spool file is
  the bytes written to it; a spool that cannot be created or written to counts as absent, which is what
  \<open>FinishSpool\<close> reports of it. What the operating system does with a command (its output chunks, exit
  code, start error and the state of its context) is a parameter. The limits are taken as the
  validated, positive ones of \<open>Run\<close>.
\<close>

section \<open>The capture buffer\<close>

record limited_output =
  lo_head_max :: nat
  lo_tail_max :: nat
  lo_head :: bytes
  lo_tail :: bytes
  lo_omitted :: nat
  lo_newlines :: nat
  lo_last :: "char option"
  lo_spool :: "bytes option"

definition new_limited_output :: "nat \<Rightarrow> bool \<Rightarrow> limited_output" where
  "new_limited_output limit spool = \<lparr>lo_head_max = limit - limit div 2, lo_tail_max = limit div 2,
     lo_head = [], lo_tail = [], lo_omitted = 0, lo_newlines = 0, lo_last = None,
     lo_spool = (if spool then Some [] else None)\<rparr>"

text \<open>The bytes past the head: the last \<open>tailMax\<close> of them are kept.\<close>

definition push_tail :: "bytes \<Rightarrow> limited_output \<Rightarrow> limited_output" where
  "push_tail p o1 =
     (if p = [] then o1
      else if length p \<ge> lo_tail_max o1 then
        o1\<lparr>lo_omitted := lo_omitted o1 + (length (lo_tail o1) + length p - lo_tail_max o1),
           lo_tail := drop (length p - lo_tail_max o1) p\<rparr>
      else
        (let t = lo_tail o1 @ p; over = length t - lo_tail_max o1
         in o1\<lparr>lo_omitted := lo_omitted o1 + over, lo_tail := drop over t\<rparr>))"

definition write_output :: "bytes \<Rightarrow> limited_output \<Rightarrow> limited_output" where
  "write_output p o1 =
     (if p = [] then o1
      else
        (let room = lo_head_max o1 - length (lo_head o1)
         in push_tail (drop room p)
              (o1\<lparr>lo_newlines := lo_newlines o1 + count_char nl p, lo_last := Some (last p),
                 lo_spool := map_option (\<lambda>s. s @ p) (lo_spool o1),
                 lo_head := lo_head o1 @ take room p\<rparr>)))"

definition head_of :: "limited_output \<Rightarrow> bytes" where
  "head_of o1 = (if lo_omitted o1 = 0 then lo_head o1 @ lo_tail o1 else lo_head o1)"

definition tail_of :: "limited_output \<Rightarrow> bytes" where
  "tail_of o1 = (if lo_omitted o1 = 0 then [] else lo_tail o1)"

definition lines_of :: "limited_output \<Rightarrow> nat" where
  "lines_of o1 = (case lo_last o1 of
      None \<Rightarrow> 0
    | Some c \<Rightarrow> if c = nl then lo_newlines o1 else lo_newlines o1 + 1)"

definition finish_spool :: "limited_output \<Rightarrow> bytes option" where
  "finish_spool o1 = (if lo_omitted o1 = 0 then None else lo_spool o1)"

section \<open>Running a command\<close>

record exec_command =
  ex_argv :: "string list"
  ex_dir :: string
  ex_env :: "string list"
  ex_timeout :: int
  ex_max_output :: int
  ex_spool :: bool

record exec_result =
  er_stdout :: bytes
  er_stderr :: bytes
  er_exit :: int
  er_timed_out :: bool
  er_truncated :: bool
  er_stdout_tail :: bytes
  er_stderr_tail :: bytes
  er_stdout_omitted :: nat
  er_stderr_omitted :: nat
  er_stdout_lines :: nat
  er_stderr_lines :: nat
  er_stdout_spool :: "bytes option"
  er_stderr_spool :: "bytes option"

definition default_exec_max_output :: int where "default_exec_max_output = 64 * 1024"

text \<open>What one run of a process shows: the chunks of its streams, the exit code of the process state
  (\<open>-1\<close> without one), how \<open>c.Run\<close> ended, and whether the caller's context and the command's deadline
  had ended by then.\<close>

datatype run_end = RunOk | RunExit int | RunFailed go_error

record process_trace =
  tr_stdout :: "bytes list"
  tr_stderr :: "bytes list"
  tr_exit :: int
  tr_end :: run_end
  tr_ctx :: "go_error option"
  tr_deadline :: bool

definition no_result :: exec_result where
  "no_result = \<lparr>er_stdout = [], er_stderr = [], er_exit = -1, er_timed_out = False, er_truncated = False,
     er_stdout_tail = [], er_stderr_tail = [], er_stdout_omitted = 0, er_stderr_omitted = 0,
     er_stdout_lines = 0, er_stderr_lines = 0, er_stdout_spool = None, er_stderr_spool = None\<rparr>"

definition captured :: "nat \<Rightarrow> bool \<Rightarrow> bytes list \<Rightarrow> limited_output" where
  "captured limit spool chunks = fold write_output chunks (new_limited_output limit spool)"

definition result_of_trace :: "nat \<Rightarrow> bool \<Rightarrow> process_trace \<Rightarrow> exec_result" where
  "result_of_trace limit spool t =
     (let out = captured limit spool (tr_stdout t); err = captured limit spool (tr_stderr t)
      in \<lparr>er_stdout = head_of out, er_stderr = head_of err, er_exit = tr_exit t, er_timed_out = False,
          er_truncated = (lo_omitted out > 0 \<or> lo_omitted err > 0),
          er_stdout_tail = tail_of out, er_stderr_tail = tail_of err,
          er_stdout_omitted = lo_omitted out, er_stderr_omitted = lo_omitted err,
          er_stdout_lines = lines_of out, er_stderr_lines = lines_of err,
          er_stdout_spool = finish_spool out, er_stderr_spool = finish_spool err\<rparr>)"

definition local_exec :: "(exec_command \<Rightarrow> 'w \<Rightarrow> process_trace \<times> 'w) \<Rightarrow> exec_command \<Rightarrow> 'w
    \<Rightarrow> (exec_result \<times> go_error option) \<times> 'w" where
  "local_exec run cmd w =
     (if ex_argv cmd = [] \<or> hd (ex_argv cmd) = [] then
        ((no_result, Some (new_error ''glue: exec argv is required'')), w)
      else if ex_timeout cmd < 0 then
        ((no_result, Some (new_error ''glue: exec timeout must be non-negative'')), w)
      else if ex_max_output cmd < 0 then
        ((no_result, Some (new_error ''glue: exec max output bytes must be non-negative'')), w)
      else
        (let limit = nat (if ex_max_output cmd = 0 then default_exec_max_output else ex_max_output cmd);
             (t, w') = run cmd w;
             r = result_of_trace limit (ex_spool cmd) t
         in (case tr_ctx t of
               Some e \<Rightarrow> (r, Some e)
             | None \<Rightarrow>
                 (if ex_timeout cmd > 0 \<and> tr_deadline t then
                    (r\<lparr>er_timed_out := True, er_exit := (if er_exit r = 0 then -1 else er_exit r)\<rparr>, None)
                  else case tr_end t of
                    RunOk \<Rightarrow> (r, None)
                  | RunExit n \<Rightarrow> (r\<lparr>er_exit := n\<rparr>, None)
                  | RunFailed e \<Rightarrow>
                      (r, Some (wrap_error (''glue: exec '' @ quote (hd (ex_argv cmd)) @ '': '') e []))),
             w')))"

section \<open>The capture depends on the stream alone\<close>

text \<open>What is kept of a stream: the head, of the rest the tail, and how much is lost between them.\<close>

definition capture_of :: "nat \<Rightarrow> bool \<Rightarrow> bytes \<Rightarrow> limited_output" where
  "capture_of limit spool s =
     (let h = limit - limit div 2; t = limit div 2; rest = drop h s
      in \<lparr>lo_head_max = h, lo_tail_max = t, lo_head = take h s,
          lo_tail = drop (length rest - t) rest, lo_omitted = length rest - t,
          lo_newlines = count_char nl s, lo_last = (if s = [] then None else Some (last s)),
          lo_spool = (if spool then Some s else None)\<rparr>)"

lemma count_char_append [simp]: "count_char c (s @ t) = count_char c s + count_char c t"
  by (simp add: count_char_def)

lemma push_tail_state:
  assumes "t = lo_tail_max o1" and "lo_tail o1 = drop (length r - t) r" and "lo_omitted o1 = length r - t"
  shows "push_tail p o1 = o1\<lparr>lo_tail := drop (length (r @ p) - t) (r @ p),
    lo_omitted := length (r @ p) - t\<rparr>"
proof (cases "p = []")
  case True
  then show ?thesis using assms by (simp add: push_tail_def)
next
  case False
  show ?thesis
  proof (cases "length p \<ge> t")
    case True
    then show ?thesis using assms False by (simp add: push_tail_def)
  next
    case short: False
    have "drop (length (drop (length r - t) r @ p) - t) (drop (length r - t) r @ p)
        = drop (length (r @ p) - t) (r @ p)"
      using short by (cases "length r \<le> t") (auto simp: drop_append add.commute)
    then show ?thesis using assms False short by (simp add: push_tail_def Let_def)
  qed
qed

lemma write_output_capture:
  "write_output p (capture_of limit spool s) = capture_of limit spool (s @ p)"
proof (cases "p = []")
  case False
  let ?h = "limit - limit div 2" and ?t = "limit div 2"
  have rest: "drop ?h s @ drop (?h - min (length s) ?h) p = drop ?h (s @ p)"
    by (cases "length s \<le> ?h") (auto simp: min_def)
  show ?thesis using False
    by (simp add: write_output_def capture_of_def Let_def push_tail_state [where r = "drop ?h s"])
      (use rest in \<open>auto simp: min_def\<close>)
qed (simp add: write_output_def)

lemma capture_of_Nil: "new_limited_output limit spool = capture_of limit spool []"
  by (simp add: new_limited_output_def capture_of_def count_char_def)

lemma captured_capture: "captured limit spool chunks = capture_of limit spool (concat chunks)"
proof -
  have "fold write_output chunks (capture_of limit spool s) = capture_of limit spool (s @ concat chunks)" for s
    by (induction chunks arbitrary: s) (simp_all add: write_output_capture)
  from this [of "[]"] show ?thesis by (simp add: captured_def capture_of_Nil)
qed

section \<open>Properties\<close>

text \<open>C33. However the operating system cuts a stream into writes, the result is a function of the bytes
  alone: a stream within the cap is returned whole; a longer one as its first half-cap and its last
  half-cap, with exactly the bytes between them counted as omitted and the whole stream in the spool.
  Lines are counted over the whole stream. Never more than the cap is kept.\<close>

theorem capture_by_content:
  "let o1 = captured limit spool chunks; s = concat chunks in
     (length s \<le> limit \<longrightarrow> head_of o1 = s \<and> tail_of o1 = [] \<and> lo_omitted o1 = 0 \<and> finish_spool o1 = None)
   \<and> (limit < length s \<longrightarrow>
        head_of o1 = take (limit - limit div 2) s \<and> tail_of o1 = drop (length s - limit div 2) s
        \<and> lo_omitted o1 = length s - limit \<and> finish_spool o1 = (if spool then Some s else None))
   \<and> length (head_of o1) + length (tail_of o1) \<le> limit
   \<and> length s = length (head_of o1) + lo_omitted o1 + length (tail_of o1)
   \<and> lines_of o1 = (if s = [] then 0 else if last s = nl then count_char nl s else count_char nl s + 1)"
  unfolding captured_capture Let_def
  by (auto simp: capture_of_def Let_def head_of_def tail_of_def finish_spool_def lines_of_def)

theorem capture_by_content_witness:
  "let o1 = captured 4 True [''ab'', ''cdef'', ''g''] in
     head_of o1 = ''ab'' \<and> tail_of o1 = ''fg'' \<and> lo_omitted o1 = 3 \<and> finish_spool o1 = Some ''abcdefg''"
  using capture_by_content [of 4 True "[''ab'', ''cdef'', ''g'']"] by (simp add: Let_def)

end
