(* ===== verification/Fs_Paths.thy ===== *)
theory Fs_Paths
  imports Go_Error Regexp Transcript "HOL-Library.AList"
begin

text \<open>
  Model of \<open>src/tools/fs/fs.go\<close>, \<open>blocklist.go\<close>, \<open>ledger.go\<close> and \<open>ignore.go\<close>: path safety, the
  sensitive-file patterns, the read ledger and \<open>.gitignore\<close> matching, on Unix paths. The functions of
  \<open>path/filepath\<close> they use (\<open>Clean\<close>, \<open>Join\<close>, \<open>Rel\<close>, \<open>Base\<close>, \<open>Match\<close>) are defined first.
\<close>

definition text_result :: "string \<Rightarrow> tool_result" where
  "text_result s = \<lparr>res_content = [text_part s], res_is_error = False, res_meta = []\<rparr>"

definition failed_result :: "go_error \<Rightarrow> tool_result" where
  "failed_result e = \<lparr>res_content = [text_part (err_text e)], res_is_error = True, res_meta = []\<rparr>"

section \<open>Package filepath\<close>

definition slash :: char where "slash = CHR ''/''"

definition is_abs :: "string \<Rightarrow> bool" where
  "is_abs p \<longleftrightarrow> p \<noteq> [] \<and> hd p = slash"

text \<open>The elements of a path, and the elimination of \<open>..\<close> by the stack of the elements kept so far
  (top first): above the root it disappears, in a relative path it stays.\<close>

definition elements :: "string \<Rightarrow> string list" where
  "elements p = filter (\<lambda>c. c \<noteq> [] \<and> c \<noteq> ''.'') (split_on slash p)"

definition push_element :: "bool \<Rightarrow> string \<Rightarrow> string list \<Rightarrow> string list" where
  "push_element rooted c stack =
     (if c = ''..'' then
        (case stack of
           [] \<Rightarrow> if rooted then [] else [c]
         | t # ts \<Rightarrow> if t = ''..'' then c # stack else ts)
      else c # stack)"

definition reduced :: "bool \<Rightarrow> string list \<Rightarrow> string list" where
  "reduced rooted cs = rev (fold (push_element rooted) cs [])"

definition path_of :: "bool \<Rightarrow> string list \<Rightarrow> string" where
  "path_of rooted cs =
     (let p = (if rooted then [slash] else []) @ join [slash] cs in if p = [] then ''.'' else p)"

definition clean_path :: "string \<Rightarrow> string" where
  "clean_path p = path_of (is_abs p) (reduced (is_abs p) (elements p))"

definition join_path :: "string \<Rightarrow> string \<Rightarrow> string" where
  "join_path a b =
     (if a = [] \<and> b = [] then [] else if a = [] then clean_path b else if b = [] then clean_path a
      else clean_path (a @ [slash] @ b))"

fun strip_common :: "string list \<Rightarrow> string list \<Rightarrow> string list \<times> string list" where
  "strip_common (x # xs) (y # ys) = (if x = y then strip_common xs ys else (x # xs, y # ys))"
| "strip_common xs ys = (xs, ys)"

text \<open>\<open>filepath.Rel\<close>; \<open>None\<close> is its error.\<close>

definition rel_path :: "string \<Rightarrow> string \<Rightarrow> string option" where
  "rel_path base targ =
     (let b = clean_path base; t = clean_path targ in
      if t = b then Some ''.''
      else if is_abs b \<noteq> is_abs t then None
      else
        (let (bs, ts) = strip_common (elements b) (elements t)
         in if ''..'' \<in> set bs then None
            else Some (path_of False (replicate (length bs) ''..'' @ ts))))"

definition base_name :: "string \<Rightarrow> string" where
  "base_name p =
     (if p = [] then ''.''
      else
        (let q = trim_right_set [slash] p
         in if q = [] then [slash] else last (split_on slash q)))"

text \<open>\<open>filepath.Match\<close>. A pattern is read into tokens, \<open>None\<close> for a malformed one.\<close>

datatype glob_token = GStar | GAny | GLit char | GClass bool "(nat \<times> nat) list"

definition get_esc :: "string \<Rightarrow> (nat \<times> string) option" where
  "get_esc s =
     (if s = [] \<or> hd s = CHR ''-'' \<or> hd s = CHR '']'' then None
      else
        (let s = (if hd s = bslash then tl s else s) in
         if s = [] then None
         else
           (let (r, n) = first_rune s
            in if (r = rune_error \<and> n = 1) \<or> length s \<le> n then None else Some (r, drop n s))))"

lemma get_esc_shorter: "get_esc s = Some (r, t) \<Longrightarrow> length t < length s"
  using first_rune_size [of s] first_rune_size [of "tl s"]
  by (cases s) (auto simp: get_esc_def Let_def split: if_splits prod.splits)

definition class_item :: "string \<Rightarrow> ((nat \<times> nat) \<times> string) option" where
  "class_item s =
     (case get_esc s of
        None \<Rightarrow> None
      | Some (low, t) \<Rightarrow>
          (if t \<noteq> [] \<and> hd t = CHR ''-''
           then (case get_esc (tl t) of None \<Rightarrow> None | Some (high, u) \<Rightarrow> Some ((low, high), u))
           else Some ((low, low), t)))"

lemma class_item_shorter: "class_item s = Some (i, t) \<Longrightarrow> length t < length s"
proof -
  assume c: "class_item s = Some (i, t)"
  then obtain low u where u: "get_esc s = Some (low, u)"
    by (auto simp: class_item_def split: option.splits)
  then have "length u < length s" by (rule get_esc_shorter)
  then show ?thesis using c u get_esc_shorter [of "tl u"]
    by (auto simp: class_item_def split: if_splits option.splits prod.splits)
qed

function class_items :: "(nat \<times> nat) list \<Rightarrow> string \<Rightarrow> ((nat \<times> nat) list \<times> string) option" where
  "class_items acc s =
     (if s \<noteq> [] \<and> hd s = CHR '']'' \<and> acc \<noteq> [] then Some (acc, tl s)
      else case class_item s of
        None \<Rightarrow> None
      | Some (i, t) \<Rightarrow> class_items (acc @ [i]) t)"
  by pat_completeness auto
termination
  by (relation "measure (\<lambda>(acc, s). length s)") (auto dest: class_item_shorter)

declare class_items.simps [simp del]

lemma class_items_shorter: "class_items acc s = Some (is, t) \<Longrightarrow> length t < length s"
proof (induction acc s rule: class_items.induct)
  case (1 acc s)
  show ?case
  proof (cases "s \<noteq> [] \<and> hd s = CHR '']'' \<and> acc \<noteq> []")
    case True
    then show ?thesis using "1.prems" by (auto simp: class_items.simps [of acc s])
  next
    case False
    then obtain i u where u: "class_item s = Some (i, u)" "class_items (acc @ [i]) u = Some (is, t)"
      using "1.prems" by (auto simp: class_items.simps [of acc s] split: option.splits if_splits)
    then show ?thesis using "1.IH" [OF False u(1)] class_item_shorter [OF u(1)] by fastforce
  qed
qed

function parse_glob :: "string \<Rightarrow> glob_token list option" where
  "parse_glob [] = Some []"
| "parse_glob (c # s) =
     (if c = CHR ''*'' then map_option ((#) GStar) (parse_glob s)
      else if c = CHR ''?'' then map_option ((#) GAny) (parse_glob s)
      else if c = bslash then
        (case s of [] \<Rightarrow> None | d # t \<Rightarrow> map_option ((#) (GLit d)) (parse_glob t))
      else if c = CHR ''['' then
        (let neg = (s \<noteq> [] \<and> hd s = CHR ''^'') in
         case class_items [] (if neg then tl s else s) of
           None \<Rightarrow> None
         | Some (items, t) \<Rightarrow> map_option ((#) (GClass neg items)) (parse_glob t))
      else map_option ((#) (GLit c)) (parse_glob s))"
  by pat_completeness auto
termination
  by (relation "measure length") (auto dest!: class_items_shorter split: if_splits)

primrec glob_run :: "glob_token list \<Rightarrow> string \<Rightarrow> bool" where
  "glob_run [] s \<longleftrightarrow> s = []"
| "glob_run (t # ts) s \<longleftrightarrow>
     (case t of
        GStar \<Rightarrow> list_ex (\<lambda>i. glob_run ts (drop i s)) [0..<Suc (length (takeWhile (\<lambda>c. c \<noteq> slash) s))]
      | GAny \<Rightarrow> s \<noteq> [] \<and> hd s \<noteq> slash \<and> glob_run ts (drop (snd (first_rune s)) s)
      | GLit c \<Rightarrow> s \<noteq> [] \<and> hd s = c \<and> glob_run ts (tl s)
      | GClass neg items \<Rightarrow> s \<noteq> [] \<and> in_ranges (fst (first_rune s)) items \<noteq> neg
          \<and> glob_run ts (drop (snd (first_rune s)) s))"

definition path_match :: "string \<Rightarrow> string \<Rightarrow> bool" where
  "path_match pat name = (case parse_glob pat of None \<Rightarrow> False | Some ts \<Rightarrow> glob_run ts name)"

section \<open>Path safety\<close>

text \<open>\<open>absolute\<close> is \<open>filepath.Abs\<close>, which needs the current directory.\<close>

definition safe_join :: "(string \<Rightarrow> go_error + string) \<Rightarrow> string \<Rightarrow> string \<Rightarrow> go_error + string" where
  "safe_join absolute base rel0 =
     (let rel = trim_space rel0 in
      if rel = [] then Inl (new_error ''path is required'')
      else if is_abs rel then Inl (new_error ''absolute paths are not allowed'')
      else case absolute base of
        Inl e \<Rightarrow> Inl e
      | Inr abs_base \<Rightarrow>
          (let candidate = clean_path (join_path abs_base rel) in
           case rel_path abs_base candidate of
             None \<Rightarrow> Inl (new_error (''Rel: can't make '' @ candidate @ '' relative to '' @ abs_base))
           | Some rel2 \<Rightarrow>
               (if has_prefix rel2 ''..''
                then Inl (new_error (''path '' @ quote rel @ '' escapes work directory''))
                else Inr candidate)))"

definition truncate_note :: string where "truncate_note = [nl, nl] @ ''[... truncated]''"

definition truncate_text :: "string \<Rightarrow> nat \<Rightarrow> string" where
  "truncate_text s limit =
     (if length s \<le> limit then s
      else if limit \<le> length truncate_note then take limit s
      else take (limit - length truncate_note) s @ truncate_note)"

section \<open>The blocklist\<close>

definition default_blocklist :: "string list" where
  "default_blocklist =
     [''.env'', ''.env.*'', ''.envrc'', ''.npmrc'', ''.netrc'', ''.pgpass'',
      ''id_rsa'', ''id_rsa.*'', ''id_ed25519'', ''id_ed25519.*'', ''id_dsa'', ''id_dsa.*'',
      ''id_ecdsa'', ''id_ecdsa.*'', ''*.pem'', ''*.key'', ''*.p12'', ''*.pfx'', ''*.jks'',
      ''credentials'', ''credentials.json'', ''service-account*.json'', ''client-secret*.json'',
      ''*.kubeconfig'', ''*_secret*'', ''*_secrets*'', ''*.secret'', ''*.secrets'', ''secret.*'',
      ''secrets.*'', ''secrets'', ''.aws'', ''.gcloud'', ''.azure'']"

definition merge_blocklist :: "string list \<Rightarrow> string list \<Rightarrow> string list" where
  "merge_blocklist b extras = dedup_from [] (filter (\<lambda>p. p \<noteq> []) (map trim_space (b @ extras)))"

definition pattern_blocks :: "string \<Rightarrow> string \<Rightarrow> bool" where
  "pattern_blocks pat clean \<longleftrightarrow> path_match pat clean \<or> path_match (to_lower pat) (to_lower (base_name clean))
     \<or> list_ex (\<lambda>p. path_match (to_lower pat) (to_lower p)) (split_on slash clean)"

definition blocklist_match :: "string list \<Rightarrow> string \<Rightarrow> string option" where
  "blocklist_match b rel =
     (let clean = trim_space rel in
      if clean = [] then None
      else find (\<lambda>pat. pattern_blocks pat clean) (filter (\<lambda>p. p \<noteq> []) (map trim_space b)))"

section \<open>The read ledger\<close>

type_synonym read_ledger = "(string \<times> go_time) list option"

definition record_read :: "string \<Rightarrow> go_time \<Rightarrow> read_ledger \<Rightarrow> read_ledger" where
  "record_read p t l = map_option (AList.update p t) l"

definition stale :: "read_ledger \<Rightarrow> string \<Rightarrow> go_time \<Rightarrow> bool" where
  "stale l p current = (case l of
      None \<Rightarrow> False
    | Some seen \<Rightarrow> (case map_of seen p of None \<Rightarrow> False | Some t \<Rightarrow> t \<noteq> current))"

section \<open>Ignore files\<close>

record ignore_rule =
  ir_re :: rx
  ir_negate :: bool
  ir_dir_only :: bool
  ir_base_only :: bool

text \<open>\<open>globToRegexp\<close> with \<open>regexp.Compile\<close> in one: the tree of the pattern it writes. A byte that is not
  special becomes the rune of its number, as \<open>string(c)\<close> makes of it. \<open>cls\<close> compiles the text of a
  character class (\<open>None\<close> when it is invalid).\<close>

function glob_to_rx :: "(string \<Rightarrow> rx option) \<Rightarrow> string \<Rightarrow> rx option" where
  "glob_to_rx cls [] = Some Eps"
| "glob_to_rx cls (c # g) =
     (if c = CHR ''*'' then
        (if has_prefix (c # g) ''**/''
         then map_option (Seq (Star (Seq (Star (NoneOf [(47, 47)])) (Lit 47)))) (glob_to_rx cls (drop 2 g))
         else if g = ''*'' then Some (Star Any)
         else map_option (Seq (Star (NoneOf [(47, 47)]))) (glob_to_rx cls g))
      else if c = CHR ''?'' then map_option (Seq (NoneOf [(47, 47)])) (glob_to_rx cls g)
      else if c = CHR ''['' then
        (case index_of g '']'' of
           None \<Rightarrow> map_option (Seq (Lit 91)) (glob_to_rx cls g)
         | Some stop \<Rightarrow>
             (let class = take stop g;
                  class = (if has_prefix class ''!'' then CHR ''^'' # tl class else class)
              in case (cls class, glob_to_rx cls (drop (stop + 1) g)) of
                   (Some r, Some r') \<Rightarrow> Some (Seq r r')
                 | _ \<Rightarrow> None))
      else map_option (Seq (Lit (code_of c))) (glob_to_rx cls g))"
  by pat_completeness auto
termination
  by (relation "measure (\<lambda>(cls, g). length g)") auto

definition parse_ignore_pattern :: "(string \<Rightarrow> rx option) \<Rightarrow> string \<Rightarrow> ignore_rule option" where
  "parse_ignore_pattern cls line0 =
     (let line = trim_right_set [CHR '' '', tab, cr] line0 in
      if line = [] \<or> has_prefix line ''#'' then None
      else
        (let neg = has_prefix line ''!'';
             line = (if neg then tl line else line);
             dir = has_suffix line ''/'';
             line = (if dir then trim_suffix line ''/'' else line);
             anchored = contains line ''/'';
             line = trim_prefix line ''/''
         in if line = [] then None
            else case glob_to_rx cls line of
              None \<Rightarrow> None
            | Some r \<Rightarrow> Some \<lparr>ir_re = Seq Begin (Seq r End), ir_negate = neg, ir_dir_only = dir,
                ir_base_only = (\<not> anchored)\<rparr>))"

definition parse_ignore_file :: "(string \<Rightarrow> rx option) \<Rightarrow> string \<Rightarrow> ignore_rule list" where
  "parse_ignore_file cls content = List.map_filter (parse_ignore_pattern cls) (split_on nl content)"

definition rule_matches :: "ignore_rule \<Rightarrow> string \<Rightarrow> bool" where
  "rule_matches r sub = rx_match (ir_re r) (if ir_base_only r then base_name sub else sub)"

text \<open>The proper ancestors of a path, the root (\<open>""\<close>) first.\<close>

definition ancestors_of :: "string \<Rightarrow> string list" where
  "ancestors_of rel = (let parts = split_on slash rel
     in map (\<lambda>i. join [slash] (take i parts)) [1..<length parts])"

definition rule_scopes :: "string \<Rightarrow> string list" where
  "rule_scopes rel = [] # ancestors_of rel"

text \<open>A matcher is the content of the \<open>.gitignore\<close> of each directory that has a readable one.\<close>

type_synonym ignore_files = "string \<Rightarrow> string option"

definition scope_rules :: "(string \<Rightarrow> rx option) \<Rightarrow> ignore_files \<Rightarrow> string \<Rightarrow> ignore_rule list" where
  "scope_rules cls files scope =
     (case files scope of None \<Rightarrow> [] | Some content \<Rightarrow> parse_ignore_file cls content)"

definition path_ignored :: "(string \<Rightarrow> rx option) \<Rightarrow> ignore_files \<Rightarrow> string \<Rightarrow> bool \<Rightarrow> bool" where
  "path_ignored cls files rel is_dir =
     fold (\<lambda>scope ign.
         (let sub = (if scope = [] then rel else trim_prefix rel (scope @ [slash])) in
          fold (\<lambda>r ign. if (ir_dir_only r \<and> \<not> is_dir) \<or> \<not> rule_matches r sub then ign
                       else \<not> ir_negate r)
            (scope_rules cls files scope) ign))
       (rule_scopes rel) False"

definition trim_slashes :: "string \<Rightarrow> string" where
  "trim_slashes p = trim_right_set [slash] (dropWhile (\<lambda>c. c = slash) p)"

definition ignored_path :: "(string \<Rightarrow> rx option) \<Rightarrow> ignore_files option \<Rightarrow> string \<Rightarrow> bool \<Rightarrow> bool" where
  "ignored_path cls matcher rel0 is_dir =
     (case matcher of
        None \<Rightarrow> False
      | Some files \<Rightarrow>
          (let rel = trim_slashes (clean_path rel0) in
           if rel = [] \<or> rel = ''.'' then False
           else list_ex (\<lambda>a. path_ignored cls files a True) (ancestors_of rel)
                \<or> path_ignored cls files rel is_dir))"

section \<open>Elements of clean paths\<close>

definition good_element :: "string \<Rightarrow> bool" where
  "good_element c \<longleftrightarrow> c \<noteq> [] \<and> c \<noteq> ''.'' \<and> slash \<notin> set c"

lemma elements_good: "c \<in> set (elements p) \<Longrightarrow> good_element c"
  by (auto simp: elements_def good_element_def dest: split_on_no_sep)

lemma filter_good: "\<forall>c \<in> set cs. good_element c \<Longrightarrow> filter (\<lambda>c. c \<noteq> [] \<and> c \<noteq> ''.'') cs = cs"
  by (induction cs) (auto simp: good_element_def)

lemma elements_path_of:
  assumes "\<forall>c \<in> set cs. good_element c"
  shows "elements (path_of True cs) = cs" and "is_abs (path_of True cs)"
proof -
  have s: "\<forall>x \<in> set cs. slash \<notin> set x" using assms by (auto simp: good_element_def)
  show "elements (path_of True cs) = cs"
  proof (cases "cs = []")
    case True
    then show ?thesis by (simp add: elements_def path_of_def)
  next
    case False
    then have "split_on slash (slash # join [slash] cs) = [] # cs" by (simp add: split_on_join s)
    then show ?thesis using filter_good [OF assms] by (simp add: elements_def path_of_def)
  qed
  show "is_abs (path_of True cs)" by (simp add: is_abs_def path_of_def)
qed

lemma elements_append: "elements (a @ [slash] @ b) = elements a @ elements b"
  by (simp add: elements_def split_on_append)

lemma push_element_simps:
  "c \<noteq> ''..'' \<Longrightarrow> push_element rooted c st = c # st"
  "t \<noteq> ''..'' \<Longrightarrow> push_element rooted ''..'' (t # ts) = ts"
  "push_element True ''..'' [] = []"
  by (simp_all add: push_element_def)

text \<open>In a rooted path the stack is some of its old elements under some of the new ones.\<close>

lemma fold_push_rooted:
  assumes "''..'' \<notin> set st"
  shows "\<exists>k ys. fold (push_element True) cs st = rev ys @ drop k st \<and> set ys \<subseteq> set cs - {''..''}"
  using assms
proof (induction cs rule: rev_induct)
  case Nil
  show ?case by (intro exI [of _ 0] exI [of _ "[]"]) simp
next
  case (snoc c cs)
  then obtain k ys where k: "fold (push_element True) cs st = rev ys @ drop k st"
    and ys: "set ys \<subseteq> set cs - {''..''}" by blast
  show ?case
  proof (cases "c = ''..''")
    case False
    then show ?thesis using k ys
      by (intro exI [of _ k] exI [of _ "ys @ [c]"]) (auto simp: push_element_simps)
  next
    case True
    show ?thesis
    proof (cases ys rule: rev_cases)
      case Nil
      have "\<forall>t \<in> set (drop k st). t \<noteq> ''..''" using snoc.prems by (auto dest: in_set_dropD)
      then have "push_element True c (drop k st) = drop (Suc k) st"
        using True drop_Suc [of k st] tl_drop [of k st]
        by (cases "drop k st") (auto simp: push_element_simps)
      then show ?thesis using k Nil by (intro exI [of _ "Suc k"] exI [of _ "[]"]) simp
    next
      case (snoc zs z)
      then have "z \<noteq> ''..''" using ys by auto
      then show ?thesis using k ys snoc True
        by (intro exI [of _ k] exI [of _ zs]) (auto simp: push_element_simps)
    qed
  qed
qed

lemma reduced_rooted:
  "\<exists>k ys. reduced True (es @ rs) = take k (reduced True es) @ ys \<and> set ys \<subseteq> set rs - {''..''}"
  "''..'' \<notin> set (reduced True es)" "set (reduced True es) \<subseteq> set es"
proof -
  obtain ys where r: "fold (push_element True) es [] = rev ys" "set ys \<subseteq> set es - {''..''}"
    using fold_push_rooted [of "[]" es] by auto
  then show n: "''..'' \<notin> set (reduced True es)" and "set (reduced True es) \<subseteq> set es"
    by (auto simp: reduced_def)
  have "''..'' \<notin> set (fold (push_element True) es [])" using r by auto
  from fold_push_rooted [OF this, of rs] obtain k zs where
    k: "fold (push_element True) (es @ rs) [] = rev zs @ drop k (rev ys)" "set zs \<subseteq> set rs - {''..''}"
    using r by auto
  have "reduced True (es @ rs) = take (length ys - k) (reduced True es) @ zs"
    using k(1) r(1) by (simp add: reduced_def rev_drop)
  then show "\<exists>k ys. reduced True (es @ rs) = take k (reduced True es) @ ys \<and> set ys \<subseteq> set rs - {''..''}"
    using k(2) by blast
qed

section \<open>Joining stays inside\<close>

lemma rooted_elements:
  assumes "is_abs p"
  shows "elements (clean_path p) = reduced True (elements p)" and "is_abs (clean_path p)"
proof -
  have "\<forall>c \<in> set (reduced True (elements p)). good_element c"
    using reduced_rooted(3) [of "elements p"] elements_good by blast
  from elements_path_of [OF this] assms
  show "elements (clean_path p) = reduced True (elements p)" and "is_abs (clean_path p)"
    by (simp_all add: clean_path_def)
qed

lemma reduced_id: "''..'' \<notin> set cs \<Longrightarrow> reduced rooted cs = cs"
proof -
  have "''..'' \<notin> set cs \<Longrightarrow> fold (push_element rooted) cs st = rev cs @ st" for st
    by (induction cs arbitrary: st) (auto simp: push_element_simps)
  then show "''..'' \<notin> set cs \<Longrightarrow> reduced rooted cs = cs" by (simp add: reduced_def)
qed

lemma clean_rooted_idem: "is_abs p \<Longrightarrow> clean_path (clean_path p) = clean_path p"
  unfolding clean_path_def [of "clean_path p"]
  using rooted_elements [of p] reduced_id [OF reduced_rooted(2)] by (simp add: clean_path_def)

lemma strip_common_append: "strip_common xs ys = (bs, ts) \<Longrightarrow> \<exists>zs. xs = zs @ bs \<and> ys = zs @ ts"
proof (induction xs ys rule: strip_common.induct)
  case (1 x xs y ys)
  show ?case
  proof (cases "x = y")
    case True
    then obtain zs where "xs = zs @ bs" "ys = zs @ ts" using 1 by auto
    then show ?thesis using True by (intro exI [of _ "x # zs"]) simp
  next
    case False
    then show ?thesis using "1.prems" by (intro exI [of _ "[]"]) simp
  qed
qed (auto intro: exI [of _ "[]"])

lemma dotdot_prefix: "has_prefix (path_of False (replicate (Suc k) ''..'' @ ts)) ''..''"
proof -
  have "has_prefix (join [slash] (''..'' # cs)) ''..''" for cs
    by (cases cs) (simp_all add: has_prefix_def)
  then have "has_prefix (join [slash] (replicate (Suc k) ''..'' @ ts)) ''..''" by simp
  then show ?thesis by (auto simp: path_of_def Let_def has_prefix_def)
qed

text \<open>A successful join is a path below the base; what it adds to the base are elements of the
  given path.\<close>

lemma safe_join_below:
  assumes "safe_join absolute base rel = Inr p" and "absolute base = Inr b" and "is_abs b" and "clean_path b = b"
  shows "is_abs p \<and> clean_path p = p
    \<and> (\<exists>cs. elements p = elements b @ cs \<and> set cs \<subseteq> set (elements (trim_space rel)) - {''..''})"
proof -
  let ?r = "trim_space rel"
  define q where "q = b @ [slash] @ ?r"
  have q: "is_abs q" using assms(3) by (simp add: q_def is_abs_def)
  have b: "b \<noteq> []" using assms(3) by (simp add: is_abs_def)
  have r: "?r \<noteq> []" using assms(1) by (auto simp: safe_join_def Let_def split: if_splits)
  have j: "clean_path (join_path b ?r) = clean_path q"
    using b r clean_rooted_idem [OF q] by (simp add: join_path_def q_def)
  then have p: "p = clean_path q" using assms(1,2) r
    by (auto simp: safe_join_def Let_def split: if_splits option.splits)
  obtain rel2 where rel2: "rel_path b p = Some rel2" "\<not> has_prefix rel2 ''..''"
    using assms(1,2) r j p by (auto simp: safe_join_def Let_def split: if_splits option.splits)
  have pa: "is_abs p" "clean_path p = p" "elements p = reduced True (elements b @ elements ?r)"
    using rooted_elements [OF q] clean_rooted_idem [OF q] p elements_append [of b ?r, folded q_def] by simp_all
  have eb: "reduced True (elements b) = elements b" using rooted_elements(1) [OF assms(3)] assms(4) by simp
  obtain k ys where k: "elements p = take k (elements b) @ ys" "set ys \<subseteq> set (elements ?r) - {''..''}"
    using reduced_rooted(1) [of "elements b" "elements ?r"] pa(3) eb by auto
  have "\<exists>cs. elements p = elements b @ cs"
  proof (cases "p = b")
    case False
    obtain bs ts where s: "strip_common (elements b) (elements p) = (bs, ts)" by fastforce
    then have "rel2 = path_of False (replicate (length bs) ''..'' @ ts)"
      using rel2(1) False assms(3,4) pa by (auto simp: rel_path_def Let_def split: if_splits)
    then have "bs = []" using rel2(2) dotdot_prefix by (cases bs) auto
    then show ?thesis using strip_common_append [OF s] by auto
  qed simp
  then obtain cs where cs: "elements p = elements b @ cs" by blast
  have "cs = drop (length (elements b)) (take k (elements b) @ ys)" using cs k(1) by simp
  also have "\<dots> = drop (length (elements b) - min (length (elements b)) k) ys" by simp
  finally have "set cs \<subseteq> set ys" by (metis set_drop_subset)
  then show ?thesis using pa cs k(2) by blast
qed

lemma blocklist_passes:
  assumes "blocklist_match bl rel = None" and "trim_space rel \<noteq> []" and "c \<in> set (elements (trim_space rel))"
    and "pat \<in> set bl" and "trim_space pat \<noteq> []"
  shows "\<not> path_match (to_lower (trim_space pat)) (to_lower c)"
proof -
  have "c \<in> set (split_on slash (trim_space rel))" using assms(3) by (simp add: elements_def)
  moreover have "\<not> pattern_blocks (trim_space pat) (trim_space rel)"
    using assms(1,2,4,5) by (auto simp: blocklist_match_def Let_def find_None_iff)
  ultimately show ?thesis by (auto simp: pattern_blocks_def list_ex_iff)
qed

section \<open>Properties\<close>

text \<open>C36. A path that the blocklist lets pass and that joins the work directory is inside it, and no
  element below the work directory, the file's own name and every directory on the way to it, matches
  a blocked pattern, in whatever case: checking the pattern on the path as given covers the path that
  is opened, \<open>..\<close> elements and redundant separators included.\<close>

theorem checked_path_is_safe:
  assumes "safe_join absolute base rel = Inr p" and "blocklist_match bl rel = None"
    and "absolute base = Inr b" and "is_abs b" and "clean_path b = b"
  shows "is_abs p \<and> clean_path p = p \<and> (\<exists>cs. elements p = elements b @ cs \<and> ''..'' \<notin> set cs
    \<and> (\<forall>c \<in> set cs. \<forall>pat \<in> set bl. trim_space pat \<noteq> []
         \<longrightarrow> \<not> path_match (to_lower (trim_space pat)) (to_lower c)))"
proof -
  obtain cs where cs: "is_abs p" "clean_path p = p" "elements p = elements b @ cs"
      "set cs \<subseteq> set (elements (trim_space rel)) - {''..''}"
    using safe_join_below [OF assms(1,3-5)] by blast
  have "trim_space rel \<noteq> []" using assms(1) by (auto simp: safe_join_def Let_def split: if_splits)
  then show ?thesis using cs blocklist_passes [OF assms(2)]
    by (intro conjI exI [of _ cs]) blast+
qed

theorem checked_path_is_safe_witness:
  "safe_join (\<lambda>_. Inr ''/w'') ''.'' '' a/../b//x.go '' = Inr ''/w/b/x.go''
   \<and> ''..'' \<notin> {''b'', ''x.go''} \<and> \<not> path_match ''.env'' ''x.go''
   \<and> blocklist_match default_blocklist ''a/../b/.ENV'' = Some ''.env''
   \<and> (\<exists>e. safe_join (\<lambda>_. Inr ''/w'') ''.'' ''b/../../etc'' = Inl e)"
proof -
  let ?j = "safe_join (\<lambda>_. Inr ''/w'') ''.'' '' a/../b//x.go ''"
  have j: "?j = Inr ''/w/b/x.go''" by code_simp
  have n: "blocklist_match default_blocklist '' a/../b//x.go '' = None" by code_simp
  have b: "is_abs ''/w''" "clean_path ''/w'' = ''/w''" by code_simp+
  have e: "elements ''/w/b/x.go'' = elements ''/w'' @ [''b'', ''x.go'']" by code_simp
  have t: "trim_space ''.env'' = ''.env''" "to_lower ''.env'' = ''.env''" "to_lower ''x.go'' = ''x.go''"
    by code_simp+
  have "\<not> path_match (to_lower (trim_space ''.env'')) (to_lower ''x.go'')" and "''..'' \<notin> {''b'', ''x.go''}"
    using checked_path_is_safe [OF j n refl b] e by (auto simp: default_blocklist_def t(1))
  moreover have "blocklist_match default_blocklist ''a/../b/.ENV'' = Some ''.env''" by code_simp
  moreover have "case safe_join (\<lambda>_. Inr ''/w'') ''.'' ''b/../../etc'' of Inl _ \<Rightarrow> True | Inr _ \<Rightarrow> False"
    by code_simp
  then have "\<exists>e. safe_join (\<lambda>_. Inr ''/w'') ''.'' ''b/../../etc'' = Inl e" by (auto split: sum.splits)
  ultimately show ?thesis using j by (simp add: t)
qed

end
