(* ===== verification/Utf8.thy ===== *)
theory Utf8
  imports Prelude
begin

text \<open>
  Package \<open>unicode/utf8\<close> beyond the decoder of the prelude: valid strings, and how valid strings
  split and concatenate.
\<close>

definition bad_rune :: "nat \<times> string \<Rightarrow> bool" where
  "bad_rune rb \<longleftrightarrow> fst rb = rune_error \<and> length (snd rb) = 1"

definition valid_string :: "string \<Rightarrow> bool" where
  "valid_string s \<longleftrightarrow> list_all (\<lambda>rb. \<not> bad_rune rb) (runes s)"

definition ascii_char :: "char \<Rightarrow> bool" where
  "ascii_char c \<longleftrightarrow> code_of c < 128"

lemma short_list_cases:
  obtains "xs = []" | x where "xs = [x]" | x y where "xs = [x, y]" | x y z zs where "xs = x # y # z # zs"
  by (metis list.exhaust)

lemma byte_ranges:
  fixes b :: nat
  obtains "b < 128" | "194 \<le> b" "b \<le> 223" | "224 \<le> b" "b \<le> 239" | "240 \<le> b" "b \<le> 244"
  | "\<not> b < 128" "\<not> (194 \<le> b \<and> b \<le> 223)" "\<not> (224 \<le> b \<and> b \<le> 239)" "\<not> (240 \<le> b \<and> b \<le> 244)"
  by blast

lemma decode_rune_append:
  assumes "decode_rune (b # bs) = (r, n)" and "r \<noteq> rune_error \<or> n \<noteq> 1"
  shows "decode_rune (b # bs @ cs) = (r, n)"
  by (cases b rule: byte_ranges; cases bs rule: short_list_cases; use assms in \<open>simp split: if_splits\<close>)

lemma decode_rune_prefix:
  assumes "decode_rune (b # bs) = (r, n)" and "r \<noteq> rune_error \<or> n \<noteq> 1"
  shows "decode_rune (take n (b # bs)) = (r, n)"
  by (cases b rule: byte_ranges; cases bs rule: short_list_cases; use assms in \<open>auto split: if_splits\<close>)

lemma decode_rune_multi:
  assumes "decode_rune (b # bs) = (r, n)" and "r \<noteq> rune_error \<or> n \<noteq> 1" and "128 \<le> b" and "x \<in> set (take n (b # bs))"
  shows "128 \<le> x"
  using assms by (cases bs rule: short_list_cases) (auto simp: cont_byte_def split: if_splits)

lemma decode_rune_take: "decode_rune (take 4 bs) = decode_rune bs"
proof (cases bs)
  case (Cons b cs)
  then show ?thesis by (cases cs rule: short_list_cases) simp_all
qed simp

lemma first_rune_append:
  assumes "first_rune (c # s) = (r, n)" and "r \<noteq> rune_error \<or> n \<noteq> 1"
  shows "first_rune (c # s @ t) = (r, n)"
proof -
  have "decode_rune (map code_of (c # s)) = (r, n)"
    using assms(1) decode_rune_take [of "map code_of (c # s)"] unfolding first_rune_def take_map by simp
  then have "decode_rune (map code_of (c # s @ t)) = (r, n)"
    using decode_rune_append [of "code_of c" "map code_of s" r n "map code_of t"] assms(2) by simp
  then show ?thesis
    using decode_rune_take [of "map code_of (c # s @ t)"] unfolding first_rune_def take_map by simp
qed

text \<open>The bytes of a well-formed rune outside ASCII are all outside ASCII.\<close>

lemma first_rune_ascii:
  assumes "first_rune (c # s) = (r, n)" and "r \<noteq> rune_error \<or> n \<noteq> 1" and "x \<in> set (take n (c # s))" and "ascii_char x"
  shows "n = 1 \<and> x = c"
proof (cases "128 \<le> code_of c")
  case True
  have "decode_rune (map code_of (c # s)) = (r, n)"
    using assms(1) decode_rune_take [of "map code_of (c # s)"] unfolding first_rune_def take_map by simp
  moreover have "code_of x \<in> set (take n (map code_of (c # s)))"
    using assms(3) by (auto simp: take_map simp del: list.map)
  ultimately have "128 \<le> code_of x"
    using decode_rune_multi [of "code_of c" "map code_of s" r n "code_of x"] assms(2) True by simp
  then show ?thesis using assms(4) by (simp add: ascii_char_def)
next
  case False
  then have "n = 1" using assms(1) by (simp add: first_rune_def)
  then show ?thesis using assms(3) by simp
qed

lemma valid_Nil [simp]: "valid_string []"
  by (simp add: valid_string_def)

lemma valid_Cons:
  assumes "first_rune (c # s) = (r, n)"
  shows "valid_string (c # s) \<longleftrightarrow> (r \<noteq> rune_error \<or> n \<noteq> 1) \<and> valid_string (drop n (c # s))"
proof -
  have "n \<le> length (c # s)" using first_rune_size [of "c # s"] assms by simp
  then show ?thesis using assms by (auto simp: valid_string_def bad_rune_def runes.simps(2))
qed

lemma valid_append: "valid_string s \<Longrightarrow> valid_string (s @ t) \<longleftrightarrow> valid_string t"
proof (induction s rule: runes.induct)
  case (2 c s)
  obtain r n where f: "first_rune (c # s) = (r, n)" by fastforce
  note v = valid_Cons [OF f]
  then have ok: "r \<noteq> rune_error \<or> n \<noteq> 1" "valid_string (drop n (c # s))" using "2.prems" by simp_all
  have n: "n \<le> length (c # s)" using first_rune_size [of "c # s"] f by simp
  have "valid_string (drop n (c # s) @ t) = valid_string t" using "2.IH" [OF f [symmetric] refl ok(2)] .
  moreover have "drop n (c # s) @ t = drop n (c # s @ t)" using n drop_append [of n "c # s" t] by simp
  ultimately show ?case using valid_Cons [OF first_rune_append [OF f ok(1)], of t] ok(1) by simp
qed simp

lemma valid_first_rune:
  assumes "first_rune (c # s) = (r, n)" and "r \<noteq> rune_error \<or> n \<noteq> 1"
  shows "valid_string (take n (c # s))"
proof -
  have n: "1 \<le> n" "n \<le> length (c # s)" using first_rune_size [of "c # s"] assms(1) by simp_all
  then obtain k where k: "n = Suc k" by (cases n) auto
  have "decode_rune (map code_of (c # s)) = (r, n)"
    using assms(1) decode_rune_take [of "map code_of (c # s)"] unfolding first_rune_def take_map by simp
  then have "decode_rune (map code_of (take n (c # s))) = (r, n)"
    using decode_rune_prefix [of "code_of c" "map code_of s" r n] assms(2) by (simp add: take_map [symmetric])
  then have "first_rune (c # take k s) = (r, n)"
    using decode_rune_take [of "map code_of (c # take k s)"] unfolding first_rune_def take_map by (simp add: k)
  then show ?thesis using valid_Cons [of c "take k s" r n] assms(2) n by (simp add: k)
qed

text \<open>A valid string may be cut after any ASCII byte.\<close>

lemma valid_cut_after_ascii:
  assumes "valid_string (a @ x # b)" and "ascii_char x"
  shows "valid_string (a @ [x])"
  using assms(1)
proof (induction a rule: length_induct)
  case (1 a)
  obtain c s where cs: "a @ x # b = c # s" by (cases a) auto
  obtain r n where f: "first_rune (c # s) = (r, n)" by fastforce
  have ok: "r \<noteq> rune_error \<or> n \<noteq> 1" "valid_string (drop n (c # s))"
    using valid_Cons [OF f] "1.prems" cs by simp_all
  have n: "1 \<le> n" using first_rune_size [of "c # s"] f by simp
  show ?case
  proof (cases "n \<le> length a")
    case True
    then have d: "drop n (c # s) = drop n a @ x # b" using cs [symmetric] by simp
    have "length (drop n a) < length a" using True n by simp
    then have "valid_string (drop n a @ [x])" using "1.IH" ok(2) unfolding d by blast
    moreover have "take n a = take n (c # s)" using cs [symmetric] True by simp
    then have "valid_string (take n a)" using valid_first_rune [OF f ok(1)] by simp
    ultimately have "valid_string (take n a @ drop n a @ [x])" by (simp only: valid_append)
    then show ?thesis by (simp only: append_take_drop_id append_assoc [symmetric])
  next
    case False
    then have "x \<in> set (take n (c # s))" using cs [symmetric] by (simp add: take_Cons')
    then have "n = 1 \<and> x = c" using first_rune_ascii [OF f ok(1)] assms(2) by blast
    then have "a = []" using False by (cases a) simp_all
    then show ?thesis using assms(2) by (simp add: valid_Cons first_rune_def ascii_char_def rune_error_def)
  qed
qed

end
