(* ===== verification/Edit_Match.thy ===== *)
theory Edit_Match
  imports Go_Error Regexp Utf8
begin

text \<open>
  Model of \<open>src/tools/fs/match.go\<close>: the repair ladder of \<open>edit_file\<close>. Offsets are byte offsets into the
  content, a span is a half-open range of them. Each rung of the ladder is a finder of spans with a
  renderer of the replacement; the locale \<open>span_finder\<close> states what the splicing relies on (spans in
  order, inside the content, not empty where needed) and is interpreted by every rung.
\<close>

section \<open>Spans\<close>

type_synonym span = "nat \<times> nat"

definition slice :: "'a list \<Rightarrow> nat \<Rightarrow> nat \<Rightarrow> 'a list" where
  "slice s a b = take (b - a) (drop a s)"

fun replace_from :: "string \<Rightarrow> nat \<Rightarrow> span list \<Rightarrow> (span \<Rightarrow> string) \<Rightarrow> string" where
  "replace_from s prev [] render = drop prev s"
| "replace_from s prev (sp # sps) render =
     slice s prev (fst sp) @ render sp @ replace_from s (snd sp) sps render"

text \<open>The updated content and where the first replacement begins in it.\<close>

definition replace_spans :: "string \<Rightarrow> span list \<Rightarrow> (span \<Rightarrow> string) \<Rightarrow> string \<times> nat" where
  "replace_spans s sps render =
     (replace_from s 0 sps render, case sps of [] \<Rightarrow> 0 | sp # _ \<Rightarrow> length (slice s 0 (fst sp)))"

definition replaced_line_range :: "string \<Rightarrow> nat \<Rightarrow> nat \<Rightarrow> nat \<times> nat" where
  "replaced_line_range updated start n =
     (let first = 1 + count_char nl (take start updated);
          stop = min (start + n) (length updated)
      in (first, first + count_char nl (slice updated start stop)))"

section \<open>Finding spans\<close>

function spans_from :: "string \<Rightarrow> nat \<Rightarrow> string \<Rightarrow> span list" where
  "spans_from old off s =
     (if old = [] then []
      else case index_of s old of
        None \<Rightarrow> []
      | Some i \<Rightarrow> (off + i, off + i + length old)
          # spans_from old (off + i + length old) (drop (i + length old) s))"
  by pat_completeness auto
termination
proof (relation "measure (\<lambda>(old, off, s). length s)")
  fix old s :: string and off i :: nat
  assume "old \<noteq> []" and "index_of s old = Some i"
  then have "i + length old \<le> length s" and "old \<noteq> []" by (simp_all add: index_of_bound)
  then show "((old, off + i + length old, drop (i + length old) s), (old, off, s))
      \<in> measure (\<lambda>(old, off, s). length s)" by (cases old) auto
qed simp

declare spans_from.simps [simp del]

definition exact_spans :: "string \<Rightarrow> string \<Rightarrow> span list" where
  "exact_spans content old = spans_from old 0 content"

text \<open>The lines of the content, each with the offset it starts at.\<close>

fun line_infos :: "nat \<Rightarrow> string list \<Rightarrow> (nat \<times> string) list" where
  "line_infos off [] = []"
| "line_infos off (l # ls) = (off, l) # line_infos (off + length l + 1) ls"

definition split_line_infos :: "string \<Rightarrow> (nat \<times> string) list" where
  "split_line_infos content = line_infos 0 (split_on nl content)"

definition old_needle_lines :: "string \<Rightarrow> string list \<times> bool" where
  "old_needle_lines old =
     (let ls = split_on nl old in
      if length ls > 1 \<and> last ls = [] then (butlast ls, True) else (ls, False))"

text \<open>Windows of \<open>n\<close> lines whose texts are accepted, left to right, not overlapping.\<close>

function windows :: "nat \<Rightarrow> bool \<Rightarrow> (string list \<Rightarrow> bool) \<Rightarrow> string \<Rightarrow> (nat \<times> string) list \<Rightarrow> span list" where
  "windows n trailing accept content ls =
     (if n = 0 \<or> length ls < n then []
      else if accept (map snd (take n ls)) then
        (let (off, l) = ls ! (n - 1); stop = off + length l
         in (fst (hd ls), if trailing \<and> stop < length content \<and> content ! stop = nl then stop + 1 else stop)
            # windows n trailing accept content (drop n ls))
      else windows n trailing accept content (tl ls))"
  by pat_completeness auto
termination
  by (relation "measure (\<lambda>(n, t, a, c, ls). length ls)") auto

declare windows.simps [simp del]

definition blanks :: "char list" where "blanks = [CHR '' '', tab]"

definition line_eq_rstrip :: "string \<Rightarrow> string \<Rightarrow> bool" where
  "line_eq_rstrip a b \<longleftrightarrow> trim_right_set blanks a = trim_right_set blanks b"

definition line_eq_trim :: "string \<Rightarrow> string \<Rightarrow> bool" where
  "line_eq_trim a b \<longleftrightarrow> trim_space a = trim_space b"

definition line_window_spans :: "string \<Rightarrow> string \<Rightarrow> (string \<Rightarrow> string \<Rightarrow> bool) \<Rightarrow> span list" where
  "line_window_spans content old eq =
     (let (ols, trailing) = old_needle_lines old
      in windows (length ols) trailing (\<lambda>ls. list_all2 eq ls ols) content (split_line_infos content))"

definition block_anchor_spans :: "string \<Rightarrow> string \<Rightarrow> span list" where
  "block_anchor_spans content old =
     (let (ols, trailing) = old_needle_lines old in
      if length ols < 3 then []
      else
        (let first = trim_space (hd ols); final = trim_space (last ols) in
         if first = [] \<or> final = [] then []
         else windows (length ols) trailing
                (\<lambda>ls. trim_space (hd ls) = first \<and> trim_space (last ls) = final)
                content (split_line_infos content)))"

section \<open>Folding punctuation\<close>

text \<open>\<open>string(r)\<close> of an invalid byte is the encoding of the replacement rune.\<close>

definition fold_rune_ascii :: "nat \<Rightarrow> string \<Rightarrow> string" where
  "fold_rune_ascii r bs =
     (if 8216 \<le> r \<and> r \<le> 8219 then [squote]
      else if 8220 \<le> r \<and> r \<le> 8223 then [dquote]
      else if (8208 \<le> r \<and> r \<le> 8213) \<or> r = 8722 then ''-''
      else if r = 160 \<or> (8192 \<le> r \<and> r \<le> 8202) \<or> r = 8239 \<or> r = 8287 \<or> r = 12288 then '' ''
      else if r = rune_error then map byte [239, 191, 189]
      else bs)"

text \<open>The folded bytes, each with the start and the end of its rune.\<close>

fun fold_runes :: "nat \<Rightarrow> (nat \<times> string) list \<Rightarrow> (char \<times> nat \<times> nat) list" where
  "fold_runes off [] = []"
| "fold_runes off ((r, bs) # rs) =
     map (\<lambda>c. (c, off, off + length bs)) (fold_rune_ascii r bs) @ fold_runes (off + length bs) rs"

definition fold_ascii_with_map :: "string \<Rightarrow> (char \<times> nat \<times> nat) list" where
  "fold_ascii_with_map s = fold_runes 0 (runes s)"

definition fold_ascii :: "string \<Rightarrow> string" where
  "fold_ascii s = map fst (fold_ascii_with_map s)"

definition line_eq_fold :: "string \<Rightarrow> string \<Rightarrow> bool" where
  "line_eq_fold a b \<longleftrightarrow> fold_ascii (trim_space a) = fold_ascii (trim_space b)"

definition folded_line_spans :: "string \<Rightarrow> nat \<times> string \<Rightarrow> span list" where
  "folded_line_spans needle line =
     (let m = fold_ascii_with_map (snd line)
      in map (\<lambda>(fs, fe). (fst line + fst (snd (m ! fs)), fst line + snd (snd (m ! (fe - 1)))))
           (exact_spans (map fst m) needle))"

definition folded_fragment_spans :: "string \<Rightarrow> string \<Rightarrow> span list" where
  "folded_fragment_spans content old =
     (let needle = fold_ascii old in
      if needle = [] then [] else concat (map (folded_line_spans needle) (split_line_infos content)))"

section \<open>Re-indenting\<close>

definition leading_whitespace :: "string \<Rightarrow> string" where
  "leading_whitespace s = takeWhile (\<lambda>c. c \<in> set blanks) s"

fun indent_pairs :: "string list \<Rightarrow> (string \<times> string) list \<Rightarrow> (string \<times> string) list" where
  "indent_pairs seen [] = []"
| "indent_pairs seen ((ol, ml) # ps) =
     (if trim_space ol = [] \<or> leading_whitespace ol \<in> set seen then indent_pairs seen ps
      else (leading_whitespace ol, leading_whitespace ml)
             # indent_pairs (leading_whitespace ol # seen) ps)"

text \<open>The exchange sort by decreasing length of the old indentation.\<close>

fun exchange :: "string \<times> string \<Rightarrow> (string \<times> string) list \<Rightarrow> (string \<times> string) \<times> (string \<times> string) list" where
  "exchange x [] = (x, [])"
| "exchange x (y # ys) =
     (if length (fst y) > length (fst x)
      then (let (m, zs) = exchange y ys in (m, x # zs))
      else (let (m, zs) = exchange x ys in (m, y # zs)))"

lemma exchange_length: "exchange x ys = (m, zs) \<Longrightarrow> length zs = length ys"
  by (induction ys arbitrary: x m zs) (auto simp: Let_def split: prod.splits if_splits)

function longest_first :: "(string \<times> string) list \<Rightarrow> (string \<times> string) list" where
  "longest_first [] = []"
| "longest_first (x # xs) = (let (m, zs) = exchange x xs in m # longest_first zs)"
  by pat_completeness auto
termination
  by (relation "measure length") (auto dest: exchange_length [OF sym])

definition reindent_line :: "(string \<times> string) list \<Rightarrow> string \<Rightarrow> string" where
  "reindent_line pairs line =
     (if line = [] then []
      else
        (let ws = leading_whitespace line in
         case find (\<lambda>(from, to). if from = [] then ws = [] else has_prefix ws from) pairs of
           None \<Rightarrow> line
         | Some (from, to) \<Rightarrow> to @ drop (length from) line))"

definition reindent_renderer :: "string \<Rightarrow> string \<Rightarrow> string \<Rightarrow> span \<Rightarrow> string" where
  "reindent_renderer content old new sp =
     (let matched = split_on nl (slice content (fst sp) (snd sp));
          pairs = longest_first (indent_pairs [] (zip (fst (old_needle_lines old)) matched))
      in if list_all (\<lambda>(from, to). from = to) pairs then new
         else join [nl] (map (reindent_line pairs) (split_on nl new)))"

section \<open>The ladder\<close>

record edit_outcome =
  eo_updated :: nat
  eo_strategy :: string
  eo_first_line :: nat
  eo_last_line :: nat
  eo_unescaped :: bool

datatype ladder_error = MatchAmbiguous nat string | MatchNotFound string

definition ellipsis :: string where "ellipsis = map byte [226, 128, 166]"

fun ladder_error_text :: "ladder_error \<Rightarrow> string" where
  "ladder_error_text (MatchAmbiguous n strategy) =
     ''old_string matches '' @ itoa n @ '' times (via '' @ strategy
       @ '' match); add surrounding context to make it unique or set replace_all=true''"
| "ladder_error_text (MatchNotFound needle) =
     ''old_string not found (tried exact and whitespace/indentation/punctuation-tolerant matching). Searched for ''
       @ quote (if length needle > 120 then take 120 needle @ ellipsis else needle)
       @ ''. Re-read the file with read_file and copy its exact text '' @ map byte [226, 128, 148]
       @ '' check indentation, line endings, and quote/dash characters''"

definition ladder_stages :: "string \<Rightarrow> string \<Rightarrow> string \<Rightarrow> (string \<times> span list \<times> (span \<Rightarrow> string)) list" where
  "ladder_stages content old new =
     [(''exact'', exact_spans content old, \<lambda>_. new),
      (''whitespace-tolerant'', line_window_spans content old line_eq_rstrip, \<lambda>_. new),
      (''indentation-tolerant'', line_window_spans content old line_eq_trim,
        reindent_renderer content old new),
      (if nl \<in> set old
       then (''punctuation-tolerant'', line_window_spans content old line_eq_fold,
              reindent_renderer content old new)
       else (''punctuation-tolerant'', folded_fragment_spans content old, \<lambda>_. new)),
      (''block-anchor'', block_anchor_spans content old, reindent_renderer content old new)]"

definition ladder_once :: "string \<Rightarrow> string \<Rightarrow> string \<Rightarrow> bool \<Rightarrow> ladder_error + (string \<times> edit_outcome)" where
  "ladder_once content old new every =
     (case find (\<lambda>(name, sps, render). sps \<noteq> []) (ladder_stages content old new) of
        None \<Rightarrow> Inl (MatchNotFound old)
      | Some (name, sps, render) \<Rightarrow>
          (if length sps > 1 \<and> \<not> every then Inl (MatchAmbiguous (length sps) name)
           else
             (let (updated, start) = replace_spans content sps render;
                  (first, final) = replaced_line_range updated start (length (render (hd sps)))
              in Inr (updated, \<lparr>eo_updated = length sps, eo_strategy = name, eo_first_line = first,
                   eo_last_line = final, eo_unescaped = False\<rparr>))))"

fun unescape :: "string \<Rightarrow> string" where
  "unescape [] = []"
| "unescape [c] = [c]"
| "unescape (c # d # s) =
     (if c = bslash then
        (if d = CHR ''n'' then nl # unescape s else if d = CHR ''t'' then tab # unescape s
         else if d = CHR ''r'' then cr # unescape s else if d = dquote then dquote # unescape s
         else if d = squote then squote # unescape s else c # unescape (d # s))
      else c # unescape (d # s))"

definition repair_over_escaping :: "string \<Rightarrow> string" where
  "repair_over_escaping s = (if bslash \<notin> set s then s else unescape s)"

definition apply_ladder_edit :: "string \<Rightarrow> string \<Rightarrow> string \<Rightarrow> bool \<Rightarrow> ladder_error + (string \<times> edit_outcome)" where
  "apply_ladder_edit content old new every =
     (case ladder_once content old new every of
        Inr r \<Rightarrow> Inr r
      | Inl (MatchAmbiguous n s) \<Rightarrow> Inl (MatchAmbiguous n s)
      | Inl e \<Rightarrow>
          (let u = repair_over_escaping old; v = repair_over_escaping new in
           if u \<noteq> old then
             (case ladder_once content u v every of
                Inr (r, outcome) \<Rightarrow> Inr (r, outcome\<lparr>eo_unescaped := True\<rparr>)
              | Inl (MatchAmbiguous n s) \<Rightarrow> Inl (MatchAmbiguous n s)
              | Inl _ \<Rightarrow> Inl e)
           else Inl e))"

definition lazy_placeholder_re :: rx where
  "lazy_placeholder_re = alt_of
     [seq_of [ilit ''rest of '', opt_rx (ilit ''the ''),
        alt_of [ilit ''code'', ilit ''file'', ilit ''function'', ilit ''method'', ilit ''class'']],
      seq_of [ilit ''remain'', opt_rx (ilit ''s''), ilit '' unchanged''],
      seq_of [ilit ''existing '', alt_of [ilit ''code'', ilit ''implementation'']],
      seq_of [ilit ''unchanged '', alt_of [ilit ''code'', ilit ''lines'']],
      seq_of [ilit ''...'', opt_rx (ilit '' ''),
        alt_of [ilit ''existing'', ilit ''rest'', ilit ''unchanged'', ilit ''omitted'']],
      seq_of [alt_of [ilit ''code'', ilit ''implementation''], ilit '' omitted'']]"

definition contains_lazy_placeholder :: "string \<Rightarrow> bool" where
  "contains_lazy_placeholder s = rx_match lazy_placeholder_re s"

definition edit_snippet :: "string \<Rightarrow> nat \<Rightarrow> nat \<Rightarrow> nat \<Rightarrow> nat \<Rightarrow> nat \<Rightarrow> string" where
  "edit_snippet updated first final ctx max_lines max_bytes =
     (let ls = split_on nl updated;
          lo = first - 1 - ctx;
          hi = min (final + ctx) (length ls);
          hi = (if hi - lo > max_lines then lo + max_lines else hi);
          snippet = join [nl] (slice ls lo hi)
      in if length snippet > max_bytes then take max_bytes snippet @ ellipsis else snippet)"

section \<open>Splicing\<close>

text \<open>Spans in order, not overlapping, inside the content, from offset \<open>lo\<close> on.\<close>

fun wf_spans :: "nat \<Rightarrow> nat \<Rightarrow> span list \<Rightarrow> bool" where
  "wf_spans lo n [] \<longleftrightarrow> lo \<le> n"
| "wf_spans lo n (sp # sps) \<longleftrightarrow> lo \<le> fst sp \<and> fst sp \<le> snd sp \<and> wf_spans (snd sp) n sps"

lemma wf_spans_bound: "wf_spans lo n sps \<Longrightarrow> lo \<le> n"
  by (induction sps arbitrary: lo) (auto dest: order_trans)

lemma wf_spans_weaken: "wf_spans lo n sps \<Longrightarrow> lo' \<le> lo \<Longrightarrow> wf_spans lo' n sps"
  by (cases sps) auto

lemma wf_spans_append: "wf_spans lo m xs \<Longrightarrow> wf_spans m n ys \<Longrightarrow> wf_spans lo n (xs @ ys)"
  by (induction xs arbitrary: lo) (auto intro: wf_spans_weaken)

lemma slice_self [simp]: "slice s a a = []"
  by (simp add: slice_def)

lemma slice_drop: "a \<le> b \<Longrightarrow> slice s a b @ drop b s = drop a s"
  by (simp add: slice_def) (metis append_take_drop_id drop_drop le_add_diff_inverse2)

text \<open>The specification of an edit: pieces of a gap that is kept, a part that is replaced and what it
  is replaced by, and the rest.\<close>

type_synonym piece = "string \<times> string \<times> string"

definition before_edit :: "piece list \<Rightarrow> string \<Rightarrow> string" where
  "before_edit ps rest = concat (map (\<lambda>(gap, old, new). gap @ old) ps) @ rest"

definition after_edit :: "piece list \<Rightarrow> string \<Rightarrow> string" where
  "after_edit ps rest = concat (map (\<lambda>(gap, old, new). gap @ new) ps) @ rest"

lemma replace_from_pieces:
  "wf_spans lo (length s) sps \<Longrightarrow> \<exists>ps rest. drop lo s = before_edit ps rest
     \<and> replace_from s lo sps render = after_edit ps rest
     \<and> map snd ps = map (\<lambda>sp. (slice s (fst sp) (snd sp), render sp)) sps"
proof (induction sps arbitrary: lo)
  case Nil
  then show ?case
    by (intro exI [of _ "[]"] exI [of _ "drop lo s"]) (simp add: before_edit_def after_edit_def)
next
  case (Cons sp sps)
  then have "wf_spans (snd sp) (length s) sps" by simp
  from Cons.IH [OF this] obtain ps rest where ih: "drop (snd sp) s = before_edit ps rest"
      "replace_from s (snd sp) sps render = after_edit ps rest"
      "map snd ps = map (\<lambda>sp. (slice s (fst sp) (snd sp), render sp)) sps" by blast
  let ?p = "(slice s lo (fst sp), slice s (fst sp) (snd sp), render sp)"
  have "drop lo s = slice s lo (fst sp) @ slice s (fst sp) (snd sp) @ drop (snd sp) s"
    using Cons.prems by (simp add: slice_drop)
  then show ?case using ih
    by (intro exI [of _ "?p # ps"] exI [of _ rest]) (simp add: before_edit_def after_edit_def)
qed

text \<open>What a rung of the ladder promises.\<close>

locale span_finder =
  fixes finder :: "string \<Rightarrow> string \<Rightarrow> span list"
    and accepts :: "string \<Rightarrow> string \<Rightarrow> bool"
  assumes ordered: "wf_spans 0 (length content) (finder content old)"
    and accepted: "sp \<in> set (finder content old) \<Longrightarrow> accepts old (slice content (fst sp) (snd sp))"
begin

lemma splice:
  "\<exists>ps rest. content = before_edit ps rest
     \<and> fst (replace_spans content (finder content old) render) = after_edit ps rest
     \<and> length ps = length (finder content old)
     \<and> (\<forall>(gap, found, new) \<in> set ps. accepts old found
          \<and> (\<exists>sp. found = slice content (fst sp) (snd sp) \<and> new = render sp))"
proof -
  obtain ps rest where p: "content = before_edit ps rest"
      "replace_from content 0 (finder content old) render = after_edit ps rest"
      "map snd ps = map (\<lambda>sp. (slice content (fst sp) (snd sp), render sp)) (finder content old)"
    using replace_from_pieces [OF ordered, of content old render] by auto
  have "accepts old found \<and> (\<exists>sp. found = slice content (fst sp) (snd sp) \<and> new = render sp)"
    if "(gap, found, new) \<in> set ps" for gap found new
  proof -
    have "(found, new) \<in> set (map snd ps)" using that by force
    then obtain sp where sp: "sp \<in> set (finder content old)"
        and e: "found = slice content (fst sp) (snd sp)" "new = render sp"
      unfolding p(3) by auto
    then show ?thesis using accepted [OF sp] by (intro conjI exI [of _ sp]) simp_all
  qed
  moreover have "length ps = length (finder content old)" using arg_cong [OF p(3), of length] by simp
  ultimately show ?thesis using p(1,2)
    by (intro exI [of _ ps] exI [of _ rest]) (auto simp: replace_spans_def)
qed

end

section \<open>The exact rung\<close>

lemma spans_from_Nil [simp]: "spans_from [] off s = []"
  by (simp add: spans_from.simps)

lemma spans_from_wf:
  "off + length s = n \<Longrightarrow> wf_spans off n (spans_from old off s)"
proof (induction old off s rule: spans_from.induct)
  case (1 old off s)
  show ?case
  proof (cases "old = [] \<or> index_of s old = None")
    case True
    then show ?thesis using "1.prems" by (auto simp: spans_from.simps [of old off s])
  next
    case False
    then obtain i where i: "old \<noteq> []" "index_of s old = Some i" by auto
    have "wf_spans (off + i + length old) n (spans_from old (off + i + length old) (drop (i + length old) s))"
      using "1.IH" [OF i] "1.prems" index_of_bound [OF i(2)] by simp
    then show ?thesis using i by (simp add: spans_from.simps [of old off s])
  qed
qed

lemma spans_from_accepted:
  "s = drop off content \<Longrightarrow> sp \<in> set (spans_from old off s) \<Longrightarrow> slice content (fst sp) (snd sp) = old"
proof (induction old off s rule: spans_from.induct)
  case (1 old off s)
  then have "old \<noteq> []" by auto
  moreover have "index_of s old \<noteq> None" using "1.prems"(2)
    by (auto simp: spans_from.simps [of old off s] split: option.splits if_splits)
  then obtain i where i: "index_of s old = Some i" by blast
  ultimately consider "sp = (off + i, off + i + length old)"
    | "sp \<in> set (spans_from old (off + i + length old) (drop (i + length old) s))"
    using "1.prems"(2) by (auto simp: spans_from.simps [of old off s])
  then show ?case
  proof cases
    case 1
    have "drop i s = old @ drop (i + length old) s"
      using index_of_Some [OF i] index_of_bound [OF i] by (metis append_eq_conv_conj drop_drop length_take
          min.absorb2 le_add1 le_trans drop_append append_take_drop_id same_append_eq)
    then show ?thesis using 1 "1.prems"(1) by (simp add: slice_def add.commute)
  next
    case 2
    then show ?thesis using "1.IH" [OF \<open>old \<noteq> []\<close> i] "1.prems"(1) by (simp add: ac_simps)
  qed
qed

interpretation exact: span_finder exact_spans "\<lambda>old found. found = old"
proof
  fix content old :: string
  show "wf_spans 0 (length content) (exact_spans content old)"
    by (simp add: exact_spans_def spans_from_wf)
  show "slice content (fst sp) (snd sp) = old" if "sp \<in> set (exact_spans content old)" for sp
    using that spans_from_accepted [of content 0 content sp old] by (simp add: exact_spans_def)
qed

section \<open>The line rungs\<close>

definition line_bytes :: "string list \<Rightarrow> nat" where
  "line_bytes ls = sum_list (map (\<lambda>l. length l + 1) ls)"

lemma line_bytes_simps [simp]: "line_bytes [] = 0" "line_bytes (l # ls) = length l + 1 + line_bytes ls"
  by (simp_all add: line_bytes_def)

lemma join_append: "xs \<noteq> [] \<Longrightarrow> ys \<noteq> [] \<Longrightarrow> join sep (xs @ ys) = join sep xs @ sep @ join sep ys"
proof (induction sep xs rule: join.induct)
  case (2 sep x)
  then show ?case by (cases ys) auto
qed auto

lemma length_join: "xs \<noteq> [] \<Longrightarrow> length (join [c] xs) + 1 = line_bytes xs"
  by (induction "[c]" xs rule: join.induct) auto

lemma line_infos_append:
  "line_infos off (xs @ ys) = line_infos off xs @ line_infos (off + line_bytes xs) ys"
  by (induction xs arbitrary: off) (simp_all add: ac_simps)

lemma length_line_infos [simp]: "length (line_infos off ls) = length ls"
  by (induction ls arbitrary: off) simp_all

lemma map_snd_line_infos [simp]: "map snd (line_infos off ls) = ls"
  by (induction ls arbitrary: off) simp_all

text \<open>A window of lines \<open>ws\<close>, at the front of the lines from \<open>off\<close> on.\<close>

lemma window_at_front:
  assumes "ws \<noteq> []" and "drop off content = join [nl] (ws @ rest)" and "off \<le> length content"
  defines "stop \<equiv> off + length (join [nl] ws)"
  shows "let (o', l) = line_infos off (ws @ rest) ! (length ws - 1) in o' + length l = stop"
    and "slice content off stop = join [nl] ws" and "off \<le> stop" and "stop \<le> length content"
    and "drop (length ws) (line_infos off (ws @ rest)) = line_infos (stop + 1) rest"
    and "drop (stop + 1) content = join [nl] rest"
    and "rest \<noteq> [] \<Longrightarrow> stop < length content \<and> content ! stop = nl"
    and "rest = [] \<Longrightarrow> stop = length content"
    and "fst (hd (line_infos off (ws @ rest))) = off"
proof -
  obtain us u where us: "ws = us @ [u]" using assms(1) by (metis rev_exhaust)
  have stop: "stop + 1 = off + line_bytes ws" using length_join [OF assms(1), of nl] by (simp add: stop_def)
  have "stop = off + line_bytes us + length u"
    using stop us by (simp add: line_bytes_def)
  then show "let (o', l) = line_infos off (ws @ rest) ! (length ws - 1) in o' + length l = stop"
    using us by (simp add: line_infos_append nth_append)
  have content: "drop off content = join [nl] ws @ (if rest = [] then [] else nl # join [nl] rest)"
    using assms(1,2) by (simp add: join_append)
  show "slice content off stop = join [nl] ws" by (simp add: slice_def stop_def content)
  show "off \<le> stop" by (simp add: stop_def)
  have len: "length content = off + length (drop off content)" using assms(3) by simp
  show "stop \<le> length content" unfolding len content by (simp add: stop_def)
  show "drop (length ws) (line_infos off (ws @ rest)) = line_infos (stop + 1) rest"
    using stop by (simp add: line_infos_append)
  have at: "drop stop content = (if rest = [] then [] else nl # join [nl] rest)"
    using arg_cong [OF content, of "drop (length (join [nl] ws))"] by (simp add: stop_def add.commute)
  have "drop (stop + 1) content = drop 1 (drop stop content)" by simp
  then show "drop (stop + 1) content = join [nl] rest" unfolding at by simp
  show "stop < length content \<and> content ! stop = nl" if "rest \<noteq> []"
  proof -
    have d: "drop stop content = nl # join [nl] rest" using at that by simp
    then have "stop < length content" by (metis drop_all list.distinct(1) not_le_imp_less)
    then show ?thesis using d by (metis hd_drop_conv_nth list.sel(1))
  qed
  show "stop = length content" if "rest = []"
    unfolding len content using that by (simp add: stop_def)
  show "fst (hd (line_infos off (ws @ rest))) = off" using assms(1) by (cases ws) auto
qed

definition window_of :: "string list \<Rightarrow> string \<Rightarrow> bool" where
  "window_of ws found \<longleftrightarrow> found = join [nl] ws \<or> found = join [nl] ws @ [nl]"

lemma windows_spec:
  assumes "drop off content = join [nl] texts" and "texts \<noteq> [] \<Longrightarrow> off \<le> length content"
    and "lo \<le> off" and "lo \<le> length content"
  shows "wf_spans lo (length content) (windows n trailing accept content (line_infos off texts))
    \<and> (\<forall>sp \<in> set (windows n trailing accept content (line_infos off texts)).
        \<exists>ws. length ws = n \<and> accept ws \<and> window_of ws (slice content (fst sp) (snd sp)))"
  using assms
proof (induction "length texts" arbitrary: off texts lo rule: less_induct)
  case less
  show ?case
  proof (cases "n = 0 \<or> length texts < n")
    case True
    then show ?thesis using less.prems by (simp add: windows.simps [of n])
  next
    case False
    define ws where "ws = take n texts"
    define rest where "rest = drop n texts"
    have ws: "ws \<noteq> []" "length ws = n" "texts = ws @ rest" using False by (auto simp: ws_def rest_def)
    have le: "off \<le> length content" using less.prems(2) ws by auto
    define stop where "stop = off + length (join [nl] ws)"
    note w = window_at_front [OF ws(1) _ le, of rest, folded stop_def, OF less.prems(1) [unfolded ws(3)]]
    let ?fin = "if trailing \<and> stop < length content \<and> content ! stop = nl then stop + 1 else stop"
    show ?thesis
    proof (cases "accept ws")
      case True
      have e: "?fin \<le> stop + 1" "?fin \<le> length content" "off \<le> ?fin" using w(3,4) by auto
      have ih: "wf_spans ?fin (length content) (windows n trailing accept content (line_infos (stop + 1) rest))
          \<and> (\<forall>sp \<in> set (windows n trailing accept content (line_infos (stop + 1) rest)).
              \<exists>ws. length ws = n \<and> accept ws \<and> window_of ws (slice content (fst sp) (snd sp)))"
        by (rule less.hyps) (use ws False w(6,7) e in auto)
      have u: "windows n trailing accept content (line_infos off texts)
          = (off, ?fin) # windows n trailing accept content (line_infos (stop + 1) rest)"
        using False True w(1,5,9) ws
        by (subst windows.simps) (auto simp: Let_def take_map [symmetric] split: prod.splits)
      have "slice content off ?fin = join [nl] ws \<or> slice content off ?fin = join [nl] ws @ [nl]"
      proof (cases "trailing \<and> stop < length content \<and> content ! stop = nl")
        case True
        then have "stop - off < length (drop off content)" and "drop off content ! (stop - off) = nl"
          using w(3) by auto
        then have "slice content off (stop + 1) = slice content off stop @ [nl]"
          using w(3) by (simp add: slice_def Suc_diff_le take_Suc_conv_app_nth del: nth_drop)
        then show ?thesis using True w(2) by simp
      qed (auto simp: w(2))
      then show ?thesis unfolding u using ih e less.prems(3) True ws(2)
        by (auto simp: window_of_def)
    next
      case no: False
      obtain t ts where t: "texts = t # ts" using False by (cases texts) auto
      have u: "windows n trailing accept content (line_infos off texts)
          = windows n trailing accept content (line_infos (off + length t + 1) ts)"
      proof -
        have "map snd (take n (line_infos off texts)) = ws" by (simp add: take_map [symmetric] ws_def)
        then have "\<not> accept (map snd (take n (line_infos off texts)))" using no by simp
        moreover have "tl (line_infos off texts) = line_infos (off + length t + 1) ts" by (simp add: t)
        ultimately show ?thesis using False by (subst windows.simps) simp
      qed
      have d: "drop off content = join [nl] ([t] @ ts)" using less.prems(1) t by simp
      note w1 = window_at_front [OF _ d le]
      have "wf_spans lo (length content) (windows n trailing accept content (line_infos (off + length t + 1) ts))
          \<and> (\<forall>sp \<in> set (windows n trailing accept content (line_infos (off + length t + 1) ts)).
              \<exists>ws. length ws = n \<and> accept ws \<and> window_of ws (slice content (fst sp) (snd sp)))"
      proof (rule less.hyps)
        show "length ts < length texts" by (simp add: t)
        show "drop (off + length t + 1) content = join [nl] ts" using w1(6) by simp
        show "off + length t + 1 \<le> length content" if "ts \<noteq> []" using w1(7) that by simp
        show "lo \<le> off + length t + 1" using less.prems(3) by simp
        show "lo \<le> length content" by (rule less.prems(4))
      qed
      then show ?thesis unfolding u .
    qed
  qed
qed

definition same_lines :: "(string \<Rightarrow> string \<Rightarrow> bool) \<Rightarrow> string \<Rightarrow> string \<Rightarrow> bool" where
  "same_lines eq old found \<longleftrightarrow> (\<exists>ws. list_all2 eq ws (fst (old_needle_lines old)) \<and> window_of ws found)"

definition same_anchors :: "string \<Rightarrow> string \<Rightarrow> bool" where
  "same_anchors old found \<longleftrightarrow> (\<exists>ws ols. ols = fst (old_needle_lines old) \<and> length ws = length ols
     \<and> 3 \<le> length ols \<and> line_eq_trim (hd ws) (hd ols) \<and> line_eq_trim (last ws) (last ols)
     \<and> window_of ws found)"

lemmas content_windows = windows_spec [where off = 0 and lo = 0 and texts = "split_on nl content" and content = content
    for content, simplified, folded split_line_infos_def]

interpretation line_windows: span_finder "\<lambda>content old. line_window_spans content old eq" "same_lines eq" for eq
proof
  fix content old :: string
  show "wf_spans 0 (length content) (line_window_spans content old eq)"
    by (simp add: line_window_spans_def content_windows split: prod.split)
  obtain ols t where o: "old_needle_lines old = (ols, t)" by fastforce
  show "same_lines eq old (slice content (fst sp) (snd sp))" if "sp \<in> set (line_window_spans content old eq)" for sp
    using that content_windows [of content "length ols" t "\<lambda>ls. list_all2 eq ls ols"] o
    by (auto simp: line_window_spans_def same_lines_def)
qed

interpretation block_anchor: span_finder block_anchor_spans same_anchors
proof
  fix content old :: string
  show "wf_spans 0 (length content) (block_anchor_spans content old)"
    by (simp add: block_anchor_spans_def Let_def content_windows split: prod.split)
  obtain ols t where o: "old_needle_lines old = (ols, t)" by fastforce
  show "same_anchors old (slice content (fst sp) (snd sp))" if "sp \<in> set (block_anchor_spans content old)" for sp
    using that content_windows [of content "length ols" t "\<lambda>ls. trim_space (hd ls) = trim_space (hd ols)
        \<and> trim_space (last ls) = trim_space (last ols)"] o
    by (auto simp: block_anchor_spans_def same_anchors_def line_eq_trim_def Let_def split: if_splits)
qed

section \<open>The fragment rung\<close>

text \<open>A folded rune is a byte that is not a continuation byte, followed by continuation bytes.\<close>

definition continues :: "char \<Rightarrow> bool" where
  "continues c \<longleftrightarrow> cont_byte (code_of c)"

definition rune_shape :: "string \<Rightarrow> bool" where
  "rune_shape bs \<longleftrightarrow> (case bs of [] \<Rightarrow> False | b # cs \<Rightarrow> \<not> continues b \<and> list_all continues cs)"

lemma decode_rune_shape:
  "decode_rune bs = (r, n) \<Longrightarrow> r \<noteq> rune_error \<Longrightarrow> bs \<noteq> [] \<Longrightarrow>
     \<not> cont_byte (hd bs) \<and> list_all cont_byte (tl (take n bs))"
  by (cases bs) (auto simp: cont_byte_def rune_error_def split: list.splits if_splits)

lemma first_rune_shape:
  assumes "first_rune s = (r, n)" and "r \<noteq> rune_error" and "s \<noteq> []"
  shows "rune_shape (take n s)"
proof -
  let ?bs = "map code_of (take 4 s)"
  have d: "\<not> cont_byte (hd ?bs) \<and> list_all cont_byte (tl (take n ?bs))"
    using decode_rune_shape [of ?bs r n] assms by (simp add: first_rune_def)
  have n: "1 \<le> n" "n \<le> 4" using first_rune_size [OF assms(3)] decode_rune_size [of ?bs] assms
    by (auto simp: first_rune_def)
  have t: "take n ?bs = map code_of (take n s)" using n by (simp add: take_map min_def)
  obtain b cs where b: "take n s = b # cs" using n assms(3) by (cases "take n s") auto
  have "hd ?bs = code_of b" using b n assms(3) by (cases s) (auto simp: take_Cons')
  then show ?thesis using d unfolding t b
    by (simp add: rune_shape_def continues_def b list_all_iff)
qed

lemma fold_rune_shape: "(r, bs) \<in> set (runes s) \<Longrightarrow> rune_shape (fold_rune_ascii r bs) \<and> bs \<noteq> []"
proof (induction s rule: runes.induct)
  case (2 c s)
  obtain r0 n where f: "first_rune (c # s) = (r0, n)" by fastforce
  have n: "1 \<le> n" using first_rune_size [of "c # s"] f by simp
  have "rune_shape (fold_rune_ascii r0 (take n (c # s))) \<and> take n (c # s) \<noteq> []"
  proof (cases "r0 = rune_error")
    case True
    then show ?thesis using n by (simp add: fold_rune_ascii_def rune_error_def rune_shape_def continues_def cont_byte_def)
  next
    case False
    then show ?thesis using n first_rune_shape [OF f]
      by (simp add: fold_rune_ascii_def rune_shape_def continues_def cont_byte_def squote_def dquote_def code_of_def)
  qed
  then show ?case using 2 f by (auto simp: runes.simps(2))
qed simp

definition apart :: "char \<times> nat \<times> nat \<Rightarrow> char \<times> nat \<times> nat \<Rightarrow> bool" where
  "apart a b \<longleftrightarrow> fst (snd a) \<le> fst (snd b) \<and> (continues (fst b) \<or> snd (snd a) \<le> fst (snd b))"

lemma sorted_wrt_constant: "(\<And>x y. x \<in> set xs \<Longrightarrow> y \<in> set (tl xs) \<Longrightarrow> R x y) \<Longrightarrow> sorted_wrt R xs"
proof (induction xs)
  case (Cons x xs)
  have "sorted_wrt R xs" by (rule Cons.IH) (use Cons.prems in \<open>auto dest: list.set_sel(2)\<close>, cases xs, auto)
  then show ?case using Cons.prems by auto
qed simp

lemma fold_runes_structure:
  assumes "\<forall>(r, bs) \<in> set rs. rune_shape (fold_rune_ascii r bs) \<and> bs \<noteq> []"
  shows "sorted_wrt apart (fold_runes off rs)
    \<and> (\<forall>x \<in> set (fold_runes off rs). off \<le> fst (snd x) \<and> fst (snd x) < snd (snd x)
        \<and> snd (snd x) \<le> off + length (concat (map snd rs)))"
  using assms
proof (induction off rs rule: fold_runes.induct)
  case (2 off r bs rs)
  let ?g = "map (\<lambda>c. (c, off, off + length bs)) (fold_rune_ascii r bs)"
  have shape: "rune_shape (fold_rune_ascii r bs)" "bs \<noteq> []" using "2.prems" by auto
  have ih: "sorted_wrt apart (fold_runes (off + length bs) rs)"
    "\<forall>x \<in> set (fold_runes (off + length bs) rs). off + length bs \<le> fst (snd x) \<and> fst (snd x) < snd (snd x)
        \<and> snd (snd x) \<le> off + length bs + length (concat (map snd rs))"
    using "2.IH" "2.prems" by auto
  have "sorted_wrt apart ?g"
    using shape(1)
    by (intro sorted_wrt_constant) (auto simp: apart_def rune_shape_def list_all_iff split: list.splits)
  moreover have "\<forall>x \<in> set ?g. \<forall>y \<in> set (fold_runes (off + length bs) rs). apart x y"
    using ih(2) by (fastforce simp: apart_def)
  ultimately have "sorted_wrt apart (fold_runes off ((r, bs) # rs))" using ih(1) by (auto simp: sorted_wrt_append)
  moreover have "\<forall>x \<in> set (fold_runes off ((r, bs) # rs)). off \<le> fst (snd x) \<and> fst (snd x) < snd (snd x)
        \<and> snd (snd x) \<le> off + length (concat (map snd ((r, bs) # rs)))"
    using ih(2) shape(2) by fastforce
  ultimately show ?case by blast
qed simp

lemma fold_map_structure:
  shows "sorted_wrt apart (fold_ascii_with_map s)"
    and "x \<in> set (fold_ascii_with_map s) \<Longrightarrow> fst (snd x) < snd (snd x) \<and> snd (snd x) \<le> length s"
proof -
  have "\<forall>(r, bs) \<in> set (runes s). rune_shape (fold_rune_ascii r bs) \<and> bs \<noteq> []"
    using fold_rune_shape by auto
  from fold_runes_structure [OF this, of 0]
  show "sorted_wrt apart (fold_ascii_with_map s)"
    and "x \<in> set (fold_ascii_with_map s) \<Longrightarrow> fst (snd x) < snd (snd x) \<and> snd (snd x) \<le> length s"
    by (auto simp: fold_ascii_with_map_def runes_concat)
qed

lemma fold_ascii_hd: "fold_ascii s \<noteq> [] \<Longrightarrow> \<not> continues (hd (fold_ascii s))"
proof -
  assume ne: "fold_ascii s \<noteq> []"
  obtain r bs rs where r: "runes s = (r, bs) # rs"
    using ne by (cases "runes s") (auto simp: fold_ascii_def fold_ascii_with_map_def)
  then have "rune_shape (fold_rune_ascii r bs)" using fold_rune_shape [of r bs s] by simp
  then show ?thesis
    by (auto simp: fold_ascii_def fold_ascii_with_map_def r rune_shape_def split: list.splits)
qed

text \<open>Matches in the folded line, mapped back to the bytes of the line.\<close>

lemma mapped_spans_wf:
  assumes m: "sorted_wrt apart m" "\<And>x. x \<in> set m \<Longrightarrow> fst (snd x) < snd (snd x) \<and> snd (snd x) \<le> n"
  shows "wf_spans lo (length m) sps \<Longrightarrow> \<forall>sp \<in> set sps. fst sp < snd sp \<and> \<not> continues (fst (m ! fst sp))
    \<Longrightarrow> start \<le> n \<Longrightarrow> (\<And>i. lo \<le> i \<Longrightarrow> i < length m \<Longrightarrow> \<not> continues (fst (m ! i)) \<Longrightarrow> start \<le> fst (snd (m ! i)))
    \<Longrightarrow> wf_spans (base + start) (base + n)
        (map (\<lambda>(fs, fe). (base + fst (snd (m ! fs)), base + snd (snd (m ! (fe - 1))))) sps)"
proof (induction sps arbitrary: lo start)
  case (Cons sp sps)
  obtain fs fe where sp: "sp = (fs, fe)" by fastforce
  have w: "lo \<le> fs" "fs < fe" "\<not> continues (fst (m ! fs))" "wf_spans fe (length m) sps"
    using Cons.prems(1,2) sp by auto
  have fe: "fe \<le> length m" using wf_spans_bound [OF w(4)] .
  have e: "fst (snd (m ! (fe - 1))) < snd (snd (m ! (fe - 1)))" "snd (snd (m ! (fe - 1))) \<le> n"
    using m(2) [of "m ! (fe - 1)"] w(2) fe by auto
  have "fst (snd (m ! fs)) \<le> fst (snd (m ! (fe - 1)))"
    using sorted_wrt_nth_less [OF m(1), of fs "fe - 1"] w(2) fe
    by (cases "fs = fe - 1") (auto simp: apart_def)
  then have "fst (snd (m ! fs)) \<le> snd (snd (m ! (fe - 1)))" using e(1) by simp
  moreover have "start \<le> fst (snd (m ! fs))" using Cons.prems(4) w fe by auto
  moreover have "wf_spans (base + snd (snd (m ! (fe - 1)))) (base + n)
      (map (\<lambda>(fs, fe). (base + fst (snd (m ! fs)), base + snd (snd (m ! (fe - 1))))) sps)"
  proof (rule Cons.IH [OF w(4) _ e(2)])
    show "\<forall>sp \<in> set sps. fst sp < snd sp \<and> \<not> continues (fst (m ! fst sp))" using Cons.prems(2) by simp
    show "snd (snd (m ! (fe - 1))) \<le> fst (snd (m ! i))"
      if "fe \<le> i" "i < length m" "\<not> continues (fst (m ! i))" for i
      using sorted_wrt_nth_less [OF m(1), of "fe - 1" i] that w(2) by (auto simp: apart_def)
  qed
  ultimately show ?case by (simp add: sp)
qed simp

lemma exact_span_props:
  assumes "needle \<noteq> []" and "sp \<in> set (exact_spans s needle)"
  shows "fst sp < snd sp" and "fst sp < length s" and "s ! fst sp = hd needle"
proof -
  have sl: "slice s (fst sp) (snd sp) = needle" by (rule exact.accepted [OF assms(2)])
  then have "0 < snd sp - fst sp" and "0 < length s - fst sp"
    using assms(1) by (auto simp: slice_def)
  then show "fst sp < snd sp" and b: "fst sp < length s" by simp_all
  have "needle ! 0 = drop (fst sp) s ! 0"
    using \<open>0 < snd sp - fst sp\<close> unfolding sl [symmetric] slice_def by (simp del: nth_drop)
  then show "s ! fst sp = hd needle" using b assms(1) by (simp add: hd_conv_nth)
qed

lemma wf_spans_slice_bounds:
  "wf_spans lo n sps \<Longrightarrow> sp \<in> set sps \<Longrightarrow> lo \<le> fst sp \<and> fst sp \<le> snd sp \<and> snd sp \<le> n"
proof (induction sps arbitrary: lo)
  case (Cons x sps)
  then have x: "lo \<le> fst x" "fst x \<le> snd x" "wf_spans (snd x) n sps" by simp_all
  show ?case
  proof (cases "sp = x")
    case True
    then show ?thesis using x wf_spans_bound by blast
  next
    case False
    then show ?thesis using Cons.IH [OF x(3)] Cons.prems(2) x by auto
  qed
qed simp

text \<open>The runes of a part of a string that is cut at runes are the runes of the string.\<close>

lemma first_rune_of_prefix:
  assumes "first_rune (c # p @ t) = (r, n)" and "n \<le> length (c # p)"
  shows "first_rune (c # p) = (r, n)"
proof (cases "r \<noteq> rune_error \<or> n \<noteq> 1")
  case True
  obtain k where k: "n = Suc k" using first_rune_size [of "c # p @ t"] assms(1) by (cases n) auto
  have "decode_rune (map code_of (c # p @ t)) = (r, n)"
    using assms(1) decode_rune_take [of "map code_of (c # p @ t)"] unfolding first_rune_def take_map by simp
  then have "decode_rune (take n (map code_of (c # p @ t))) = (r, n)"
    using decode_rune_prefix [of "code_of c" "map code_of (p @ t)" r n] True by simp
  moreover have "take n (map code_of (c # p @ t)) = map code_of (c # take k p)"
    using assms(2) by (simp add: take_map k)
  ultimately have "first_rune (c # take k p) = (r, n)"
    using decode_rune_take [of "map code_of (c # take k p)"] unfolding first_rune_def take_map by simp
  from first_rune_append [OF this True, of "drop k p"] show ?thesis by simp
next
  case False
  obtain r' n' where f: "first_rune (c # p) = (r', n')" by fastforce
  then show ?thesis using first_rune_append [OF f, of t] assms(1) False by (cases "r' \<noteq> rune_error \<or> n' \<noteq> 1") auto
qed

lemma runes_eq_Cons:
  assumes "runes s = (r, bs) # rs"
  obtains n where "s \<noteq> []" "first_rune s = (r, n)" "bs = take n s" "runes (drop n s) = rs" "1 \<le> n" "n \<le> length s"
proof (cases s)
  case (Cons c s')
  obtain r' n where f: "first_rune s = (r', n)" by fastforce
  then show ?thesis using that [of n] assms first_rune_size [of s] Cons by (simp add: runes.simps(2))
qed (use assms in simp)

lemma runes_drop: "runes s = xs @ ys \<Longrightarrow> runes (drop (length (concat (map snd xs))) s) = ys"
proof (induction xs arbitrary: s)
  case (Cons x xs)
  obtain r bs where x: "x = (r, bs)" by fastforce
  from Cons.prems obtain n where n: "bs = take n s" "runes (drop n s) = xs @ ys" "n \<le> length s"
    unfolding x append_Cons by (elim runes_eq_Cons)
  show ?case using Cons.IH [OF n(2)] n(1,3) by (simp add: x add.commute)
qed simp

lemma runes_take: "runes s = xs @ ys \<Longrightarrow> runes (concat (map snd xs)) = xs"
proof (induction xs arbitrary: s)
  case (Cons x xs)
  obtain r bs where x: "x = (r, bs)" by fastforce
  from Cons.prems obtain n where n: "s \<noteq> []" "first_rune s = (r, n)" "bs = take n s" "runes (drop n s) = xs @ ys"
      "1 \<le> n" "n \<le> length s"
    unfolding x append_Cons by (elim runes_eq_Cons)
  define p where "p = concat (map snd (x # xs))"
  have s: "s = p @ concat (map snd ys)"
    using runes_concat [of s] Cons.prems by (simp add: p_def)
  have p: "p = bs @ concat (map snd xs)" by (simp add: p_def x)
  have np: "n \<le> length p" and bs: "bs \<noteq> []" using n by (simp_all add: p)
  obtain c q where c: "p = c # q" using bs p by (metis append_is_Nil_conv neq_Nil_conv)
  have f: "first_rune p = (r, n)"
    using first_rune_of_prefix [of c q "concat (map snd ys)" r n] n(2) s c np by simp
  have "take n p = bs" "drop n p = concat (map snd xs)" using n by (simp_all add: p)
  then have "runes p = (r, bs) # runes (concat (map snd xs))"
    using f by (simp add: c runes.simps(2))
  then have "runes p = x # xs" using Cons.IH [OF n(4)] by (simp add: x)
  then show ?case by (simp only: p_def)
qed simp

text \<open>The folded runes are a prefix code: the first byte gives the length.\<close>

definition lead_length :: "char \<Rightarrow> nat" where
  "lead_length c = (let b = code_of c in if b < 128 then 1 else if b < 224 then 2 else if b < 240 then 3 else 4)"

lemma decode_rune_length:
  "decode_rune (b # bs) = (r, n) \<Longrightarrow> r \<noteq> rune_error \<Longrightarrow>
     n = (if b < 128 then 1 else if b < 224 then 2 else if b < 240 then 3 else 4)"
  by (cases b rule: byte_ranges; cases bs rule: short_list_cases; simp split: if_splits; auto)

definition fold_of :: "nat \<times> string \<Rightarrow> string" where
  "fold_of rb = fold_rune_ascii (fst rb) (snd rb)"

lemma fold_of_length: "rb \<in> set (runes s) \<Longrightarrow> fold_of rb \<noteq> [] \<and> length (fold_of rb) = lead_length (hd (fold_of rb))"
proof (induction s rule: runes.induct)
  case (2 c s)
  obtain r n where f: "first_rune (c # s) = (r, n)" by fastforce
  have n: "1 \<le> n" "n \<le> length (c # s)" using first_rune_size [of "c # s"] f by simp_all
  have "fold_of (r, take n (c # s)) \<noteq> []
    \<and> length (fold_of (r, take n (c # s))) = lead_length (hd (fold_of (r, take n (c # s))))"
  proof (cases "r = rune_error")
    case True
    then show ?thesis by (simp add: fold_of_def fold_rune_ascii_def rune_error_def lead_length_def)
  next
    case False
    have "decode_rune (code_of c # map code_of s) = (r, n)"
      using f decode_rune_take [of "map code_of (c # s)"] unfolding first_rune_def take_map by simp
    from decode_rune_length [OF this False] have "n = lead_length c" by (simp add: lead_length_def Let_def)
    moreover have "hd (take n (c # s)) = c" using n by (cases n) simp_all
    ultimately show ?thesis using False n
      by (auto simp: fold_of_def fold_rune_ascii_def lead_length_def squote_def dquote_def code_of_def)
  qed
  then show ?case using 2 f by (auto simp: runes.simps(2))
qed simp

definition code_words :: "(nat \<times> string) list \<Rightarrow> bool" where
  "code_words rs \<longleftrightarrow> (\<forall>rb \<in> set rs. rune_shape (fold_of rb) \<and> length (fold_of rb) = lead_length (hd (fold_of rb)))"

lemma code_words_runes: "code_words (runes s)"
  using fold_of_length [of _ s] fold_rune_shape [of _ _ s] by (auto simp: code_words_def fold_of_def)

lemma code_split:
  "code_words rs \<Longrightarrow> concat (map fold_of rs) = a @ b # cs \<Longrightarrow> \<not> continues b \<Longrightarrow>
     \<exists>xs ys. rs = xs @ ys \<and> concat (map fold_of xs) = a \<and> concat (map fold_of ys) = b # cs"
proof (induction rs arbitrary: a)
  case (Cons x rs)
  then have x: "rune_shape (fold_of x)" "code_words rs" by (simp_all add: code_words_def)
  show ?case
  proof (cases "a = []")
    case True
    then show ?thesis using Cons.prems by (intro exI [of _ "[]"] exI [of _ "x # rs"]) simp
  next
    case False
    have e: "fold_of x @ concat (map fold_of rs) = a @ b # cs" using Cons.prems(2) by simp
    show ?thesis
    proof (cases "length (fold_of x) \<le> length a")
      case True
      then obtain a' where a: "a = fold_of x @ a'" "concat (map fold_of rs) = a' @ b # cs"
        using e by (auto simp: append_eq_append_conv2)
      from Cons.IH [OF x(2) a(2) Cons.prems(3)] obtain xs ys
        where "rs = xs @ ys" "concat (map fold_of xs) = a'" "concat (map fold_of ys) = b # cs" by blast
      then show ?thesis using a by (intro exI [of _ "x # xs"] exI [of _ ys]) simp
    next
      case no: False
      then have "fold_of x ! length a = b" using arg_cong [OF e, of "\<lambda>l. l ! length a"] by (simp add: nth_append)
      moreover have "fold_of x ! length a \<in> set (tl (fold_of x))"
        using no False by (cases "fold_of x"; cases a) auto
      moreover have "list_all continues (tl (fold_of x))"
        using x(1) by (simp add: rune_shape_def split: list.splits)
      ultimately show ?thesis using Cons.prems(3) by (auto simp: list_all_iff)
    qed
  qed
qed simp

lemma code_prefix:
  "code_words rs \<Longrightarrow> code_words os \<Longrightarrow> concat (map fold_of rs) = concat (map fold_of os) @ cs \<Longrightarrow>
     \<exists>xs ys. rs = xs @ ys \<and> concat (map fold_of xs) = concat (map fold_of os)"
proof (induction os arbitrary: rs)
  case Nil
  then show ?case by (intro exI [of _ "[]"] exI [of _ rs]) simp
next
  case (Cons w os)
  have w: "rune_shape (fold_of w)" "length (fold_of w) = lead_length (hd (fold_of w))" "code_words os"
    using Cons.prems(2) by (simp_all add: code_words_def)
  then have ne: "fold_of w \<noteq> []" by (auto simp: rune_shape_def)
  then obtain x rs' where rs: "rs = x # rs'" using Cons.prems(3) by (cases rs) auto
  have x: "rune_shape (fold_of x)" "length (fold_of x) = lead_length (hd (fold_of x))" "code_words rs'"
    using Cons.prems(1) by (simp_all add: code_words_def rs)
  then have nx: "fold_of x \<noteq> []" by (auto simp: rune_shape_def)
  have e: "fold_of x @ concat (map fold_of rs') = fold_of w @ (concat (map fold_of os) @ cs)"
    using Cons.prems(3) by (simp add: rs)
  have "hd (fold_of x) = hd (fold_of w)" using arg_cong [OF e, of hd] ne nx by simp
  then have "length (fold_of x) = length (fold_of w)" using w x by simp
  then have f: "fold_of x = fold_of w" "concat (map fold_of rs') = concat (map fold_of os) @ cs"
    using e by simp_all
  from Cons.IH [OF x(3) w(3) f(2)] obtain xs ys
    where "rs' = xs @ ys" "concat (map fold_of xs) = concat (map fold_of os)" by blast
  then show ?case using f rs by (intro exI [of _ "x # xs"] exI [of _ ys]) simp
qed

lemma fold_runes_append:
  "fold_runes off (xs @ ys) = fold_runes off xs @ fold_runes (off + length (concat (map snd xs))) ys"
  by (induction off xs rule: fold_runes.induct) (simp_all add: ac_simps)

lemma map_fst_fold_runes: "map fst (fold_runes off rs) = concat (map fold_of rs)"
  by (induction off rs rule: fold_runes.induct) (simp_all add: fold_of_def comp_def)

lemma fold_ascii_concat: "fold_ascii s = concat (map fold_of (runes s))"
  by (simp add: fold_ascii_def fold_ascii_with_map_def map_fst_fold_runes)

lemma fold_runes_ends:
  assumes "code_words xs" and "xs \<noteq> []"
  shows "fst (snd (hd (fold_runes off xs))) = off"
    and "snd (snd (last (fold_runes off xs))) = off + length (concat (map snd xs))"
proof -
  have ne: "fold_of x \<noteq> []" if "x \<in> set xs" for x
    using assms(1) that by (auto simp: code_words_def rune_shape_def)
  obtain x ys where x: "xs = x # ys" using assms(2) by (cases xs) auto
  obtain zs z where z: "xs = zs @ [z]" using assms(2) by (cases xs rule: rev_cases) auto
  show "fst (snd (hd (fold_runes off xs))) = off"
    using ne [of x] by (cases x) (simp add: x fold_of_def hd_append hd_map)
  show "snd (snd (last (fold_runes off xs))) = off + length (concat (map snd xs))"
    using ne [of z] by (cases z) (simp add: z fold_runes_append fold_of_def last_map)
qed

text \<open>A match in the folded line is the fold of a part of the line that folds to the needle.\<close>

lemma folded_line_accepted:
  assumes "fold_ascii old \<noteq> []" and "sp \<in> set (folded_line_spans (fold_ascii old) (0, line))"
  shows "fold_ascii (slice line (fst sp) (snd sp)) = fold_ascii old"
proof -
  let ?m = "fold_ascii_with_map line" and ?os = "runes old"
  have os: "?os \<noteq> []" using assms(1) by (auto simp: fold_ascii_concat)
  obtain fs fe where x: "(fs, fe) \<in> set (exact_spans (map fst ?m) (fold_ascii old))"
      and sp: "sp = (fst (snd (?m ! fs)), snd (snd (?m ! (fe - 1))))"
    using assms(2) by (auto simp: folded_line_spans_def Let_def)
  have sl: "slice (map fst ?m) fs fe = fold_ascii old" using exact.accepted [OF x] by simp
  have b: "fs < fe" "fe \<le> length ?m"
    using exact_span_props(1) [OF assms(1) x] wf_spans_slice_bounds [OF exact.ordered x] by simp_all
  have mf: "map fst ?m = concat (map fold_of (runes line))"
    by (simp add: fold_ascii_with_map_def map_fst_fold_runes)
  obtain c cs where c: "fold_ascii old = c # cs" using assms(1) by (cases "fold_ascii old") auto
  have "map fst ?m = take fs (map fst ?m) @ slice (map fst ?m) fs fe @ drop fe (map fst ?m)"
    using b by (simp add: slice_drop)
  then have "map fst ?m = take fs (map fst ?m) @ c # (cs @ drop fe (map fst ?m))"
    by (simp only: sl c append_Cons)
  then have e: "concat (map fold_of (runes line)) = take fs (map fst ?m) @ c # (cs @ drop fe (map fst ?m))"
    by (simp only: mf)
  have "\<not> continues c" using fold_ascii_hd [OF assms(1)] c by simp
  from code_split [OF code_words_runes e this] obtain xs ys where ys: "runes line = xs @ ys"
      "concat (map fold_of xs) = take fs (map fst ?m)"
      "concat (map fold_of ys) = (c # cs) @ drop fe (map fst ?m)" by auto
  have cw: "code_words xs" "code_words ys" using code_words_runes [of line] ys(1) by (simp_all add: code_words_def)
  obtain ms zs where ms: "ys = ms @ zs" "concat (map fold_of ms) = concat (map fold_of ?os)"
    using code_prefix [OF cw(2) code_words_runes [of old]] ys(3) unfolding c [symmetric] fold_ascii_concat by blast
  have cm: "code_words ms" using cw(2) ms(1) by (simp add: code_words_def)
  have mne: "ms \<noteq> []" using ms(2) assms(1) by (auto simp: fold_ascii_concat)
  define s1 where "s1 = length (concat (map snd xs))"
  define s2 where "s2 = length (concat (map snd ms))"
  define m1 where "m1 = fold_runes 0 xs"
  define m2 where "m2 = fold_runes s1 ms"
  have m: "?m = m1 @ m2 @ fold_runes (s1 + s2) zs"
    by (simp add: fold_ascii_with_map_def ys(1) ms(1) fold_runes_append m1_def m2_def s1_def s2_def)
  have l1: "length m1 = fs"
    using arg_cong [OF ys(2), of length] map_fst_fold_runes [of 0 xs] b
    by (metis length_map length_take m1_def min.absorb2 less_imp_le le_trans)
  have "map fst m2 = fold_ascii old" by (simp add: m2_def map_fst_fold_runes ms(2) fold_ascii_concat)
  then have l2: "length m2 = fe - fs" "m2 \<noteq> []"
    using arg_cong [OF sl, of length] b assms(1) by (auto simp: slice_def dest: arg_cong [of _ _ length])
  have "?m ! fs = hd m2" using l2(2) by (simp add: m l1 [symmetric] nth_append hd_conv_nth)
  moreover have "?m ! (fe - 1) = last m2"
  proof -
    have "fe - 1 = length m1 + (length m2 - 1)" using l1 l2(1) b by simp
    moreover have "length m2 - 1 < length m2" using l2(2) by simp
    ultimately show ?thesis using l2(2)
      by (simp only: m nth_append_length_plus nth_append_left) (simp add: last_conv_nth)
  qed
  ultimately have "sp = (s1, s1 + s2)"
    using fold_runes_ends [OF cm mne, of s1] by (simp add: sp m2_def s2_def)
  moreover have "line = concat (map snd xs) @ concat (map snd ms) @ concat (map snd zs)"
    using runes_concat [of line] by (simp add: ys(1) ms(1))
  ultimately have found: "slice line (fst sp) (snd sp) = concat (map snd ms)"
    by (simp add: slice_def s1_def s2_def)
  have "runes (drop s1 line) = ms @ zs" using runes_drop [of line xs ys] ys(1) ms(1) by (simp add: s1_def)
  then have "runes (concat (map snd ms)) = ms" by (rule runes_take)
  then show ?thesis by (simp add: found fold_ascii_concat ms(2))
qed

lemma folded_line_shift:
  "folded_line_spans needle (off, line) = map (\<lambda>sp. (off + fst sp, off + snd sp)) (folded_line_spans needle (0, line))"
  by (simp add: folded_line_spans_def Let_def case_prod_unfold comp_def)

lemma folded_line_wf:
  assumes "needle = fold_ascii old" and "needle \<noteq> []"
  shows "wf_spans off (off + length l) (folded_line_spans needle (off, l))"
proof -
  let ?m = "fold_ascii_with_map l"
  have "wf_spans (off + 0) (off + length l)
      (map (\<lambda>(fs, fe). (off + fst (snd (?m ! fs)), off + snd (snd (?m ! (fe - 1))))) (exact_spans (map fst ?m) needle))"
  proof (rule mapped_spans_wf [OF fold_map_structure])
    show "wf_spans 0 (length ?m) (exact_spans (map fst ?m) needle)"
      using exact.ordered [of "map fst ?m" needle] by simp
    show "\<forall>sp \<in> set (exact_spans (map fst ?m) needle). fst sp < snd sp \<and> \<not> continues (fst (?m ! fst sp))"
      using exact_span_props [OF assms(2)] fold_ascii_hd [of old] assms by (metis length_map nth_map)
  qed simp_all
  then show ?thesis by (simp add: folded_line_spans_def Let_def)
qed

lemma slice_within:
  assumes "off \<le> a" and "b \<le> stop"
  shows "slice s a b = slice (slice s off stop) (a - off) (b - off)"
  using assms by (simp add: slice_def drop_take min_def)

lemma set_slice: "set (slice s a b) \<subseteq> set s"
  unfolding slice_def by (meson set_drop_subset set_take_subset subset_trans)

text \<open>What the fragment rung accepts: a part of one line that equals the old string once the punctuation
  of both is folded.\<close>

definition same_folded :: "string \<Rightarrow> string \<Rightarrow> bool" where
  "same_folded old found \<longleftrightarrow> nl \<notin> set found \<and> fold_ascii found = fold_ascii old"

lemma folded_lines_spec:
  assumes "needle = fold_ascii old" and "needle \<noteq> []" and "drop off content = join [nl] texts"
    and "texts \<noteq> [] \<Longrightarrow> off \<le> length content" and "lo \<le> off" and "lo \<le> length content"
    and "\<forall>t \<in> set texts. nl \<notin> set t"
  shows "wf_spans lo (length content) (concat (map (folded_line_spans needle) (line_infos off texts)))
    \<and> (\<forall>sp \<in> set (concat (map (folded_line_spans needle) (line_infos off texts))).
        same_folded old (slice content (fst sp) (snd sp)))"
  using assms(3-)
proof (induction texts arbitrary: off lo)
  case (Cons t ts)
  have d: "drop off content = join [nl] ([t] @ ts)" using Cons.prems(1) by simp
  have le: "off \<le> length content" using Cons.prems(2) by simp
  note w = window_at_front [OF _ d le]
  have here: "wf_spans off (off + length t) (folded_line_spans needle (off, t))"
    by (rule folded_line_wf [OF assms(1,2)])
  have rest: "wf_spans (off + length t) (length content)
        (concat (map (folded_line_spans needle) (line_infos (off + length t + 1) ts)))
      \<and> (\<forall>sp \<in> set (concat (map (folded_line_spans needle) (line_infos (off + length t + 1) ts))).
        same_folded old (slice content (fst sp) (snd sp)))"
  proof (rule Cons.IH)
    show "drop (off + length t + 1) content = join [nl] ts" using w(6) by simp
    show "off + length t + 1 \<le> length content" if "ts \<noteq> []" using w(7) that by simp
    show "off + length t \<le> length content" using w(4) by simp
    show "\<forall>t \<in> set ts. nl \<notin> set t" using Cons.prems(5) by simp
  qed simp
  have "same_folded old (slice content (fst sp) (snd sp))"
    if "sp \<in> set (folded_line_spans needle (off, t))" for sp
  proof -
    have b: "off \<le> fst sp" "snd sp \<le> off + length t" using wf_spans_slice_bounds [OF here that] by auto
    then have s: "slice content (fst sp) (snd sp) = slice t (fst sp - off) (snd sp - off)"
      using slice_within [of off "fst sp" "snd sp" "off + length t" content] w(2) by simp
    have "sp \<in> (\<lambda>sp. (off + fst sp, off + snd sp)) ` set (folded_line_spans needle (0, t))"
      using that unfolding folded_line_shift [of needle off t] set_map .
    then obtain sp' where sp': "sp' \<in> set (folded_line_spans needle (0, t))" "sp = (off + fst sp', off + snd sp')"
      by (elim imageE)
    have "fold_ascii (slice t (fst sp') (snd sp')) = fold_ascii old"
      using folded_line_accepted [of old sp' t] sp'(1) assms(1,2) by simp
    then show ?thesis using s sp'(2) Cons.prems(5) set_slice [of t] by (auto simp: same_folded_def)
  qed
  then show ?case
    using rest wf_spans_append [OF wf_spans_weaken [OF here Cons.prems(3)]] by auto
qed simp

interpretation fragment: span_finder folded_fragment_spans same_folded
proof
  fix content old :: string
  have s: "wf_spans 0 (length content) (folded_fragment_spans content old)
      \<and> (\<forall>sp \<in> set (folded_fragment_spans content old). same_folded old (slice content (fst sp) (snd sp)))"
  proof (cases "fold_ascii old = []")
    case False
    then show ?thesis using folded_lines_spec [OF refl, of old 0 content "split_on nl content" 0]
      by (simp add: folded_fragment_spans_def split_line_infos_def Let_def split_on_no_sep)
  qed (simp add: folded_fragment_spans_def)
  then show "wf_spans 0 (length content) (folded_fragment_spans content old)" by simp
  show "same_folded old (slice content (fst sp) (snd sp))" if "sp \<in> set (folded_fragment_spans content old)" for sp
    using s that by blast
qed

section \<open>The replacement\<close>

text \<open>The replacement is the new string up to the blanks at the beginning of its lines.\<close>

definition unindented :: "string \<Rightarrow> string" where
  "unindented l = dropWhile (\<lambda>c. c \<in> set blanks) l"

definition same_but_indent :: "string \<Rightarrow> string \<Rightarrow> bool" where
  "same_but_indent a b \<longleftrightarrow> map unindented (split_on nl a) = map unindented (split_on nl b)"

lemma exchange_set: "exchange x ys = (m, zs) \<Longrightarrow> insert m (set zs) = insert x (set ys)"
  by (induction ys arbitrary: x m zs) (fastforce simp: Let_def split: prod.splits if_splits)+

lemma longest_first_set: "set (longest_first xs) = set xs"
proof (induction xs rule: longest_first.induct)
  case (2 x xs)
  obtain m zs where e: "exchange x xs = (m, zs)" by fastforce
  then show ?case using 2 exchange_set [OF e] by simp
qed simp

lemma indent_pairs_blank: "(from_i, to_i) \<in> set (indent_pairs seen ps) \<Longrightarrow> set to_i \<subseteq> set blanks"
  by (induction seen ps rule: indent_pairs.induct)
     (auto simp: leading_whitespace_def dest: set_takeWhileD split: if_splits)

lemma unindented_drop:
  assumes "has_prefix (leading_whitespace l) pre"
  shows "unindented (drop (length pre) l) = unindented l"
proof -
  obtain ws where ws: "leading_whitespace l = pre @ ws" using assms by (elim has_prefixE)
  have l: "l = leading_whitespace l @ unindented l" by (simp add: leading_whitespace_def unindented_def)
  have "drop (length pre) l = ws @ unindented l" by (subst l) (simp add: ws)
  moreover have "\<forall>c \<in> set ws. c \<in> set blanks"
    using arg_cong [OF ws, of set] by (auto simp: leading_whitespace_def dest: set_takeWhileD)
  ultimately show ?thesis by (simp add: unindented_def dropWhile_append2)
qed

lemma reindent_line_unindented:
  assumes "\<forall>(a, b) \<in> set pairs. set b \<subseteq> set blanks" and "nl \<notin> set l"
  shows "unindented (reindent_line pairs l) = unindented l \<and> nl \<notin> set (reindent_line pairs l)"
proof (cases "l = [] \<or> find (\<lambda>(a, b). if a = [] then leading_whitespace l = [] else has_prefix (leading_whitespace l) a) pairs = None")
  case False
  then obtain a b where f: "find (\<lambda>(a, b). if a = [] then leading_whitespace l = []
      else has_prefix (leading_whitespace l) a) pairs = Some (a, b)" and l: "l \<noteq> []" by auto
  then have "(a, b) \<in> set pairs" and p: "has_prefix (leading_whitespace l) a"
    unfolding find_Some_iff by (metis nth_mem, auto split: if_splits simp: has_prefix_iff)
  then have b: "set b \<subseteq> set blanks" using assms(1) by auto
  have r: "reindent_line pairs l = b @ drop (length a) l" using f l by (simp add: reindent_line_def Let_def)
  have "unindented (b @ drop (length a) l) = unindented (drop (length a) l)"
    using b by (simp add: unindented_def subset_iff dropWhile_append2)
  moreover have "nl \<notin> set b" using b by (auto simp: blanks_def tab_def nl_def)
  ultimately show ?thesis using unindented_drop [OF p] assms(2) r by (auto dest: in_set_dropD)
qed (use assms(2) in \<open>auto simp: reindent_line_def Let_def\<close>)

lemma reindent_keeps_text: "same_but_indent new (reindent_renderer content old new sp)"
proof -
  define pairs where "pairs = longest_first (indent_pairs [] (zip (fst (old_needle_lines old))
      (split_on nl (slice content (fst sp) (snd sp)))))"
  have b: "\<forall>(a, b) \<in> set pairs. set b \<subseteq> set blanks"
    using indent_pairs_blank unfolding pairs_def longest_first_set by fastforce
  note l = reindent_line_unindented [OF b split_on_no_sep]
  have "split_on nl (join [nl] (map (reindent_line pairs) (split_on nl new))) = map (reindent_line pairs) (split_on nl new)"
    by (rule split_on_join) (use l in \<open>auto simp del: reindent_line_def\<close>)
  then show ?thesis using l
    by (simp add: reindent_renderer_def pairs_def [symmetric] same_but_indent_def Let_def)
qed

section \<open>The ladder against its specification\<close>

definition rung_accepts :: "string \<Rightarrow> string \<Rightarrow> string \<Rightarrow> bool" where
  "rung_accepts strategy old found \<longleftrightarrow>
     (if strategy = ''exact'' then found = old
      else if strategy = ''whitespace-tolerant'' then same_lines line_eq_rstrip old found
      else if strategy = ''indentation-tolerant'' then same_lines line_eq_trim old found
      else if strategy = ''punctuation-tolerant''
        then (if nl \<in> set old then same_lines line_eq_fold old found else same_folded old found)
      else same_anchors old found)"

text \<open>The rungs that compare indentation as well put the new string in as it is; the others put it in with
  the indentation of the place, and change nothing else in it.\<close>

definition rung_replaces :: "string \<Rightarrow> string \<Rightarrow> string \<Rightarrow> string \<Rightarrow> string \<Rightarrow> bool" where
  "rung_replaces strategy old new found repl \<longleftrightarrow>
     (if strategy \<in> {''exact'', ''whitespace-tolerant''} \<or> (strategy = ''punctuation-tolerant'' \<and> nl \<notin> set old)
      then repl = new
      else repl = reindent_renderer found old new (0, length found) \<and> same_but_indent new repl)"

text \<open>An edit of \<open>k\<close> places that all match \<open>old\<close> and are replaced in the sense of a rung.\<close>

definition edit_spec :: "string \<Rightarrow> string \<Rightarrow> string \<Rightarrow> string \<Rightarrow> string \<Rightarrow> nat \<Rightarrow> bool" where
  "edit_spec strategy old new content updated k \<longleftrightarrow> (\<exists>ps rest. content = before_edit ps rest
     \<and> updated = after_edit ps rest \<and> length ps = k
     \<and> (\<forall>(gap, found, repl) \<in> set ps. rung_accepts strategy old found \<and> rung_replaces strategy old new found repl))"

lemma slice_whole: "slice s 0 (length s) = s"
  by (simp add: slice_def)

lemma reindent_of_found:
  "rung_replaces strategy old new (slice content (fst sp) (snd sp)) (reindent_renderer content old new sp)"
  if "strategy \<in> {''indentation-tolerant'', ''block-anchor''} \<or> (strategy = ''punctuation-tolerant'' \<and> nl \<in> set old)"
proof -
  have "reindent_renderer (slice content (fst sp) (snd sp)) old new (0, length (slice content (fst sp) (snd sp)))
      = reindent_renderer content old new sp"
    by (simp add: reindent_renderer_def slice_whole)
  then show ?thesis using that reindent_keeps_text by (auto simp: rung_replaces_def)
qed

lemma rung_spec:
  assumes "\<exists>ps rest. content = before_edit ps rest \<and> updated = after_edit ps rest \<and> length ps = k
     \<and> (\<forall>(gap, found, repl) \<in> set ps. accepts found
          \<and> (\<exists>sp. found = slice content (fst sp) (snd sp) \<and> repl = render sp))"
    and "\<And>found. accepts found \<Longrightarrow> rung_accepts strategy old found"
    and "\<And>sp. rung_replaces strategy old new (slice content (fst sp) (snd sp)) (render sp)"
  shows "edit_spec strategy old new content updated k"
proof -
  obtain ps rest where p: "content = before_edit ps rest" "updated = after_edit ps rest" "length ps = k"
      and a: "\<forall>(gap, found, repl) \<in> set ps. accepts found
          \<and> (\<exists>sp. found = slice content (fst sp) (snd sp) \<and> repl = render sp)" using assms(1) by blast
  have "\<forall>(gap, found, repl) \<in> set ps. rung_accepts strategy old found \<and> rung_replaces strategy old new found repl"
    using a assms(2,3) by fastforce
  then show ?thesis using p unfolding edit_spec_def by blast
qed

lemma rung_splices:
  "edit_spec ''exact'' old new content (fst (replace_spans content (exact_spans content old) (\<lambda>_. new)))
     (length (exact_spans content old))"
  "edit_spec ''whitespace-tolerant'' old new content
     (fst (replace_spans content (line_window_spans content old line_eq_rstrip) (\<lambda>_. new)))
     (length (line_window_spans content old line_eq_rstrip))"
  "edit_spec ''indentation-tolerant'' old new content
     (fst (replace_spans content (line_window_spans content old line_eq_trim) (reindent_renderer content old new)))
     (length (line_window_spans content old line_eq_trim))"
  "nl \<in> set old \<Longrightarrow> edit_spec ''punctuation-tolerant'' old new content
     (fst (replace_spans content (line_window_spans content old line_eq_fold) (reindent_renderer content old new)))
     (length (line_window_spans content old line_eq_fold))"
  "nl \<notin> set old \<Longrightarrow> edit_spec ''punctuation-tolerant'' old new content
     (fst (replace_spans content (folded_fragment_spans content old) (\<lambda>_. new)))
     (length (folded_fragment_spans content old))"
  "edit_spec ''block-anchor'' old new content
     (fst (replace_spans content (block_anchor_spans content old) (reindent_renderer content old new)))
     (length (block_anchor_spans content old))"
proof -
  note spec = rung_accepts_def rung_replaces_def
  show "edit_spec ''exact'' old new content (fst (replace_spans content (exact_spans content old) (\<lambda>_. new)))
     (length (exact_spans content old))"
    by (rule rung_spec [OF exact.splice]) (simp_all add: spec)
  show "edit_spec ''whitespace-tolerant'' old new content
     (fst (replace_spans content (line_window_spans content old line_eq_rstrip) (\<lambda>_. new)))
     (length (line_window_spans content old line_eq_rstrip))"
    by (rule rung_spec [OF line_windows.splice]) (simp_all add: spec)
  show "edit_spec ''indentation-tolerant'' old new content
     (fst (replace_spans content (line_window_spans content old line_eq_trim) (reindent_renderer content old new)))
     (length (line_window_spans content old line_eq_trim))"
    by (rule rung_spec [OF line_windows.splice]) (simp_all add: rung_accepts_def reindent_of_found)
  show "edit_spec ''punctuation-tolerant'' old new content
     (fst (replace_spans content (line_window_spans content old line_eq_fold) (reindent_renderer content old new)))
     (length (line_window_spans content old line_eq_fold))" if "nl \<in> set old"
    by (rule rung_spec [OF line_windows.splice]) (simp_all add: rung_accepts_def reindent_of_found that)
  show "edit_spec ''punctuation-tolerant'' old new content
     (fst (replace_spans content (folded_fragment_spans content old) (\<lambda>_. new)))
     (length (folded_fragment_spans content old))" if "nl \<notin> set old"
    by (rule rung_spec [OF fragment.splice]) (simp_all add: spec that)
  show "edit_spec ''block-anchor'' old new content
     (fst (replace_spans content (block_anchor_spans content old) (reindent_renderer content old new)))
     (length (block_anchor_spans content old))"
    by (rule rung_spec [OF block_anchor.splice]) (simp_all add: rung_accepts_def reindent_of_found)
qed

lemma stages_splice:
  assumes "st \<in> set (ladder_stages content old new)"
  shows "edit_spec (fst st) old new content (fst (replace_spans content (fst (snd st)) (snd (snd st))))
    (length (fst (snd st)))"
  using assms unfolding ladder_stages_def list.set insert_iff empty_iff
  by (elim disjE) (simp_all only: rung_splices fst_conv snd_conv if_True if_False split: if_split, auto simp: rung_splices)

lemma ladder_once_spec:
  assumes "ladder_once content old new every = Inr (updated, oc)"
  shows "edit_spec (eo_strategy oc) old new content updated (eo_updated oc) \<and> 1 \<le> eo_updated oc
    \<and> (every \<or> eo_updated oc = 1) \<and> \<not> eo_unescaped oc"
proof -
  obtain name sps render where f: "find (\<lambda>(name, sps, render). sps \<noteq> []) (ladder_stages content old new)
      = Some (name, sps, render)"
    using assms by (auto simp: ladder_once_def split: option.splits)
  have mem: "(name, sps, render) \<in> set (ladder_stages content old new)" and ne: "sps \<noteq> []"
    using f unfolding find_Some_iff by (metis nth_mem, auto)
  have k: "every \<or> length sps = 1" using assms f ne
    by (cases sps) (auto simp: ladder_once_def split: if_splits)
  have "updated = fst (replace_spans content sps render)" and "eo_strategy oc = name"
    and "eo_updated oc = length sps" and "\<not> eo_unescaped oc"
    using assms f by (auto simp: ladder_once_def Let_def split: if_splits prod.splits)
  then show ?thesis using stages_splice [OF mem] k ne by (cases sps) simp_all
qed

lemma replace_all_index:
  "old \<noteq> [] \<Longrightarrow> replace_all s old new = (case index_of s old of
      None \<Rightarrow> s | Some i \<Rightarrow> take i s @ new @ replace_all (drop (i + length old) s) old new)"
proof (induction s)
  case (Cons c s)
  show ?case
  proof (cases "has_prefix (c # s) old")
    case True
    then show ?thesis using Cons.prems by simp
  next
    case False
    then show ?thesis using Cons by (cases "index_of s old") auto
  qed
qed simp

lemma replace_from_spans_from:
  "s = drop off content \<Longrightarrow> old \<noteq> [] \<Longrightarrow>
     replace_from content off (spans_from old off s) (\<lambda>_. new) = replace_all s old new"
proof (induction old off s rule: spans_from.induct)
  case (1 old off s)
  show ?case
  proof (cases "index_of s old")
    case None
    then have "spans_from old off s = []" by (simp add: spans_from.simps [of old off s])
    then show ?thesis using None "1.prems" by (simp add: replace_all_index [of old])
  next
    case (Some i)
    have "slice content off (off + i) = take i s" using "1.prems" by (simp add: slice_def)
    moreover have "replace_from content (off + i + length old)
        (spans_from old (off + i + length old) (drop (i + length old) s)) (\<lambda>_. new)
      = replace_all (drop (i + length old) s) old new"
      by (rule "1.IH" [OF "1.prems"(2) Some]) (use "1.prems" in \<open>simp_all add: ac_simps\<close>)
    ultimately show ?thesis using Some "1.prems"(2)
      by (simp add: spans_from.simps [of old off s] replace_all_index [of old s])
  qed
qed

lemma exact_spans_Nil: "old \<noteq> [] \<Longrightarrow> exact_spans content old = [] \<longleftrightarrow> \<not> contains content old"
  by (auto simp: exact_spans_def spans_from.simps [of old 0 content] contains_def split: option.splits)

section \<open>Properties\<close>

text \<open>C34. A successful edit replaces \<open>k \<ge> 1\<close> places, one unless all are asked for, each of which
  matches the old string (or its unescaped form) the way the reported rung allows: byte for byte, line by
  line up to blanks or punctuation, as a part of one line up to punctuation, or by its first and last line.
  Each place gets the new string as it is, or with the indentation of the place and nothing else changed;
  every byte outside these places is kept, in order.\<close>

theorem ladder_edits_matches_only:
  assumes "apply_ladder_edit content old new every = Inr (updated, oc)"
  shows "(if eo_unescaped oc
      then edit_spec (eo_strategy oc) (repair_over_escaping old) (repair_over_escaping new) content updated (eo_updated oc)
      else edit_spec (eo_strategy oc) old new content updated (eo_updated oc))
    \<and> 1 \<le> eo_updated oc \<and> (every \<or> eo_updated oc = 1)"
proof (cases "ladder_once content old new every")
  case (Inr r)
  then have "ladder_once content old new every = Inr (updated, oc)"
    using assms by (simp add: apply_ladder_edit_def)
  from ladder_once_spec [OF this] show ?thesis by simp
next
  case (Inl e)
  then obtain oc' where "ladder_once content (repair_over_escaping old) (repair_over_escaping new) every
      = Inr (updated, oc')" and "oc = oc'\<lparr>eo_unescaped := True\<rparr>"
    using assms by (auto simp: apply_ladder_edit_def Let_def split: ladder_error.splits sum.splits if_splits)
  with ladder_once_spec [OF this(1)] show ?thesis by simp
qed

text \<open>When the old string occurs in the content, the ladder is \<open>strings.ReplaceAll\<close> by the exact
  rung: its result is that of replacing all occurrences, which without \<open>replace_all\<close> are one; several
  occurrences without \<open>replace_all\<close> are refused with their number.\<close>

theorem exact_edit_is_replace_all:
  assumes "old \<noteq> []" and "contains content old"
  shows "apply_ladder_edit content old new every =
    (let k = length (exact_spans content old) in
     if k > 1 \<and> \<not> every then Inl (MatchAmbiguous k ''exact'')
     else (let (first, final) = replaced_line_range (replace_all content old new)
                  (fst (hd (exact_spans content old))) (length new)
           in Inr (replace_all content old new, \<lparr>eo_updated = k, eo_strategy = ''exact'',
                eo_first_line = first, eo_last_line = final, eo_unescaped = False\<rparr>)))"
proof -
  have ne: "exact_spans content old \<noteq> []" using assms by (simp add: exact_spans_Nil)
  obtain sp sps where sp: "exact_spans content old = sp # sps" using ne by (cases "exact_spans content old") auto
  have "fst sp \<le> length content"
    using exact.ordered [of content old] wf_spans_slice_bounds [of 0 "length content" "sp # sps" sp] sp by simp
  then have "replace_spans content (exact_spans content old) (\<lambda>_. new) = (replace_all content old new, fst sp)"
    using replace_from_spans_from [of content 0 content old new] assms(1) sp
    by (simp add: replace_spans_def exact_spans_def slice_def)
  then have r: "replace_spans content (sp # sps) (\<lambda>_. new) = (replace_all content old new, fst sp)"
    by (simp only: sp)
  have f: "find (\<lambda>(name, sps, render). sps \<noteq> []) (ladder_stages content old new)
      = Some (''exact'', sp # sps, \<lambda>_. new)" by (simp add: ladder_stages_def sp)
  show ?thesis unfolding apply_ladder_edit_def ladder_once_def f sp
    by (cases "length (sp # sps) > 1 \<and> \<not> every") (auto simp: r Let_def split: prod.split)
qed

theorem ladder_edits_matches_only_witness:
  "let old = ''if x {'' @ [nl] @ ''  y()'' @ [nl]; content = ''if x {'' @ [nl, tab] @ ''y()'' @ [nl] @ ''}'' in
   \<exists>updated oc. apply_ladder_edit content old ''z'' False = Inr (updated, oc)
     \<and> edit_spec ''indentation-tolerant'' old ''z'' content updated 1"
proof -
  let ?old = "''if x {'' @ [nl] @ ''  y()'' @ [nl]" and ?content = "''if x {'' @ [nl, tab] @ ''y()'' @ [nl] @ ''}''"
  let ?r = "apply_ladder_edit ?content ?old ''z'' False"
  have c: "case ?r of Inl _ \<Rightarrow> False | Inr (u, oc) \<Rightarrow> eo_strategy oc = ''indentation-tolerant''
      \<and> eo_updated oc = 1 \<and> \<not> eo_unescaped oc" by code_simp
  then obtain u oc where r: "?r = Inr (u, oc)" by (auto split: sum.splits)
  show ?thesis unfolding Let_def using ladder_edits_matches_only [OF r] c r by auto
qed

theorem exact_edit_is_replace_all_witness:
  "map_sum id fst (apply_ladder_edit ''a-b-a'' ''a'' ''cc'' True) = Inr ''cc-b-cc''
   \<and> apply_ladder_edit ''a-b-a'' ''a'' ''cc'' False = Inl (MatchAmbiguous 2 ''exact'')"
proof -
  have n: "''a'' \<noteq> ([] :: string)" and c: "contains ''a-b-a'' ''a''" by (simp, code_simp)
  have r: "replace_all ''a-b-a'' ''a'' ''cc'' = ''cc-b-cc''" by code_simp
  have k: "exact_spans ''a-b-a'' ''a'' = [(0, 1), (4, 5)]" by code_simp
  show ?thesis using exact_edit_is_replace_all [OF n c, of "''cc''", unfolded Let_def r k]
    by (simp split: prod.split)
qed

end
