(* ===== verification/Fs_Tools.thy ===== *)
theory Fs_Tools
  imports Fs_Paths Edit_Match Go_Time
begin

text \<open>
  Model of the file tools of \<open>src/tools/fs\<close>: \<open>read_file\<close> (\<open>read.go\<close>), \<open>edit_file\<close> (\<open>edit.go\<close>),
  \<open>write_file\<close> (\<open>write.go\<close>) and the navigation tools (\<open>nav.go\<close>). The operating system is a record of
  calls on a world; those that only look at it do not change it. A directory walk is over the tree
  that the system shows.
\<close>

section \<open>The operating system\<close>

record file_info =
  fi_symlink :: bool
  fi_dir :: bool
  fi_size :: nat
  fi_mtime :: go_time
  fi_perm :: nat

record 'w os_calls =
  os_abs :: "string \<Rightarrow> go_error + string"
  os_lstat :: "string \<Rightarrow> 'w \<Rightarrow> go_error + file_info"
  os_stat :: "string \<Rightarrow> 'w \<Rightarrow> go_error + file_info"
  os_read :: "string \<Rightarrow> 'w \<Rightarrow> go_error + bytes"
  os_eval :: "string \<Rightarrow> 'w \<Rightarrow> go_error + string"
  os_mkdir :: "string \<Rightarrow> 'w \<Rightarrow> go_error option \<times> 'w"
  os_create_temp :: "string \<Rightarrow> 'w \<Rightarrow> (go_error + string) \<times> 'w"
  os_put :: "string \<Rightarrow> bytes \<Rightarrow> 'w \<Rightarrow> go_error option \<times> 'w"
  os_sync :: "string \<Rightarrow> 'w \<Rightarrow> go_error option \<times> 'w"
  os_close :: "string \<Rightarrow> 'w \<Rightarrow> go_error option \<times> 'w"
  os_chmod :: "string \<Rightarrow> nat \<Rightarrow> 'w \<Rightarrow> go_error option \<times> 'w"
  os_rename :: "string \<Rightarrow> string \<Rightarrow> 'w \<Rightarrow> go_error option \<times> 'w"
  os_remove :: "string \<Rightarrow> 'w \<Rightarrow> 'w"

section \<open>Reading\<close>

definition default_read_max_bytes :: nat where "default_read_max_bytes = 80 * 1024"
definition default_read_max_lines :: nat where "default_read_max_lines = 2000"
definition max_read_file_bytes :: nat where "max_read_file_bytes = 20 * 1048576"

text \<open>The lines of a file; a trailing newline does not start another one.\<close>

definition file_lines :: "string \<Rightarrow> string list" where
  "file_lines content = (let ls = split_on nl content in if last ls = [] then butlast ls else ls)"

text \<open>How many lines of the window fit into the byte cap, joining newlines included.\<close>

fun fit_lines :: "nat \<Rightarrow> nat \<Rightarrow> nat \<Rightarrow> string list \<Rightarrow> nat" where
  "fit_lines limit kept used [] = kept"
| "fit_lines limit kept used (l # ls) =
     (let need = length l + (if kept > 0 then 1 else 0) in
      if used + need > limit then kept else fit_lines limit (kept + 1) (used + need) ls)"

text \<open>\<open>lines[offset-1 : end]\<close>: the end is computed in \<open>int\<close>, where it wraps for a huge line limit; a negative
  end is no slice and panics, which is \<open>None\<close>.\<close>

definition page_end :: "nat \<Rightarrow> nat \<Rightarrow> nat \<Rightarrow> int" where
  "page_end count offset line_limit =
     (let final = wrap64 (int (offset - 1) + int line_limit) in if final > int count then int count else final)"

definition page_window :: "string \<Rightarrow> nat \<Rightarrow> nat \<Rightarrow> string list option" where
  "page_window content offset line_limit =
     (let final = page_end (length (file_lines content)) offset line_limit in
      if final < int (offset - 1) then None
      else Some (slice (file_lines content) (offset - 1) (nat final)))"

definition page_kept :: "nat \<Rightarrow> string list \<Rightarrow> nat" where
  "page_kept byte_limit window = fit_lines byte_limit 0 0 window"

definition continue_note :: "nat \<Rightarrow> nat \<Rightarrow> nat \<Rightarrow> string" where
  "continue_note offset final count = [nl, nl] @ ''[Showing lines '' @ itoa offset @ ''-'' @ itoa final @ '' of ''
     @ itoa count @ ''. Use offset='' @ itoa (final + 1) @ '' to continue.]''"

definition page_lines :: "string \<Rightarrow> nat \<Rightarrow> nat \<Rightarrow> nat \<Rightarrow> string option" where
  "page_lines content offset line_limit byte_limit =
     (let count = length (file_lines content) in
      if count = 0 then Some []
      else if offset > count then
        Some (''[Offset '' @ itoa offset @ '' is beyond the end of the file ('' @ itoa count @ '' lines total).]'')
      else case page_window content offset line_limit of
        None \<Rightarrow> None
      | Some window \<Rightarrow>
          (let kept = page_kept byte_limit window in
           if kept = 0 \<and> length (hd window) > byte_limit then
             Some (take byte_limit (hd window) @ [nl] @ ''[Line '' @ itoa offset @ '' is '' @ itoa (length (hd window))
               @ '' bytes, exceeds the '' @ itoa byte_limit
               @ ''-byte cap; shown truncated. Use shell_exec with sed/cut for the rest.]'')
           else
             (let kept = (if kept = 0 then 1 else kept);
                  body = join [nl] (take kept window); final = offset - 1 + kept
              in Some (if offset = 1 \<and> final = count then body else body @ continue_note offset final count))))"

record read_options =
  ro_work_dir :: string
  ro_blocklist :: "string list"
  ro_max_bytes :: int

record read_args =
  ra_path :: string
  ra_offset :: int
  ra_max_lines :: int
  ra_max_bytes :: int

definition blocked_error :: "string \<Rightarrow> string \<Rightarrow> go_error" where
  "blocked_error p pat = new_error (''path '' @ quote p @ '' is blocked by sensitive-file pattern '' @ quote pat
     @ ''; do not retry'')"

text \<open>The result, which is missing when the paging panics (nothing recovers from it), and the ledger.\<close>

definition read_file :: "'w os_calls \<Rightarrow> read_options \<Rightarrow> read_args \<Rightarrow> read_ledger \<Rightarrow> 'w
    \<Rightarrow> tool_result option \<times> read_ledger" where
  "read_file os opts a ledger w =
     (case blocklist_match (ro_blocklist opts) (ra_path a) of
        Some pat \<Rightarrow> (Some (failed_result (blocked_error (ra_path a) pat)), ledger)
      | None \<Rightarrow>
          (case safe_join (os_abs os) (ro_work_dir opts) (ra_path a) of
             Inl e \<Rightarrow> (Some (failed_result e), ledger)
           | Inr resolved \<Rightarrow>
               (let cap = (if ro_max_bytes opts \<le> 0 then default_read_max_bytes else nat (ro_max_bytes opts));
                    byte_limit = (if ra_max_bytes a \<le> 0 then cap else nat (ra_max_bytes a));
                    line_limit = (if ra_max_lines a \<le> 0 then default_read_max_lines else nat (ra_max_lines a));
                    offset = (if ra_offset a \<le> 0 then 1 else nat (ra_offset a))
                in case os_stat os resolved w of
                     Inl e \<Rightarrow> (Some (failed_result e), ledger)
                   | Inr info \<Rightarrow>
                       (if fi_size info > max_read_file_bytes then
                          (Some (failed_result (new_error (''file is '' @ itoa (fi_size info) @ '' bytes, exceeds the ''
                             @ itoa max_read_file_bytes
                             @ ''-byte read_file limit; use shell_exec with grep/sed/head to extract what you need''))),
                           ledger)
                        else case os_read os resolved w of
                          Inl e \<Rightarrow> (Some (failed_result e), ledger)
                        | Inr data \<Rightarrow>
                            (map_option text_result (page_lines data offset line_limit byte_limit),
                             record_read resolved (fi_mtime info) ledger)))))"

section \<open>Writing\<close>

definition default_write_max_bytes :: nat where "default_write_max_bytes = 1024 * 1024"

text \<open>Write, sync, close and chmod of the temporary file, then the rename; a failure removes it.\<close>

definition atomic_write_file :: "'w os_calls \<Rightarrow> string \<Rightarrow> string \<Rightarrow> bytes \<Rightarrow> nat \<Rightarrow> 'w \<Rightarrow> go_error option \<times> 'w" where
  "atomic_write_file os parent target data perm w =
     (case os_create_temp os parent w of
        (Inl e, w1) \<Rightarrow> (Some e, w1)
      | (Inr tmp, w1) \<Rightarrow>
          (case os_put os tmp data w1 of
             (Some e, w2) \<Rightarrow> (Some e, os_remove os tmp (snd (os_close os tmp w2)))
           | (None, w2) \<Rightarrow>
               (case os_sync os tmp w2 of
                  (Some e, w3) \<Rightarrow> (Some e, os_remove os tmp (snd (os_close os tmp w3)))
                | (None, w3) \<Rightarrow>
                    (case os_close os tmp w3 of
                       (Some e, w4) \<Rightarrow> (Some e, os_remove os tmp w4)
                     | (None, w4) \<Rightarrow>
                         (case os_chmod os tmp perm w4 of
                            (Some e, w5) \<Rightarrow> (Some e, os_remove os tmp w5)
                          | (None, w5) \<Rightarrow>
                              (case os_rename os tmp target w5 of
                                 (Some e, w6) \<Rightarrow> (Some e, os_remove os tmp w6)
                               | (None, w6) \<Rightarrow> (None, w6)))))))"

definition path_within :: "(string \<Rightarrow> go_error + string) \<Rightarrow> string \<Rightarrow> string \<Rightarrow> bool" where
  "path_within absolute base candidate =
     (case (absolute base, absolute candidate) of
        (Inr b, Inr c) \<Rightarrow>
          (case rel_path b c of
             None \<Rightarrow> False
           | Some rel \<Rightarrow> rel = ''.'' \<or> (rel \<noteq> ''..'' \<and> \<not> has_prefix rel (''..'' @ [slash])))
      | _ \<Rightarrow> False)"

definition dir_name :: "string \<Rightarrow> string" where
  "dir_name p = clean_path (take (case last_index_of p [slash] of None \<Rightarrow> 0 | Some i \<Rightarrow> Suc i) p)"

definition fs_error :: "string \<Rightarrow> string \<Rightarrow> string \<Rightarrow> go_error" where
  "fs_error a p b = new_error (''fs: '' @ a @ '' '' @ quote p @ b)"

text \<open>The nearest existing ancestor of the parent must be a directory inside the work directory; the
  result is the list of the missing ones, the deepest first. \<open>n\<close> bounds the number of ancestors by
  the length of the path.\<close>

fun existing_parent :: "'w os_calls \<Rightarrow> string \<Rightarrow> string \<Rightarrow> nat \<Rightarrow> string \<Rightarrow> 'w \<Rightarrow> go_error + string list" where
  "existing_parent os base parent 0 cur w = Inl (fs_error ''no existing parent for'' parent [])"
| "existing_parent os base parent (Suc n) cur w =
     (case os_lstat os cur w of
        Inr info \<Rightarrow>
          (if \<not> fi_symlink info \<and> \<not> fi_dir info then Inl (fs_error ''parent'' cur '' is not a directory'')
           else case os_eval os cur w of
             Inl e \<Rightarrow> Inl e
           | Inr ev \<Rightarrow>
               (if \<not> path_within (os_abs os) base ev
                then Inl (fs_error ''parent'' cur (if fi_symlink info then '' escapes work directory through symlink''
                                                   else '' escapes work directory''))
                else Inr []))
      | Inl e \<Rightarrow>
          (if \<not> err_is KNotExist e then Inl e
           else
             (let next = dir_name cur in
              if next = cur then Inl (fs_error ''no existing parent for'' parent [])
              else map_sum id (\<lambda>ms. cur # ms) (existing_parent os base parent n next w))))"

fun make_parents :: "'w os_calls \<Rightarrow> string \<Rightarrow> string list \<Rightarrow> 'w \<Rightarrow> go_error option \<times> 'w" where
  "make_parents os base [] w = (None, w)"
| "make_parents os base (dir # dirs) w =
     (case os_mkdir os dir w of
        (e, w1) \<Rightarrow>
          (if (case e of None \<Rightarrow> False | Some x \<Rightarrow> \<not> err_is KExist x) then (e, w1)
           else case os_lstat os dir w1 of
             Inl e \<Rightarrow> (Some e, w1)
           | Inr info \<Rightarrow>
               (if fi_symlink info \<or> \<not> fi_dir info
                then (Some (fs_error ''parent'' dir '' is not a safe directory''), w1)
                else case os_eval os dir w1 of
                  Inl e \<Rightarrow> (Some e, w1)
                | Inr ev \<Rightarrow>
                    (if \<not> path_within (os_abs os) base ev
                     then (Some (fs_error ''parent'' dir '' escapes work directory''), w1)
                     else make_parents os base dirs w1))))"

definition ensure_safe_write_parent :: "'w os_calls \<Rightarrow> string \<Rightarrow> string \<Rightarrow> 'w \<Rightarrow> go_error option \<times> 'w" where
  "ensure_safe_write_parent os work_dir parent w =
     (case os_eval os work_dir w of
        Inl e \<Rightarrow> (Some (wrap_error ''fs: resolve work directory symlinks: '' e []), w)
      | Inr base0 \<Rightarrow>
          (case os_abs os base0 of
             Inl e \<Rightarrow> (Some e, w)
           | Inr base \<Rightarrow>
               (case existing_parent os base parent (Suc (length parent)) parent w of
                  Inl e \<Rightarrow> (Some e, w)
                | Inr missing \<Rightarrow> make_parents os base (rev missing) w)))"

record write_args =
  wa_path :: string
  wa_content :: string
  wa_overwrite :: bool

record write_policy =
  wp_allow_overwrite :: bool
  wp_max_bytes :: nat
  wp_blocklist :: "string list"

definition refresh_ledger :: "'w os_calls \<Rightarrow> string \<Rightarrow> read_ledger \<Rightarrow> 'w \<Rightarrow> read_ledger" where
  "refresh_ledger os target ledger w =
     (case os_stat os target w of Inl _ \<Rightarrow> ledger | Inr info \<Rightarrow> record_read target (fi_mtime info) ledger)"

text \<open>What may be at the target of a write.\<close>

definition write_target_check :: "write_policy \<Rightarrow> write_args \<Rightarrow> string \<Rightarrow> go_error + file_info \<Rightarrow> go_error + bool" where
  "write_target_check policy a rel x =
     (case x of
        Inr info \<Rightarrow>
          (if fi_symlink info then Inl (fs_error ''target'' rel '' is a symlink; refusing to write'')
           else if fi_dir info then Inl (fs_error ''target'' rel '' is a directory; refusing to write'')
           else if \<not> wp_allow_overwrite policy \<or> \<not> wa_overwrite a
             then Inl (fs_error ''target'' rel '' exists; set overwrite=true and enable AllowOverwrite to replace it'')
           else Inr True)
      | Inl e \<Rightarrow> if err_is KNotExist e then Inr False else Inl e)"

definition write_file :: "'w os_calls \<Rightarrow> string \<Rightarrow> write_args \<Rightarrow> write_policy \<Rightarrow> read_ledger \<Rightarrow> 'w
    \<Rightarrow> (go_error + tool_result) \<times> read_ledger \<times> 'w" where
  "write_file os work_dir a policy ledger w =
     (let rel = trim_space (wa_path a) in
      if rel = [] then (Inl (new_error ''fs: path is required''), ledger, w)
      else case blocklist_match (wp_blocklist policy) rel of
        Some pat \<Rightarrow> (Inl (blocked_error rel pat), ledger, w)
      | None \<Rightarrow>
          (if length (wa_content a) > wp_max_bytes policy then
             (Inl (new_error (''fs: content is '' @ itoa (length (wa_content a)) @ '' bytes, exceeds max ''
                @ itoa (wp_max_bytes policy))), ledger, w)
           else case safe_join (os_abs os) work_dir rel of
             Inl e \<Rightarrow> (Inl e, ledger, w)
           | Inr target \<Rightarrow>
               (case ensure_safe_write_parent os work_dir (dir_name target) w of
                  (Some e, w1) \<Rightarrow> (Inl e, ledger, w1)
                | (None, w1) \<Rightarrow>
                    (case write_target_check policy a rel (os_lstat os target w1) of
                       Inl e \<Rightarrow> (Inl e, ledger, w1)
                     | Inr overwritten \<Rightarrow>
                         (case atomic_write_file os (dir_name target) target (wa_content a) 420 w1 of
                            (Some e, w2) \<Rightarrow> (Inl e, ledger, w2)
                          | (None, w2) \<Rightarrow>
                              (Inr \<lparr>res_content = [text_part (''wrote '' @ itoa (length (wa_content a))
                                       @ '' bytes to '' @ clean_path rel)],
                                 res_is_error = False,
                                 res_meta = [(''path'', MStr (clean_path rel)),
                                   (''bytes'', MInt (int (length (wa_content a)))),
                                   (''overwritten'', MBool overwritten)]\<rparr>,
                               refresh_ledger os target ledger w2, w2))))))"

definition write_permission_target :: "(bytes \<Rightarrow> write_args option) \<Rightarrow> tool_call \<Rightarrow> string" where
  "write_permission_target decode c =
     (case decode (tc_args c) of
        None \<Rightarrow> ''write_file''
      | Some a \<Rightarrow>
          (if trim_space (wa_path a) = [] then ''write_file''
           else trim_space (wa_path a) @ (if wa_overwrite a then '' (overwrite)'' else [])))"

section \<open>Editing\<close>

record edit_args =
  ea_path :: string
  ea_old :: string
  ea_new :: string
  ea_all :: bool

record edit_policy =
  ep_max_bytes :: nat
  ep_blocklist :: "string list"

definition crlf :: string where "crlf = [cr, nl]"
definition bom :: string where "bom = map byte [239, 187, 191]"

text \<open>A file's text without its byte order mark and its carriage returns, and the way back.\<close>

record file_form =
  ff_bom :: bool
  ff_crlf :: bool

definition form_of :: "string \<Rightarrow> file_form" where
  "form_of content = \<lparr>ff_bom = has_prefix content bom, ff_crlf = contains (trim_prefix content bom) crlf\<rparr>"

definition to_lf :: "string \<Rightarrow> string" where
  "to_lf s = replace_all s crlf [nl]"

definition text_of_file :: "string \<Rightarrow> string" where
  "text_of_file content = to_lf (trim_prefix content bom)"

definition to_crlf :: "string \<Rightarrow> string" where
  "to_crlf s = replace_all s [nl] crlf"

definition restore_form :: "file_form \<Rightarrow> string \<Rightarrow> string" where
  "restore_form ff s = (if ff_bom ff then bom else []) @ (if ff_crlf ff then to_crlf s else s)"

definition edit_summary :: "edit_outcome \<Rightarrow> string \<Rightarrow> nat \<Rightarrow> string" where
  "edit_summary oc rel n = ''made '' @ itoa (eo_updated oc) @ '' replacement''
     @ (if eo_updated oc \<noteq> 1 then ''s'' else []) @ '' in '' @ rel @ '' ('' @ itoa n @ '' bytes)''
     @ (if eo_strategy oc \<noteq> ''exact'' \<or> eo_unescaped oc
        then '' via '' @ eo_strategy oc
          @ (if eo_unescaped oc then '' after unescaping over-escaped sequences'' else [])
          @ '' match '' @ map byte [226, 128, 148]
          @ '' old_string did not match the file byte-for-byte; base future edits on the updated lines below''
        else [])"

definition edit_result :: "edit_outcome \<Rightarrow> string \<Rightarrow> string \<Rightarrow> nat \<Rightarrow> tool_result" where
  "edit_result oc rel updated n =
     \<lparr>res_content = [text_part (edit_summary oc rel n @ [nl, nl] @ ''updated lines '' @ itoa (eo_first_line oc)
          @ ''-'' @ itoa (eo_last_line oc) @ '':'' @ [nl]
          @ edit_snippet updated (eo_first_line oc) (eo_last_line oc) 2 24 2000)],
      res_is_error = False,
      res_meta = [(''path'', MStr rel), (''replacements'', MInt (int (eo_updated oc))),
        (''bytes'', MInt (int n)), (''strategy'', MStr (eo_strategy oc))]\<rparr>"

definition edit_target_check :: "edit_policy \<Rightarrow> string \<Rightarrow> go_error + file_info \<Rightarrow> go_error + file_info" where
  "edit_target_check policy rel x =
     (case x of
        Inl e \<Rightarrow> Inl (if err_is KNotExist e
           then fs_error ''target'' rel '' does not exist; use write_file to create it'' else e)
      | Inr info \<Rightarrow>
          (if fi_symlink info then Inl (fs_error ''target'' rel '' is a symlink; refusing to edit'')
           else if fi_dir info then Inl (fs_error ''target'' rel '' is a directory; refusing to edit'')
           else if fi_size info > ep_max_bytes policy
             then Inl (fs_error ''file'' rel ('' is '' @ itoa (fi_size info) @ '' bytes, exceeds max ''
               @ itoa (ep_max_bytes policy)))
           else Inr info))"

definition edit_file :: "'w os_calls \<Rightarrow> string \<Rightarrow> edit_args \<Rightarrow> edit_policy \<Rightarrow> read_ledger \<Rightarrow> 'w
    \<Rightarrow> (go_error + tool_result) \<times> read_ledger \<times> 'w" where
  "edit_file os work_dir a policy ledger w =
     (let rel = trim_space (ea_path a) in
      if rel = [] then (Inl (new_error ''fs: path is required''), ledger, w)
      else if ea_old a = [] then (Inl (new_error ''fs: old_string is required and must be non-empty''), ledger, w)
      else if ea_old a = ea_new a then
        (Inl (new_error ''fs: old_string and new_string are identical; nothing to change''), ledger, w)
      else case blocklist_match (ep_blocklist policy) rel of
        Some pat \<Rightarrow> (Inl (blocked_error rel pat), ledger, w)
      | None \<Rightarrow>
          (case safe_join (os_abs os) work_dir rel of
             Inl e \<Rightarrow> (Inl e, ledger, w)
           | Inr target \<Rightarrow>
               (case edit_target_check policy rel (os_lstat os target w) of
                  Inl e \<Rightarrow> (Inl e, ledger, w)
                | Inr info \<Rightarrow>
                    (if stale ledger target (fi_mtime info) then
                       (Inl (new_error (''fs: '' @ quote rel @ '' changed on disk after you last read it (external edit, formatter, or git operation); re-read the file and base the edit on its current content'')),
                        ledger, w)
                     else if contains_lazy_placeholder (ea_new a) \<and> \<not> contains_lazy_placeholder (ea_old a) then
                       (Inl (new_error ''fs: new_string contains a placeholder like \"rest of code unchanged\"; write the complete replacement text instead''),
                        ledger, w)
                     else case os_read os target w of
                       Inl e \<Rightarrow> (Inl e, ledger, w)
                     | Inr content \<Rightarrow>
                         (case apply_ladder_edit (text_of_file content) (to_lf (ea_old a)) (to_lf (ea_new a)) (ea_all a) of
                            Inl e \<Rightarrow> (Inl (new_error (''fs: '' @ ladder_error_text e @ '' in '' @ quote rel)), ledger, w)
                          | Inr (updated, oc) \<Rightarrow>
                              (let bytes = restore_form (form_of content) updated in
                               if length bytes > ep_max_bytes policy then
                                 (Inl (new_error (''fs: edited content is '' @ itoa (length bytes)
                                    @ '' bytes, exceeds max '' @ itoa (ep_max_bytes policy))), ledger, w)
                               else case atomic_write_file os (dir_name target) target bytes
                                      (if fi_perm info = 0 then 420 else fi_perm info) w of
                                 (Some e, w1) \<Rightarrow> (Inl e, ledger, w1)
                               | (None, w1) \<Rightarrow>
                                   (Inr (edit_result oc (clean_path rel) updated (length bytes)),
                                    refresh_ledger os target ledger w1, w1)))))))"

definition edit_permission_target :: "(bytes \<Rightarrow> edit_args option) \<Rightarrow> tool_call \<Rightarrow> string" where
  "edit_permission_target decode c =
     (case decode (tc_args c) of
        None \<Rightarrow> ''edit_file''
      | Some a \<Rightarrow>
          (if trim_space (ea_path a) = [] then ''edit_file''
           else trim_space (ea_path a) @ (if ea_all a then '' (replace_all)'' else [])))"

section \<open>Paging\<close>

lemma fit_lines_used:
  "0 < kept \<Longrightarrow> used \<le> limit \<Longrightarrow> kept \<le> fit_lines limit kept used ls
     \<and> fit_lines limit kept used ls \<le> kept + length ls
     \<and> used + line_bytes (take (fit_lines limit kept used ls - kept) ls) \<le> limit"
proof (induction ls arbitrary: kept used)
  case (Cons l ls)
  show ?case
  proof (cases "used + (length l + 1) > limit")
    case False
    define r where "r = fit_lines limit (kept + 1) (used + (length l + 1)) ls"
    have r: "fit_lines limit kept used (l # ls) = r" using False Cons.prems(1) by (simp add: r_def Let_def)
    have ih: "kept + 1 \<le> r" "r \<le> kept + 1 + length ls"
        "used + (length l + 1) + line_bytes (take (r - (kept + 1)) ls) \<le> limit"
      using Cons.IH [of "kept + 1" "used + (length l + 1)"] False by (simp_all add: r_def)
    have "r - kept = Suc (r - (kept + 1))" using ih(1) by simp
    then have "take (r - kept) (l # ls) = l # take (r - (kept + 1)) ls" by simp
    then show ?thesis unfolding r using ih by simp
  qed (use Cons.prems in \<open>simp add: Let_def\<close>)
qed simp

lemma fit_lines_first:
  fixes ls :: "string list"
  assumes "length l \<le> limit"
  defines "r \<equiv> fit_lines limit 0 0 (l # ls)"
  shows "1 \<le> r" and "r \<le> length (l # ls)" and "length (join [nl] (take r (l # ls))) \<le> limit"
proof -
  have r: "r = fit_lines limit 1 (length l) ls" using assms by simp
  have f: "1 \<le> r" "r \<le> 1 + length ls" "length l + line_bytes (take (r - 1) ls) \<le> limit"
    using fit_lines_used [of 1 "length l" limit ls] assms(1) r by auto
  then show "1 \<le> r" and "r \<le> length (l # ls)" by simp_all
  have "take r (l # ls) = l # take (r - 1) ls" using f(1) by (cases r) auto
  then show "length (join [nl] (take r (l # ls))) \<le> limit"
    using f(3) length_join [of "l # take (r - 1) ls" nl] by simp
qed

lemma take_slice: "take k (slice ls a b) = slice ls a (min b (a + k))"
proof -
  have "min k (b - a) = min b (a + k) - a" by (auto simp: min_def)
  then show ?thesis by (simp add: slice_def)
qed

lemma length_slice [simp]: "length (slice ls a b) = min (b - a) (length ls - a)"
  by (simp add: slice_def min.commute)

text \<open>The window of a page: the requested lines, or a panic when the end wraps.\<close>

lemma wrap64_over: "2 ^ 63 \<le> n \<Longrightarrow> n < 2 ^ 64 \<Longrightarrow> wrap64 n = n - 2 ^ 64"
proof -
  assume n: "2 ^ 63 \<le> n" "n < 2 ^ 64"
  have "(n + 2 ^ 63) mod 2 ^ 64 = (n + 2 ^ 63 - 2 ^ 64) mod 2 ^ 64" by (simp only: minus_mod_self2)
  also have "\<dots> = n + 2 ^ 63 - 2 ^ 64" using n by (intro mod_pos_pos_trivial) simp_all
  finally show ?thesis by (simp add: wrap64_def signed_take_bit_eq_take_bit_shift take_bit_eq_mod)
qed

lemma page_window_eq:
  assumes "1 \<le> offset" and "offset \<le> length (file_lines content)" and "length (file_lines content) < 2 ^ 63"
    and "line_limit < 2 ^ 63"
  shows "page_window content offset line_limit = (if 2 ^ 63 \<le> offset - 1 + line_limit then None
    else Some (slice (file_lines content) (offset - 1) (min (offset - 1 + line_limit) (length (file_lines content)))))"
proof -
  define top where "top = offset - 1 + line_limit"
  have s: "int (offset - 1) + int line_limit = int top" by (simp only: top_def of_nat_add)
  have b: "top < 2 ^ 64" "offset - 1 < length (file_lines content)" using assms by (simp_all add: top_def)
  have "page_window content offset line_limit = (if 2 ^ 63 \<le> top then None
    else Some (slice (file_lines content) (offset - 1) (min top (length (file_lines content)))))"
  proof (cases "2 ^ 63 \<le> top")
    case True
    then have "wrap64 (int top) = int top - 2 ^ 64" using wrap64_over [of "int top"] b by simp
    then have e: "page_end (length (file_lines content)) offset line_limit = int top - 2 ^ 64"
      using b by (simp only: page_end_def s Let_def) simp
    have "int top - 2 ^ 64 < int (offset - 1)" using b by simp
    then show ?thesis using True by (simp only: page_window_def Let_def e if_True)
  next
    case False
    have w: "wrap64 (int top) = int top" using wrap64_id [of "int top"] False by simp
    have e: "page_end (length (file_lines content)) offset line_limit = int (min top (length (file_lines content)))"
      by (simp only: page_end_def s w Let_def) (simp add: min_def)
    have "offset - 1 \<le> min top (length (file_lines content))" using b by (simp add: top_def)
    then have "\<not> min top (length (file_lines content)) < offset - 1" by (simp only: not_less)
    then show ?thesis using False by (simp only: page_window_def Let_def e nat_int of_nat_less_iff if_False)
  qed
  then show ?thesis by (simp only: top_def)
qed

text \<open>A page of a file whose lines fit the byte cap.\<close>

lemma page_spec:
  assumes "1 \<le> line_limit" and "1 \<le> offset" and "offset \<le> length (file_lines content)"
    and "\<forall>l \<in> set (file_lines content). length l \<le> byte_limit"
    and "length (file_lines content) < 2 ^ 63" and "line_limit < 2 ^ 63" and "offset - 1 + line_limit < 2 ^ 63"
  obtains w kept final where "page_window content offset line_limit = Some w"
    and "kept = page_kept byte_limit w" and "final = offset - 1 + kept"
    and "1 \<le> kept" and "kept \<le> line_limit" and "final \<le> length (file_lines content)"
    and "length (join [nl] (slice (file_lines content) (offset - 1) final)) \<le> byte_limit"
    and "page_lines content offset line_limit byte_limit = Some (join [nl] (slice (file_lines content) (offset - 1) final)
      @ (if offset = 1 \<and> final = length (file_lines content) then []
         else continue_note offset final (length (file_lines content))))"
proof -
  let ?ls = "file_lines content"
  let ?w = "slice ?ls (offset - 1) (min (offset - 1 + line_limit) (length ?ls))"
  define kept where "kept = page_kept byte_limit ?w"
  define final where "final = offset - 1 + kept"
  have pw: "page_window content offset line_limit = Some ?w"
    using page_window_eq [OF assms(2,3,5,6)] assms(7) by simp
  have lw: "length ?w = min line_limit (length ?ls - (offset - 1))"
    using assms(2,3) by simp
  then have "0 < length ?w" using assms(1-3) by simp
  then have "?w \<noteq> []" by (metis length_greater_0_conv)
  then obtain l ws where w: "?w = l # ws" by (cases ?w) auto
  have "l \<in> set ?ls" using set_slice [of ?ls "offset - 1"] w
    by (metis (no_types, lifting) list.set_intros(1) subsetD)
  then have l: "length l \<le> byte_limit" using assms(4) by blast
  note f = fit_lines_first [OF l, of ws, folded w, folded page_kept_def, folded kept_def]
  have k: "1 \<le> kept" "kept \<le> line_limit" and fin: "final \<le> length ?ls"
    using f(1,2) lw assms(2,3) by (auto simp: final_def)
  have "final \<le> min (offset - 1 + line_limit) (length ?ls)"
    using fin k(2) by (simp add: final_def)
  then have t: "take kept ?w = slice ?ls (offset - 1) final"
    unfolding take_slice final_def by (simp only: min.absorb2)
  have b: "length (join [nl] (slice ?ls (offset - 1) final)) \<le> byte_limit" using f(3) t w by simp
  have e: "kept \<noteq> 0" "length ?ls \<noteq> 0" "\<not> offset > length ?ls" using k(1) assms(2,3) by auto
  have "page_lines content offset line_limit byte_limit = Some (join [nl] (slice ?ls (offset - 1) final)
      @ (if offset = 1 \<and> final = length ?ls then [] else continue_note offset final (length ?ls)))"
    by (simp only: page_lines_def Let_def pw option.case kept_def [symmetric] final_def [symmetric] e t
        simp_thms if_False) simp
  then show thesis using that [OF pw kept_def final_def k fin b] by blast
qed

text \<open>A reader that follows the offsets of the notes.\<close>

fun follow_pages :: "nat \<Rightarrow> string \<Rightarrow> nat \<Rightarrow> nat \<Rightarrow> nat \<Rightarrow> string list" where
  "follow_pages 0 content offset line_limit byte_limit = []"
| "follow_pages (Suc n) content offset line_limit byte_limit =
     (if offset > length (file_lines content) then []
      else case page_window content offset line_limit of
        None \<Rightarrow> []
      | Some window \<Rightarrow>
          (let final = offset - 1 + page_kept byte_limit window
           in slice (file_lines content) (offset - 1) final
              @ follow_pages n content (final + 1) line_limit byte_limit))"

lemma follow_pages_all:
  assumes "1 \<le> line_limit" and "\<forall>l \<in> set (file_lines content). length l \<le> byte_limit"
    and "length (file_lines content) + line_limit \<le> 2 ^ 63"
  shows "1 \<le> offset \<Longrightarrow> length (file_lines content) < offset + n \<Longrightarrow>
    follow_pages n content offset line_limit byte_limit = drop (offset - 1) (file_lines content)"
proof (induction n arbitrary: offset)
  case (Suc n)
  show ?case
  proof (cases "offset > length (file_lines content)")
    case False
    then have b: "offset \<le> length (file_lines content)" "length (file_lines content) < 2 ^ 63" "line_limit < 2 ^ 63"
        "offset - 1 + line_limit < 2 ^ 63" using assms(1,3) Suc.prems(1) by simp_all
    obtain w kept final where p: "page_window content offset line_limit = Some w" "kept = page_kept byte_limit w"
        "final = offset - 1 + kept" "1 \<le> kept"
      using page_spec [OF assms(1) Suc.prems(1) b(1) assms(2) b(2-4)] .
    have "follow_pages n content (final + 1) line_limit byte_limit = drop final (file_lines content)"
      using Suc.IH [of "final + 1"] Suc.prems p by simp
    then show ?thesis using False p slice_drop [of "offset - 1" final "file_lines content"]
      by (simp add: Let_def)
  qed simp
qed simp

section \<open>Line endings\<close>

fun only_crlf :: "string \<Rightarrow> bool" where
  "only_crlf [] \<longleftrightarrow> True"
| "only_crlf [c] \<longleftrightarrow> c \<noteq> nl"
| "only_crlf (c # d # s) \<longleftrightarrow> (if c = cr \<and> d = nl then only_crlf s else c \<noteq> nl \<and> only_crlf (d # s))"

lemma crlf_prefix: "has_prefix (c # d # s) crlf \<longleftrightarrow> c = cr \<and> d = nl" "\<not> has_prefix [c] crlf"
  by (auto simp: has_prefix_def crlf_def)

lemma nl_prefix: "has_prefix (c # s) [nl] \<longleftrightarrow> c = nl"
  by (auto simp: has_prefix_def)

lemma nl_not_cr: "nl \<noteq> cr" by (simp add: go_chars)

lemma to_lf_simps:
  "to_lf [] = []" "to_lf [c] = [c]"
  "to_lf (c # d # s) = (if c = cr \<and> d = nl then nl # to_lf s else c # to_lf (d # s))"
  by (simp_all add: to_lf_def crlf_prefix) (simp_all add: crlf_def)

lemma to_crlf_simps [simp]:
  "to_crlf [] = []" "to_crlf (c # s) = (if c = nl then [cr, nl] else [c]) @ to_crlf s"
  by (simp_all add: to_crlf_def nl_prefix) (simp add: crlf_def)

lemma only_crlf_roundtrip: "only_crlf s \<Longrightarrow> to_crlf (to_lf s) = s"
proof (induction s rule: only_crlf.induct)
  case (3 c d s)
  then show ?case by (auto simp: to_lf_simps nl_not_cr split: if_splits)
qed (auto simp: to_lf_simps)

lemma only_crlf_Cons: "c \<noteq> nl \<Longrightarrow> c \<noteq> cr \<or> s = [] \<or> hd s \<noteq> nl \<Longrightarrow> only_crlf (c # s) = only_crlf s"
  by (cases s) auto

lemma to_crlf_hd: "to_crlf s = [] \<or> hd (to_crlf s) \<noteq> nl"
  by (cases s) (auto simp: nl_not_cr [symmetric])

lemma only_crlf_image: "only_crlf (to_crlf s)"
proof (induction s)
  case (Cons c s)
  then show ?case using only_crlf_Cons [of c "to_crlf s"] to_crlf_hd [of s] by auto
qed simp

lemma crlf_nonempty [simp]: "crlf \<noteq> []"
  by (simp add: crlf_def)

lemma no_crlf_to_lf: "\<not> contains s crlf \<Longrightarrow> to_lf s = s"
  by (simp add: to_lf_def contains_def replace_all_index)

section \<open>Properties\<close>

text \<open>C37. When no line exceeds the byte cap and the line limit is not so large that offset and limit leave
  the 64-bit range, a reader that follows the offsets named by the notes gets every line of the file
  exactly once, in order; each page holds at least one line, at most the line limit and at most the byte
  limit, and says where it stopped. A page whose end leaves that range panics.\<close>

theorem paging_covers_file:
  assumes "1 \<le> line_limit" and "line_limit < 2 ^ 63" and "length (file_lines content) < 2 ^ 63"
    and "\<forall>l \<in> set (file_lines content). length l \<le> byte_limit"
  shows "(length (file_lines content) + line_limit \<le> 2 ^ 63 \<longrightarrow>
        follow_pages (length (file_lines content)) content 1 line_limit byte_limit = file_lines content)
    \<and> (\<forall>offset. 1 \<le> offset \<and> offset \<le> length (file_lines content) \<longrightarrow>
        (if 2 ^ 63 \<le> offset - 1 + line_limit then page_lines content offset line_limit byte_limit = None
         else \<exists>final. offset \<le> final \<and> final < offset + line_limit \<and> final \<le> length (file_lines content)
          \<and> length (join [nl] (slice (file_lines content) (offset - 1) final)) \<le> byte_limit
          \<and> page_lines content offset line_limit byte_limit
            = Some (join [nl] (slice (file_lines content) (offset - 1) final)
                @ (if offset = 1 \<and> final = length (file_lines content) then []
                   else continue_note offset final (length (file_lines content))))))"
proof (intro conjI allI impI)
  show "follow_pages (length (file_lines content)) content 1 line_limit byte_limit = file_lines content"
    if "length (file_lines content) + line_limit \<le> 2 ^ 63"
    using follow_pages_all [OF assms(1,4) that, of 1 "length (file_lines content)"] by simp
next
  fix offset
  assume o: "1 \<le> offset \<and> offset \<le> length (file_lines content)"
  note o1 = o [THEN conjunct1] and o2 = o [THEN conjunct2]
  show "if 2 ^ 63 \<le> offset - 1 + line_limit then page_lines content offset line_limit byte_limit = None
      else \<exists>final. offset \<le> final \<and> final < offset + line_limit \<and> final \<le> length (file_lines content)
      \<and> length (join [nl] (slice (file_lines content) (offset - 1) final)) \<le> byte_limit
      \<and> page_lines content offset line_limit byte_limit
        = Some (join [nl] (slice (file_lines content) (offset - 1) final)
            @ (if offset = 1 \<and> final = length (file_lines content) then []
               else continue_note offset final (length (file_lines content))))"
  proof (cases "2 ^ 63 \<le> offset - 1 + line_limit")
    case True
    then have w: "page_window content offset line_limit = None" using page_window_eq [OF o1 o2 assms(3,2)] by simp
    have "length (file_lines content) \<noteq> 0" "\<not> offset > length (file_lines content)" using o1 o2 by auto
    then show ?thesis unfolding if_P [OF True] by (simp only: page_lines_def Let_def w if_False option.case)
  next
    case False
    then have r: "offset - 1 + line_limit < 2 ^ 63" by simp
    obtain w kept final where p: "final = offset - 1 + kept" "1 \<le> kept" "kept \<le> line_limit"
        "final \<le> length (file_lines content)"
        "length (join [nl] (slice (file_lines content) (offset - 1) final)) \<le> byte_limit"
        "page_lines content offset line_limit byte_limit = Some (join [nl] (slice (file_lines content) (offset - 1) final)
          @ (if offset = 1 \<and> final = length (file_lines content) then []
             else continue_note offset final (length (file_lines content))))"
      using page_spec [OF assms(1) o1 o2 assms(4,3,2) r] by blast
    have "offset \<le> final" "final < offset + line_limit" using p(1-3) o1 by arith+
    then show ?thesis unfolding if_not_P [OF False] using p(4-6) by blast
  qed
qed

theorem paging_covers_file_witness:
  "follow_pages 3 (''ab'' @ [nl] @ ''c'' @ [nl] @ ''def'' @ [nl]) 1 9 4 = [''ab'', ''c'', ''def'']
   \<and> page_lines (''ab'' @ [nl] @ ''c'' @ [nl] @ ''def'' @ [nl]) 2 (2 ^ 63 - 1) 4 = None"
proof -
  let ?s = "''ab'' @ [nl] @ ''c'' @ [nl] @ ''def'' @ [nl]"
  have l: "file_lines ?s = [''ab'', ''c'', ''def'']" by code_simp
  have h: "\<forall>l \<in> set (file_lines ?s). length l \<le> 4" "length (file_lines ?s) < 2 ^ 63" unfolding l by simp_all
  have n: "length (file_lines ?s) = 3" unfolding l by simp
  have "follow_pages (length (file_lines ?s)) ?s 1 9 4 = file_lines ?s"
    using paging_covers_file [of 9 ?s 4] h n by simp
  moreover have "page_lines ?s 2 (2 ^ 63 - 1) 4 = None"
    using paging_covers_file [of "2 ^ 63 - 1" ?s 4, THEN conjunct2, THEN spec, of 2] h n by simp
  ultimately show ?thesis unfolding n by (simp only: l simp_thms)
qed

text \<open>C38. What \<open>edit_file\<close> does to the world: it fails and leaves it alone, or the only thing that
  happens is one atomic write to the checked path, of a file that is not blocked, not a link, not a
  directory and not changed since it was last read, of the text the ladder made of its content in the
  form the file had, within the size limit.\<close>

theorem edit_file_effect:
  assumes "edit_file os dir a policy ledger w = (r, ledger', w')"
  shows "(w' = w \<and> ledger' = ledger \<and> (\<exists>e. r = Inl e))
    \<or> (\<exists>target info content updated oc res.
        blocklist_match (ep_blocklist policy) (trim_space (ea_path a)) = None
      \<and> safe_join (os_abs os) dir (trim_space (ea_path a)) = Inr target
      \<and> os_lstat os target w = Inr info \<and> \<not> fi_symlink info \<and> \<not> fi_dir info
      \<and> \<not> stale ledger target (fi_mtime info) \<and> os_read os target w = Inr content
      \<and> apply_ladder_edit (text_of_file content) (to_lf (ea_old a)) (to_lf (ea_new a)) (ea_all a) = Inr (updated, oc)
      \<and> length (restore_form (form_of content) updated) \<le> ep_max_bytes policy
      \<and> atomic_write_file os (dir_name target) target (restore_form (form_of content) updated)
          (if fi_perm info = 0 then 420 else fi_perm info) w = (res, w')
      \<and> (case res of None \<Rightarrow> \<exists>x. r = Inr x | Some e \<Rightarrow> r = Inl e))"
proof (cases "w' = w \<and> ledger' = ledger \<and> (\<exists>e. r = Inl e)")
  case False
  note d = assms [unfolded edit_file_def Let_def]
  have g: "blocklist_match (ep_blocklist policy) (trim_space (ea_path a)) = None"
    using d False by (auto split: if_splits option.splits)
  then obtain target where t: "safe_join (os_abs os) dir (trim_space (ea_path a)) = Inr target"
    using d False by (auto split: if_splits sum.splits)
  obtain info where i: "edit_target_check policy (trim_space (ea_path a)) (os_lstat os target w) = Inr info"
    using d False g t by (auto split: if_splits sum.splits)
  have i': "os_lstat os target w = Inr info \<and> \<not> fi_symlink info \<and> \<not> fi_dir info"
    using i by (auto simp: edit_target_check_def split: sum.splits if_splits)
  have s: "\<not> stale ledger target (fi_mtime info)" using d False g t i by (auto split: if_splits)
  then obtain content where c: "os_read os target w = Inr content"
    using d False g t i by (auto split: if_splits sum.splits)
  obtain updated oc where l: "apply_ladder_edit (text_of_file content) (to_lf (ea_old a)) (to_lf (ea_new a)) (ea_all a)
      = Inr (updated, oc)"
    using d False g t i s c by (auto split: if_splits sum.splits)
  let ?b = "restore_form (form_of content) updated"
  have m: "length ?b \<le> ep_max_bytes policy"
    using d False g t i s c l by (auto split: if_splits)
  obtain res w1 where w: "atomic_write_file os (dir_name target) target ?b
      (if fi_perm info = 0 then 420 else fi_perm info) w = (res, w1)" by fastforce
  have "w1 = w' \<and> (case res of None \<Rightarrow> \<exists>x. r = Inr x | Some e \<Rightarrow> r = Inl e)"
    using d False g t i s c l m w by (auto split: if_splits option.splits)
  then show ?thesis using g t i' s c l m w by blast
qed blast

text \<open>A system with one file and one temporary file.\<close>

definition sample_os :: "(bytes \<times> bytes) os_calls" where
  "sample_os = (let info = (\<lambda>p w. Inr \<lparr>fi_symlink = False, fi_dir = False, fi_size = length (fst w), fi_mtime = 7, fi_perm = 0\<rparr>)
     in \<lparr>os_abs = Inr, os_lstat = info, os_stat = info, os_read = (\<lambda>p w. Inr (fst w)), os_eval = (\<lambda>p w. Inr p),
       os_mkdir = (\<lambda>p w. (None, w)), os_create_temp = (\<lambda>p w. (Inr ''t'', w)),
       os_put = (\<lambda>p d w. (None, (fst w, d))), os_sync = (\<lambda>p w. (None, w)), os_close = (\<lambda>p w. (None, w)),
       os_chmod = (\<lambda>p m w. (None, w)), os_rename = (\<lambda>p q w. (None, (snd w, []))), os_remove = (\<lambda>p w. w)\<rparr>)"

definition sample_edit :: "(go_error + tool_result) \<times> read_ledger \<times> bytes \<times> bytes" where
  "sample_edit = edit_file sample_os ''/w'' \<lparr>ea_path = ''a.txt'', ea_old = ''b'', ea_new = ''x'', ea_all = False\<rparr>
     \<lparr>ep_max_bytes = 100, ep_blocklist = default_blocklist\<rparr> (Some []) (''abc'', [])"

theorem edit_file_effect_witness:
  "snd (snd sample_edit) = (''axc'', []) \<and> (\<exists>updated oc. apply_ladder_edit ''abc'' ''b'' ''x'' False = Inr (updated, oc))"
proof -
  have w: "snd (snd sample_edit) = (''axc'', [])" by code_simp
  have t: "text_of_file ''abc'' = ''abc''" "to_lf ''b'' = ''b''" "to_lf ''x'' = ''x''" by code_simp+
  have e: "sample_edit = (fst sample_edit, fst (snd sample_edit), snd (snd sample_edit))" by simp
  show ?thesis
    using edit_file_effect [OF e [unfolded sample_edit_def]] w
    unfolding sample_edit_def [symmetric] by (auto simp: sample_os_def Let_def t)
qed

text \<open>C39. The form of a file (byte order mark, carriage returns) is restored exactly when the file has no
  CRLF at all or no newline but those of CRLFs: otherwise even text that the edit did not touch
  changes, since every lone newline of a file that has a CRLF anywhere becomes a CRLF.\<close>

theorem form_restored_iff:
  "restore_form (form_of content) (text_of_file content) = content
     \<longleftrightarrow> \<not> contains (trim_prefix content bom) crlf \<or> only_crlf (trim_prefix content bom)"
proof -
  let ?t = "trim_prefix content bom"
  have c: "content = (if ff_bom (form_of content) then bom else []) @ ?t"
    by (auto simp: form_of_def trim_prefix_def has_prefix_def) (metis append_take_drop_id)
  have "restore_form (form_of content) (text_of_file content) = content
      \<longleftrightarrow> (if contains ?t crlf then to_crlf (to_lf ?t) else to_lf ?t) = ?t"
    by (subst (3) c) (simp add: restore_form_def text_of_file_def form_of_def)
  also have "\<dots> \<longleftrightarrow> \<not> contains ?t crlf \<or> only_crlf ?t"
    using only_crlf_roundtrip [of ?t] no_crlf_to_lf [of ?t] only_crlf_image [of "to_lf ?t"] by auto
  finally show ?thesis .
qed

theorem form_restored_iff_witness:
  "restore_form (form_of (''a'' @ crlf @ ''b'' @ [nl])) (text_of_file (''a'' @ crlf @ ''b'' @ [nl]))
     \<noteq> ''a'' @ crlf @ ''b'' @ [nl]"
proof -
  let ?c = "''a'' @ crlf @ ''b'' @ [nl]"
  have "contains (trim_prefix ?c bom) crlf" and "\<not> only_crlf (trim_prefix ?c bom)" by code_simp+
  then show ?thesis using form_restored_iff [of ?c] by blast
qed

end
