(* ===== verification/Fs_Nav.thy ===== *)
theory Fs_Nav
  imports Fs_Tools Project_Context
begin

text \<open>
  Model of \<open>src/tools/fs/nav.go\<close>: \<open>list_dir\<close>, \<open>find_files\<close> and \<open>grep\<close>. \<open>filepath.WalkDir\<close> visits the
  tree that the system shows, in the order of its entries; what cannot be read is not in the tree,
  as the visitors skip it. Compiling a regular expression is a parameter.
\<close>

section \<open>Trees\<close>

datatype dir_tree =
    TFile string bool "nat option" "bytes option"
  | TDir string "dir_tree list"

text \<open>A file: its name, whether it is a symbolic link, its size and its content when they can be read.\<close>

fun tree_name :: "dir_tree \<Rightarrow> string" where
  "tree_name (TFile n _ _ _) = n"
| "tree_name (TDir n _) = n"

text \<open>The walk: \<open>skip\<close> prunes a directory, \<open>visit\<close> sees a file and may stop everything (\<open>SkipAll\<close>).\<close>

fun walk :: "(string \<Rightarrow> string \<Rightarrow> bool) \<Rightarrow> (string \<Rightarrow> dir_tree \<Rightarrow> 's \<Rightarrow> 's \<times> bool) \<Rightarrow> string \<Rightarrow> dir_tree \<Rightarrow> 's \<Rightarrow> 's \<times> bool"
  and walk_entries :: "(string \<Rightarrow> string \<Rightarrow> bool) \<Rightarrow> (string \<Rightarrow> dir_tree \<Rightarrow> 's \<Rightarrow> 's \<times> bool) \<Rightarrow> string \<Rightarrow> dir_tree list \<Rightarrow> 's \<Rightarrow> 's \<times> bool"
where
  "walk skip visit p (TFile n l sz c) s = visit p (TFile n l sz c) s"
| "walk skip visit p (TDir n ts) s = (if skip p n then (s, False) else walk_entries skip visit p ts s)"
| "walk_entries skip visit p [] s = (s, False)"
| "walk_entries skip visit p (t # ts) s =
     (case walk skip visit (join_path p (tree_name t)) t s of
        (s', stop) \<Rightarrow> if stop then (s', True) else walk_entries skip visit p ts s')"

section \<open>The tools\<close>

definition default_nav_max_results :: nat where "default_nav_max_results = 200"
definition default_grep_max_file_bytes :: nat where "default_grep_max_file_bytes = 512 * 1024"

record nav_options =
  no_work_dir :: string
  no_max_results :: int
  no_blocklist :: "string list"
  no_grep_max_file_bytes :: int
  no_ignore :: "ignore_files option"
  no_class :: "string \<Rightarrow> rx option"

definition max_results :: "nav_options \<Rightarrow> nat" where
  "max_results o1 = (if no_max_results o1 > 0 then nat (no_max_results o1) else default_nav_max_results)"

definition grep_max_file_bytes :: "nav_options \<Rightarrow> nat" where
  "grep_max_file_bytes o1 = (if no_grep_max_file_bytes o1 > 0 then nat (no_grep_max_file_bytes o1)
     else default_grep_max_file_bytes)"

definition nav_work_dir :: "'w os_calls \<Rightarrow> string \<Rightarrow> 'w \<Rightarrow> go_error + string" where
  "nav_work_dir os dir0 w =
     (let dir = trim_space dir0 in
      if dir = [] then Inl (new_error ''fs: WorkDir is required'')
      else case os_abs os dir of
        Inl e \<Rightarrow> Inl (wrap_error ''fs: resolve WorkDir: '' e [])
      | Inr p \<Rightarrow>
          (case os_stat os p w of
             Inl e \<Rightarrow> Inl (wrap_error ''fs: stat WorkDir: '' e [])
           | Inr info \<Rightarrow> if fi_dir info then Inr p
               else Inl (fs_error ''WorkDir'' p '' is not a directory'')))"

definition nav_root :: "(string \<Rightarrow> go_error + string) \<Rightarrow> string \<Rightarrow> string \<Rightarrow> go_error + string" where
  "nav_root absolute work_dir p = safe_join absolute work_dir (if trim_space p = [] then ''.'' else p)"

definition rel_for_display :: "string \<Rightarrow> string \<Rightarrow> string" where
  "rel_for_display work_dir p = (case rel_path work_dir p of None \<Rightarrow> p | Some r \<Rightarrow> r)"

definition result_text :: "string list \<Rightarrow> bool \<Rightarrow> string \<Rightarrow> nat \<Rightarrow> string \<Rightarrow> string" where
  "result_text lines truncated what limit none_text =
     (let text = join [nl] lines
        @ (if truncated then nl # ''[... truncated at '' @ itoa limit @ '' '' @ what @ '']'' else [])
      in if text = [] then none_text else text)"

definition entry_line :: "dir_tree \<Rightarrow> string" where
  "entry_line t = (case t of
      TDir n _ \<Rightarrow> n @ ''/''
    | TFile n l sz _ \<Rightarrow> if l then n @ ''@'' else n @ [tab] @ (case sz of None \<Rightarrow> ''-1'' | Some k \<Rightarrow> itoa k))"

definition list_dir :: "nav_options \<Rightarrow> (string \<Rightarrow> go_error + string) \<Rightarrow> (string \<Rightarrow> go_error + dir_tree list) \<Rightarrow> string \<Rightarrow> bool \<Rightarrow> tool_result" where
  "list_dir opts absolute read_dir p every =
     (case nav_root absolute (no_work_dir opts) p of
        Inl e \<Rightarrow> failed_result e
      | Inr root \<Rightarrow>
          (case read_dir root of
             Inl e \<Rightarrow> failed_result e
           | Inr entries \<Rightarrow>
               (let shown = filter (\<lambda>t. (every \<or> \<not> has_prefix (tree_name t) ''.'')
                      \<and> blocklist_match (no_blocklist opts)
                          (rel_for_display (no_work_dir opts) (join_path root (tree_name t))) = None) entries;
                    limit = max_results opts
                in text_result (result_text (sort_strings (map entry_line (take limit shown)))
                     (length shown > limit) ''entries'' limit ''(empty)''))))"

text \<open>What both recursive tools do with a directory, and whether they look at a file at all.\<close>

definition skip_dir :: "nav_options \<Rightarrow> bool \<Rightarrow> string \<Rightarrow> string \<Rightarrow> string \<Rightarrow> bool" where
  "skip_dir opts include_ignored root p name \<longleftrightarrow> name = ''.git''
     \<or> (p \<noteq> root \<and> \<not> include_ignored
        \<and> ignored_path (no_class opts) (no_ignore opts) (rel_for_display (no_work_dir opts) p) True)"

definition file_visible :: "nav_options \<Rightarrow> bool \<Rightarrow> string \<Rightarrow> bool" where
  "file_visible opts include_ignored p \<longleftrightarrow>
     (let rel = rel_for_display (no_work_dir opts) p in
      blocklist_match (no_blocklist opts) rel = None
      \<and> (include_ignored \<or> \<not> ignored_path (no_class opts) (no_ignore opts) rel False))"

definition call_limit :: "nav_options \<Rightarrow> int \<Rightarrow> nat" where
  "call_limit opts n = (if 0 < n \<and> n < int (max_results opts) then nat n else max_results opts)"

definition find_visit :: "nav_options \<Rightarrow> bool \<Rightarrow> string \<Rightarrow> nat \<Rightarrow> string \<Rightarrow> dir_tree \<Rightarrow> string list \<times> bool \<Rightarrow> (string list \<times> bool) \<times> bool" where
  "find_visit opts include_ignored pat limit p t s =
     (case t of
        TDir _ _ \<Rightarrow> (s, False)
      | TFile n l _ _ \<Rightarrow>
          (if l \<or> \<not> path_match pat n \<or> \<not> file_visible opts include_ignored p then (s, False)
           else if length (fst s) \<ge> limit then ((fst s, True), True)
           else ((fst s @ [rel_for_display (no_work_dir opts) p], snd s), False)))"

definition find_files :: "nav_options \<Rightarrow> (string \<Rightarrow> go_error + string) \<Rightarrow> (string \<Rightarrow> dir_tree) \<Rightarrow> string \<Rightarrow> string \<Rightarrow> int \<Rightarrow> bool \<Rightarrow> tool_result" where
  "find_files opts absolute tree pat0 p n include_ignored =
     (let pat = trim_space pat0 in
      if pat = [] then failed_result (new_error ''fs: pattern is required'')
      else if parse_glob pat = None then
        failed_result (new_error ''fs: invalid glob pattern: syntax error in pattern'')
      else case nav_root absolute (no_work_dir opts) p of
        Inl e \<Rightarrow> failed_result e
      | Inr root \<Rightarrow>
          (let limit = call_limit opts n;
               ((found, truncated), _) = walk (skip_dir opts include_ignored root)
                 (find_visit opts include_ignored pat limit) root (tree root) ([], False)
           in text_result (result_text (sort_strings found) truncated ''matches'' limit ''(no matches)'')))"

text \<open>The matching lines of a file, numbered from one.\<close>

fun grep_lines :: "(string \<Rightarrow> bool) \<Rightarrow> nat \<Rightarrow> string \<Rightarrow> nat \<Rightarrow> string list \<Rightarrow> string list \<times> bool \<Rightarrow> (string list \<times> bool) \<times> bool" where
  "grep_lines matches limit rel i [] s = (s, False)"
| "grep_lines matches limit rel i (l # ls) s =
     (if \<not> matches l then grep_lines matches limit rel (i + 1) ls s
      else if length (fst s) \<ge> limit then ((fst s, True), True)
      else grep_lines matches limit rel (i + 1) ls
             (fst s @ [rel @ '':'' @ itoa i @ '':'' @ truncate_text l 500], snd s))"

definition grep_visit :: "nav_options \<Rightarrow> bool \<Rightarrow> (string \<Rightarrow> bool) \<Rightarrow> string \<Rightarrow> nat \<Rightarrow> string \<Rightarrow> dir_tree
    \<Rightarrow> string list \<times> bool \<Rightarrow> (string list \<times> bool) \<times> bool" where
  "grep_visit opts include_ignored matches glob limit p t s =
     (case t of
        TDir _ _ \<Rightarrow> (s, False)
      | TFile n l sz c \<Rightarrow>
          (if l \<or> (glob \<noteq> [] \<and> \<not> path_match glob n) \<or> \<not> file_visible opts include_ignored p then (s, False)
           else case (sz, c) of
             (Some k, Some data) \<Rightarrow>
               (if k > grep_max_file_bytes opts then (s, False)
                else grep_lines matches limit (rel_for_display (no_work_dir opts) p) 1 (split_on nl data) s)
           | _ \<Rightarrow> (s, False)))"

definition grep :: "nav_options \<Rightarrow> (string \<Rightarrow> string + (string \<Rightarrow> bool)) \<Rightarrow> (string \<Rightarrow> go_error + string) \<Rightarrow> (string \<Rightarrow> dir_tree)
    \<Rightarrow> string \<Rightarrow> string \<Rightarrow> string \<Rightarrow> int \<Rightarrow> bool \<Rightarrow> tool_result" where
  "grep opts compile absolute tree pat0 p glob0 n include_ignored =
     (let pat = trim_space pat0; glob = trim_space glob0 in
      if pat = [] then failed_result (new_error ''fs: pattern is required'')
      else case compile pat of
        Inl e \<Rightarrow> failed_result (new_error (''fs: invalid regular expression: '' @ e))
      | Inr matches \<Rightarrow>
          (if glob \<noteq> [] \<and> parse_glob glob = None then
             failed_result (new_error ''fs: invalid glob: syntax error in pattern'')
           else case nav_root absolute (no_work_dir opts) p of
             Inl e \<Rightarrow> failed_result e
           | Inr root \<Rightarrow>
               (let limit = call_limit opts n;
                    ((found, truncated), _) = walk (skip_dir opts include_ignored root)
                      (grep_visit opts include_ignored matches glob limit) root (tree root) ([], False)
                in text_result (result_text found truncated ''matches'' limit ''(no matches)''))))"

section \<open>What a walk keeps\<close>


lemma walk_keeps:
  "\<forall>p t s. I s \<longrightarrow> I (fst (visit p t s)) \<Longrightarrow> I s \<Longrightarrow> I (fst (walk skip visit p t s))"
  "\<forall>p t s. I s \<longrightarrow> I (fst (visit p t s)) \<Longrightarrow> I s \<Longrightarrow> I (fst (walk_entries skip visit p ts s))"
proof (induction skip visit p t s and skip visit p ts s rule: walk_walk_entries.induct)
  case (4 skip visit p t ts s)
  then show ?case by (cases "walk skip visit (join_path p (tree_name t)) t s") auto
qed auto

text \<open>A search result line stands for a file that the tool may show.\<close>

definition shown_file :: "nav_options \<Rightarrow> bool \<Rightarrow> string \<Rightarrow> bool" where
  "shown_file opts include_ignored rel \<longleftrightarrow> (\<exists>p. rel = rel_for_display (no_work_dir opts) p
     \<and> file_visible opts include_ignored p)"

definition shown_match :: "nav_options \<Rightarrow> bool \<Rightarrow> string \<Rightarrow> bool" where
  "shown_match opts include_ignored line \<longleftrightarrow> (\<exists>rel rest. shown_file opts include_ignored rel \<and> line = rel @ '':'' @ rest)"

lemma find_visit_keeps:
  "length (fst s) \<le> limit \<and> list_all (shown_file opts ign) (fst s) \<Longrightarrow>
     length (fst (fst (find_visit opts ign pat limit p t s))) \<le> limit
     \<and> list_all (shown_file opts ign) (fst (fst (find_visit opts ign pat limit p t s)))"
  by (auto simp: find_visit_def shown_file_def split: dir_tree.split)

lemma grep_lines_keeps:
  "shown_file opts ign rel \<Longrightarrow> length (fst s) \<le> limit \<and> list_all (shown_match opts ign) (fst s) \<Longrightarrow>
     length (fst (fst (grep_lines matches limit rel i ls s))) \<le> limit
     \<and> list_all (shown_match opts ign) (fst (fst (grep_lines matches limit rel i ls s)))"
proof (induction matches limit rel i ls s rule: grep_lines.induct)
  case (2 matches limit rel i l ls s)
  have "shown_match opts ign (rel @ '':'' @ itoa i @ '':'' @ truncate_text l 500)"
    using "2.prems"(1) by (auto simp: shown_match_def)
  then show ?case using 2 by auto
qed simp

lemma grep_visit_keeps:
  "length (fst s) \<le> limit \<and> list_all (shown_match opts ign) (fst s) \<Longrightarrow>
     length (fst (fst (grep_visit opts ign matches glob limit p t s))) \<le> limit
     \<and> list_all (shown_match opts ign) (fst (fst (grep_visit opts ign matches glob limit p t s)))"
  using grep_lines_keeps [of opts ign "rel_for_display (no_work_dir opts) p" s limit matches 1]
  by (auto simp: grep_visit_def shown_file_def split: dir_tree.split option.split)

text \<open>Both searches return at most the limit, and nothing from a blocked or an ignored file.\<close>

lemma searches_respect_policy:
  "let found = fst (fst (walk skip (find_visit opts ign pat limit) root t ([], False)))
   in length found \<le> limit \<and> list_all (shown_file opts ign) found"
  "let found = fst (fst (walk skip (grep_visit opts ign matches glob limit) root t ([], False)))
   in length found \<le> limit \<and> list_all (shown_match opts ign) found"
  using walk_keeps(1) [of "\<lambda>s. length (fst s) \<le> limit \<and> list_all (shown_file opts ign) (fst s)"
      "find_visit opts ign pat limit" "([], False)" skip root t]
    walk_keeps(1) [of "\<lambda>s. length (fst s) \<le> limit \<and> list_all (shown_match opts ign) (fst s)"
      "grep_visit opts ign matches glob limit" "([], False)" skip root t]
    find_visit_keeps grep_visit_keeps
  by (simp_all add: Let_def)

end
