(* ===== verification/Daemon_Permissions.thy ===== *)
theory Daemon_Permissions
  imports Tool_Calls Project_Context "HOL-Library.AList"
begin

text \<open>
  The permission half of \<open>src/daemon/server.go\<close>: remembered grants with their keys and ids, the host
  policy, the cache, persistence, forgetting, and the decision of one request. The maps from keys to
  grants are association lists; SHA-256 and the store of the grants are arguments. What the wait for a
  client ends with (an answer, the timeout, the end of the context) is an argument too; an answer that
  arrives while the request expires counts as the answer, as \<open>expirePermission\<close> makes it.
\<close>

section \<open>Grants and keys\<close>

record perm_grant =
  pg_id :: string
  pg_scope :: string
  pg_owner :: string
  pg_client :: string
  pg_session :: string
  pg_tool :: string
  pg_action :: string
  pg_target :: string
  pg_created :: go_time

record run_info =
  ri_id :: string
  ri_session :: string
  ri_client :: string

definition nul :: char where "nul = CHR 0x00"

text \<open>Fields joined by zero bytes.\<close>

definition key_of :: "string list \<Rightarrow> string" where
  "key_of parts = join [nul] parts"

definition owner_key :: "run_info option \<Rightarrow> permission_request \<Rightarrow> string" where
  "owner_key r req =
     (case r of
        Some x \<Rightarrow>
          (if trim_space (ri_client x) \<noteq> [] then ''client:'' @ trim_space (ri_client x)
           else if trim_space (ri_session x) \<noteq> [] then ''session:'' @ trim_space (ri_session x)
           else ''session:'' @ trim_space (pr_session req))
      | None \<Rightarrow> ''session:'' @ trim_space (pr_session req))"

definition session_key :: "run_info option \<Rightarrow> permission_request \<Rightarrow> string" where
  "session_key r req = key_of [owner_key r req, pr_session req, pr_tool req, pr_action req]"

definition target_key :: "run_info option \<Rightarrow> permission_request \<Rightarrow> string" where
  "target_key r req = key_of [session_key r req, pr_target req]"

definition forever_key :: "run_info option \<Rightarrow> permission_request \<Rightarrow> string" where
  "forever_key r req = key_of [owner_key r req, pr_tool req, pr_action req, pr_target req]"

definition grant_session_key :: "perm_grant \<Rightarrow> string" where
  "grant_session_key g = key_of [pg_owner g, pg_session g, pg_tool g, pg_action g]"

definition grant_target_key :: "perm_grant \<Rightarrow> string" where
  "grant_target_key g = key_of [grant_session_key g, pg_target g]"

definition grant_forever_key :: "perm_grant \<Rightarrow> string" where
  "grant_forever_key g = key_of [pg_owner g, pg_tool g, pg_action g, pg_target g]"

definition remember_scope_string :: "remember_scope \<Rightarrow> string" where
  "remember_scope_string s = (case s of RememberSession \<Rightarrow> ''session'' | RememberSessionTarget \<Rightarrow> ''session_target''
     | RememberForever \<Rightarrow> ''forever'' | RememberNever \<Rightarrow> ''never'')"

definition parse_remember_scope :: "string \<Rightarrow> remember_scope option" where
  "parse_remember_scope raw =
     (let s = trim_space raw in
      if s = [] \<or> s = ''never'' then Some RememberNever
      else if s = ''session'' then Some RememberSession
      else if s = ''session_target'' then Some RememberSessionTarget
      else if s = ''forever'' then Some RememberForever
      else None)"

definition grant_id :: "(string \<Rightarrow> string) \<Rightarrow> perm_grant \<Rightarrow> string" where
  "grant_id sha g =
     ''grant_'' @ sha (pg_scope g @ [nul] @
       (if pg_scope g = ''session'' then grant_session_key g
        else if pg_scope g = ''session_target'' then grant_target_key g
        else if pg_scope g = ''forever'' then grant_forever_key g
        else key_of [pg_owner g, pg_session g, pg_tool g, pg_action g, pg_target g]))"

definition grant_for :: "(string \<Rightarrow> string) \<Rightarrow> run_info option \<Rightarrow> permission_request \<Rightarrow> remember_scope \<Rightarrow> go_time
    \<Rightarrow> perm_grant" where
  "grant_for sha r req scope now =
     (let own = trim_space (pr_session req);
          g = \<lparr>pg_id = [], pg_scope = remember_scope_string scope, pg_owner = owner_key r req,
            pg_client = (case r of None \<Rightarrow> [] | Some x \<Rightarrow> trim_space (ri_client x)),
            pg_session = (case r of None \<Rightarrow> own | Some x \<Rightarrow> if own = [] then trim_space (ri_session x) else own),
            pg_tool = trim_space (pr_tool req), pg_action = trim_space (pr_action req),
            pg_target = trim_space (pr_target req), pg_created = now\<rparr>
      in g\<lparr>pg_id := grant_id sha g\<rparr>)"

definition normalize_grant :: "(string \<Rightarrow> string) \<Rightarrow> perm_grant \<Rightarrow> perm_grant" where
  "normalize_grant sha g =
     (let h = g\<lparr>pg_scope := trim_space (pg_scope g), pg_owner := trim_space (pg_owner g),
            pg_client := trim_space (pg_client g), pg_session := trim_space (pg_session g),
            pg_tool := trim_space (pg_tool g), pg_action := trim_space (pg_action g),
            pg_target := trim_space (pg_target g)\<rparr>
      in if pg_id h = [] then h\<lparr>pg_id := grant_id sha h\<rparr> else h)"

section \<open>The remembered decisions\<close>

record perm_cache =
  pc_session :: "(string \<times> perm_grant) list"
  pc_target :: "(string \<times> perm_grant) list"
  pc_forever :: "(string \<times> perm_grant) list"

definition no_grants :: perm_cache where
  "no_grants = \<lparr>pc_session = [], pc_target = [], pc_forever = []\<rparr>"

definition allowed :: "remember_scope \<Rightarrow> permission_decision" where
  "allowed scope = \<lparr>pd_allow = True, pd_reason = [], pd_remember = scope\<rparr>"

definition cached_permission :: "perm_cache \<Rightarrow> run_info option \<Rightarrow> permission_request \<Rightarrow> permission_decision option" where
  "cached_permission pc r req =
     (if map_of (pc_forever pc) (forever_key r req) \<noteq> None then Some (allowed RememberForever)
      else if map_of (pc_session pc) (session_key r req) \<noteq> None then Some (allowed RememberSession)
      else if map_of (pc_target pc) (target_key r req) \<noteq> None then Some (allowed RememberSessionTarget)
      else None)"

definition remembered :: "(string \<Rightarrow> string) \<Rightarrow> run_info option \<Rightarrow> permission_request \<Rightarrow> permission_decision
    \<Rightarrow> go_time \<Rightarrow> perm_cache \<Rightarrow> perm_cache" where
  "remembered sha r req d now pc =
     (if \<not> pd_allow d then pc
      else
        (let g = grant_for sha r req (pd_remember d) now in
         case pd_remember d of
           RememberSession \<Rightarrow> pc\<lparr>pc_session := AList.update (session_key r req) g (pc_session pc)\<rparr>
         | RememberSessionTarget \<Rightarrow> pc\<lparr>pc_target := AList.update (target_key r req) g (pc_target pc)\<rparr>
         | RememberForever \<Rightarrow> pc\<lparr>pc_forever := AList.update (forever_key r req) g (pc_forever pc)\<rparr>
         | RememberNever \<Rightarrow> pc))"

definition load_grant :: "(string \<Rightarrow> string) \<Rightarrow> perm_grant \<Rightarrow> perm_cache \<Rightarrow> perm_cache" where
  "load_grant sha g0 pc =
     (let g = normalize_grant sha g0 in
      if pg_id g = [] \<or> pg_owner g = [] \<or> pg_tool g = [] \<or> pg_action g = [] then pc
      else if pg_scope g = ''session'' then
        (if pg_session g \<noteq> [] then pc\<lparr>pc_session := AList.update (grant_session_key g) g (pc_session pc)\<rparr> else pc)
      else if pg_scope g = ''session_target'' then
        (if pg_session g \<noteq> [] then pc\<lparr>pc_target := AList.update (grant_target_key g) g (pc_target pc)\<rparr> else pc)
      else if pg_scope g = ''forever'' then
        pc\<lparr>pc_forever := AList.update (grant_forever_key g) g (pc_forever pc)\<rparr>
      else pc)"

definition load_grants :: "(string \<Rightarrow> string) \<Rightarrow> perm_grant list \<Rightarrow> perm_cache \<Rightarrow> perm_cache" where
  "load_grants sha gs pc = fold (load_grant sha) gs pc"

text \<open>The grants by time of creation, then id.\<close>

definition grant_before :: "perm_grant \<Rightarrow> perm_grant \<Rightarrow> bool" where
  "grant_before a b = (if pg_created a \<noteq> pg_created b then pg_created a < pg_created b
     else \<not> bytes_le (pg_id b) (pg_id a))"

definition grants_of :: "perm_cache \<Rightarrow> perm_grant list" where
  "grants_of pc = sort_by grant_before (map snd (pc_session pc) @ map snd (pc_target pc) @ map snd (pc_forever pc))"

fun take_grant :: "string \<Rightarrow> (string \<times> perm_grant) list \<Rightarrow> (perm_grant \<times> (string \<times> perm_grant) list) option" where
  "take_grant i [] = None"
| "take_grant i ((k, g) # m) =
     (if pg_id g = i then Some (g, m)
      else case take_grant i m of None \<Rightarrow> None | Some (h, m') \<Rightarrow> Some (h, (k, g) # m'))"

definition forget_grant :: "string \<Rightarrow> perm_cache \<Rightarrow> (perm_grant \<times> perm_cache) option" where
  "forget_grant i pc =
     (case take_grant i (pc_session pc) of
        Some (g, m) \<Rightarrow> Some (g, pc\<lparr>pc_session := m\<rparr>)
      | None \<Rightarrow>
          (case take_grant i (pc_target pc) of
             Some (g, m) \<Rightarrow> Some (g, pc\<lparr>pc_target := m\<rparr>)
           | None \<Rightarrow>
               (case take_grant i (pc_forever pc) of
                  Some (g, m) \<Rightarrow> Some (g, pc\<lparr>pc_forever := m\<rparr>)
                | None \<Rightarrow> None)))"

section \<open>One decision\<close>

datatype policy_action = PolicyPrompt | PolicyAllow | PolicyDeny | PolicyOther int

record policy_decision =
  po_action :: policy_action
  po_reason :: string
  po_remember :: remember_scope

type_synonym 'w policy = "run_info \<Rightarrow> permission_request \<Rightarrow> 'w \<Rightarrow> (go_error + policy_decision) \<times> 'w"

definition policy_context :: "run_info option \<Rightarrow> permission_request \<Rightarrow> run_info" where
  "policy_context r req =
     (let i = (case r of None \<Rightarrow> \<lparr>ri_id = [], ri_session = [], ri_client = []\<rparr> | Some x \<Rightarrow> x)
      in if ri_session i = [] then i\<lparr>ri_session := pr_session req\<rparr> else i)"

text \<open>\<open>None\<close>: the policy leaves the request to the cache and the client.\<close>

definition apply_policy :: "'w policy option \<Rightarrow> run_info option \<Rightarrow> permission_request \<Rightarrow> 'w
    \<Rightarrow> (go_error + permission_decision) option \<times> 'w" where
  "apply_policy pol r req w =
     (case pol of
        None \<Rightarrow> (None, w)
      | Some p \<Rightarrow>
          (case p (policy_context r req) req w of
             (Inl e, w1) \<Rightarrow> (Some (Inl e), w1)
           | (Inr d, w1) \<Rightarrow>
               (case po_action d of
                  PolicyPrompt \<Rightarrow> None
                | PolicyAllow \<Rightarrow> Some (Inr \<lparr>pd_allow = True, pd_reason = po_reason d, pd_remember = po_remember d\<rparr>)
                | PolicyDeny \<Rightarrow>
                    Some (Inr \<lparr>pd_allow = False,
                      pd_reason = (if trim_space (po_reason d) = [] then ''permission denied by daemon policy''
                                   else trim_space (po_reason d)), pd_remember = RememberNever\<rparr>)
                | PolicyOther n \<Rightarrow>
                    Some (Inl (new_error (''daemon: invalid permission policy action '' @ itoa_int n))), w1)))"

datatype wait_end = Answered permission_decision | WaitTimedOut | WaitCanceled go_error

record 'w broker =
  br_policy :: "'w policy option"
  br_ask :: "run_info \<Rightarrow> permission_request \<Rightarrow> 'w \<Rightarrow> wait_end \<times> 'w"
  br_save :: "(perm_grant list \<Rightarrow> 'w \<Rightarrow> go_error option \<times> 'w) option"
  br_now :: "'w \<Rightarrow> go_time"
  br_sha :: "string \<Rightarrow> string"

text \<open>Only a remembered allow is persisted.\<close>

definition remember_permission :: "'w broker \<Rightarrow> run_info option \<Rightarrow> permission_request \<Rightarrow> permission_decision
    \<Rightarrow> perm_cache \<times> 'w \<Rightarrow> go_error option \<times> (perm_cache \<times> 'w)" where
  "remember_permission br r req d = (\<lambda>(pc, w).
     (let pc' = remembered (br_sha br) r req d (br_now br w) pc in
      if \<not> pd_allow d \<or> pd_remember d = RememberNever then (None, (pc, w))
      else case br_save br of
        None \<Rightarrow> (None, (pc', w))
      | Some save \<Rightarrow> (case save (grants_of pc') w of (e, w1) \<Rightarrow> (e, (pc', w1)))))"

definition decide_request :: "'w broker \<Rightarrow> run_info \<Rightarrow> permission_request \<Rightarrow> perm_cache \<times> 'w
    \<Rightarrow> (go_error + permission_decision) \<times> (perm_cache \<times> 'w)" where
  "decide_request br r req = (\<lambda>(pc, w).
     case apply_policy (br_policy br) (Some r) req w of
       (Some x, w1) \<Rightarrow> (x, (pc, w1))
     | (None, w1) \<Rightarrow>
         (case cached_permission pc (Some r) req of
            Some d \<Rightarrow> (Inr d, (pc, w1))
          | None \<Rightarrow>
              (case br_ask br r req w1 of
                 (Answered d, w2) \<Rightarrow>
                   (case remember_permission br (Some r) req d (pc, w2) of
                      (Some e, s) \<Rightarrow> (Inl e, s)
                    | (None, s) \<Rightarrow> (Inr d, s))
               | (WaitTimedOut, w2) \<Rightarrow>
                   (Inr \<lparr>pd_allow = False,
                      pd_reason = ''permission denied: daemon permission request timed out'',
                      pd_remember = RememberNever\<rparr>, (pc, w2))
               | (WaitCanceled e, w2) \<Rightarrow> (Inl e, (pc, w2)))))"

definition forget_permission :: "'w broker \<Rightarrow> string \<Rightarrow> perm_cache \<times> 'w
    \<Rightarrow> (go_error + perm_grant option) \<times> (perm_cache \<times> 'w)" where
  "forget_permission br i = (\<lambda>(pc, w).
     case forget_grant i pc of
       None \<Rightarrow> (Inr None, (pc, w))
     | Some (g, pc') \<Rightarrow>
         (case br_save br of
            None \<Rightarrow> (Inr (Some g), (pc', w))
          | Some save \<Rightarrow>
              (case save (grants_of pc') w of
                 (Some e, w1) \<Rightarrow> (Inl e, (pc', w1))
               | (None, w1) \<Rightarrow> (Inr (Some g), (pc', w1)))))"

section \<open>The cache against the log of approvals\<close>

text \<open>What happens to the cache, with the restarts of a daemon whose store kept the grants.\<close>

datatype perm_op =
    Remembered "run_info option" permission_request permission_decision go_time
  | Forgotten string
  | Restarted

definition perm_apply :: "(string \<Rightarrow> string) \<Rightarrow> perm_op \<Rightarrow> perm_cache \<Rightarrow> perm_cache" where
  "perm_apply sha op pc =
     (case op of
        Remembered r req d t \<Rightarrow> remembered sha r req d t pc
      | Forgotten i \<Rightarrow> (case forget_grant i pc of None \<Rightarrow> pc | Some (g, pc') \<Rightarrow> pc')
      | Restarted \<Rightarrow> load_grants sha (grants_of pc) no_grants)"

definition perm_run :: "(string \<Rightarrow> string) \<Rightarrow> perm_op list \<Rightarrow> perm_cache" where
  "perm_run sha ops = fold (perm_apply sha) ops no_grants"

text \<open>An approval: a scope with the run and the request that were allowed under it.\<close>

type_synonym approval = "remember_scope \<times> run_info option \<times> permission_request"

definition scope_key :: "approval \<Rightarrow> string" where
  "scope_key = (\<lambda>(s, r, req). case s of
      RememberSession \<Rightarrow> session_key r req
    | RememberSessionTarget \<Rightarrow> target_key r req
    | RememberForever \<Rightarrow> forever_key r req
    | RememberNever \<Rightarrow> [])"

definition approval_id :: "(string \<Rightarrow> string) \<Rightarrow> approval \<Rightarrow> string" where
  "approval_id sha = (\<lambda>(s, r, req). pg_id (grant_for sha r req s 0))"

definition approval_of :: "perm_op \<Rightarrow> approval option" where
  "approval_of op = (case op of
      Remembered r req d t \<Rightarrow> if pd_allow d \<and> pd_remember d \<noteq> RememberNever then Some (pd_remember d, r, req) else None
    | _ \<Rightarrow> None)"

definition approvals :: "perm_op list \<Rightarrow> approval list" where
  "approvals ops = List.map_filter approval_of ops"

text \<open>An approval stands when nothing after it forgot its grant.\<close>

definition standing :: "(string \<Rightarrow> string) \<Rightarrow> perm_op list \<Rightarrow> approval \<Rightarrow> bool" where
  "standing sha ops a \<longleftrightarrow> (\<exists>pre op post. ops = pre @ op # post \<and> approval_of op = Some a
     \<and> Forgotten (approval_id sha a) \<notin> set post)"

definition covers :: "approval \<Rightarrow> run_info option \<Rightarrow> permission_request \<Rightarrow> bool" where
  "covers = (\<lambda>(s, r0, req0) r req.
     owner_key r0 req0 = owner_key r req \<and> pr_tool req0 = pr_tool req \<and> pr_action req0 = pr_action req
     \<and> (s \<in> {RememberSession, RememberSessionTarget} \<longrightarrow> pr_session req0 = pr_session req)
     \<and> (s \<in> {RememberSessionTarget, RememberForever} \<longrightarrow> pr_target req0 = pr_target req))"

text \<open>Requests whose fields have no zero byte and no space around them; the target may have zero bytes.\<close>

definition plain_field :: "string \<Rightarrow> bool" where
  "plain_field s \<longleftrightarrow> trim_space s = s \<and> nul \<notin> set s"

definition plain_request :: "run_info option \<Rightarrow> permission_request \<Rightarrow> bool" where
  "plain_request r req \<longleftrightarrow> plain_field (owner_key r req) \<and> plain_field (pr_session req)
     \<and> plain_field (pr_tool req) \<and> plain_field (pr_action req) \<and> trim_space (pr_target req) = pr_target req
     \<and> pr_session req \<noteq> [] \<and> pr_tool req \<noteq> [] \<and> pr_action req \<noteq> []"

definition plain_ops :: "perm_op list \<Rightarrow> bool" where
  "plain_ops ops \<longleftrightarrow> list_all (\<lambda>(s, r, req). plain_request r req) (approvals ops)"

text \<open>The truncated digests of the grants at hand differ.\<close>

definition no_collision :: "(string \<Rightarrow> string) \<Rightarrow> perm_op list \<Rightarrow> bool" where
  "no_collision sha ops \<longleftrightarrow> (\<forall>a \<in> set (approvals ops). \<forall>b \<in> set (approvals ops).
     approval_id sha a = approval_id sha b \<longrightarrow> fst a = fst b \<and> scope_key a = scope_key b)"

lemma nul_cut:
  assumes "a @ nul # b = a' @ nul # b'" and "nul \<notin> set a" and "nul \<notin> set a'"
  shows "a = a' \<and> b = b'"
proof -
  have "takeWhile (\<lambda>c. c \<noteq> nul) (a @ nul # b) = a" using assms(2) by (subst takeWhile_append2) auto
  moreover have "takeWhile (\<lambda>c. c \<noteq> nul) (a' @ nul # b') = a'" using assms(3) by (subst takeWhile_append2) auto
  ultimately have "a = a'" using assms(1) by simp
  then show ?thesis using assms(1) by simp
qed

lemma scope_key_covers:
  assumes "plain_request r0 req0" and "plain_request r req" and "s \<noteq> RememberNever"
  shows "scope_key (s, r0, req0) = scope_key (s, r, req) \<longleftrightarrow> covers (s, r0, req0) r req"
proof
  assume k: "scope_key (s, r0, req0) = scope_key (s, r, req)"
  note n = assms(1,2) [unfolded plain_request_def plain_field_def]
  show "covers (s, r0, req0) r req"
  proof (cases s)
    case RememberSession
    then show ?thesis using k n
      by (auto simp: scope_key_def session_key_def key_of_def covers_def dest!: nul_cut)
  next
    case RememberSessionTarget
    then show ?thesis using k n
      by (auto simp: scope_key_def session_key_def target_key_def key_of_def covers_def dest!: nul_cut)
  next
    case RememberForever
    then show ?thesis using k n
      by (auto simp: scope_key_def forever_key_def key_of_def covers_def dest!: nul_cut)
  qed (use assms(3) in simp)
next
  assume "covers (s, r0, req0) r req"
  then show "scope_key (s, r0, req0) = scope_key (s, r, req)" using assms(3)
    by (cases s) (auto simp: scope_key_def session_key_def target_key_def forever_key_def covers_def)
qed

text \<open>The three maps as one, indexed by the scope.\<close>

definition entries :: "remember_scope \<Rightarrow> perm_cache \<Rightarrow> (string \<times> perm_grant) list" where
  "entries s pc = (case s of RememberSession \<Rightarrow> pc_session pc | RememberSessionTarget \<Rightarrow> pc_target pc
     | RememberForever \<Rightarrow> pc_forever pc | RememberNever \<Rightarrow> [])"

definition put :: "remember_scope \<Rightarrow> string \<Rightarrow> perm_grant \<Rightarrow> perm_cache \<Rightarrow> perm_cache" where
  "put s k g pc = (case s of
      RememberSession \<Rightarrow> pc\<lparr>pc_session := AList.update k g (pc_session pc)\<rparr>
    | RememberSessionTarget \<Rightarrow> pc\<lparr>pc_target := AList.update k g (pc_target pc)\<rparr>
    | RememberForever \<Rightarrow> pc\<lparr>pc_forever := AList.update k g (pc_forever pc)\<rparr>
    | RememberNever \<Rightarrow> pc)"

lemma entries_put: "entries s' (put s k g pc) = (if s = s' \<and> s \<noteq> RememberNever then AList.update k g (entries s pc)
    else entries s' pc)"
  by (cases s; cases s') (simp_all add: entries_def put_def)

lemma entries_none [simp]: "entries s no_grants = []" "entries RememberNever pc = []"
  by (cases s) (simp_all add: entries_def no_grants_def)

lemma remembered_put: "approval_of (Remembered r req d t) = Some (s, r', req')
    \<Longrightarrow> remembered sha r req d t pc = put s (scope_key (s, r', req')) (grant_for sha r' req' s t) pc"
  by (cases "pd_remember d") (auto simp: approval_of_def remembered_def Let_def put_def scope_key_def split: if_splits)

lemma remembered_none: "approval_of (Remembered r req d t) = None \<Longrightarrow> remembered sha r req d t pc = pc"
  by (cases "pd_remember d") (auto simp: approval_of_def remembered_def Let_def split: if_splits)

lemma grant_id_cong:
  "pg_scope g = pg_scope h \<Longrightarrow> pg_owner g = pg_owner h \<Longrightarrow> pg_session g = pg_session h \<Longrightarrow> pg_tool g = pg_tool h
   \<Longrightarrow> pg_action g = pg_action h \<Longrightarrow> pg_target g = pg_target h \<Longrightarrow> grant_id sha g = grant_id sha h"
  by (simp add: grant_id_def grant_session_key_def grant_target_key_def grant_forever_key_def)

lemma grant_for_id: "pg_id (grant_for sha r req s t) = approval_id sha (s, r, req)"
  by (simp add: approval_id_def grant_for_def Let_def grant_id_def grant_session_key_def grant_target_key_def
      grant_forever_key_def)

lemma trimmed_scope: "trim_space (remember_scope_string s) = remember_scope_string s"
  by (cases s; simp only: remember_scope_string_def remember_scope.case; code_simp)

lemma plain_grant:
  assumes "plain_request r req"
  shows "grant_session_key (grant_for sha r req s t) = session_key r req"
    and "grant_target_key (grant_for sha r req s t) = target_key r req"
    and "grant_forever_key (grant_for sha r req s t) = forever_key r req"
    and "pg_scope (grant_for sha r req s t) = remember_scope_string s"
  using assms by (auto simp: plain_request_def plain_field_def grant_session_key_def grant_target_key_def
      grant_forever_key_def session_key_def target_key_def forever_key_def grant_for_def Let_def split: option.splits)

lemma approval_id_key:
  assumes "plain_request r req" and "s \<noteq> RememberNever"
  shows "approval_id sha (s, r, req) = ''grant_'' @ sha (remember_scope_string s @ [nul] @ scope_key (s, r, req))"
proof -
  let ?g = "grant_for sha r req s 0"
  have "pg_id ?g = grant_id sha ?g"
    by (simp add: grant_for_def Let_def grant_id_def grant_session_key_def grant_target_key_def grant_forever_key_def)
  then show ?thesis using assms(2)
    by (cases s) (simp_all add: approval_id_def grant_id_def plain_grant [OF assms(1)] remember_scope_string_def
        scope_key_def)
qed

lemma load_grant_put:
  assumes "plain_request r req" and "s \<noteq> RememberNever"
  shows "load_grant sha (grant_for sha r req s t) pc = put s (scope_key (s, r, req)) (grant_for sha r req s t) pc"
proof -
  let ?g = "grant_for sha r req s t"
  note p = assms(1) [unfolded plain_request_def plain_field_def]
  have f: "pg_scope ?g = remember_scope_string s" "pg_owner ?g = owner_key r req" "pg_session ?g = pr_session req"
    "pg_tool ?g = pr_tool req" "pg_action ?g = pr_action req" "pg_target ?g = pr_target req"
    "trim_space (pg_client ?g) = pg_client ?g" "pg_id ?g \<noteq> []"
    using p by (auto simp: grant_for_def Let_def grant_id_def split: option.splits)
  have n: "normalize_grant sha ?g = ?g"
    unfolding normalize_grant_def Let_def f trimmed_scope using p f by (simp add: trimmed_scope)
  have o: "owner_key r req \<noteq> []" by (simp add: owner_key_def split: option.split)
  show ?thesis
    unfolding load_grant_def n Let_def f plain_grant [OF assms(1)] using f(8) p o assms(2)
    by (cases s) (simp_all add: remember_scope_string_def put_def scope_key_def)
qed

lemma approvals_snoc: "approvals (ops @ [op]) = approvals ops @ (case approval_of op of None \<Rightarrow> [] | Some a \<Rightarrow> [a])"
  by (simp add: approvals_def List.map_filter_def split: option.split)

lemma standing_snoc:
  "standing sha (ops @ [op]) a \<longleftrightarrow>
     (standing sha ops a \<and> op \<noteq> Forgotten (approval_id sha a)) \<or> approval_of op = Some a"
proof
  assume "standing sha (ops @ [op]) a"
  then obtain pre op' post where s: "ops @ [op] = pre @ op' # post" "approval_of op' = Some a"
      "Forgotten (approval_id sha a) \<notin> set post" by (auto simp: standing_def)
  show "(standing sha ops a \<and> op \<noteq> Forgotten (approval_id sha a)) \<or> approval_of op = Some a"
  proof (cases post rule: rev_cases)
    case Nil
    then show ?thesis using s by simp
  next
    case (snoc post' x)
    then have "ops = pre @ op' # post'" and "x = op" using s(1) by auto
    then show ?thesis using s(2,3) snoc unfolding standing_def by auto
  qed
next
  assume "(standing sha ops a \<and> op \<noteq> Forgotten (approval_id sha a)) \<or> approval_of op = Some a"
  then show "standing sha (ops @ [op]) a"
  proof
    assume "approval_of op = Some a"
    then show ?thesis unfolding standing_def by (intro exI [of _ ops] exI [of _ op] exI [of _ "[]"]) simp
  next
    assume a: "standing sha ops a \<and> op \<noteq> Forgotten (approval_id sha a)"
    then obtain pre op' post where "ops = pre @ op' # post" "approval_of op' = Some a"
        "Forgotten (approval_id sha a) \<notin> set post" by (auto simp: standing_def)
    then show ?thesis unfolding standing_def using a
      by (intro exI [of _ pre] exI [of _ op'] exI [of _ "post @ [op]"]) auto
  qed
qed

lemma standing_approval: "standing sha ops a \<Longrightarrow> a \<in> set (approvals ops)"
  by (auto simp: standing_def approvals_def map_filter_Cons map_filter_append)

lemma approval_scope: "approval_of op = Some a \<Longrightarrow> fst a \<noteq> RememberNever"
  by (auto simp: approval_of_def split: perm_op.splits if_splits)

lemma standing_scope: "standing sha ops a \<Longrightarrow> fst a \<noteq> RememberNever"
  by (auto simp: standing_def dest: approval_scope)

section \<open>The invariant of the cache\<close>

definition backed :: "(string \<Rightarrow> string) \<Rightarrow> perm_op list \<Rightarrow> remember_scope \<Rightarrow> string \<Rightarrow> perm_grant \<Rightarrow> bool" where
  "backed sha ops s k g \<longleftrightarrow> (\<exists>r req t. standing sha ops (s, r, req) \<and> k = scope_key (s, r, req)
     \<and> g = grant_for sha r req s t)"

definition cache_ok :: "(string \<Rightarrow> string) \<Rightarrow> perm_op list \<Rightarrow> perm_cache \<Rightarrow> bool" where
  "cache_ok sha ops pc \<longleftrightarrow> (\<forall>s. distinct (map fst (entries s pc)))
     \<and> (\<forall>s k g. (k, g) \<in> set (entries s pc) \<longrightarrow> backed sha ops s k g)
     \<and> (\<forall>s r req. standing sha ops (s, r, req) \<longrightarrow> scope_key (s, r, req) \<in> fst ` set (entries s pc))"

lemma cache_okI:
  assumes "\<And>s. distinct (map fst (entries s pc))"
    and "\<And>s k g. (k, g) \<in> set (entries s pc) \<Longrightarrow> backed sha ops s k g"
    and "\<And>s r req. standing sha ops (s, r, req) \<Longrightarrow> scope_key (s, r, req) \<in> fst ` set (entries s pc)"
  shows "cache_ok sha ops pc"
  using assms by (simp add: cache_ok_def)

lemma cache_okD:
  assumes "cache_ok sha ops pc"
  shows "distinct (map fst (entries s pc))"
    and "(k, g) \<in> set (entries s pc) \<Longrightarrow> backed sha ops s k g"
    and "standing sha ops (s, r, req) \<Longrightarrow> scope_key (s, r, req) \<in> fst ` set (entries s pc)"
  using assms by (simp_all add: cache_ok_def)

lemma keys_AList_update: "fst ` set (AList.update k v m) = insert k (fst ` set m)"
  by (induction m) auto

lemma set_AList_update: "distinct (map fst m) \<Longrightarrow> set (AList.update k v m) = insert (k, v) {e \<in> set m. fst e \<noteq> k}"
  by (induction m) (auto simp: image_iff)

lemma take_grant_Some:
  "take_grant i m = Some (g, m') \<Longrightarrow> distinct (map fst m)
   \<Longrightarrow> pg_id g = i \<and> (\<exists>k. (k, g) \<in> set m \<and> set m' = set m - {(k, g)}) \<and> distinct (map fst m')"
proof (induction m arbitrary: m')
  case (Cons e m)
  obtain k h where e: "e = (k, h)" by (cases e)
  show ?case
  proof (cases "pg_id h = i")
    case True
    then show ?thesis using Cons.prems e by force
  next
    case False
    then obtain m1 where m1: "take_grant i m = Some (g, m1)" "m' = (k, h) # m1"
      using Cons.prems(1) e by (auto split: option.splits)
    from Cons.IH [OF m1(1)] Cons.prems(2) e
    obtain k' where k': "pg_id g = i" "(k', g) \<in> set m" "set m1 = set m - {(k', g)}" "distinct (map fst m1)"
      by auto
    moreover have "k \<notin> fst ` set m" using Cons.prems(2) e by auto
    ultimately show ?thesis using m1(2) e False by (auto intro!: exI [of _ k'])
  qed
qed simp

lemma take_grant_None: "take_grant i m = None \<longleftrightarrow> (\<forall>(k, g) \<in> set m. pg_id g \<noteq> i)"
  by (induction m rule: take_grant.induct) (auto split: option.splits)

text \<open>Forgetting an id: one entry with this id goes, if there is one.\<close>

lemma forget_grant_Some:
  assumes "forget_grant i pc = Some (g, pc')" and "\<And>s. distinct (map fst (entries s pc))"
  shows "\<exists>s k. (k, g) \<in> set (entries s pc) \<and> pg_id g = i \<and> set (entries s pc') = set (entries s pc) - {(k, g)}
    \<and> (\<forall>s'. s' \<noteq> s \<longrightarrow> entries s' pc' = entries s' pc) \<and> (\<forall>s'. distinct (map fst (entries s' pc')))"
proof -
  have c: "\<exists>k. (k, g) \<in> set (entries s pc) \<and> pg_id g = i \<and> set (entries s pc') = set (entries s pc) - {(k, g)}"
      "\<forall>s'. distinct (map fst (entries s' pc'))"
    if t: "take_grant i (entries s pc) = Some (g, entries s pc')"
      and o: "\<forall>s'. s' \<noteq> s \<longrightarrow> entries s' pc' = entries s' pc" for s
  proof -
    note x = take_grant_Some [OF t assms(2)]
    show "\<exists>k. (k, g) \<in> set (entries s pc) \<and> pg_id g = i \<and> set (entries s pc') = set (entries s pc) - {(k, g)}"
      using x by auto
    show "\<forall>s'. distinct (map fst (entries s' pc'))" using x o assms(2) by metis
  qed
  have "\<exists>s. take_grant i (entries s pc) = Some (g, entries s pc') \<and> (\<forall>s'. s' \<noteq> s \<longrightarrow> entries s' pc' = entries s' pc)"
  proof (cases "take_grant i (pc_session pc)")
    case (Some x)
    then show ?thesis using assms(1)
      by (intro exI [of _ RememberSession]) (auto simp: forget_grant_def entries_def split: prod.splits remember_scope.splits)
  next
    case None
    note n1 = None
    show ?thesis
    proof (cases "take_grant i (pc_target pc)")
      case (Some x)
      then show ?thesis using assms(1) n1
        by (intro exI [of _ RememberSessionTarget])
           (auto simp: forget_grant_def entries_def split: prod.splits remember_scope.splits)
    next
      case None
      then show ?thesis using assms(1) n1
        by (intro exI [of _ RememberForever])
           (auto simp: forget_grant_def entries_def split: prod.splits option.splits remember_scope.splits)
    qed
  qed
  then show ?thesis using c by metis
qed

lemma forget_grant_None: "forget_grant i pc = None \<longleftrightarrow> (\<forall>s. \<forall>(k, g) \<in> set (entries s pc). pg_id g \<noteq> i)"
proof -
  have "forget_grant i pc = None \<longleftrightarrow> (\<forall>s. take_grant i (entries s pc) = None)"
  proof -
    have "(\<forall>s. take_grant i (entries s pc) = None) \<longleftrightarrow> take_grant i (pc_session pc) = None
        \<and> take_grant i (pc_target pc) = None \<and> take_grant i (pc_forever pc) = None"
      by (auto simp: entries_def split: remember_scope.splits)
    then show ?thesis by (auto simp: forget_grant_def split: option.splits)
  qed
  then show ?thesis unfolding take_grant_None .
qed

lemma backed_mono: "backed sha ops s k g \<Longrightarrow> (\<And>a. standing sha ops a \<Longrightarrow> scope_key a = k \<Longrightarrow> fst a = s
    \<Longrightarrow> approval_id sha a = pg_id g \<Longrightarrow> standing sha ops' a) \<Longrightarrow> backed sha ops' s k g"
  unfolding backed_def by (auto simp: grant_for_id) fastforce

lemma cache_ok_put:
  assumes ok: "cache_ok sha ops pc" and a: "approval_of op = Some (s, r, req)" and op: "op = Remembered r0 req0 d t"
  shows "cache_ok sha (ops @ [op]) (put s (scope_key (s, r, req)) (grant_for sha r req s t) pc)"
proof -
  have n: "s \<noteq> RememberNever" using approval_scope [OF a] by simp
  have st: "standing sha (ops @ [op]) b \<longleftrightarrow> standing sha ops b \<or> b = (s, r, req)" for b
    using a op by (auto simp: standing_snoc)
  have b: "backed sha ops s' k g \<Longrightarrow> backed sha (ops @ [op]) s' k g" for s' k g
    by (rule backed_mono) (auto simp: st)
  have new: "backed sha (ops @ [op]) s (scope_key (s, r, req)) (grant_for sha r req s t)"
    unfolding backed_def st by blast
  note o = cache_okD [OF ok]
  show ?thesis
  proof (rule cache_okI)
    show "distinct (map fst (entries s' (put s (scope_key (s, r, req)) (grant_for sha r req s t) pc)))" for s'
      using o(1) by (simp add: entries_put distinct_update)
    show "backed sha (ops @ [op]) s' k g"
      if "(k, g) \<in> set (entries s' (put s (scope_key (s, r, req)) (grant_for sha r req s t) pc))" for s' k g
    proof (cases "s' = s \<and> k = scope_key (s, r, req)")
      case True
      then have "g = grant_for sha r req s t" using that n o(1) by (auto simp: entries_put set_AList_update)
      then show ?thesis using new True by simp
    next
      case False
      then have "(k, g) \<in> set (entries s' pc)"
        using that n o(1) by (auto simp: entries_put set_AList_update split: if_splits)
      then show ?thesis by (rule b [OF o(2)])
    qed
    show "scope_key (s', r', req') \<in> fst ` set (entries s' (put s (scope_key (s, r, req)) (grant_for sha r req s t) pc))"
      if "standing sha (ops @ [op]) (s', r', req')" for s' r' req'
      using that o(3) n unfolding st by (auto simp: entries_put keys_AList_update)
  qed
qed

lemma cache_ok_forget:
  assumes ok: "cache_ok sha ops pc" and nc: "no_collision sha ops" and pl: "plain_ops ops"
  shows "cache_ok sha (ops @ [Forgotten i]) (perm_apply sha (Forgotten i) pc)"
proof -
  have st: "standing sha (ops @ [Forgotten i]) b \<longleftrightarrow> standing sha ops b \<and> approval_id sha b \<noteq> i" for b
    by (auto simp: standing_snoc approval_of_def)
  note o = cache_okD [OF ok]
  have b: "backed sha ops s k g \<Longrightarrow> pg_id g \<noteq> i \<Longrightarrow> backed sha (ops @ [Forgotten i]) s k g" for s k g
    by (rule backed_mono) (auto simp: st)
  have same: "s = s' \<and> k = k'"
    if "(k, g) \<in> set (entries s pc)" "(k', g') \<in> set (entries s' pc)" "pg_id g = pg_id g'" for s s' k k' g g'
  proof -
    note t = that
    obtain r req t r' req' t' where x: "standing sha ops (s, r, req)" "k = scope_key (s, r, req)"
      "g = grant_for sha r req s t" and y: "standing sha ops (s', r', req')" "k' = scope_key (s', r', req')"
      "g' = grant_for sha r' req' s' t'"
      using o(2) [OF t(1)] o(2) [OF t(2)] unfolding backed_def by blast
    then show ?thesis
      using nc standing_approval [OF x(1)] standing_approval [OF y(1)] t(3)
      unfolding no_collision_def by (fastforce simp: grant_for_id)
  qed
  have left: "\<exists>g. (k, g) \<in> set (entries s pc) \<and> pg_id g \<noteq> i"
    if "standing sha ops (s, r, req)" "approval_id sha (s, r, req) \<noteq> i" "k = scope_key (s, r, req)" for s r req k
  proof -
    note u = that
    obtain g where g: "(k, g) \<in> set (entries s pc)" using o(3) [OF u(1)] u(3) by force
    obtain r' req' t' where y: "k = scope_key (s, r', req')" "g = grant_for sha r' req' s t'"
      "standing sha ops (s, r', req')"
      using o(2) [OF g] unfolding backed_def by blast
    have p: "plain_request r req" "plain_request r' req'"
      using pl standing_approval [OF u(1)] standing_approval [OF y(3)] unfolding plain_ops_def list_all_iff by auto
    have "s \<noteq> RememberNever" using standing_scope [OF y(3)] by simp
    then have "approval_id sha (s, r', req') = approval_id sha (s, r, req)"
      using p y(1) u(3) by (simp add: approval_id_key)
    then show ?thesis using g y(2) u(2) by (auto simp: grant_for_id)
  qed
  have m: "((k, h) \<in> set (entries s (perm_apply sha (Forgotten i) pc)) \<longleftrightarrow>
        (k, h) \<in> set (entries s pc) \<and> pg_id h \<noteq> i) \<and> distinct (map fst (entries s (perm_apply sha (Forgotten i) pc)))"
    for s k h
  proof (cases "forget_grant i pc")
    case None
    then have "pg_id h \<noteq> i" if "(k, h) \<in> set (entries s pc)" using that unfolding forget_grant_None by fast
    then show ?thesis using None o(1) by (auto simp: perm_apply_def)
  next
    case (Some x)
    obtain g pc' where x: "x = (g, pc')" by (cases x)
    from forget_grant_Some [OF Some [unfolded x] o(1)] obtain s0 k0
      where e: "(k0, g) \<in> set (entries s0 pc)" "pg_id g = i" "set (entries s0 pc') = set (entries s0 pc) - {(k0, g)}"
        "\<forall>s'. s' \<noteq> s0 \<longrightarrow> entries s' pc' = entries s' pc" and d: "\<And>s'. distinct (map fst (entries s' pc'))" by blast
    have "(k, h) \<in> set (entries s pc') \<longleftrightarrow> (k, h) \<in> set (entries s pc) \<and> pg_id h \<noteq> i"
    proof
      assume h: "(k, h) \<in> set (entries s pc')"
      then have h': "(k, h) \<in> set (entries s pc)" using e(3,4) by (cases "s = s0") auto
      have "pg_id h \<noteq> i"
      proof
        assume "pg_id h = i"
        then have "s = s0" "k = k0" using same [OF h' e(1)] e(2) by auto
        then have "(k0, h) \<in> set (entries s0 pc)" "(k0, h) \<noteq> (k0, g)" using h h' e(3) by auto
        then show False using e(1) o(1) [of s0] by (metis eq_key_imp_eq_value)
      qed
      then show "(k, h) \<in> set (entries s pc) \<and> pg_id h \<noteq> i" using h' by simp
    next
      assume "(k, h) \<in> set (entries s pc) \<and> pg_id h \<noteq> i"
      then show "(k, h) \<in> set (entries s pc')" using e(2,3,4) by (cases "s = s0") auto
    qed
    then show ?thesis using Some x d by (simp add: perm_apply_def)
  qed
  show ?thesis
  proof (rule cache_okI)
    show "backed sha (ops @ [Forgotten i]) s k g"
      if "(k, g) \<in> set (entries s (perm_apply sha (Forgotten i) pc))" for s k g
    proof (rule b)
      have x: "(k, g) \<in> set (entries s pc) \<and> pg_id g \<noteq> i" using that m [THEN conjunct1] by simp
      then show "backed sha ops s k g" by (rule o(2) [OF conjunct1])
      show "pg_id g \<noteq> i" using x by simp
    qed
    show "scope_key (s, r, req) \<in> fst ` set (entries s (perm_apply sha (Forgotten i) pc))"
      if "standing sha (ops @ [Forgotten i]) (s, r, req)" for s r req
    proof -
      have "\<exists>g. (scope_key (s, r, req), g) \<in> set (entries s pc) \<and> pg_id g \<noteq> i"
        using left [OF _ _ refl, of s r req] that [unfolded st] by blast
      then have "\<exists>g. (scope_key (s, r, req), g) \<in> set (entries s (perm_apply sha (Forgotten i) pc))"
        using m [THEN conjunct1] by blast
      then show ?thesis by force
    qed
  qed (rule m [THEN conjunct2])
qed

text \<open>A restart loads what was saved.\<close>

lemma in_grants_of: "g \<in> set (grants_of pc) \<longleftrightarrow> (\<exists>s k. (k, g) \<in> set (entries s pc))"
proof -
  have "(\<exists>s k. (k, g) \<in> set (entries s pc)) \<longleftrightarrow> (\<exists>k. (k, g) \<in> set (pc_session pc) \<or> (k, g) \<in> set (pc_target pc)
      \<or> (k, g) \<in> set (pc_forever pc))" (is "?l \<longleftrightarrow> ?r")
  proof
    assume ?l
    then obtain s k where "(k, g) \<in> set (entries s pc)" by blast
    then show ?r by (cases s) (auto simp: entries_def)
  next
    assume ?r
    then obtain k where "(k, g) \<in> set (entries RememberSession pc) \<or> (k, g) \<in> set (entries RememberSessionTarget pc)
        \<or> (k, g) \<in> set (entries RememberForever pc)" by (auto simp: entries_def)
    then show ?l by blast
  qed
  moreover have "g \<in> snd ` set m \<longleftrightarrow> (\<exists>k. (k, g) \<in> set m)" for m :: "(string \<times> perm_grant) list" by force
  ultimately show ?thesis by (simp add: grants_of_def ex_disj_distrib)
qed

definition all_backed :: "(string \<Rightarrow> string) \<Rightarrow> perm_op list \<Rightarrow> perm_cache \<Rightarrow> bool" where
  "all_backed sha ops pc \<longleftrightarrow> (\<forall>s. distinct (map fst (entries s pc)))
     \<and> (\<forall>s k g. (k, g) \<in> set (entries s pc) \<longrightarrow> backed sha ops s k g)"

lemma load_backed:
  assumes pl: "plain_ops ops" and b: "backed sha ops s k g"
  shows "load_grant sha g pc = put s k g pc" and "s \<noteq> RememberNever"
proof -
  obtain r req t where x: "standing sha ops (s, r, req)" "k = scope_key (s, r, req)" "g = grant_for sha r req s t"
    using b unfolding backed_def by blast
  have p: "plain_request r req" using pl standing_approval [OF x(1)] unfolding plain_ops_def list_all_iff by auto
  show s: "s \<noteq> RememberNever" using standing_scope [OF x(1)] by simp
  show "load_grant sha g pc = put s k g pc" unfolding x(2,3) by (rule load_grant_put [OF p s])
qed

lemma load_grants_backed:
  assumes pl: "plain_ops ops" and "\<And>g. g \<in> set gs \<Longrightarrow> \<exists>s k. backed sha ops s k g" and "all_backed sha ops pc"
  shows "all_backed sha ops (load_grants sha gs pc)
    \<and> (\<forall>s. fst ` set (entries s pc) \<subseteq> fst ` set (entries s (load_grants sha gs pc)))
    \<and> (\<forall>g \<in> set gs. \<forall>s k. backed sha ops s k g \<longrightarrow> k \<in> fst ` set (entries s (load_grants sha gs pc)))"
  using assms(2,3)
proof (induction gs arbitrary: pc)
  case Nil
  then show ?case by (simp add: load_grants_def)
next
  case (Cons g gs)
  obtain s k where b: "backed sha ops s k g" using Cons.prems(1) by fastforce
  note l = load_backed [OF pl b]
  have all: "all_backed sha ops (put s k g pc)"
    using Cons.prems(2) b unfolding all_backed_def entries_put
    by (auto simp: set_AList_update distinct_update)
  have keys: "fst ` set (entries s' pc) \<subseteq> fst ` set (entries s' (put s k g pc))" for s'
    by (auto simp: entries_put keys_AList_update)
  have here: "k' \<in> fst ` set (entries s' (put s k g pc))" if b': "backed sha ops s' k' g" for s' k'
  proof -
    have "put s' k' g pc = put s k g pc" using load_backed(1) [OF pl b', of pc] l(1) [of pc] by simp
    moreover have "k' \<in> fst ` set (entries s' (put s' k' g pc))"
      using load_backed(2) [OF pl b'] by (simp add: entries_put keys_AList_update)
    ultimately show ?thesis by simp
  qed
  have l': "load_grants sha (g # gs) pc = load_grants sha gs (put s k g pc)" by (simp add: load_grants_def l(1))
  note ih = Cons.IH [OF Cons.prems(1) all, OF list.set_intros(2)]
  have 1: "fst ` set (entries s' pc) \<subseteq> fst ` set (entries s' (load_grants sha (g # gs) pc))" for s'
    unfolding l' using keys [of s'] ih by (meson order_trans)
  have 2: "k' \<in> fst ` set (entries s' (load_grants sha (g # gs) pc))"
    if x: "h \<in> set (g # gs)" "backed sha ops s' k' h" for h s' k'
  proof (cases "h = g")
    case True
    then show ?thesis unfolding l' using here [of s' k'] x(2) ih by (meson subsetD)
  next
    case False
    then show ?thesis unfolding l' using x ih by simp
  qed
  show ?case
  proof (intro conjI allI ballI impI)
    show "all_backed sha ops (load_grants sha (g # gs) pc)" unfolding l' using ih by (rule conjunct1)
  qed (use 1 2 in \<open>simp_all only:\<close>)
qed

lemma cache_ok_restart:
  assumes ok: "cache_ok sha ops pc" and pl: "plain_ops ops"
  shows "cache_ok sha (ops @ [Restarted]) (perm_apply sha Restarted pc)"
proof -
  have st: "standing sha (ops @ [Restarted]) a \<longleftrightarrow> standing sha ops a" for a
    by (simp add: standing_snoc approval_of_def)
  have b: "backed sha (ops @ [Restarted]) s k g \<longleftrightarrow> backed sha ops s k g" for s k g by (simp add: backed_def st)
  note o = cache_okD [OF ok]
  have "\<exists>s k. backed sha ops s k g" if "g \<in> set (grants_of pc)" for g using that o(2) unfolding in_grants_of by blast
  from load_grants_backed [OF pl this, where pc = no_grants]
  have l: "all_backed sha ops (perm_apply sha Restarted pc)"
    "\<And>g s k. g \<in> set (grants_of pc) \<Longrightarrow> backed sha ops s k g
       \<Longrightarrow> k \<in> fst ` set (entries s (perm_apply sha Restarted pc))"
    by (auto simp: all_backed_def perm_apply_def)
  show ?thesis
  proof (rule cache_okI)
    show "scope_key (s, r, req) \<in> fst ` set (entries s (perm_apply sha Restarted pc))"
      if "standing sha (ops @ [Restarted]) (s, r, req)" for s r req
    proof -
      note x = o(3) [OF that [unfolded st]]
      obtain g where g: "(scope_key (s, r, req), g) \<in> set (entries s pc)" using x by force
      then have "g \<in> set (grants_of pc)" unfolding in_grants_of by blast
      then show ?thesis using l(2) o(2) [OF g] by blast
    qed
  qed (use l(1) in \<open>auto simp: all_backed_def b\<close>)
qed

lemma perm_run_ok: "plain_ops ops \<Longrightarrow> no_collision sha ops \<Longrightarrow> cache_ok sha ops (perm_run sha ops)"
proof (induction ops rule: rev_induct)
  case Nil
  then show ?case by (auto simp: perm_run_def cache_ok_def standing_def)
next
  case (snoc op ops)
  have pl: "plain_ops ops" using snoc.prems(1) by (simp add: plain_ops_def approvals_snoc)
  have nc: "no_collision sha ops" using snoc.prems(2) unfolding no_collision_def approvals_snoc by auto
  note ok = snoc.IH [OF pl nc]
  have run: "perm_run sha (ops @ [op]) = perm_apply sha op (perm_run sha ops)" by (simp add: perm_run_def)
  show ?case unfolding run
  proof (cases op)
    case (Forgotten i)
    then show "cache_ok sha (ops @ [op]) (perm_apply sha op (perm_run sha ops))"
      using cache_ok_forget [OF ok nc pl] by simp
  next
    case Restarted
    then show "cache_ok sha (ops @ [op]) (perm_apply sha op (perm_run sha ops))"
      using cache_ok_restart [OF ok pl] by simp
  next
    case (Remembered r req d t)
    show "cache_ok sha (ops @ [op]) (perm_apply sha op (perm_run sha ops))"
    proof (cases "approval_of op")
      case None
      then have "standing sha (ops @ [op]) a \<longleftrightarrow> standing sha ops a" for a
        using Remembered by (auto simp: standing_snoc)
      then show ?thesis using ok None Remembered
        by (simp add: cache_ok_def backed_def perm_apply_def remembered_none)
    next
      case (Some a)
      obtain s r' req' where a: "a = (s, r', req')" by (cases a)
      show ?thesis using cache_ok_put [OF ok Some [unfolded a] Remembered] Remembered Some a
        by (simp add: perm_apply_def remembered_put)
    qed
  qed
qed

lemma key_cached:
  "cached_permission pc r req = (if forever_key r req \<in> fst ` set (entries RememberForever pc) then Some (allowed RememberForever)
     else if session_key r req \<in> fst ` set (entries RememberSession pc) then Some (allowed RememberSession)
     else if target_key r req \<in> fst ` set (entries RememberSessionTarget pc) then Some (allowed RememberSessionTarget)
     else None)"
  by (simp add: cached_permission_def entries_def map_of_eq_None_iff)

lemma cached_key:
  assumes "cached_permission pc r req = Some d"
  shows "pd_allow d \<and> scope_key (pd_remember d, r, req) \<in> fst ` set (entries (pd_remember d) pc)"
  using assms by (auto simp: key_cached allowed_def scope_key_def intro: rev_image_eqI split: if_splits)

lemma cached_None: "cached_permission pc r req = None \<Longrightarrow> scope_key (s, r, req) \<notin> fst ` set (entries s pc)"
  by (cases s) (auto simp: key_cached scope_key_def split: if_splits)

lemma cached_log:
  assumes "plain_ops ops" and "no_collision sha ops" and "plain_request r req"
  shows "cached_permission (perm_run sha ops) r req = Some d \<Longrightarrow>
      pd_allow d \<and> (\<exists>a. standing sha ops a \<and> fst a = pd_remember d \<and> covers a r req)"
    and "standing sha ops a \<Longrightarrow> covers a r req \<Longrightarrow> cached_permission (perm_run sha ops) r req \<noteq> None"
proof -
  let ?pc = "perm_run sha ops"
  note o = cache_okD [OF perm_run_ok [OF assms(1,2)]]
  have plain: "plain_request r' req'" if "standing sha ops (s, r', req')" for s r' req'
    using assms(1) standing_approval [OF that] unfolding plain_ops_def list_all_iff by auto
  show "pd_allow d \<and> (\<exists>a. standing sha ops a \<and> fst a = pd_remember d \<and> covers a r req)"
    if c: "cached_permission ?pc r req = Some d"
  proof -
    obtain g where "(scope_key (pd_remember d, r, req), g) \<in> set (entries (pd_remember d) ?pc)"
      using cached_key [OF c] by force
    then obtain r' req' where x: "standing sha ops (pd_remember d, r', req')"
      "scope_key (pd_remember d, r, req) = scope_key (pd_remember d, r', req')"
      using o(2) unfolding backed_def by blast
    have "covers (pd_remember d, r', req') r req"
      using scope_key_covers [OF plain [OF x(1)] assms(3)] standing_scope [OF x(1)] x(2) [symmetric] by simp
    then show ?thesis using x(1) cached_key [OF c] by (intro conjI exI [of _ "(pd_remember d, r', req')"]) simp_all
  qed
  show "cached_permission ?pc r req \<noteq> None" if st: "standing sha ops a" and cv: "covers a r req"
  proof -
    obtain s r' req' where a: "a = (s, r', req')" by (cases a)
    note st = st [unfolded a]
    have "scope_key (s, r', req') = scope_key (s, r, req)"
      using scope_key_covers [OF plain [OF st] assms(3)] standing_scope [OF st] cv a by simp
    then have "scope_key (s, r, req) \<in> fst ` set (entries s ?pc)" using o(3) [OF st] by simp
    then show ?thesis using cached_None by blast
  qed
qed

section \<open>Properties\<close>

text \<open>C13. Take requests whose session, tool and action are non-empty, and whose owner, session, tool and action
  have no surrounding space and no zero byte, and whose target has no surrounding space; and suppose that
  the truncated digests of the grants of a history do not collide. After any such history of answers,
  forgotten grants and restarts, the cache answers such a request exactly when the history has an approval
  that covers it (same owner, tool and action, and the session and the target that its scope fixes) and
  whose grant nothing forgot since; then the answer allows it under the scope of such an approval.\<close>

theorem cache_answers_standing_approvals:
  assumes "plain_ops ops" and "no_collision sha ops" and "plain_request r req"
  shows "(case cached_permission (perm_run sha ops) r req of
       Some d \<Rightarrow> pd_allow d \<and> (\<exists>a. standing sha ops a \<and> fst a = pd_remember d \<and> covers a r req)
     | None \<Rightarrow> \<not> (\<exists>a. standing sha ops a \<and> covers a r req))"
proof (cases "cached_permission (perm_run sha ops) r req")
  case None
  then show ?thesis using cached_log(2) [OF assms] by auto
next
  case (Some d)
  then show ?thesis using cached_log(1) [OF assms Some] by simp
qed

text \<open>A shell command allowed for a session, another for one target, the second one forgotten, a restart.\<close>

definition sample_perm :: "string \<Rightarrow> permission_request" where
  "sample_perm target = \<lparr>pr_tool = ''sh'', pr_action = ''x'', pr_target = target, pr_args = [],
     pr_session = ''s''\<rparr>"

definition sample_edit_perm :: "string \<Rightarrow> permission_request" where
  "sample_edit_perm target = \<lparr>pr_tool = ''ed'', pr_action = ''w'', pr_target = target, pr_args = [],
     pr_session = ''s''\<rparr>"

definition sample_run_info :: "run_info option" where
  "sample_run_info = Some \<lparr>ri_id = ''r'', ri_session = ''s'', ri_client = ''c''\<rparr>"

definition sample_history :: "perm_op list" where
  "sample_history = [Remembered sample_run_info (sample_perm ''l'') (allowed RememberSession) 5,
     Remembered sample_run_info (sample_edit_perm ''a'') (allowed RememberSessionTarget) 6,
     Forgotten (approval_id rev (RememberSessionTarget, sample_run_info, sample_edit_perm ''a'')), Restarted]"

lemma some_then_none: "(case (x, y) of (Some _, None) \<Rightarrow> True | _ \<Rightarrow> False) \<Longrightarrow> \<exists>d. x = Some d \<and> y = None"
  by (simp split: option.splits)

theorem cache_answers_standing_approvals_witness:
  "(\<exists>a. standing rev sample_history a \<and> covers a sample_run_info (sample_perm ''m''))
   \<and> \<not> (\<exists>a. standing rev sample_history a \<and> covers a sample_run_info (sample_edit_perm ''a''))"
proof -
  have h: "plain_ops sample_history" "no_collision rev sample_history" by code_simp+
  have p: "plain_request sample_run_info (sample_perm ''m'')" by code_simp
  have q: "plain_request sample_run_info (sample_edit_perm ''a'')" by code_simp
  let ?c = "cached_permission (perm_run rev sample_history) sample_run_info"
  have c: "case (?c (sample_perm ''m''), ?c (sample_edit_perm ''a'')) of (Some _, None) \<Rightarrow> True | _ \<Rightarrow> False"
    by code_simp
  obtain d where d: "?c (sample_perm ''m'') = Some d" "?c (sample_edit_perm ''a'') = None"
    using some_then_none [OF c] by blast
  show ?thesis
    using cache_answers_standing_approvals [OF h p, unfolded d(1) option.case]
      cache_answers_standing_approvals [OF h q, unfolded d(2) option.case] by blast
qed

end
