(* ===== verification/Daemon_Runs.thy ===== *)
theory Daemon_Runs
  imports Daemon_Permissions Sessions
begin

text \<open>
  A run of the daemon: \<open>src/daemon/run.go\<close> and the functions of \<open>src/daemon/server.go\<close> that read it. Each
  method of \<open>run\<close> holds the mutex, so it is one step on the record. The \<open>notify\<close> channel that every change
  closes and replaces is the number of changes so far: a reader that holds an older number wakes up. Ids and
  times come from outside. A pending permission is known by its id and by a ticket, the identity of the
  Go pointer.
\<close>

section \<open>The record of a run\<close>

record protocol_error =
  pe_code :: string
  pe_message :: string
  pe_retryable :: bool

datatype run_payload =
    StartPayload string "string option"
  | LoopPayload event
  | PermissionPayload string permission_request go_time
  | DonePayload string "message option" "message list"
  | ErrorPayload protocol_error

record envelope =
  ev_version :: int
  ev_id :: string
  ev_seq :: int
  ev_run :: string
  ev_session :: string
  ev_time :: go_time
  ev_type :: string
  ev_payload :: run_payload

record daemon_run =
  dr_info :: run_info
  dr_seq :: int
  dr_events :: "envelope list"
  dr_done :: bool
  dr_changes :: nat
  dr_pending :: "(string \<times> nat) list"

definition protocol_version :: int where "protocol_version = 1"

definition new_daemon_run :: "run_info \<Rightarrow> daemon_run" where
  "new_daemon_run i = \<lparr>dr_info = i, dr_seq = 0, dr_events = [], dr_done = False, dr_changes = 0, dr_pending = []\<rparr>"

definition signal :: "daemon_run \<Rightarrow> daemon_run" where
  "signal r = r\<lparr>dr_changes := Suc (dr_changes r)\<rparr>"

definition emit :: "string \<Rightarrow> run_payload \<Rightarrow> string \<Rightarrow> go_time \<Rightarrow> daemon_run \<Rightarrow> daemon_run" where
  "emit ty payload i now r =
     (let s = dr_seq r + 1 in
      signal (r\<lparr>dr_seq := s,
        dr_events := dr_events r @ [\<lparr>ev_version = protocol_version, ev_id = i, ev_seq = s, ev_run = ri_id (dr_info r),
          ev_session = ri_session (dr_info r), ev_time = now, ev_type = ty, ev_payload = payload\<rparr>]\<rparr>))"

definition finish_run :: "daemon_run \<Rightarrow> daemon_run" where
  "finish_run r = (if dr_done r then r else signal (r\<lparr>dr_done := True\<rparr>))"

definition events_from :: "int \<Rightarrow> daemon_run \<Rightarrow> envelope list \<times> bool \<times> nat" where
  "events_from index r =
     (let i = (if index < 0 then 0 else index);
          j = (if i > int (length (dr_events r)) then int (length (dr_events r)) else i)
      in (drop (nat j) (dr_events r), dr_done r, dr_changes r))"

definition add_permission :: "string \<Rightarrow> nat \<Rightarrow> daemon_run \<Rightarrow> bool \<times> daemon_run" where
  "add_permission i ticket r =
     (if map_of (dr_pending r) i \<noteq> None then (False, r)
      else (True, r\<lparr>dr_pending := (i, ticket) # dr_pending r\<rparr>))"

text \<open>The first half of \<open>resolvePermission\<close>: who is told of the answer, if anybody.\<close>

definition claim_permission :: "string \<Rightarrow> daemon_run \<Rightarrow> nat option \<times> daemon_run" where
  "claim_permission i r =
     (case map_of (dr_pending r) i of
        None \<Rightarrow> (None, r)
      | Some ticket \<Rightarrow> (Some ticket, r\<lparr>dr_pending := AList.delete i (dr_pending r)\<rparr>))"

definition expire_permission :: "string \<Rightarrow> nat \<Rightarrow> daemon_run \<Rightarrow> bool \<times> daemon_run" where
  "expire_permission i ticket r =
     (if map_of (dr_pending r) i \<noteq> Some ticket then (False, r)
      else (True, r\<lparr>dr_pending := AList.delete i (dr_pending r)\<rparr>))"

section \<open>Readers of the events\<close>

text \<open>A reader of \<open>handleRunEvents\<close>: what it has written to its client, and where it is in its loop: about
  to call \<open>eventsFrom\<close>, writing the events of a call, waiting for a change, or out of the loop. The end of
  the request and a failed write cancel the run.\<close>

datatype reader_place =
    Fetching
  | Sending "envelope list" bool nat
  | Waiting nat
  | Ended
  | Dropped

record reader =
  rd_written :: "envelope list"
  rd_place :: reader_place

definition new_reader :: reader where
  "new_reader = \<lparr>rd_written = [], rd_place = Fetching\<rparr>"

inductive reader_step :: "daemon_run \<Rightarrow> reader \<Rightarrow> reader \<Rightarrow> bool" where
  fetch: "rd_place rd = Fetching \<Longrightarrow> events_from (int (length (rd_written rd))) r = (es, fin, n) \<Longrightarrow>
     reader_step r rd (rd\<lparr>rd_place := Sending es fin n\<rparr>)"
| send: "rd_place rd = Sending (e # es) fin n \<Longrightarrow>
     reader_step r rd (rd\<lparr>rd_written := rd_written rd @ [e], rd_place := Sending es fin n\<rparr>)"
| send_failed: "rd_place rd = Sending (e # es) fin n \<Longrightarrow> reader_step r rd (rd\<lparr>rd_place := Dropped\<rparr>)"
| last_batch: "rd_place rd = Sending [] True n \<Longrightarrow> reader_step r rd (rd\<lparr>rd_place := Ended\<rparr>)"
| more_batches: "rd_place rd = Sending [] False n \<Longrightarrow> reader_step r rd (rd\<lparr>rd_place := Waiting n\<rparr>)"
| wake: "rd_place rd = Waiting n \<Longrightarrow> n < dr_changes r \<Longrightarrow> reader_step r rd (rd\<lparr>rd_place := Fetching\<rparr>)"
| gone: "rd_place rd = Waiting n \<Longrightarrow> reader_step r rd (rd\<lparr>rd_place := Dropped\<rparr>)"

text \<open>The steps of the run itself, and a run with one of its readers; the readers of a run do not change it.
  \<open>executeRun\<close> finishes the run after the prompt has returned, so nothing is emitted after it.\<close>

inductive run_step :: "daemon_run \<Rightarrow> daemon_run \<Rightarrow> bool" where
  emit: "\<not> dr_done r \<Longrightarrow> run_step r (emit ty payload i now r)"
| finish: "run_step r (finish_run r)"
| add: "run_step r (snd (add_permission i ticket r))"
| claim: "run_step r (snd (claim_permission i r))"
| expire: "run_step r (snd (expire_permission i ticket r))"

inductive run_reach :: "run_info \<Rightarrow> daemon_run \<times> reader \<Rightarrow> bool" for i where
  start: "run_reach i (new_daemon_run i, new_reader)"
| run: "run_reach i (r, rd) \<Longrightarrow> run_step r r' \<Longrightarrow> run_reach i (r', rd)"
| read: "run_reach i (r, rd) \<Longrightarrow> reader_step r rd rd' \<Longrightarrow> run_reach i (r, rd')"

definition log_ok :: "daemon_run \<Rightarrow> bool" where
  "log_ok r \<longleftrightarrow> dr_seq r = int (length (dr_events r))
     \<and> map ev_seq (dr_events r) = map int [1..<Suc (length (dr_events r))]"

text \<open>\<open>es\<close> are the events a reader has and \<open>n\<close> the number of changes it knows of.\<close>

definition knows :: "daemon_run \<Rightarrow> envelope list \<Rightarrow> bool \<Rightarrow> nat \<Rightarrow> bool" where
  "knows r es fin n \<longleftrightarrow> prefix es (dr_events r) \<and> n \<le> dr_changes r
     \<and> (n = dr_changes r \<longrightarrow> es = dr_events r \<and> fin = dr_done r) \<and> (fin \<longrightarrow> dr_done r \<and> es = dr_events r)"

definition reader_ok :: "daemon_run \<Rightarrow> reader \<Rightarrow> bool" where
  "reader_ok r rd \<longleftrightarrow> prefix (rd_written rd) (dr_events r)
     \<and> (case rd_place rd of
          Sending es fin n \<Rightarrow> knows r (rd_written rd @ es) fin n
        | Waiting n \<Rightarrow> knows r (rd_written rd) False n
        | Ended \<Rightarrow> dr_done r \<and> rd_written rd = dr_events r
        | _ \<Rightarrow> True)"

lemmas run_op_defs = emit_def signal_def finish_run_def add_permission_def claim_permission_def
  expire_permission_def

lemma pending_frame [simp]:
  "dr_events (snd (add_permission i t r)) = dr_events r" "dr_events (snd (claim_permission i r)) = dr_events r"
  "dr_events (snd (expire_permission i t r)) = dr_events r" "dr_done (snd (add_permission i t r)) = dr_done r"
  "dr_done (snd (claim_permission i r)) = dr_done r" "dr_done (snd (expire_permission i t r)) = dr_done r"
  "dr_changes (snd (add_permission i t r)) = dr_changes r" "dr_changes (snd (claim_permission i r)) = dr_changes r"
  "dr_changes (snd (expire_permission i t r)) = dr_changes r" "dr_seq (snd (add_permission i t r)) = dr_seq r"
  "dr_seq (snd (claim_permission i r)) = dr_seq r" "dr_seq (snd (expire_permission i t r)) = dr_seq r"
  by (simp_all add: add_permission_def claim_permission_def expire_permission_def split: option.split)

lemma emit_simps [simp]:
  "dr_seq (emit ty p i t r) = dr_seq r + 1" "dr_done (emit ty p i t r) = dr_done r"
  "dr_changes (emit ty p i t r) = Suc (dr_changes r)" "dr_pending (emit ty p i t r) = dr_pending r"
  "\<exists>e. dr_events (emit ty p i t r) = dr_events r @ [e] \<and> ev_seq e = dr_seq r + 1"
  by (simp_all add: emit_def signal_def Let_def)

lemma finish_simps [simp]:
  "dr_seq (finish_run r) = dr_seq r" "dr_events (finish_run r) = dr_events r" "dr_done (finish_run r)"
  "dr_changes (finish_run r) = (if dr_done r then dr_changes r else Suc (dr_changes r))"
  by (simp_all add: finish_run_def signal_def)

lemma log_ok_step: "run_step r r' \<Longrightarrow> log_ok r \<Longrightarrow> log_ok r'"
proof (induction rule: run_step.induct)
  case (emit r ty payload i now)
  obtain e where "dr_events (emit ty payload i now r) = dr_events r @ [e]" "ev_seq e = dr_seq r + 1"
    using emit_simps(5) by blast
  then show ?case using emit.prems by (simp add: log_ok_def)
qed (simp_all add: log_ok_def)

lemma knows_step: "run_step r r' \<Longrightarrow> knows r es fin n \<Longrightarrow> knows r' es fin n"
proof (induction rule: run_step.induct)
  case (emit r ty payload i now)
  obtain e where "dr_events (emit ty payload i now r) = dr_events r @ [e]" using emit_simps(5) by blast
  then show ?case using emit by (auto simp: knows_def)
next
  case (finish r)
  then show ?case by (cases "dr_done r") (simp_all add: knows_def)
qed (simp_all add: knows_def)

lemma events_step: "run_step r r' \<Longrightarrow> prefix (dr_events r) (dr_events r') \<and> (dr_done r \<longrightarrow> dr_done r' \<and> dr_events r' = dr_events r)"
proof (induction rule: run_step.induct)
  case (emit r ty payload i now)
  obtain e where "dr_events (emit ty payload i now r) = dr_events r @ [e]" using emit_simps(5) by blast
  then show ?case using emit by simp
qed simp_all

lemma reader_ok_run:
  assumes "run_step r r'" and "reader_ok r rd"
  shows "reader_ok r' rd"
  using assms(2) knows_step [OF assms(1)] events_step [OF assms(1)]
  by (auto simp: reader_ok_def split: reader_place.splits intro: prefix_order.trans)

lemma events_from_written: "prefix es (dr_events r) \<Longrightarrow> events_from (int (length es)) r
    = (drop (length es) (dr_events r), dr_done r, dr_changes r)"
  by (auto simp: events_from_def Let_def dest: prefix_length_le)

lemma reader_ok_read: "reader_step r rd rd' \<Longrightarrow> reader_ok r rd \<Longrightarrow> reader_ok r rd'"
proof (induction rule: reader_step.induct)
  case (fetch rd r es fin n)
  have p: "prefix (rd_written rd) (dr_events r)" using fetch.prems by (simp add: reader_ok_def)
  then obtain t where t: "dr_events r = rd_written rd @ t" by (auto elim: prefixE)
  have e: "es = t" "fin = dr_done r" "n = dr_changes r" using fetch.hyps(2) events_from_written [OF p] t by auto
  show ?case using p t by (auto simp: reader_ok_def knows_def e)
next
  case (send rd e es fin n r)
  then have k: "knows r (rd_written rd @ e # es) fin n" by (simp add: reader_ok_def)
  then have "prefix (rd_written rd @ [e]) (dr_events r)"
    unfolding knows_def by (metis append_Cons append_Nil append_assoc append_prefixD)
  then show ?case using k by (simp add: reader_ok_def)
next
  case (last_batch rd n r)
  then show ?case by (simp add: reader_ok_def knows_def)
next
  case (more_batches rd n r)
  then show ?case by (simp add: reader_ok_def)
qed (simp_all add: reader_ok_def)

lemma run_reach_ok: "run_reach i (r, rd) \<Longrightarrow> log_ok r \<and> reader_ok r rd"
proof (induction "(r, rd)" arbitrary: r rd rule: run_reach.induct)
  case start
  then show ?case by (simp add: new_daemon_run_def new_reader_def log_ok_def reader_ok_def)
next
  case (run r rd r')
  then show ?case using log_ok_step reader_ok_run by blast
next
  case (read r rd rd')
  then show ?case using reader_ok_read by blast
qed

section \<open>Waiting for an answer\<close>

text \<open>The wait of \<open>decidePermission\<close> against the clients that answer: the waiter selects between the channel
  of its ticket and the timer or the context; when one of these fires, it tries to expire its entry and,
  when the entry is gone, receives. A client claims the entry and then sends on the channel, which holds
  one decision. \<open>wt_accepted\<close> records the decisions whose clients are told that they were accepted.\<close>

datatype waiter = Selecting | Receiving | Got permission_decision | GaveUp

record wait_state =
  wt_run :: daemon_run
  wt_waiter :: waiter
  wt_sending :: "permission_decision list"
  wt_channel :: "permission_decision option"
  wt_accepted :: "permission_decision list"

inductive wait_step :: "string \<Rightarrow> nat \<Rightarrow> wait_state \<Rightarrow> wait_state \<Rightarrow> bool" for i ticket where
  answer: "claim_permission i (wt_run s) = (Some ticket, r) \<Longrightarrow>
     wait_step i ticket s (s\<lparr>wt_run := r, wt_sending := d # wt_sending s, wt_accepted := d # wt_accepted s\<rparr>)"
| hand_over: "d \<in> set (wt_sending s) \<Longrightarrow> wt_channel s = None \<Longrightarrow>
     wait_step i ticket s (s\<lparr>wt_sending := remove1 d (wt_sending s), wt_channel := Some d\<rparr>)"
| receive: "wt_waiter s = Selecting \<or> wt_waiter s = Receiving \<Longrightarrow> wt_channel s = Some d \<Longrightarrow>
     wait_step i ticket s (s\<lparr>wt_waiter := Got d, wt_channel := None\<rparr>)"
| give_up: "wt_waiter s = Selecting \<Longrightarrow> expire_permission i ticket (wt_run s) = (True, r) \<Longrightarrow>
     wait_step i ticket s (s\<lparr>wt_run := r, wt_waiter := GaveUp\<rparr>)"
| too_late: "wt_waiter s = Selecting \<Longrightarrow> expire_permission i ticket (wt_run s) = (False, r) \<Longrightarrow>
     wait_step i ticket s (s\<lparr>wt_waiter := Receiving\<rparr>)"
| other_emit: "wait_step i ticket s (s\<lparr>wt_run := emit ty payload e now (wt_run s)\<rparr>)"
| other_add: "ticket' \<noteq> ticket \<Longrightarrow> wait_step i ticket s (s\<lparr>wt_run := snd (add_permission j ticket' (wt_run s))\<rparr>)"
| other_answer: "fst (claim_permission j (wt_run s)) \<noteq> Some ticket \<Longrightarrow>
     wait_step i ticket s (s\<lparr>wt_run := snd (claim_permission j (wt_run s))\<rparr>)"
| other_expire: "ticket' \<noteq> ticket \<Longrightarrow>
     wait_step i ticket s (s\<lparr>wt_run := snd (expire_permission j ticket' (wt_run s))\<rparr>)"

text \<open>The wait starts when the request was added under an id that no pending request had.\<close>

inductive wait_reach :: "string \<Rightarrow> nat \<Rightarrow> wait_state \<Rightarrow> bool" for i ticket where
  start: "add_permission i ticket r0 = (True, r) \<Longrightarrow> ticket \<notin> snd ` set (dr_pending r0) \<Longrightarrow> distinct (map fst (dr_pending r0))
    \<Longrightarrow> wait_reach i ticket \<lparr>wt_run = r, wt_waiter = Selecting, wt_sending = [], wt_channel = None, wt_accepted = []\<rparr>"
| step: "wait_reach i ticket s \<Longrightarrow> wait_step i ticket s s' \<Longrightarrow> wait_reach i ticket s'"

definition entry_ok :: "string \<Rightarrow> nat \<Rightarrow> daemon_run \<Rightarrow> bool" where
  "entry_ok i ticket r \<longleftrightarrow> distinct (map fst (dr_pending r)) \<and> (\<forall>j. (j, ticket) \<in> set (dr_pending r) \<longrightarrow> j = i)"

definition untouched :: "wait_state \<Rightarrow> bool" where
  "untouched s \<longleftrightarrow> wt_sending s = [] \<and> wt_channel s = None \<and> wt_accepted s = []"

definition decided :: "wait_state \<Rightarrow> bool" where
  "decided s \<longleftrightarrow> (\<exists>d. wt_accepted s = [d]
     \<and> (if wt_waiter s = Got d then wt_sending s = [] \<and> wt_channel s = None
        else wt_waiter s \<in> {Selecting, Receiving}
          \<and> (wt_sending s = [d] \<and> wt_channel s = None \<or> wt_sending s = [] \<and> wt_channel s = Some d)))"

definition one_outcome :: "string \<Rightarrow> nat \<Rightarrow> wait_state \<Rightarrow> bool" where
  "one_outcome i ticket s \<longleftrightarrow> entry_ok i ticket (wt_run s)
     \<and> (if (i, ticket) \<in> set (dr_pending (wt_run s)) then wt_waiter s = Selecting \<and> untouched s
        else (wt_waiter s = GaveUp \<and> untouched s) \<or> decided s)"

lemma set_AList_delete: "set (AList.delete k m) = {e \<in> set m. fst e \<noteq> k}"
  by (auto simp: AList.delete_eq)

lemma claim_Some:
  "claim_permission i r = (Some t, r') \<Longrightarrow> (i, t) \<in> set (dr_pending r)
     \<and> r' = r\<lparr>dr_pending := AList.delete i (dr_pending r)\<rparr>"
  by (auto simp: claim_permission_def split: option.splits dest: map_of_SomeD)

lemma expire_True:
  "expire_permission i t r = (True, r') \<Longrightarrow> (i, t) \<in> set (dr_pending r)
     \<and> r' = r\<lparr>dr_pending := AList.delete i (dr_pending r)\<rparr>"
  by (auto simp: expire_permission_def split: if_splits dest: map_of_SomeD)

lemma expire_False: "expire_permission i t r = (False, r') \<Longrightarrow> entry_ok i t r \<Longrightarrow> (i, t) \<notin> set (dr_pending r)"
  unfolding entry_ok_def expire_permission_def by (metis map_of_is_SomeI prod.inject)

lemma entry_at: "entry_ok i t r \<Longrightarrow> (i, t) \<in> set (dr_pending r) \<longleftrightarrow> map_of (dr_pending r) i = Some t"
  unfolding entry_ok_def by (meson map_of_SomeD map_of_is_SomeI)

lemma entry_deleted: "entry_ok i t r \<Longrightarrow> entry_ok i t (r\<lparr>dr_pending := AList.delete j (dr_pending r)\<rparr>)"
  by (auto simp: entry_ok_def set_AList_delete distinct_delete)

text \<open>What other requests do to the entries does not concern this one.\<close>

lemma other_entries:
  assumes "one_outcome i t s" and "entry_ok i t r"
    and "(i, t) \<in> set (dr_pending r) \<longleftrightarrow> (i, t) \<in> set (dr_pending (wt_run s))"
  shows "one_outcome i t (s\<lparr>wt_run := r\<rparr>)"
proof -
  have "untouched (s\<lparr>wt_run := r\<rparr>) = untouched s" "decided (s\<lparr>wt_run := r\<rparr>) = decided s"
    by (simp_all add: untouched_def decided_def)
  then show ?thesis using assms by (simp add: one_outcome_def)
qed

lemma busy_decided:
  assumes "one_outcome i t s" and "wt_sending s \<noteq> [] \<or> wt_channel s \<noteq> None"
  shows "(i, t) \<notin> set (dr_pending (wt_run s))" and "decided s" and "entry_ok i t (wt_run s)"
  using assms by (auto simp: one_outcome_def untouched_def split: if_splits)

lemma one_outcomeI: "entry_ok i t (wt_run s) \<Longrightarrow> (i, t) \<notin> set (dr_pending (wt_run s)) \<Longrightarrow> decided s \<Longrightarrow> one_outcome i t s"
  by (simp add: one_outcome_def)

lemma one_outcome_step: "wait_step i ticket s s' \<Longrightarrow> one_outcome i ticket s \<Longrightarrow> one_outcome i ticket s'"
proof (induction rule: wait_step.induct)
  case (answer s r d)
  note m = claim_Some [OF answer.hyps]
  then have u: "wt_waiter s = Selecting" "untouched s" "entry_ok i ticket r"
    using answer.prems by (auto simp: one_outcome_def entry_deleted)
  have "(i, ticket) \<notin> set (dr_pending r)" using m by (simp add: set_AList_delete)
  then show ?case using u by (intro one_outcomeI) (simp_all add: untouched_def decided_def)
next
  case (hand_over d s)
  then have "wt_sending s \<noteq> [] \<or> wt_channel s \<noteq> None" by auto
  note b = busy_decided [OF hand_over.prems this]
  have "decided (s\<lparr>wt_sending := remove1 d (wt_sending s), wt_channel := Some d\<rparr>)"
  proof -
    obtain d' where d': "wt_accepted s = [d']" "wt_sending s = [d']" "wt_waiter s \<in> {Selecting, Receiving}"
      using b(2) hand_over.hyps unfolding decided_def by (metis empty_iff empty_set option.distinct(1))
    then have "d' = d" using hand_over.hyps by simp
    then show ?thesis using d' by (auto simp: decided_def)
  qed
  then show ?case using b by (intro one_outcomeI) simp_all
next
  case (receive s d)
  then have "wt_sending s \<noteq> [] \<or> wt_channel s \<noteq> None" by auto
  note b = busy_decided [OF receive.prems this]
  have "decided (s\<lparr>wt_waiter := Got d, wt_channel := None\<rparr>)"
  proof -
    obtain d' where d': "wt_accepted s = [d']" "wt_sending s = []" "wt_channel s = Some d'"
      using b(2) receive.hyps unfolding decided_def by (metis option.distinct(1))
    then show ?thesis using receive.hyps by (simp add: decided_def)
  qed
  then show ?case using b by (intro one_outcomeI) simp_all
next
  case (give_up s r)
  note m = expire_True [OF give_up.hyps(2)]
  then have u: "untouched s" "entry_ok i ticket r" using give_up.prems by (auto simp: one_outcome_def entry_deleted)
  have "(i, ticket) \<notin> set (dr_pending r)" using m by (simp add: set_AList_delete)
  then show ?case using u by (simp add: one_outcome_def untouched_def)
next
  case (too_late s r)
  have "(i, ticket) \<notin> set (dr_pending (wt_run s))"
    using expire_False [OF too_late.hyps(2)] too_late.prems by (simp add: one_outcome_def)
  then have "decided s" "entry_ok i ticket (wt_run s)" "(i, ticket) \<notin> set (dr_pending (wt_run s))"
    using too_late by (simp_all add: one_outcome_def)
  moreover from this have "decided (s\<lparr>wt_waiter := Receiving\<rparr>)"
    using too_late.hyps(1) by (auto simp add: decided_def)
  ultimately show ?case by (intro one_outcomeI) simp_all
next
  case (other_emit s ty payload e now)
  show ?case
    by (rule other_entries [OF other_emit.prems]) (use other_emit.prems in \<open>simp_all add: one_outcome_def entry_ok_def\<close>)
next
  case (other_add ticket' s j)
  show ?case
  proof (rule other_entries [OF other_add.prems])
    have "entry_ok i ticket (wt_run s)" using other_add.prems by (simp add: one_outcome_def)
    then show "entry_ok i ticket (snd (add_permission j ticket' (wt_run s)))"
      using other_add.hyps by (auto simp: entry_ok_def add_permission_def map_of_eq_None_iff)
  qed (use other_add.hyps in \<open>auto simp: add_permission_def\<close>)
next
  case (other_answer j s)
  have e: "entry_ok i ticket (wt_run s)" using other_answer.prems by (simp add: one_outcome_def)
  have n: "map_of (dr_pending (wt_run s)) j \<noteq> Some ticket"
    using other_answer.hyps by (auto simp: claim_permission_def split: option.splits)
  show ?case
  proof (rule other_entries [OF other_answer.prems])
    show "entry_ok i ticket (snd (claim_permission j (wt_run s)))"
      using e by (auto simp: claim_permission_def entry_deleted split: option.split)
    show "(i, ticket) \<in> set (dr_pending (snd (claim_permission j (wt_run s)))) \<longleftrightarrow> (i, ticket) \<in> set (dr_pending (wt_run s))"
      using entry_at [OF e] n by (cases "j = i") (auto simp: claim_permission_def set_AList_delete split: option.split)
  qed
next
  case (other_expire ticket' s j)
  have e: "entry_ok i ticket (wt_run s)" using other_expire.prems by (simp add: one_outcome_def)
  show ?case
  proof (rule other_entries [OF other_expire.prems])
    show "entry_ok i ticket (snd (expire_permission j ticket' (wt_run s)))"
      using e by (auto simp: expire_permission_def entry_deleted)
    show "(i, ticket) \<in> set (dr_pending (snd (expire_permission j ticket' (wt_run s))))
        \<longleftrightarrow> (i, ticket) \<in> set (dr_pending (wt_run s))"
      using entry_at [OF e] other_expire.hyps
      by (cases "j = i") (auto simp: expire_permission_def set_AList_delete)
  qed
qed

lemma wait_reach_outcome: "wait_reach i ticket s \<Longrightarrow> one_outcome i ticket s"
proof (induction rule: wait_reach.induct)
  case (start r0 r)
  then show ?case
    by (force simp: one_outcome_def entry_ok_def untouched_def add_permission_def map_of_eq_None_iff split: if_splits)
next
  case (step s s')
  then show ?case using one_outcome_step by blast
qed

section \<open>Properties\<close>

text \<open>C5. Whatever the clients, the timer and the context of the run do, in whatever order: at most one answer
  to a permission request is accepted, an accepted answer is the decision the tool gets, also when it
  arrives while the request expires, and a request that was given up had none accepted. A waiter that must
  still receive has an answer on its way.\<close>

theorem accepted_answer_decides:
  assumes "wait_reach i ticket s"
  shows "case wt_waiter s of
      Got d \<Rightarrow> wt_accepted s = [d]
    | GaveUp \<Rightarrow> wt_accepted s = []
    | Receiving \<Rightarrow> \<exists>d. wt_accepted s = [d] \<and> (wt_sending s = [d] \<or> wt_channel s = Some d)
    | Selecting \<Rightarrow> length (wt_accepted s) \<le> 1"
  using wait_reach_outcome [OF assms]
  by (cases "wt_waiter s") (auto simp: one_outcome_def untouched_def decided_def split: if_splits)

definition sample_info :: run_info where
  "sample_info = \<lparr>ri_id = ''run_1'', ri_session = ''s'', ri_client = ''c''\<rparr>"

definition sample_wait :: "waiter \<Rightarrow> permission_decision list \<Rightarrow> permission_decision option \<Rightarrow> permission_decision list
    \<Rightarrow> (string \<times> nat) list \<Rightarrow> wait_state" where
  "sample_wait w fl ch acc entry = \<lparr>wt_run = (new_daemon_run sample_info)\<lparr>dr_pending := entry\<rparr>, wt_waiter = w,
     wt_sending = fl, wt_channel = ch, wt_accepted = acc\<rparr>"

text \<open>A client answers just before the timer fires: the waiter still gets the answer.\<close>

theorem accepted_answer_decides_witness:
  "wt_accepted (sample_wait Receiving [allowed RememberNever] None [allowed RememberNever] []) = [allowed RememberNever]
   \<and> wait_reach ''p'' 7 (sample_wait Receiving [allowed RememberNever] None [allowed RememberNever] [])"
proof -
  let ?d = "allowed RememberNever"
  have 0: "wait_reach ''p'' 7 (sample_wait Selecting [] None [] [(''p'', 7)])"
    unfolding sample_wait_def
    by (rule wait_reach.start [where ?r0.0 = "new_daemon_run sample_info"])
       (simp_all add: add_permission_def new_daemon_run_def)
  have "claim_permission ''p'' (wt_run (sample_wait Selecting [] None [] [(''p'', 7)]))
      = (Some 7, (new_daemon_run sample_info)\<lparr>dr_pending := []\<rparr>)"
    by (simp add: claim_permission_def sample_wait_def)
  from wait_reach.step [OF 0 wait_step.answer [OF this, of ?d]]
  have 1: "wait_reach ''p'' 7 (sample_wait Selecting [?d] None [?d] [])" by (simp add: sample_wait_def)
  have "expire_permission ''p'' 7 (wt_run (sample_wait Selecting [?d] None [?d] []))
      = (False, wt_run (sample_wait Selecting [?d] None [?d] []))"
    by (simp add: expire_permission_def sample_wait_def)
  from wait_reach.step [OF 1 wait_step.too_late [OF _ this]]
  have 2: "wait_reach ''p'' 7 (sample_wait Receiving [?d] None [?d] [])" by (simp add: sample_wait_def)
  show ?thesis using 2 accepted_answer_decides [OF 2] by (auto simp: sample_wait_def)
qed

text \<open>C14. A reader of a run has at any time written a prefix of the events, numbered from one without gaps. A
  reader that leaves the loop at the end of the run has written all events of the run; one that waits and
  would not be woken has written all events so far, and the run is not finished: no event and no end is
  missed between looking and waiting.\<close>

theorem reader_delivers_log:
  assumes "run_reach i (r, rd)"
  shows "prefix (rd_written rd) (dr_events r)
    \<and> map ev_seq (rd_written rd) = map int [1..<Suc (length (rd_written rd))]
    \<and> (case rd_place rd of
         Ended \<Rightarrow> dr_done r \<and> rd_written rd = dr_events r
       | Waiting n \<Rightarrow> n < dr_changes r \<or> (rd_written rd = dr_events r \<and> \<not> dr_done r)
       | _ \<Rightarrow> True)"
proof -
  have l: "log_ok r" and d: "reader_ok r rd" using run_reach_ok [OF assms] by auto
  from d obtain t where t: "dr_events r = rd_written rd @ t" by (auto simp: reader_ok_def elim: prefixE)
  have "map ev_seq (rd_written rd) = take (length (rd_written rd)) (map ev_seq (dr_events r))" by (simp add: t)
  also have "\<dots> = map int [1..<Suc (length (rd_written rd))]"
    using l t by (simp add: log_ok_def take_map take_upt del: upt_Suc)
  finally have s: "map ev_seq (rd_written rd) = map int [1..<Suc (length (rd_written rd))]" .
  show ?thesis
  proof (intro conjI s)
    show "prefix (rd_written rd) (dr_events r)" using d by (simp add: reader_ok_def)
    show "case rd_place rd of Ended \<Rightarrow> dr_done r \<and> rd_written rd = dr_events r
       | Waiting n \<Rightarrow> n < dr_changes r \<or> (rd_written rd = dr_events r \<and> \<not> dr_done r) | _ \<Rightarrow> True"
      using d unfolding reader_ok_def knows_def by (cases "rd_place rd") (simp_all add: nat_less_le, blast?)
  qed
qed

definition sample_log :: daemon_run where
  "sample_log = emit ''run_start'' (StartPayload ''c'' None) ''e1'' 5 (new_daemon_run sample_info)"

theorem reader_delivers_log_witness:
  "run_reach sample_info (sample_log, \<lparr>rd_written = dr_events sample_log, rd_place = Waiting 1\<rparr>)
   \<and> map ev_seq (dr_events sample_log) = [1]"
proof -
  let ?es = "dr_events sample_log"
  have "\<not> dr_done (new_daemon_run sample_info)" by (simp add: new_daemon_run_def)
  from run_reach.run [OF run_reach.start run_step.emit [OF this]]
  have 0: "run_reach sample_info (sample_log, new_reader)" unfolding sample_log_def .
  have f: "events_from (int (length (rd_written new_reader))) sample_log = (?es, False, 1)"
    by (simp add: events_from_def new_reader_def sample_log_def new_daemon_run_def emit_def signal_def Let_def)
  obtain e where e: "?es = [e]" by (auto simp: sample_log_def new_daemon_run_def emit_def signal_def Let_def)
  from run_reach.read [OF 0 reader_step.fetch [OF _ f]]
  have 1: "run_reach sample_info (sample_log, \<lparr>rd_written = [], rd_place = Sending [e] False 1\<rparr>)"
    by (simp add: new_reader_def e)
  from run_reach.read [OF 1 reader_step.send [where e = e and es = "[]" and fin = False and n = 1]]
  have 2: "run_reach sample_info (sample_log, \<lparr>rd_written = [e], rd_place = Sending [] False 1\<rparr>)" by simp
  from run_reach.read [OF 2 reader_step.more_batches [where n = 1]]
  have 3: "run_reach sample_info (sample_log, \<lparr>rd_written = ?es, rd_place = Waiting 1\<rparr>)" by (simp add: e)
  show ?thesis using 3 reader_delivers_log [OF 3] by (simp add: e)
qed

end
