(* ===== verification/Go_Numbers.thy ===== *)
theory Go_Numbers
  imports Prelude
begin

text \<open>
  Package \<open>strconv\<close> on integers: \<open>Atoi\<close> and \<open>ParseInt\<close> in base ten on 64 bits, and \<open>FormatUint\<close> in
  base 36.
\<close>

definition is_digit :: "char \<Rightarrow> bool" where
  "is_digit c \<longleftrightarrow> 48 \<le> code_of c \<and> code_of c \<le> 57"

definition atoi :: "string \<Rightarrow> int option" where
  "atoi s =
     (let neg = has_prefix s ''-''; ds = (if neg \<or> has_prefix s ''+'' then tl s else s);
          n = foldl (\<lambda>a c. 10 * a + (int (code_of c) - 48)) 0 ds; v = (if neg then - n else n)
      in if ds = [] \<or> \<not> list_all is_digit ds \<or> v < - (2 ^ 63) \<or> v \<ge> 2 ^ 63 then None else Some v)"

definition digit36 :: "nat \<Rightarrow> char" where
  "digit36 d = ''0123456789abcdefghijklmnopqrstuvwxyz'' ! d"

fun base36 :: "nat \<Rightarrow> string" where
  "base36 n = (if n < 36 then [digit36 n] else base36 (n div 36) @ [digit36 (n mod 36)])"

declare base36.simps [simp del]

definition value36 :: "char \<Rightarrow> nat" where
  "value36 c = (if code_of c < 58 then code_of c - 48 else code_of c - 87)"

lemma digit36_value: "list_all (\<lambda>d. value36 (digit36 d) = d \<and> digit36 d \<noteq> CHR '':'') [0..<36]"
  by code_simp

lemma digit36_cases: "d < 36 \<Longrightarrow> value36 (digit36 d) = d \<and> digit36 d \<noteq> CHR '':''"
  using digit36_value by (simp add: list_all_iff)

lemma base36_value: "foldl (\<lambda>a c. 36 * a + value36 c) 0 (base36 n) = n"
proof (induction n rule: base36.induct)
  case (1 n)
  show ?case
  proof (cases "n < 36")
    case True
    then show ?thesis using digit36_cases [of n] by (simp add: base36.simps [of n])
  next
    case False
    then show ?thesis using 1 [OF False] digit36_cases [of "n mod 36"] by (simp add: base36.simps [of n])
  qed
qed

lemma base36_inj: "base36 a = base36 b \<longleftrightarrow> a = b"
  by (metis base36_value)

lemma base36_no_colon: "CHR '':'' \<notin> set (base36 n)"
proof (induction n rule: base36.induct)
  case (1 n)
  show ?case
  proof (cases "n < 36")
    case True
    then show ?thesis using digit36_cases [of n] by (auto simp: base36.simps [of n])
  next
    case False
    have "digit36 (n mod 36) \<noteq> CHR '':''" using digit36_cases [of "n mod 36"] by simp
    then show ?thesis using 1 [OF False] False by (simp add: base36.simps [of n])
  qed
qed

lemma base36_nonempty [simp]: "base36 n \<noteq> []"
  by (simp add: base36.simps [of n])

end
