(* ===== verification/Daemon_Server.thy ===== *)
theory Daemon_Server
  imports Daemon_Runs Session_Store Go_Numbers
begin

text \<open>
  The HTTP server of \<open>src/daemon/server.go\<close>: routes, authorisation, and every handler as a function from a
  request and the state of the server to a response and the next state. JSON decoders, the host (a record
  of what it can do, \<open>None\<close> where it does not implement an interface), the clock and the generator of ids
  are arguments. The stream of a run's events is the reader of \<open>Daemon_Runs\<close>, and whether that reader goes
  away is part of the request; cancelling a run is recorded by its id.
\<close>

section \<open>Requests and responses\<close>

text \<open>\<open>hr_dropped\<close>: a write to the client fails, or its connection is closed, while the handler streams.\<close>

record http_request =
  hr_method :: string
  hr_path :: string
  hr_auth :: string
  hr_client :: string
  hr_limit :: string
  hr_body :: bytes
  hr_dropped :: bool

record skill_entry =
  sk_name :: string
  sk_description :: string

record role_entry =
  rl_name :: string
  rl_description :: string
  rl_model :: string

record resource_entry =
  re_server :: string
  re_uri :: string
  re_name :: string
  re_title :: string
  re_description :: string
  re_mime :: string
  re_annotations :: metadata
  re_size :: "int option"

record prompt_argument =
  pa_name :: string
  pa_title :: string
  pa_description :: string
  pa_required :: bool

record prompt_entry =
  pn_server :: string
  pn_name :: string
  pn_title :: string
  pn_description :: string
  pn_arguments :: "prompt_argument list"

record resource_content =
  rc_uri :: string
  rc_mime :: string
  rc_text :: "string option"
  rc_blob :: "string option"
  rc_meta :: metadata

record prompt_message =
  pm_role :: string
  pm_content :: bytes

record recall_hit =
  rh_session :: string
  rh_index :: int
  rh_role :: message_role
  rh_snippet :: string
  rh_score :: string
  rh_time :: go_time

record memory_entry =
  me_id :: string
  me_content :: string
  me_tags :: "string list"
  me_time :: go_time

record tool_entry =
  te_name :: string
  te_description :: string
  te_parameters :: bytes
  te_requires :: bool
  te_action :: string
  te_target :: string

record recall_request =
  rq_query :: string
  rq_limit :: int
  rq_memories_only :: bool

record server_status =
  sv_version :: int
  sv_active :: nat
  sv_tools :: nat
  sv_capabilities :: "string list"

record diagnostic_info =
  di_name :: string
  di_started :: go_time
  di_listen :: string
  di_metadata :: string
  di_token_source :: string
  di_provider :: string
  di_model :: string
  di_store_type :: string
  di_store_path :: string
  di_settings_path :: string
  di_identity_path :: string
  di_coding_enabled :: bool
  di_coding_dir :: string
  di_remember_path :: string

record diagnostic_error =
  de_time :: go_time
  de_run :: string
  de_session :: string
  de_client :: string
  de_error :: string

record start_request =
  sr_text :: string
  sr_skill :: string
  sr_arguments :: metadata
  sr_client :: string
  sr_role :: string
  sr_model :: string
  sr_max_turns :: int
  sr_options :: metadata

record decision_request =
  dq_allow :: bool
  dq_reason :: string
  dq_remember :: string

datatype body =
    BodyHealth int
  | BodyError protocol_error
  | BodyStatus server_status
  | BodyDiagnostics server_status diagnostic_info "diagnostic_error list"
  | BodyTools "tool_entry list"
  | BodySkills "skill_entry list"
  | BodyRoles "role_entry list"
  | BodyRecall "recall_hit list"
  | BodyMemories "memory_entry list"
  | BodyMemory memory_entry
  | BodyGrants "perm_grant list"
  | BodyGrant perm_grant
  | BodyResources "resource_entry list"
  | BodyResource string string "resource_content list"
  | BodyPrompts "prompt_entry list"
  | BodyPrompt string string string "prompt_message list"
  | BodyStarted string string string
  | BodyCanceled string
  | BodyDecision string
  | BodyStream string

record response =
  rs_status :: int
  rs_body :: body

definition ok_response :: "body \<Rightarrow> response" where
  "ok_response b = \<lparr>rs_status = 200, rs_body = b\<rparr>"

definition error_response :: "int \<Rightarrow> string \<Rightarrow> string \<Rightarrow> response" where
  "error_response status code message =
     \<lparr>rs_status = status, rs_body = BodyError \<lparr>pe_code = code, pe_message = message, pe_retryable = False\<rparr>\<rparr>"

definition internal_error :: "go_error \<Rightarrow> response" where
  "internal_error e = error_response 500 ''internal'' (err_text e)"

definition invalid_request :: "string \<Rightarrow> response" where
  "invalid_request m = error_response 400 ''invalid_request'' m"

definition not_found :: "string \<Rightarrow> response" where
  "not_found m = error_response 404 ''not_found'' m"

section \<open>Routes\<close>

datatype endpoint =
    EpStatus | EpDiagnostics | EpTools | EpSkills | EpRoles | EpRecall | EpMemories | EpPermissions
  | EpForgetPermission string | EpForgetMemory string
  | EpResources | EpReadResource | EpPrompts | EpRenderPrompt
  | EpStartRun string | EpRunEvents string | EpDecide string string | EpCancelRun string

text \<open>One path segment between a prefix and a suffix, unescaped.\<close>

definition segment_id :: "string \<Rightarrow> string option" where
  "segment_id raw =
     (if raw = [] \<or> contains raw ''/'' then None
      else case path_unescape raw of None \<Rightarrow> None | Some i \<Rightarrow> if i = [] then None else Some i)"

definition between :: "string \<Rightarrow> string \<Rightarrow> string \<Rightarrow> string option" where
  "between pre suf p = (if has_prefix p pre \<and> has_suffix p suf then Some (trim_suffix (trim_prefix p pre) suf) else None)"

definition parse_start_run_path :: "string \<Rightarrow> string option" where
  "parse_start_run_path p = Option.bind (between ''/v1/sessions/'' ''/runs'' p) segment_id"

definition parse_run_events_path :: "string \<Rightarrow> string option" where
  "parse_run_events_path p = Option.bind (between ''/v1/runs/'' ''/events'' p) segment_id"

definition parse_permission_decision_path :: "string \<Rightarrow> (string \<times> string) option" where
  "parse_permission_decision_path p =
     Option.bind (between ''/v1/runs/'' ''/decision'' p) (\<lambda>rest.
       let (raw_run, raw_perm, found) = cut rest ''/permissions/'' in
       if \<not> found then None
       else case (segment_id raw_run, segment_id raw_perm) of (Some r, Some q) \<Rightarrow> Some (r, q) | _ \<Rightarrow> None)"

definition after_prefix :: "string \<Rightarrow> string \<Rightarrow> string option" where
  "after_prefix pre p = (if has_prefix p pre then Some (trim_prefix p pre) else None)"

definition parse_run_path :: "string \<Rightarrow> string option" where
  "parse_run_path p = Option.bind (after_prefix ''/v1/runs/'' p) segment_id"

definition parse_memory_path :: "string \<Rightarrow> string option" where
  "parse_memory_path p = Option.bind (after_prefix ''/v1/memories/'' p) segment_id"

definition parse_permission_grant_path :: "string \<Rightarrow> string option" where
  "parse_permission_grant_path p = Option.bind (after_prefix ''/v1/permissions/'' p) segment_id"

definition fixed_routes :: "(string \<times> (string \<times> endpoint)) list" where
  "fixed_routes =
     [(''/v1/status'', (''GET'', EpStatus)), (''/v1/diagnostics'', (''GET'', EpDiagnostics)),
      (''/v1/tools'', (''GET'', EpTools)), (''/v1/skills'', (''GET'', EpSkills)), (''/v1/roles'', (''GET'', EpRoles)),
      (''/v1/recall'', (''POST'', EpRecall)), (''/v1/memories'', (''GET'', EpMemories)),
      (''/v1/permissions'', (''GET'', EpPermissions))]"

definition mcp_routes :: "(string \<times> (string \<times> endpoint)) list" where
  "mcp_routes =
     [(''/v1/mcp/resources'', (''GET'', EpResources)), (''/v1/mcp/resources/read'', (''POST'', EpReadResource)),
      (''/v1/mcp/prompts'', (''GET'', EpPrompts)), (''/v1/mcp/prompts/get'', (''POST'', EpRenderPrompt))]"

text \<open>The first test of \<open>ServeHTTP\<close> that applies, with the method it wants.\<close>

definition first_some :: "'a option list \<Rightarrow> 'a option" where
  "first_some xs = (case List.map_filter id xs of [] \<Rightarrow> None | x # _ \<Rightarrow> Some x)"

definition route_of :: "string \<Rightarrow> (string \<times> endpoint) option" where
  "route_of p = first_some
     [map_of fixed_routes p,
      map_option (\<lambda>i. (''DELETE'', EpForgetPermission i)) (parse_permission_grant_path p),
      map_option (\<lambda>i. (''DELETE'', EpForgetMemory i)) (parse_memory_path p),
      map_of mcp_routes p,
      map_option (\<lambda>i. (''POST'', EpStartRun i)) (parse_start_run_path p),
      map_option (\<lambda>i. (''GET'', EpRunEvents i)) (parse_run_events_path p),
      map_option (\<lambda>(r, q). (''POST'', EpDecide r q)) (parse_permission_decision_path p),
      map_option (\<lambda>i. (''DELETE'', EpCancelRun i)) (parse_run_path p)]"

section \<open>The state of the server\<close>

record 'w host =
  ho_session :: "string \<Rightarrow> 'w \<Rightarrow> go_error option \<times> 'w"
  ho_tools :: "('w \<Rightarrow> tool_spec list) option"
  ho_skills :: "('w \<Rightarrow> (go_error + skill_entry list) \<times> 'w) option"
  ho_roles :: "('w \<Rightarrow> (go_error + role_entry list) \<times> 'w) option"
  ho_resources :: "('w \<Rightarrow> (go_error + resource_entry list) \<times> 'w) option"
  ho_prompts :: "('w \<Rightarrow> (go_error + prompt_entry list) \<times> 'w) option"
  ho_read :: "(string \<Rightarrow> string \<Rightarrow> 'w \<Rightarrow> (go_error + (string \<times> string \<times> resource_content list)) \<times> 'w) option"
  ho_render :: "(string \<Rightarrow> string \<Rightarrow> metadata \<Rightarrow> 'w
     \<Rightarrow> (go_error + (string \<times> string \<times> string \<times> prompt_message list)) \<times> 'w) option"
  ho_recall :: "(recall_request \<Rightarrow> 'w \<Rightarrow> (go_error + recall_hit list) \<times> 'w) option"
  ho_memories :: "(int \<Rightarrow> 'w \<Rightarrow> (go_error + memory_entry list) \<times> 'w) option"
  ho_forget :: "(string \<Rightarrow> 'w \<Rightarrow> (go_error + memory_entry) \<times> 'w) option"

record decoders =
  dc_start :: "bytes \<Rightarrow> start_request option"
  dc_decision :: "bytes \<Rightarrow> decision_request option"
  dc_recall :: "bytes \<Rightarrow> recall_request option"
  dc_read :: "bytes \<Rightarrow> (string \<times> string) option"
  dc_render :: "bytes \<Rightarrow> (string \<times> string \<times> metadata) option"

record 'w server_env =
  sn_host :: "'w host"
  sn_token :: string
  sn_broker :: "'w broker"
  sn_diagnostics :: diagnostic_info
  sn_decoders :: decoders
  sn_new_id :: "string \<Rightarrow> 'w \<Rightarrow> string \<times> 'w"
  sn_flushes :: bool

text \<open>\<open>dn_sent\<close> are the decisions sent on the channels of the tickets that wait for them; \<open>dn_jobs\<close> are the
  goroutines that execute runs, each with the place it has reached.\<close>

datatype job = JobNew start_request | JobPrompting start_request | JobClosing

record 'w server =
  dn_runs :: "(string \<times> daemon_run) list"
  dn_jobs :: "(string \<times> job) list"
  dn_errors :: "diagnostic_error list"
  dn_cache :: perm_cache
  dn_cancelled :: "string list"
  dn_sent :: "(nat \<times> permission_decision) list"
  dn_world :: 'w

definition with_start_time :: "go_time \<Rightarrow> diagnostic_info \<Rightarrow> diagnostic_info" where
  "with_start_time now i = (if di_started i = 0 then i\<lparr>di_started := now\<rparr> else i)"

text \<open>\<open>New\<close>: the token is required, the grants of the store are loaded.\<close>

definition new_server :: "(string \<Rightarrow> string) \<Rightarrow> string \<Rightarrow> (go_error + perm_grant list) option \<Rightarrow> 'w
    \<Rightarrow> go_error + (string \<times> 'w server)" where
  "new_server sha token0 stored w =
     (let token = trim_space token0;
          fresh = \<lparr>dn_runs = [], dn_jobs = [], dn_errors = [], dn_cache = no_grants, dn_cancelled = [], dn_sent = [], dn_world = w\<rparr>
      in if token = [] then Inl (new_error ''daemon: Token is required'')
         else case stored of
           None \<Rightarrow> Inr (token, fresh)
         | Some (Inl e) \<Rightarrow> Inl e
         | Some (Inr gs) \<Rightarrow> Inr (token, fresh\<lparr>dn_cache := load_grants sha gs no_grants\<rparr>))"

definition authorized :: "'w server_env \<Rightarrow> http_request \<Rightarrow> bool" where
  "authorized env r \<longleftrightarrow> hr_auth r = ''Bearer '' @ sn_token env"

definition active_run_count :: "'w server \<Rightarrow> nat" where
  "active_run_count s = length (filter (\<lambda>(i, r). \<not> dr_done r) (dn_runs s))"

definition status_response :: "'w server_env \<Rightarrow> 'w server \<Rightarrow> server_status" where
  "status_response env s =
     (let h = sn_host env in
      \<lparr>sv_version = protocol_version, sv_active = active_run_count s,
       sv_tools = (case ho_tools h of None \<Rightarrow> 0 | Some f \<Rightarrow> length (f (dn_world s))),
       sv_capabilities = [''runs'', ''events'', ''permissions'', ''permission_grants'', ''tools'', ''status'', ''diagnostics'']
         @ (if ho_resources h \<noteq> None then [''mcp_resources''] else [])
         @ (if ho_prompts h \<noteq> None then [''mcp_prompts''] else [])
         @ (if ho_read h \<noteq> None then [''mcp_resource_read''] else [])
         @ (if ho_render h \<noteq> None then [''mcp_prompt_get''] else [])
         @ (if ho_skills h \<noteq> None then [''skills''] else [])
         @ (if ho_roles h \<noteq> None then [''roles''] else [])
         @ (if ho_recall h \<noteq> None then [''recall''] else [])
         @ (if ho_memories h \<noteq> None then [''memories''] else [])
         @ (if ho_forget h \<noteq> None then [''memory_forget''] else [])\<rparr>)"

section \<open>Handlers of catalogs\<close>

definition handle_status :: "'w server_env \<Rightarrow> 'w server \<Rightarrow> response \<times> 'w server" where
  "handle_status env s = (ok_response (BodyStatus (status_response env s)), s)"

definition handle_diagnostics :: "'w server_env \<Rightarrow> 'w server \<Rightarrow> response \<times> 'w server" where
  "handle_diagnostics env s = (ok_response (BodyDiagnostics (status_response env s) (sn_diagnostics env) (dn_errors s)), s)"

definition handle_tools :: "'w server_env \<Rightarrow> 'w server \<Rightarrow> response \<times> 'w server" where
  "handle_tools env s =
     (case ho_tools (sn_host env) of
        None \<Rightarrow> (ok_response (BodyTools []), s)
      | Some f \<Rightarrow>
          (ok_response (BodyTools (map (\<lambda>t.
             \<lparr>te_name = ts_name t, te_description = ts_description t, te_parameters = ts_parameters t,
              te_requires = ts_requires_permission t, te_action = ts_permission_action t,
              te_target = (case ts_permission_target t of None \<Rightarrow> []
                 | Some g \<Rightarrow> g \<lparr>tc_id = [], tc_name = ts_name t, tc_args = []\<rparr>)\<rparr>) (f (dn_world s)))), s))"

text \<open>A catalog that the host may not have.\<close>

definition host_list :: "('a list \<Rightarrow> body) \<Rightarrow> ('w \<Rightarrow> (go_error + 'a list) \<times> 'w) option \<Rightarrow> 'w server
    \<Rightarrow> response \<times> 'w server" where
  "host_list wrap f s =
     (case f of
        None \<Rightarrow> (ok_response (wrap []), s)
      | Some g \<Rightarrow>
          (case g (dn_world s) of
             (Inl e, w) \<Rightarrow> (internal_error e, s\<lparr>dn_world := w\<rparr>)
           | (Inr xs, w) \<Rightarrow> (ok_response (wrap xs), s\<lparr>dn_world := w\<rparr>)))"

definition handle_skills :: "'w server_env \<Rightarrow> 'w server \<Rightarrow> response \<times> 'w server" where
  "handle_skills env = host_list BodySkills (ho_skills (sn_host env))"

definition handle_roles :: "'w server_env \<Rightarrow> 'w server \<Rightarrow> response \<times> 'w server" where
  "handle_roles env = host_list BodyRoles (ho_roles (sn_host env))"

definition handle_resources :: "'w server_env \<Rightarrow> 'w server \<Rightarrow> response \<times> 'w server" where
  "handle_resources env = host_list BodyResources (ho_resources (sn_host env))"

definition handle_prompts :: "'w server_env \<Rightarrow> 'w server \<Rightarrow> response \<times> 'w server" where
  "handle_prompts env = host_list BodyPrompts (ho_prompts (sn_host env))"

definition non_negative_query :: "string \<Rightarrow> string \<Rightarrow> go_error + int" where
  "non_negative_query name value =
     (let raw = trim_space value in
      if raw = [] then Inr 0
      else case atoi raw of
        None \<Rightarrow> Inl (new_error (name @ '' must be non-negative''))
      | Some n \<Rightarrow> if n < 0 then Inl (new_error (name @ '' must be non-negative'')) else Inr n)"

definition handle_memories :: "'w server_env \<Rightarrow> http_request \<Rightarrow> 'w server \<Rightarrow> response \<times> 'w server" where
  "handle_memories env r s =
     (case non_negative_query ''limit'' (hr_limit r) of
        Inl e \<Rightarrow> (invalid_request (err_text e), s)
      | Inr limit \<Rightarrow>
          (case ho_memories (sn_host env) of
             None \<Rightarrow> (ok_response (BodyMemories []), s)
           | Some f \<Rightarrow>
               (case f limit (dn_world s) of
                  (Inl e, w) \<Rightarrow> (internal_error e, s\<lparr>dn_world := w\<rparr>)
                | (Inr ms, w) \<Rightarrow> (ok_response (BodyMemories (if limit > 0 then take (nat limit) ms else ms)),
                                 s\<lparr>dn_world := w\<rparr>))))"

definition handle_recall :: "'w server_env \<Rightarrow> http_request \<Rightarrow> 'w server \<Rightarrow> response \<times> 'w server" where
  "handle_recall env r s =
     (case ho_recall (sn_host env) of
        None \<Rightarrow> (not_found ''recall is not supported by this host'', s)
      | Some f \<Rightarrow>
          (case dc_recall (sn_decoders env) (hr_body r) of
             None \<Rightarrow> (invalid_request ''invalid JSON body'', s)
           | Some q0 \<Rightarrow>
               (let q = q0\<lparr>rq_query := trim_space (rq_query q0)\<rparr> in
                if rq_query q = [] then (invalid_request ''query is required'', s)
                else if rq_limit q < 0 then (invalid_request ''limit must be non-negative'', s)
                else case f q (dn_world s) of
                  (Inl e, w) \<Rightarrow> (internal_error e, s\<lparr>dn_world := w\<rparr>)
                | (Inr hs, w) \<Rightarrow> (ok_response (BodyRecall hs), s\<lparr>dn_world := w\<rparr>))))"

definition handle_memory_forget :: "'w server_env \<Rightarrow> string \<Rightarrow> 'w server \<Rightarrow> response \<times> 'w server" where
  "handle_memory_forget env i s =
     (case ho_forget (sn_host env) of
        None \<Rightarrow> (not_found ''memory deletion is not supported by this host'', s)
      | Some f \<Rightarrow>
          (if trim_space i = [] then (invalid_request ''memory id is required'', s)
           else case f (trim_space i) (dn_world s) of
             (Inl e, w) \<Rightarrow> (internal_error e, s\<lparr>dn_world := w\<rparr>)
           | (Inr m, w) \<Rightarrow> (ok_response (BodyMemory m), s\<lparr>dn_world := w\<rparr>)))"

definition handle_read_resource :: "'w server_env \<Rightarrow> http_request \<Rightarrow> 'w server \<Rightarrow> response \<times> 'w server" where
  "handle_read_resource env r s =
     (case ho_read (sn_host env) of
        None \<Rightarrow> (not_found ''MCP resource reads are not supported by this host'', s)
      | Some f \<Rightarrow>
          (case dc_read (sn_decoders env) (hr_body r) of
             None \<Rightarrow> (invalid_request ''invalid JSON body'', s)
           | Some (server, uri) \<Rightarrow>
               (if trim_space server = [] then (invalid_request ''server is required'', s)
                else if trim_space uri = [] then (invalid_request ''uri is required'', s)
                else case f (trim_space server) (trim_space uri) (dn_world s) of
                  (Inl e, w) \<Rightarrow> (internal_error e, s\<lparr>dn_world := w\<rparr>)
                | (Inr (srv, u, cs), w) \<Rightarrow> (ok_response (BodyResource srv u cs), s\<lparr>dn_world := w\<rparr>))))"

definition handle_render_prompt :: "'w server_env \<Rightarrow> http_request \<Rightarrow> 'w server \<Rightarrow> response \<times> 'w server" where
  "handle_render_prompt env r s =
     (case ho_render (sn_host env) of
        None \<Rightarrow> (not_found ''MCP prompt rendering is not supported by this host'', s)
      | Some f \<Rightarrow>
          (case dc_render (sn_decoders env) (hr_body r) of
             None \<Rightarrow> (invalid_request ''invalid JSON body'', s)
           | Some (server, name, args) \<Rightarrow>
               (if trim_space server = [] then (invalid_request ''server is required'', s)
                else if trim_space name = [] then (invalid_request ''name is required'', s)
                else case f (trim_space server) (trim_space name) args (dn_world s) of
                  (Inl e, w) \<Rightarrow> (internal_error e, s\<lparr>dn_world := w\<rparr>)
                | (Inr (srv, n, d, ms), w) \<Rightarrow> (ok_response (BodyPrompt srv n d ms), s\<lparr>dn_world := w\<rparr>))))"

section \<open>Handlers of permissions\<close>

definition handle_permissions :: "'w server \<Rightarrow> response \<times> 'w server" where
  "handle_permissions s = (ok_response (BodyGrants (grants_of (dn_cache s))), s)"

definition handle_permission_forget :: "'w server_env \<Rightarrow> string \<Rightarrow> 'w server \<Rightarrow> response \<times> 'w server" where
  "handle_permission_forget env i s =
     (if trim_space i = [] then (invalid_request ''permission id is required'', s)
      else case forget_permission (sn_broker env) (trim_space i) (dn_cache s, dn_world s) of
        (Inl e, (pc, w)) \<Rightarrow> (internal_error e, s\<lparr>dn_cache := pc, dn_world := w\<rparr>)
      | (Inr None, (pc, w)) \<Rightarrow> (not_found ''permission grant not found'', s\<lparr>dn_cache := pc, dn_world := w\<rparr>)
      | (Inr (Some g), (pc, w)) \<Rightarrow> (ok_response (BodyGrant g), s\<lparr>dn_cache := pc, dn_world := w\<rparr>))"

text \<open>Only a client that names itself is compared with the owner of the run.\<close>

definition foreign_client :: "http_request \<Rightarrow> daemon_run \<Rightarrow> bool" where
  "foreign_client r d \<longleftrightarrow> hr_client r \<noteq> [] \<and> ri_client (dr_info d) \<noteq> [] \<and> hr_client r \<noteq> ri_client (dr_info d)"

definition decision_of :: "decision_request \<Rightarrow> remember_scope \<Rightarrow> permission_decision" where
  "decision_of q scope =
     \<lparr>pd_allow = dq_allow q,
      pd_reason = (if \<not> dq_allow q \<and> trim_space (dq_reason q) = [] then ''permission denied by daemon client''
                   else dq_reason q),
      pd_remember = scope\<rparr>"

definition handle_permission_decision :: "'w server_env \<Rightarrow> http_request \<Rightarrow> string \<Rightarrow> string \<Rightarrow> 'w server
    \<Rightarrow> response \<times> 'w server" where
  "handle_permission_decision env r rid pid s =
     (case map_of (dn_runs s) rid of
        None \<Rightarrow> (not_found ''run not found'', s)
      | Some d \<Rightarrow>
          (if foreign_client r d
           then (error_response 403 ''forbidden'' ''permission decision belongs to another client'', s)
           else case dc_decision (sn_decoders env) (hr_body r) of
             None \<Rightarrow> (invalid_request ''invalid JSON body'', s)
           | Some q \<Rightarrow>
               (case parse_remember_scope (dq_remember q) of
                  None \<Rightarrow> (invalid_request ''invalid remember_for'', s)
                | Some scope \<Rightarrow>
                    (case claim_permission pid d of
                       (None, d') \<Rightarrow> (not_found ''permission request not found'', s)
                     | (Some ticket, d') \<Rightarrow>
                         (ok_response (BodyDecision pid),
                          s\<lparr>dn_runs := AList.update rid d' (dn_runs s),
                            dn_sent := (ticket, decision_of q scope) # dn_sent s\<rparr>)))))"

section \<open>Handlers of runs\<close>

text \<open>The loop of \<open>newRun\<close> ends when the generator returns an id that no run has; it may not.\<close>

partial_function (option) fresh_id :: "(string \<Rightarrow> 'w \<Rightarrow> string \<times> 'w) \<Rightarrow> string \<Rightarrow> string list \<Rightarrow> 'w
    \<Rightarrow> (string \<times> 'w) option" where
  "fresh_id gen pre used w =
     (let (i, w1) = gen pre w in if i \<in> set used then fresh_id gen pre used w1 else Some (i, w1))"

definition new_run :: "'w server_env \<Rightarrow> string \<Rightarrow> string \<Rightarrow> 'w server \<Rightarrow> (string \<times> 'w server) option" where
  "new_run env session client s =
     map_option (\<lambda>(i, w). (i, s\<lparr>dn_runs := (i, new_daemon_run \<lparr>ri_id = i, ri_session = session, ri_client = client\<rparr>)
         # dn_runs s, dn_world := w\<rparr>))
       (fresh_id (sn_new_id env) ''run'' (map fst (dn_runs s)) (dn_world s))"

definition handle_start_run :: "'w server_env \<Rightarrow> http_request \<Rightarrow> string \<Rightarrow> 'w server
    \<Rightarrow> (response \<times> 'w server) option" where
  "handle_start_run env r session s =
     (case dc_start (sn_decoders env) (hr_body r) of
        None \<Rightarrow> Some (invalid_request ''invalid JSON body'', s)
      | Some q0 \<Rightarrow>
          (let q = q0\<lparr>sr_text := trim_space (sr_text q0), sr_skill := trim_space (sr_skill q0)\<rparr> in
           if sr_text q = [] \<and> sr_skill q = [] then Some (invalid_request ''text or skill is required'', s)
           else if sr_text q \<noteq> [] \<and> sr_skill q \<noteq> [] then
             Some (invalid_request ''choose only one of text or skill'', s)
           else case ho_session (sn_host env) session (dn_world s) of
             (Some e, w) \<Rightarrow> Some (internal_error e, s\<lparr>dn_world := w\<rparr>)
           | (None, w) \<Rightarrow>
               map_option (\<lambda>(i, s').
                  (\<lparr>rs_status = 201,
                    rs_body = BodyStarted i session (''/v1/runs/'' @ path_escape i @ ''/events'')\<rparr>,
                   s'\<lparr>dn_jobs := (i, JobNew q) # dn_jobs s'\<rparr>))
                 (new_run env session (sr_client q) (s\<lparr>dn_world := w\<rparr>))))"

definition cancel_run :: "string \<Rightarrow> 'w server \<Rightarrow> 'w server" where
  "cancel_run rid s = s\<lparr>dn_cancelled := List.insert rid (dn_cancelled s)\<rparr>"

text \<open>The events are streamed until the run is done, or until the reader goes away, which cancels the run; a
  stream with nothing to write and nothing to wait for cannot lose its reader.\<close>

definition handle_run_events :: "'w server_env \<Rightarrow> http_request \<Rightarrow> string \<Rightarrow> 'w server \<Rightarrow> response \<times> 'w server" where
  "handle_run_events env r rid s =
     (case map_of (dn_runs s) rid of
        None \<Rightarrow> (not_found ''run not found'', s)
      | Some d \<Rightarrow>
          (if \<not> sn_flushes env then (error_response 500 ''internal'' ''streaming unsupported'', s)
           else (ok_response (BodyStream rid),
             if hr_dropped r \<and> (dr_events d \<noteq> [] \<or> \<not> dr_done d) then cancel_run rid s else s)))"

definition handle_cancel_run :: "string \<Rightarrow> 'w server \<Rightarrow> response \<times> 'w server" where
  "handle_cancel_run rid s =
     (if map_of (dn_runs s) rid = None then (not_found ''run not found'', s)
      else (\<lparr>rs_status = 202, rs_body = BodyCanceled rid\<rparr>, cancel_run rid s))"

section \<open>Serving a request\<close>

definition handle_endpoint :: "'w server_env \<Rightarrow> http_request \<Rightarrow> endpoint \<Rightarrow> 'w server
    \<Rightarrow> (response \<times> 'w server) option" where
  "handle_endpoint env r ep s =
     (case ep of
        EpStatus \<Rightarrow> Some (handle_status env s)
      | EpDiagnostics \<Rightarrow> Some (handle_diagnostics env s)
      | EpTools \<Rightarrow> Some (handle_tools env s)
      | EpSkills \<Rightarrow> Some (handle_skills env s)
      | EpRoles \<Rightarrow> Some (handle_roles env s)
      | EpRecall \<Rightarrow> Some (handle_recall env r s)
      | EpMemories \<Rightarrow> Some (handle_memories env r s)
      | EpPermissions \<Rightarrow> Some (handle_permissions s)
      | EpForgetPermission i \<Rightarrow> Some (handle_permission_forget env i s)
      | EpForgetMemory i \<Rightarrow> Some (handle_memory_forget env i s)
      | EpResources \<Rightarrow> Some (handle_resources env s)
      | EpReadResource \<Rightarrow> Some (handle_read_resource env r s)
      | EpPrompts \<Rightarrow> Some (handle_prompts env s)
      | EpRenderPrompt \<Rightarrow> Some (handle_render_prompt env r s)
      | EpStartRun i \<Rightarrow> handle_start_run env r i s
      | EpRunEvents i \<Rightarrow> Some (handle_run_events env r i s)
      | EpDecide i p \<Rightarrow> Some (handle_permission_decision env r i p s)
      | EpCancelRun i \<Rightarrow> Some (handle_cancel_run i s))"

definition method_not_allowed :: response where
  "method_not_allowed = error_response 405 ''method_not_allowed'' ''method not allowed''"

text \<open>\<open>None\<close> only when the search for a fresh run id does not end.\<close>

definition serve :: "'w server_env \<Rightarrow> http_request \<Rightarrow> 'w server \<Rightarrow> (response \<times> 'w server) option" where
  "serve env r s =
     (if hr_path r = ''/v1/health'' then
        Some (if hr_method r \<noteq> ''GET'' then method_not_allowed else ok_response (BodyHealth protocol_version), s)
      else if \<not> authorized env r then
        Some (error_response 401 ''unauthorized'' ''missing or invalid bearer token'', s)
      else case route_of (hr_path r) of
        None \<Rightarrow> Some (not_found ''route not found'', s)
      | Some (m, ep) \<Rightarrow>
          (if hr_method r \<noteq> m then Some (method_not_allowed, s) else handle_endpoint env r ep s))"

section \<open>Lemmas on routes\<close>

definition plain_id :: "string \<Rightarrow> bool" where
  "plain_id i \<longleftrightarrow> i \<noteq> [] \<and> CHR ''/'' \<notin> set i \<and> CHR ''%'' \<notin> set i"

lemma path_unescape_plain: "CHR ''%'' \<notin> set i \<Longrightarrow> path_unescape i = Some i"
  by (induction i) auto

lemma contains_char: "contains s [c] \<longleftrightarrow> c \<in> set s"
  by (auto simp: contains_iff sublist_def in_set_conv_decomp)

lemma segment_id_plain [simp]: "plain_id i \<Longrightarrow> segment_id i = Some i"
  by (simp add: segment_id_def plain_id_def contains_char path_unescape_plain)

lemma has_prefix_append [simp]: "has_prefix (p @ t) p" "trim_prefix (p @ t) p = t"
  by (simp_all add: has_prefix_def trim_prefix_def)

lemma has_suffix_append [simp]: "has_suffix (t @ p) p" "trim_suffix (t @ p) p = t"
  by (simp_all add: has_suffix_def trim_suffix_def)

lemma has_suffix_inner: "length p \<le> length v \<Longrightarrow> has_suffix (u @ v) p = has_suffix v p"
  by (simp add: has_suffix_def)

lemma between_append [simp]: "between pre suf (pre @ x @ suf) = Some x"
proof -
  have "has_suffix (pre @ x @ suf) suf" using has_suffix_append(1) [of "pre @ x" suf] by simp
  then show ?thesis by (simp add: between_def)
qed

lemma between_other_prefix: "\<not> has_prefix p pre \<Longrightarrow> between pre suf p = None"
  by (simp add: between_def)

lemma between_other_suffix: "\<not> has_suffix p suf \<Longrightarrow> between pre suf p = None"
  by (simp add: between_def)

lemma index_of_first: "c \<notin> set i \<Longrightarrow> index_of (i @ (c # p) @ t) (c # p) = Some (length i)"
  by (induction i) (auto simp: has_prefix_def)

lemma cut_first: "c \<notin> set i \<Longrightarrow> cut (i @ (c # p) @ t) (c # p) = (i, t, True)"
  using index_of_first [of c i p t] by (simp add: cut_def)

lemma cut_missing: "c \<notin> set i \<Longrightarrow> cut i (c # p) = (i, [], False)"
  by (auto simp: cut_def index_of_None sublist_def split: option.split)

text \<open>The last segment of a path without a slash.\<close>

lemma has_suffix_segment:
  assumes "CHR ''/'' \<notin> set i" "CHR ''/'' \<notin> set t"
  shows "has_suffix (u @ CHR ''/'' # i) (CHR ''/'' # t) \<longleftrightarrow> i = t"
proof
  assume "has_suffix (u @ CHR ''/'' # i) (CHR ''/'' # t)"
  then obtain v where v: "u @ CHR ''/'' # i = v @ CHR ''/'' # t"
    unfolding has_suffix_def by (metis append_take_drop_id)
  then have "rev i @ CHR ''/'' # rev u = rev t @ CHR ''/'' # rev v"
    by (metis append.assoc append_Cons append_Nil rev.simps(2) rev_append)
  then have "takeWhile (\<lambda>c. c \<noteq> CHR ''/'') (rev i @ CHR ''/'' # rev u)
      = takeWhile (\<lambda>c. c \<noteq> CHR ''/'') (rev t @ CHR ''/'' # rev v)" by simp
  moreover have "takeWhile (\<lambda>c. c \<noteq> CHR ''/'') (rev x @ CHR ''/'' # y) = rev x" if "CHR ''/'' \<notin> set x" for x y
    using that by (subst takeWhile_append2) auto
  ultimately show "i = t" using assms by simp
qed (simp add: has_suffix_def)

lemmas route_defs = route_of_def first_some_def parse_permission_grant_path_def parse_memory_path_def
  parse_start_run_path_def parse_run_events_path_def parse_permission_decision_path_def parse_run_path_def
  after_prefix_def fixed_routes_def mcp_routes_def List.map_filter_simps

lemma start_route:
  "plain_id i \<Longrightarrow> route_of (''/v1/sessions/'' @ i @ ''/runs'') = Some (''POST'', EpStartRun i)"
  using between_append [of "''/v1/sessions/''" "''/runs''" i]
  by (simp add: route_defs has_prefix_def)

lemma events_route:
  "plain_id i \<Longrightarrow> route_of (''/v1/runs/'' @ i @ ''/events'') = Some (''GET'', EpRunEvents i)"
  using between_append [of "''/v1/runs/''" "''/events''" i]
  by (simp add: route_defs has_prefix_def between_def)

lemma decision_route:
  assumes "plain_id i" "plain_id p"
  shows "route_of (''/v1/runs/'' @ i @ ''/permissions/'' @ p @ ''/decision'') = Some (''POST'', EpDecide i p)"
proof -
  let ?path = "''/v1/runs/'' @ i @ ''/permissions/'' @ p @ ''/decision''"
  have b: "between ''/v1/runs/'' ''/decision'' ?path = Some (i @ ''/permissions/'' @ p)"
    using between_append [of "''/v1/runs/''" "''/decision''" "i @ ''/permissions/'' @ p"] by simp
  have c: "cut (i @ ''/permissions/'' @ p) ''/permissions/'' = (i, p, True)"
    using assms(1) by (intro cut_first) (simp add: plain_id_def)
  have "has_suffix ?path ''/events'' = has_suffix ''/decision'' ''/events''"
    using has_suffix_inner [of "''/events''" "''/decision''" "''/v1/runs/'' @ i @ ''/permissions/'' @ p"] by simp
  then have e: "between ''/v1/runs/'' ''/events'' ?path = None"
    by (intro between_other_suffix) (simp add: has_suffix_def)
  have d: "parse_permission_decision_path ?path = Some (i, p)"
    unfolding parse_permission_decision_path_def b using c assms by simp
  have s: "parse_start_run_path ?path = None" "parse_permission_grant_path ?path = None" "parse_memory_path ?path = None"
    by (simp_all add: parse_start_run_path_def parse_permission_grant_path_def parse_memory_path_def after_prefix_def
          between_def has_prefix_def)
  have f: "map_of fixed_routes ?path = None" "map_of mcp_routes ?path = None"
    by (simp_all add: fixed_routes_def mcp_routes_def)
  show ?thesis
    unfolding route_of_def first_some_def d s f parse_run_events_path_def e by (simp add: List.map_filter_simps)
qed

lemma cancel_route:
  assumes "plain_id i" "i \<noteq> ''events''"
  shows "route_of (''/v1/runs/'' @ i) = Some (''DELETE'', EpCancelRun i)"
proof -
  let ?path = "''/v1/runs/'' @ i"
  have n: "CHR ''/'' \<notin> set i" using assms(1) by (simp add: plain_id_def)
  have "has_suffix ?path ''/events'' = (i = ''events'')"
    using has_suffix_segment [OF n, of "''events''" "''/v1/runs''"] by simp
  then have e: "between ''/v1/runs/'' ''/events'' ?path = None"
    using assms(2) by (intro between_other_suffix) simp
  have d: "parse_permission_decision_path ?path = None"
  proof (cases "i = ''decision''")
    case True
    then show ?thesis
      by (simp add: parse_permission_decision_path_def between_def has_prefix_def has_suffix_def trim_prefix_def
            trim_suffix_def cut_def)
  next
    case False
    have "has_suffix ?path ''/decision'' = (i = ''decision'')"
      using has_suffix_segment [OF n, of "''decision''" "''/v1/runs''"] by simp
    then show ?thesis
      using False by (simp add: parse_permission_decision_path_def between_other_suffix)
  qed
  have s: "parse_start_run_path ?path = None" "parse_permission_grant_path ?path = None" "parse_memory_path ?path = None"
    by (simp_all add: parse_start_run_path_def parse_permission_grant_path_def parse_memory_path_def after_prefix_def
          between_def has_prefix_def)
  have f: "map_of fixed_routes ?path = None" "map_of mcp_routes ?path = None"
    by (simp_all add: fixed_routes_def mcp_routes_def)
  have c: "parse_run_path ?path = Some i"
    using assms has_prefix_append [of "''/v1/runs/''" i] by (simp add: parse_run_path_def after_prefix_def)
  show ?thesis
    unfolding route_of_def first_some_def d s f c parse_run_events_path_def e by (simp add: List.map_filter_simps)
qed

section \<open>What a request may change\<close>

text \<open>Everything but the world and the grants.\<close>

definition same_runs :: "'w server \<Rightarrow> 'w server \<Rightarrow> bool" where
  "same_runs s s' \<longleftrightarrow> dn_runs s' = dn_runs s \<and> dn_jobs s' = dn_jobs s \<and> dn_errors s' = dn_errors s
     \<and> dn_cancelled s' = dn_cancelled s \<and> dn_sent s' = dn_sent s"

lemma same_runs_refl [simp]: "same_runs s s"
  by (simp add: same_runs_def)

lemma same_runs_world [simp]:
  "same_runs s (s\<lparr>dn_world := w\<rparr>)" "same_runs s (s\<lparr>dn_cache := pc, dn_world := w\<rparr>)"
  by (simp_all add: same_runs_def)

lemmas response_defs = ok_response_def error_response_def internal_error_def invalid_request_def not_found_def

lemmas catalog_defs = handle_status_def handle_diagnostics_def handle_tools_def host_list_def handle_skills_def
  handle_roles_def handle_resources_def handle_prompts_def handle_memories_def handle_recall_def
  handle_memory_forget_def handle_read_resource_def handle_render_prompt_def

lemma host_list_frame: "host_list wrap f s = (resp, s') \<Longrightarrow> \<exists>w. s' = s\<lparr>dn_world := w\<rparr>"
  by (cases f) (auto simp: host_list_def split: prod.splits sum.splits intro: exI [of _ "dn_world s"])

lemma catalog_frame:
  "handle_skills env s = (resp, s') \<Longrightarrow> \<exists>w. s' = s\<lparr>dn_world := w\<rparr>"
  "handle_roles env s = (resp, s') \<Longrightarrow> \<exists>w. s' = s\<lparr>dn_world := w\<rparr>"
  "handle_resources env s = (resp, s') \<Longrightarrow> \<exists>w. s' = s\<lparr>dn_world := w\<rparr>"
  "handle_prompts env s = (resp, s') \<Longrightarrow> \<exists>w. s' = s\<lparr>dn_world := w\<rparr>"
  by (auto simp: handle_skills_def handle_roles_def handle_resources_def handle_prompts_def dest: host_list_frame)

lemma world_same: "\<exists>w. s = s\<lparr>dn_world := w\<rparr>"
  by (rule exI [of _ "dn_world s"]) simp

lemma memories_frame: "handle_memories env r s = (resp, s') \<Longrightarrow> \<exists>w. s' = s\<lparr>dn_world := w\<rparr>"
  by (auto simp: handle_memories_def world_same split: sum.splits option.splits prod.splits)

lemma recall_frame: "handle_recall env r s = (resp, s') \<Longrightarrow> \<exists>w. s' = s\<lparr>dn_world := w\<rparr>"
  by (auto simp: handle_recall_def Let_def world_same split: sum.splits option.splits prod.splits if_splits)

lemma memory_forget_frame: "handle_memory_forget env i s = (resp, s') \<Longrightarrow> \<exists>w. s' = s\<lparr>dn_world := w\<rparr>"
  by (auto simp: handle_memory_forget_def world_same split: sum.splits option.splits prod.splits if_splits)

lemma read_resource_frame: "handle_read_resource env r s = (resp, s') \<Longrightarrow> \<exists>w. s' = s\<lparr>dn_world := w\<rparr>"
  by (auto simp: handle_read_resource_def world_same split: sum.splits option.splits prod.splits if_splits)

lemma render_prompt_frame: "handle_render_prompt env r s = (resp, s') \<Longrightarrow> \<exists>w. s' = s\<lparr>dn_world := w\<rparr>"
  by (auto simp: handle_render_prompt_def world_same split: sum.splits option.splits prod.splits if_splits)

lemma fresh_id_fresh:
  assumes "fresh_id gen pre used w = Some y"
  shows "fst y \<notin> set used"
  using _ assms
proof (rule fresh_id.raw_induct [where P = "\<lambda>gen pre used w y. fst y \<notin> set used"])
  fix fresh gen pre used w y
  assume ih: "\<And>gen pre used w y. fresh gen pre used w = Some y \<Longrightarrow> fst y \<notin> set (used :: string list)"
    and eq: "(let (i, w1) = gen pre w in if i \<in> set used then fresh gen pre used w1 else Some (i, w1)) = Some y"
  show "fst y \<notin> set used"
  proof (cases "fst (gen pre w) \<in> set used")
    case True
    then show ?thesis using eq ih [of gen pre used "snd (gen pre w)" y] by (simp add: case_prod_beta)
  next
    case False
    then show ?thesis using eq by (auto simp: case_prod_beta)
  qed
qed

text \<open>The routes whose handlers leave the runs and the grants alone.\<close>

definition quiet :: "endpoint \<Rightarrow> bool" where
  "quiet ep \<longleftrightarrow> (case ep of EpForgetPermission i \<Rightarrow> False | EpStartRun i \<Rightarrow> False | EpDecide i p \<Rightarrow> False
     | EpCancelRun i \<Rightarrow> False | EpRunEvents i \<Rightarrow> False | _ \<Rightarrow> True)"

lemma quiet_frame:
  assumes "handle_endpoint env r ep s = Some (resp, s')" "quiet ep"
  shows "\<exists>w. s' = s\<lparr>dn_world := w\<rparr>"
proof (cases ep)
  case EpMemories
  then show ?thesis using assms memories_frame [of env r s resp s'] by (simp add: handle_endpoint_def)
next
  case EpRecall
  then show ?thesis using assms recall_frame [of env r s resp s'] by (simp add: handle_endpoint_def)
next
  case (EpForgetMemory i)
  then show ?thesis using assms memory_forget_frame [of env i s resp s'] by (simp add: handle_endpoint_def)
next
  case EpReadResource
  then show ?thesis using assms read_resource_frame [of env r s resp s'] by (simp add: handle_endpoint_def)
next
  case EpRenderPrompt
  then show ?thesis using assms render_prompt_frame [of env r s resp s'] by (simp add: handle_endpoint_def)
next
  case EpTools
  then show ?thesis using assms world_same [of s] by (auto simp: handle_endpoint_def handle_tools_def split: option.splits)
next
  case EpSkills
  then show ?thesis using assms catalog_frame(1) [of env s resp s'] by (simp add: handle_endpoint_def)
next
  case EpRoles
  then show ?thesis using assms catalog_frame(2) [of env s resp s'] by (simp add: handle_endpoint_def)
next
  case EpResources
  then show ?thesis using assms catalog_frame(3) [of env s resp s'] by (simp add: handle_endpoint_def)
next
  case EpPrompts
  then show ?thesis using assms catalog_frame(4) [of env s resp s'] by (simp add: handle_endpoint_def)
qed (use assms world_same [of s] in
      \<open>simp_all add: handle_endpoint_def quiet_def handle_status_def handle_diagnostics_def handle_permissions_def\<close>)

text \<open>What the other routes may do.\<close>

definition run_effect :: "http_request \<Rightarrow> endpoint \<Rightarrow> 'w server \<Rightarrow> 'w server \<Rightarrow> bool" where
  "run_effect r ep s s' \<longleftrightarrow> (case ep of
      EpStartRun i \<Rightarrow> \<exists>rid q. rid \<notin> fst ` set (dn_runs s) \<and> (sr_text q = []) \<noteq> (sr_skill q = [])
        \<and> dn_runs s' = (rid, new_daemon_run \<lparr>ri_id = rid, ri_session = i, ri_client = sr_client q\<rparr>) # dn_runs s
        \<and> dn_jobs s' = (rid, JobNew q) # dn_jobs s \<and> dn_sent s' = dn_sent s \<and> dn_cancelled s' = dn_cancelled s
        \<and> dn_errors s' = dn_errors s
    | EpDecide i p \<Rightarrow> \<exists>d ticket a. map_of (dn_runs s) i = Some d \<and> \<not> foreign_client r d
        \<and> map_of (dr_pending d) p = Some ticket \<and> dn_sent s' = (ticket, a) # dn_sent s
        \<and> dn_runs s' = AList.update i (d\<lparr>dr_pending := AList.delete p (dr_pending d)\<rparr>) (dn_runs s)
        \<and> dn_jobs s' = dn_jobs s \<and> dn_cancelled s' = dn_cancelled s \<and> dn_errors s' = dn_errors s
    | EpCancelRun i \<Rightarrow> i \<in> fst ` set (dn_runs s) \<and> s' = cancel_run i s
    | EpRunEvents i \<Rightarrow> hr_dropped r \<and> i \<in> fst ` set (dn_runs s) \<and> s' = cancel_run i s
    | _ \<Rightarrow> False)"

lemma start_effect:
  assumes "handle_start_run env r i s = Some (resp, s')"
  shows "dn_cache s' = dn_cache s \<and> (same_runs s s' \<or> rs_status resp = 201 \<and> run_effect r (EpStartRun i) s s')"
proof (cases "dc_start (sn_decoders env) (hr_body r)")
  case None
  then show ?thesis using assms by (auto simp: handle_start_run_def)
next
  case (Some q0)
  let ?q = "q0\<lparr>sr_text := trim_space (sr_text q0), sr_skill := trim_space (sr_skill q0)\<rparr>"
  show ?thesis
  proof (cases "(sr_text ?q = []) = (sr_skill ?q = [])")
    case True
    then show ?thesis using assms Some by (auto simp: handle_start_run_def Let_def split: if_splits)
  next
    case one: False
    obtain x w where h: "ho_session (sn_host env) i (dn_world s) = (x, w)" by fastforce
    show ?thesis
    proof (cases x)
      case (Some e)
      then show ?thesis using assms \<open>dc_start _ _ = Some q0\<close> one h
        by (auto simp: handle_start_run_def Let_def split: if_splits)
    next
      case None
      then obtain rid w' where f: "fresh_id (sn_new_id env) ''run'' (map fst (dn_runs s)) w = Some (rid, w')"
        and s': "rs_status resp = 201"
          "s' = s\<lparr>dn_runs := (rid, new_daemon_run \<lparr>ri_id = rid, ri_session = i, ri_client = sr_client ?q\<rparr>) # dn_runs s,
             dn_jobs := (rid, JobNew ?q) # dn_jobs s, dn_world := w'\<rparr>"
        using assms \<open>dc_start _ _ = Some q0\<close> one h
        by (auto simp: handle_start_run_def new_run_def Let_def split: if_splits)
      have "rid \<notin> fst ` set (dn_runs s)" using fresh_id_fresh [OF f] by simp
      then have "run_effect r (EpStartRun i) s s'"
        unfolding run_effect_def using one by (auto simp: s' intro!: exI [of _ rid] exI [of _ ?q])
      then show ?thesis by (simp add: s')
    qed
  qed
qed

lemma decision_effect:
  assumes "handle_permission_decision env r i p s = (resp, s')"
  shows "dn_cache s' = dn_cache s \<and> (same_runs s s' \<or> rs_status resp = 200 \<and> run_effect r (EpDecide i p) s s')"
proof (cases "\<exists>d q scope ticket. map_of (dn_runs s) i = Some d \<and> \<not> foreign_client r d
    \<and> dc_decision (sn_decoders env) (hr_body r) = Some q \<and> parse_remember_scope (dq_remember q) = Some scope
    \<and> map_of (dr_pending d) p = Some ticket")
  case True
  then obtain d q scope ticket where t: "map_of (dn_runs s) i = Some d" "\<not> foreign_client r d"
    "dc_decision (sn_decoders env) (hr_body r) = Some q" "parse_remember_scope (dq_remember q) = Some scope"
    "map_of (dr_pending d) p = Some ticket" by blast
  then have "run_effect r (EpDecide i p) s s'" "rs_status resp = 200" "dn_cache s' = dn_cache s"
    using assms by (auto simp: handle_permission_decision_def claim_permission_def run_effect_def ok_response_def)
  then show ?thesis by simp
next
  case False
  then have "s' = s"
    using assms by (auto simp: handle_permission_decision_def claim_permission_def split: option.splits if_splits)
  then show ?thesis by simp
qed

lemma cancel_effect:
  "handle_cancel_run i s = (resp, s') \<Longrightarrow>
     dn_cache s' = dn_cache s \<and> (same_runs s s' \<or> rs_status resp = 202 \<and> run_effect r (EpCancelRun i) s s')"
  by (auto simp: handle_cancel_run_def run_effect_def cancel_run_def map_of_eq_None_iff split: if_splits)

lemma events_effect:
  assumes "handle_run_events env r i s = (resp, s')"
  shows "dn_cache s' = dn_cache s \<and> (same_runs s s' \<or> rs_status resp < 300 \<and> run_effect r (EpRunEvents i) s s')"
proof (cases "map_of (dn_runs s) i")
  case None
  then show ?thesis using assms by (auto simp: handle_run_events_def)
next
  case (Some d)
  then have "i \<in> fst ` set (dn_runs s)" by (force dest: map_of_SomeD)
  then show ?thesis using assms Some
    by (auto simp: handle_run_events_def run_effect_def cancel_run_def ok_response_def split: if_splits)
qed

lemma forget_effect: "handle_permission_forget env i s = (resp, s') \<Longrightarrow> same_runs s s'"
  by (auto simp: handle_permission_forget_def split: if_splits prod.splits sum.splits option.splits)

section \<open>Properties\<close>

lemma endpoint_effect:
  assumes "handle_endpoint env r ep s = Some (resp, s')"
  shows "(same_runs s s' \<or> rs_status resp < 300 \<and> run_effect r ep s s')
    \<and> (dn_cache s' = dn_cache s \<or> (\<exists>i. ep = EpForgetPermission i))"
proof (cases "quiet ep")
  case True
  then show ?thesis using quiet_frame [OF assms] by auto
next
  case False
  then consider (forget) i where "ep = EpForgetPermission i" | (start) i where "ep = EpStartRun i"
    | (decide) i p where "ep = EpDecide i p" | (cancel) i where "ep = EpCancelRun i"
    | (events) i where "ep = EpRunEvents i"
    by (auto simp: quiet_def split: endpoint.splits)
  then show ?thesis
  proof cases
    case forget
    then show ?thesis using assms forget_effect [of env i s resp s'] by (auto simp: handle_endpoint_def)
  next
    case start
    then show ?thesis using assms start_effect [of env r i s resp s'] by (auto simp: handle_endpoint_def)
  next
    case decide
    then show ?thesis using assms decision_effect [of env r i p s resp s'] by (auto simp: handle_endpoint_def)
  next
    case cancel
    then show ?thesis using assms cancel_effect [of i s resp s' r] by (auto simp: handle_endpoint_def)
  next
    case events
    then show ?thesis using assms events_effect [of env r i s resp s'] by (auto simp: handle_endpoint_def)
  qed
qed

lemma requests_frame:
  assumes "serve env r s = Some (resp, s')" "\<not> same_runs s s'"
  shows "authorized env r \<and> rs_status resp < 300 \<and> (\<exists>ep. route_of (hr_path r) = Some (hr_method r, ep) \<and> run_effect r ep s s')"
proof -
  have a: "hr_path r \<noteq> ''/v1/health''" "authorized env r" using assms by (auto simp: serve_def split: if_splits)
  then obtain m ep where m: "route_of (hr_path r) = Some (m, ep)" "m = hr_method r"
    using assms by (auto simp: serve_def split: option.splits if_splits)
  then have "handle_endpoint env r ep s = Some (resp, s')" using a assms(1) by (simp add: serve_def)
  from endpoint_effect [OF this] show ?thesis using a m assms(2) by blast
qed

text \<open>C20. A request without the bearer token changes nothing, and apart from the health check it gets a 401.
  A request that is refused leaves runs, running jobs, cancellations and sent answers alone. What changes
  them is a POST that starts one run under a fresh id, a POST that answers one pending permission request
  of one run and does not come from another client that names itself, a DELETE that cancels a known run, or
  the event stream of a known run whose reader goes away, which cancels that run whoever the reader is;
  remembered grants are changed by a DELETE of a grant only.\<close>

theorem requests_change_what_they_name:
  assumes "serve env r s = Some (resp, s')"
  shows "(authorized env r \<or> s' = s \<and> (hr_path r = ''/v1/health'' \<or> rs_status resp = 401))
    \<and> (same_runs s s' \<or> rs_status resp < 300
         \<and> (\<exists>ep. route_of (hr_path r) = Some (hr_method r, ep) \<and> run_effect r ep s s'))
    \<and> (dn_cache s' = dn_cache s \<or> (\<exists>i. route_of (hr_path r) = Some (hr_method r, EpForgetPermission i)))"
proof (cases "hr_path r = ''/v1/health'' \<or> \<not> authorized env r")
  case True
  then have "s' = s" "hr_path r = ''/v1/health'' \<or> rs_status resp = 401"
    using assms by (auto simp: serve_def error_response_def split: if_splits)
  then show ?thesis by simp
next
  case False
  then have a: "authorized env r" "hr_path r \<noteq> ''/v1/health''" by simp_all
  show ?thesis
  proof (cases "\<exists>ep. route_of (hr_path r) = Some (hr_method r, ep)")
    case True
    then obtain ep where ep: "route_of (hr_path r) = Some (hr_method r, ep)" ..
    then have "handle_endpoint env r ep s = Some (resp, s')" using assms a by (simp add: serve_def)
    from endpoint_effect [OF this] show ?thesis using a ep by auto
  next
    case False
    then have "s' = s" using assms a by (auto simp: serve_def split: option.splits if_splits)
    then show ?thesis using a by simp
  qed
qed

definition bare_host :: "nat host" where
  "bare_host = \<lparr>ho_session = \<lambda>i w. (None, w), ho_tools = None, ho_skills = None, ho_roles = None, ho_resources = None,
     ho_prompts = None, ho_read = None, ho_render = None, ho_recall = None, ho_memories = None, ho_forget = None\<rparr>"

definition sample_decoders :: decoders where
  "sample_decoders = \<lparr>dc_start = \<lambda>b. Some \<lparr>sr_text = b, sr_skill = [], sr_arguments = [], sr_client = ''cli'',
       sr_role = [], sr_model = [], sr_max_turns = 0, sr_options = []\<rparr>,
     dc_decision = \<lambda>b. Some \<lparr>dq_allow = True, dq_reason = [], dq_remember = []\<rparr>,
     dc_recall = \<lambda>b. None, dc_read = \<lambda>b. None, dc_render = \<lambda>b. None\<rparr>"

definition sample_env :: "nat server_env" where
  "sample_env = \<lparr>sn_host = bare_host, sn_token = ''t'',
     sn_broker = \<lparr>br_policy = None, br_ask = \<lambda>i q w. (WaitTimedOut, w), br_save = None, br_now = \<lambda>w. int w, br_sha = id\<rparr>,
     sn_diagnostics = \<lparr>di_name = [], di_started = 0, di_listen = [], di_metadata = [], di_token_source = [], di_provider = [], di_model = [],
       di_store_type = [], di_store_path = [], di_settings_path = [], di_identity_path = [], di_coding_enabled = False,
       di_coding_dir = [], di_remember_path = []\<rparr>,
     sn_decoders = sample_decoders, sn_new_id = \<lambda>p w. (p @ ''_'' @ itoa w, Suc w), sn_flushes = True\<rparr>"

definition sample_server :: "nat server" where
  "sample_server = \<lparr>dn_runs = [(''run_1'', (new_daemon_run \<lparr>ri_id = ''run_1'', ri_session = ''s'', ri_client = ''cli''\<rparr>)
       \<lparr>dr_pending := [(''perm_1'', 0)]\<rparr>)], dn_jobs = [], dn_errors = [], dn_cache = no_grants, dn_cancelled = [], dn_sent = [],
     dn_world = 2\<rparr>"

definition sample_request :: "string \<Rightarrow> string \<Rightarrow> string \<Rightarrow> http_request" where
  "sample_request m p client = \<lparr>hr_method = m, hr_path = p, hr_auth = ''Bearer t'', hr_client = client, hr_limit = [], hr_body = ''hi'',
     hr_dropped = False\<rparr>"

text \<open>A client that gives the name of another run's owner is refused; the owner is accepted.\<close>

definition sample_decide :: "string \<Rightarrow> (response \<times> nat server) option" where
  "sample_decide client =
     serve sample_env (sample_request ''POST'' ''/v1/runs/run_1/permissions/perm_1/decision'' client) sample_server"

lemma sample_decide_value:
  "map_option (\<lambda>(resp, s'). (rs_status resp, length (dn_sent s'))) (sample_decide ''cli'') = Some (200, 1)"
  "map_option (\<lambda>(resp, s'). (rs_status resp, length (dn_sent s'))) (sample_decide ''other'') = Some (403, 0)"
  by code_simp+

theorem requests_change_what_they_name_witness:
  "\<exists>resp s'. sample_decide ''cli'' = Some (resp, s') \<and> rs_status resp = 200 \<and> length (dn_sent s') = 1
     \<and> \<not> same_runs sample_server s'"
proof -
  obtain resp s' where s': "sample_decide ''cli'' = Some (resp, s')" "rs_status resp = 200" "length (dn_sent s') = 1"
    using sample_decide_value(1) by auto
  then have "\<not> same_runs sample_server s'" by (auto simp: same_runs_def sample_server_def)
  then show ?thesis
    using s' requests_change_what_they_name [OF s'(1) [unfolded sample_decide_def]] by blast
qed

text \<open>C25. The paths the clients build for the operations on a run lead to these operations for ids that are
  non-empty and have no slash and no percent sign: starting a run, reading its events and deciding a
  permission always, and cancelling it unless its id is events, because the path of that run is shadowed by
  the route of the events.\<close>

theorem run_routes:
  assumes "plain_id i" and "plain_id p"
  shows "route_of (''/v1/sessions/'' @ i @ ''/runs'') = Some (''POST'', EpStartRun i)
    \<and> route_of (''/v1/runs/'' @ i @ ''/events'') = Some (''GET'', EpRunEvents i)
    \<and> route_of (''/v1/runs/'' @ i @ ''/permissions/'' @ p @ ''/decision'') = Some (''POST'', EpDecide i p)
    \<and> (if i = ''events'' then \<not> (\<exists>k. route_of (''/v1/runs/'' @ i) = Some (''DELETE'', EpCancelRun k))
       else route_of (''/v1/runs/'' @ i) = Some (''DELETE'', EpCancelRun i))"
proof -
  have "route_of (''/v1/runs/'' @ ''events'') = Some (''GET'', EpRunEvents ''events'')" by code_simp
  then show ?thesis
    using start_route [OF assms(1)] events_route [OF assms(1)] decision_route [OF assms] cancel_route [OF assms(1)]
    by auto
qed

theorem run_routes_witness:
  "plain_id ''run_1'' \<and> plain_id ''perm_1''
   \<and> route_of (''/v1/runs/'' @ ''run_1'' @ ''/events'') = Some (''GET'', EpRunEvents ''run_1'')"
  using run_routes [of "''run_1''" "''perm_1''"] by (simp add: plain_id_def)

text \<open>The id is unescaped once more after the server has decoded the path: the session \<open>50%25\<close> is served as
  \<open>50%\<close>, and an id with a slash has no route.\<close>

lemma run_routes_unescape_twice:
  "route_of ''/v1/sessions/50%25/runs'' = Some (''POST'', EpStartRun ''50%'')"
  "route_of ''/v1/sessions/a/b/runs'' = None" "route_of ''/v1/sessions/runs'' = Some (''POST'', EpStartRun ''runs'')"
  by code_simp+

end
