(* ===== verification/Daemon_Jobs.thy ===== *)
theory Daemon_Jobs
  imports Daemon_Server
begin

text \<open>
  The goroutines of \<open>src/daemon/server.go\<close> that execute runs: \<open>executeRun\<close> cut at the points where other
  goroutines can see the server, the permission requests a run makes meanwhile, and the requests of the
  clients in between, as one step relation. What \<open>session.Prompt\<close> does is the steps between its call and
  its return: any events, permission requests and changes of the world; \<open>Sessions\<close> models the call itself.
\<close>

section \<open>What a run does to the server\<close>






text \<open>The options of the prompt; the listener of the events is the step \<open>loop_event\<close>.\<close>

definition run_options :: "'w permission \<Rightarrow> start_request \<Rightarrow> 'w prompt_option list" where
  "run_options perm q =
     [OptPermission (Some perm)]
     @ (if trim_space (sr_role q) \<noteq> [] then [OptRole (sr_role q)] else [])
     @ (if trim_space (sr_model q) \<noteq> [] then [OptModel (sr_model q)] else [])
     @ (if sr_max_turns q > 0 then [OptMaxTurns (sr_max_turns q)] else [])
     @ (if sr_options q \<noteq> [] then [OptProviderOptions (sr_options q)] else [])"










section \<open>The server at work\<close>



section \<open>The log of a run follows its job\<close>












lemma pending_info [simp]:
  "dr_info (snd (add_permission i t d)) = dr_info d" "dr_info (snd (expire_permission i t d)) = dr_info d"
  "dr_info (finish_run d) = dr_info d"
  by (simp_all add: add_permission_def expire_permission_def finish_run_def signal_def)




section \<open>Every step keeps the order\<close>















section \<open>Properties\<close>













end
