(* ===== verification/Provider_Streams.thy ===== *)
theory Provider_Streams
  imports Agent_Loop
begin

text \<open>
  What the providers of the repository share: the events of a stream against the message it ends with, how
  the events reach the loop (\<open>src/loop/run.go\<close>), and the contract of a provider's stream as a locale, with
  what the loop makes of any stream that keeps it. The providers interpret it on their own streams.
\<close>

section \<open>Events and messages\<close>

text \<open>The events of a provider as the loop receives them: all of them, or those before the context ends.\<close>

definition received_events :: "(nat \<Rightarrow> go_time) \<Rightarrow> (nat \<times> go_error) option \<Rightarrow> provider_event list \<Rightarrow> stream" where
  "received_events clock cancel evs =
     (let all = map (\<lambda>(i, e). (clock i, RecvEvent e)) (List.enumerate 0 evs) in
      case cancel of None \<Rightarrow> all | Some (n, e) \<Rightarrow> take n all @ [(clock n, RecvCancel e)])"

definition join_text :: "content_part list \<Rightarrow> string" where
  "join_text ps = concat (map part_text (filter (\<lambda>p. part_type p = TypeText) ps))"

definition join_thinking :: "content_part list \<Rightarrow> string" where
  "join_thinking ps = concat (map part_thinking (filter (\<lambda>p. part_type p = TypeThinking) ps))"

definition delta_event :: "provider_event \<Rightarrow> bool" where
  "delta_event e \<longleftrightarrow> (case e of PTextDelta i d \<Rightarrow> i = 0 \<and> d \<noteq> [] | PThinkingDelta i d \<Rightarrow> i = 0 \<and> d \<noteq> []
     | PToolCall c \<Rightarrow> c \<noteq> None | _ \<Rightarrow> False)"

definition text_deltas :: "provider_event list \<Rightarrow> string" where
  "text_deltas evs = concat (map (\<lambda>e. case e of PTextDelta i d \<Rightarrow> d | _ \<Rightarrow> []) evs)"

definition thinking_deltas :: "provider_event list \<Rightarrow> string" where
  "thinking_deltas evs = concat (map (\<lambda>e. case e of PThinkingDelta i d \<Rightarrow> d | _ \<Rightarrow> []) evs)"

definition event_calls :: "provider_event list \<Rightarrow> tool_call list" where
  "event_calls evs = List.map_filter (\<lambda>e. case e of PToolCall c \<Rightarrow> c | _ \<Rightarrow> None) evs"

text \<open>Parts whose payload is the one their type tells of.\<close>

definition part_typed :: "content_part \<Rightarrow> bool" where
  "part_typed p \<longleftrightarrow> (\<exists>t. t \<noteq> [] \<and> (p = text_part t \<or> p = zero_part\<lparr>part_type := TypeThinking, part_thinking := t\<rparr>))
     \<or> (\<exists>c. p = call_part c)"

definition matches_events :: "message \<Rightarrow> provider_event list \<Rightarrow> bool" where
  "matches_events m evs \<longleftrightarrow> list_all delta_event evs \<and> join_text (msg_content m) = text_deltas evs
     \<and> join_thinking (msg_content m) = thinking_deltas evs \<and> collect_tool_calls m = event_calls evs
     \<and> list_all part_typed (msg_content m) \<and> msg_role m = RoleAssistant"

lemma deltas_append [simp]:
  "text_deltas (a @ b) = text_deltas a @ text_deltas b" "thinking_deltas (a @ b) = thinking_deltas a @ thinking_deltas b"
  "event_calls (a @ b) = event_calls a @ event_calls b" "text_deltas [] = []" "thinking_deltas [] = []" "event_calls [] = []"
  by (simp_all add: text_deltas_def thinking_deltas_def event_calls_def map_filter_append List.map_filter_simps)

lemma join_nl_append [simp]:
  "join_text (a @ b) = join_text a @ join_text b" "join_thinking (a @ b) = join_thinking a @ join_thinking b"
  "join_text [] = []" "join_thinking [] = []"
  by (simp_all add: join_text_def join_thinking_def)

definition call_event :: "tool_call \<Rightarrow> provider_event" where
  "call_event c = PToolCall (Some c)"

lemma call_events [simp]:
  "list_all delta_event (map call_event cs)" "text_deltas (map call_event cs) = []"
  "thinking_deltas (map call_event cs) = []" "event_calls (map call_event cs) = cs"
  by (induction cs) (simp_all add: call_event_def delta_event_def text_deltas_def thinking_deltas_def event_calls_def
      List.map_filter_simps)

lemma call_part_simps [simp]:
  "part_type (call_part c) = TypeToolCall" "part_tool_call (call_part c) = Some c" "part_typed (call_part c)"
  by (auto simp: call_part_def part_tool_call_def part_typed_def)

lemma call_parts [simp]:
  "join_text (map call_part cs) = []" "join_thinking (map call_part cs) = []" "list_all part_typed (map call_part cs)"
  "List.map_filter part_tool_call (map call_part cs) = cs"
  by (induction cs) (simp_all add: join_text_def join_thinking_def List.map_filter_simps)

section \<open>The loop on such streams\<close>

definition shown_text :: "event list \<Rightarrow> string" where
  "shown_text evs = concat (map (\<lambda>e. case e of EvTextDelta m d \<Rightarrow> d | _ \<Rightarrow> []) evs)"

definition fresh_turn :: turn_state where
  "fresh_turn = \<lparr>tu_message = zero_message, tu_started = False, tu_done = False\<rparr>"

lemma shown_text_simps [simp]:
  "shown_text (a @ b) = shown_text a @ shown_text b" "shown_text [] = []" "shown_text (EvTextDelta m d # evs) = d @ shown_text evs"
  "shown_text (EvMessageStart m # evs) = shown_text evs" "shown_text (EvMessageEnd m # evs) = shown_text evs"
  by (simp_all add: shown_text_def)

lemma stream_step_delta:
  assumes "delta_event e" "tu_started s"
  shows "\<exists>s' ev. stream_step model now e s = (Inr s', ev) \<and> tu_started s' \<and> shown_text ev = text_deltas [e]"
proof (cases e)
  case (PToolCall c)
  then show ?thesis
    using assms by (cases c) (auto simp: stream_step_def ensure_started_def delta_event_def text_deltas_def Let_def)
qed (use assms in \<open>auto simp: stream_step_def ensure_started_def delta_event_def text_deltas_def Let_def\<close>)

lemma read_stream_deltas:
  assumes "list_all (\<lambda>(t, x). \<exists>e. x = RecvEvent e \<and> delta_event e) items" "tu_started s"
  shows "\<exists>s' ev. tu_started s' \<and> shown_text ev = concat (map (\<lambda>x. case snd x of RecvEvent e \<Rightarrow> text_deltas [e] | _ \<Rightarrow> []) items)
    \<and> (\<forall>rest. read_stream model (items @ rest) s = (fst (read_stream model rest s'), ev @ snd (read_stream model rest s')))"
  using assms
proof (induction items arbitrary: s)
  case Nil
  then show ?case by (intro exI [of _ s] exI [of _ "[]"]) simp
next
  case (Cons x items)
  obtain t e where x: "x = (t, RecvEvent e)" "delta_event e" using Cons.prems(1) by auto
  obtain s1 ev1 where s1: "stream_step model t e s = (Inr s1, ev1)" "tu_started s1" "shown_text ev1 = text_deltas [e]"
    using stream_step_delta [OF x(2) Cons.prems(2)] by blast
  obtain s' ev where "tu_started s'"
    "shown_text ev = concat (map (\<lambda>x. case snd x of RecvEvent e \<Rightarrow> text_deltas [e] | _ \<Rightarrow> []) items)"
    "\<forall>rest. read_stream model (items @ rest) s1 = (fst (read_stream model rest s'), ev @ snd (read_stream model rest s'))"
    using Cons.IH [OF _ s1(2)] Cons.prems(1) by auto
  then show ?case using x s1 by (intro exI [of _ s'] exI [of _ "ev1 @ ev"]) (simp add: Let_def case_prod_beta)
qed

text \<open>All events of a stream reach the loop when the context is not cancelled.\<close>

lemma received_all: "received_events clock None evs = map (\<lambda>(i, e). (clock i, RecvEvent e)) (List.enumerate 0 evs)"
  by (simp add: received_events_def)

lemma enumerate_append: "List.enumerate n (xs @ ys) = List.enumerate n xs @ List.enumerate (n + length xs) ys"
  by (induction xs arbitrary: n) simp_all

lemma received_deltas:
  "map (\<lambda>x. case snd x of RecvEvent e \<Rightarrow> text_deltas [e] | _ \<Rightarrow> []) (map (\<lambda>(i, e). (clock i, RecvEvent e)) (List.enumerate n mid))
     = map (\<lambda>e. text_deltas [e]) mid"
  "list_all (\<lambda>(t, x). \<exists>e. x = RecvEvent e \<and> delta_event e) (map (\<lambda>(i, e). (clock i, RecvEvent e)) (List.enumerate n mid))
     = list_all delta_event mid"
  by (induction mid arbitrary: n) simp_all

lemma text_deltas_concat: "concat (map (\<lambda>e. text_deltas [e]) mid) = text_deltas mid"
  by (induction mid) (simp_all add: text_deltas_def)

lemma read_whole_stream:
  assumes "list_all delta_event mid"
  shows "\<exists>s ev later. tu_started s \<and> shown_text ev = text_deltas mid \<and> (rest = [] \<longrightarrow> later = [])
    \<and> read_stream model (received_events clock None (PStart (Some m0) # mid @ t # rest)) fresh_turn
        = (fst (read_stream model ((clock (Suc (length mid)), RecvEvent t) # later) s),
           ev @ snd (read_stream model ((clock (Suc (length mid)), RecvEvent t) # later) s))"
proof -
  let ?items = "map (\<lambda>(i, e). (clock i, RecvEvent e)) (List.enumerate 1 mid)"
  let ?later = "map (\<lambda>(i, e). (clock i, RecvEvent e)) (List.enumerate (Suc (Suc (length mid))) rest)"
  let ?last = "(clock (Suc (length mid)), RecvEvent t) # ?later"
  obtain s1 a where s1: "stream_step model (clock 0) (PStart (Some m0)) fresh_turn = (Inr s1, [EvMessageStart a])" "tu_started s1"
    by (auto simp: stream_step_def Let_def)
  obtain s ev where s: "tu_started s" "shown_text ev = text_deltas mid"
    "\<forall>rest. read_stream model (?items @ rest) s1 = (fst (read_stream model rest s), ev @ snd (read_stream model rest s))"
    using read_stream_deltas [OF _ s1(2), of ?items model] assms
    unfolding received_deltas text_deltas_concat by blast
  have "received_events clock None (PStart (Some m0) # mid @ t # rest) = (clock 0, RecvEvent (PStart (Some m0))) # ?items @ ?last"
    by (simp add: received_all enumerate_append)
  then have "read_stream model (received_events clock None (PStart (Some m0) # mid @ t # rest)) fresh_turn
      = (fst (read_stream model ?last s), [EvMessageStart a] @ ev @ snd (read_stream model ?last s))"
    using s1(1) s(3) by (simp add: Let_def)
  then show ?thesis using s by (intro exI [of _ s] exI [of _ "[EvMessageStart a] @ ev"] exI [of _ ?later]) simp
qed

text \<open>The event that ends a stream for the loop.\<close>

definition ends_stream :: "provider_event \<Rightarrow> bool" where
  "ends_stream e \<longleftrightarrow> (case e of PDone m \<Rightarrow> True | PError x \<Rightarrow> True | _ \<Rightarrow> False)"

definition stream_end :: "provider_event list \<Rightarrow> provider_event option" where
  "stream_end evs = List.find ends_stream evs"

lemma stream_end_at:
  assumes "list_all delta_event mid" "ends_stream t"
  shows "stream_end (PStart (Some m0) # mid @ t # rest) = Some t"
proof -
  have "List.find ends_stream (mid @ t # rest) = Some t"
    using assms(1)
  proof (induction mid)
    case (Cons e mid)
    then have "\<not> ends_stream e" by (cases e) (simp_all add: delta_event_def ends_stream_def)
    then show ?case using Cons by simp
  qed (simp add: assms(2))
  then show ?thesis by (simp add: stream_end_def ends_stream_def)
qed

section \<open>The contract of a stream\<close>

text \<open>A stream begins with a start event and goes on with deltas and tool calls up to its end: a finished message
  that the events add up to, or an error, after which the loop listens no more.\<close>

locale provider_stream =
  fixes events :: "'x \<Rightarrow> provider_event list" and created :: "'x \<Rightarrow> go_time"
  assumes shape: "\<exists>m0 mid t rest. events x = PStart (Some m0) # mid @ t # rest \<and> list_all delta_event mid
    \<and> (case t of
        PDone (Some a) \<Rightarrow> rest = [] \<and> matches_events a mid \<and> msg_created a = created x \<and> msg_stop a \<noteq> StopOther []
      | PError e \<Rightarrow> e \<noteq> [] | _ \<Rightarrow> False)"
begin

lemma shapeE:
  fixes x :: 'x
  obtains m0 mid t rest where "events x = PStart (Some m0) # mid @ t # rest" "list_all delta_event mid"
    "case t of
        PDone (Some a) \<Rightarrow> rest = [] \<and> matches_events a mid \<and> msg_created a = created x \<and> msg_stop a \<noteq> StopOther []
      | PError e \<Rightarrow> e \<noteq> [] | _ \<Rightarrow> False"
  using shape [of x] by blast

lemma turn_outcome:
  assumes "created x \<noteq> 0"
  shows "case stream_end (events x) of
      Some (PDone (Some a)) \<Rightarrow> \<exists>ev. read_stream model (received_events clock None (events x)) fresh_turn = (Inr a, ev)
        \<and> shown_text ev = join_text (msg_content a)
    | Some (PError e) \<Rightarrow> fst (read_stream model (received_events clock None (events x)) fresh_turn) = Inl (new_error e)
    | _ \<Rightarrow> False"
proof -
  obtain m0 mid t rest where e: "events x = PStart (Some m0) # mid @ t # rest" "list_all delta_event mid"
    "case t of
        PDone (Some a) \<Rightarrow> rest = [] \<and> matches_events a mid \<and> msg_created a = created x \<and> msg_stop a \<noteq> StopOther []
      | PError e \<Rightarrow> e \<noteq> [] | _ \<Rightarrow> False"
    by (rule shapeE)
  have "ends_stream t" using e(3) by (cases t) (simp_all add: ends_stream_def)
  then have l: "stream_end (events x) = Some t" using stream_end_at [OF e(2)] e(1) by simp
  obtain s ev later where s: "tu_started s" "shown_text ev = text_deltas mid"
    "read_stream model (received_events clock None (events x)) fresh_turn
       = (fst (read_stream model ((clock (Suc (length mid)), RecvEvent t) # later) s),
          ev @ snd (read_stream model ((clock (Suc (length mid)), RecvEvent t) # later) s))"
    "rest = [] \<Longrightarrow> later = []"
    using read_whole_stream [OF e(2)] unfolding e(1) by blast
  show ?thesis
  proof (cases t)
    case (PDone m)
    then obtain a where a: "t = PDone (Some a)" "rest = []" "matches_events a mid" "msg_created a = created x"
      "msg_stop a \<noteq> StopOther []" using e(3) by (auto split: option.splits)
    then have n: "default_stop (default_created now (default_role a)) = a" for now
      using assms by (simp add: default_stop_def default_created_def default_role_def matches_events_def)
    show ?thesis
      using s a by (simp add: l stream_step_def ensure_started_def Let_def n matches_events_def)
  next
    case (PError y)
    then show ?thesis using s e(3) by (simp add: l stream_step_def)
  qed (use e(3) in simp_all)
qed

end

end
