(* ===== verification/Openai_Compat.thy ===== *)
theory Openai_Compat
  imports Provider_Streams "HOL-Library.AList"
begin

text \<open>
  The provider for OpenAI-compatible endpoints: \<open>src/providers/openaicompat/openaicompat.go\<close> and
  \<open>convert.go\<close>. A request is converted to chat messages and the server-sent lines of the reply to provider
  events. The HTTP exchange is an argument: its reply is the status, the start of the body, the lines that
  \<open>bufio.Scanner\<close> returns and the error it ends with; decoding a chunk and \<open>json.Valid\<close> are arguments too.
  A \<open>send\<close> that finds the context done ends the stream, so what the loop receives is a prefix of the events
  and then the cancellation.
\<close>

section \<open>Chat requests\<close>

record chat_call =
  cq_id :: string
  cq_type :: string
  cq_name :: string
  cq_args :: string

record chat_message =
  cm_role :: string
  cm_content :: string
  cm_name :: string
  cm_call_id :: string
  cm_calls :: "chat_call list"

record chat_tool =
  ct_type :: string
  ct_name :: string
  ct_description :: string
  ct_parameters :: bytes

record 'f chat_request =
  cr_model :: string
  cr_messages :: "chat_message list"
  cr_tools :: "chat_tool list"
  cr_stream :: bool
  cr_usage :: bool
  cr_temperature :: "'f option"
  cr_max_tokens :: "int option"
  cr_top_p :: "'f option"
  cr_format :: "string option"
  cr_extra :: metadata

definition zero_chat :: chat_message where
  "zero_chat = \<lparr>cm_role = [], cm_content = [], cm_name = [], cm_call_id = [], cm_calls = []\<rparr>"

definition content_type_name :: "content_type \<Rightarrow> string" where
  "content_type_name t = (case t of TypeText \<Rightarrow> ''text'' | TypeThinking \<Rightarrow> ''thinking'' | TypeImage \<Rightarrow> ''image''
     | TypeToolCall \<Rightarrow> ''tool_call'' | TypeOther s \<Rightarrow> s)"

definition convert_call :: "tool_call \<Rightarrow> chat_call" where
  "convert_call c = \<lparr>cq_id = tc_id c, cq_type = ''function'', cq_name = tc_name c,
     cq_args = (if tc_args c = [] then ''{}'' else tc_args c)\<rparr>"

fun convert_parts :: "content_part list \<Rightarrow> string \<Rightarrow> chat_call list \<Rightarrow> go_error + (string \<times> chat_call list)" where
  "convert_parts [] text calls = Inr (text, calls)"
| "convert_parts (p # ps) text calls =
     (case part_type p of
        TypeText \<Rightarrow> convert_parts ps (text @ part_text p) calls
      | TypeThinking \<Rightarrow> convert_parts ps text calls
      | TypeToolCall \<Rightarrow>
          (case part_call p of
             None \<Rightarrow> Inl (new_error ''openaicompat: tool call content missing payload'')
           | Some c \<Rightarrow> convert_parts ps text (calls @ [convert_call c]))
      | TypeImage \<Rightarrow> Inl (new_error ''openaicompat: image content not yet supported'')
      | TypeOther t \<Rightarrow> Inl (new_error (''openaicompat: unsupported content type '' @ quote t)))"

text \<open>\<open>Inr None\<close>: the message is left out.\<close>

definition convert_message :: "message \<Rightarrow> go_error + chat_message option" where
  "convert_message m =
     (case msg_role m of
        RoleUser \<Rightarrow> Inr (Some (zero_chat\<lparr>cm_role := ''user'', cm_content := join_text (msg_content m)\<rparr>))
      | RoleAssistant \<Rightarrow>
          (case convert_parts (msg_content m) [] [] of
             Inl e \<Rightarrow> Inl e
           | Inr (text, calls) \<Rightarrow>
               (if text = [] \<and> calls = [] then Inr None
                else Inr (Some (zero_chat\<lparr>cm_role := ''assistant'', cm_content := text, cm_calls := calls\<rparr>))))
      | RoleTool \<Rightarrow>
          (if msg_call_id m = [] then Inl (new_error ''openaicompat: tool message missing tool_call_id'')
           else Inr (Some (zero_chat\<lparr>cm_role := ''tool'', cm_call_id := msg_call_id m,
                   cm_content := join_text (msg_content m)\<rparr>)))
      | RoleOther s \<Rightarrow> Inl (new_error (''openaicompat: unsupported message role '' @ quote s)))"

fun convert_all :: "message list \<Rightarrow> go_error + chat_message list" where
  "convert_all [] = Inr []"
| "convert_all (m # ms) =
     (case convert_message m of
        Inl e \<Rightarrow> Inl e
      | Inr c \<Rightarrow>
          (case convert_all ms of
             Inl e \<Rightarrow> Inl e
           | Inr cs \<Rightarrow> Inr ((case c of None \<Rightarrow> [] | Some x \<Rightarrow> [x]) @ cs)))"

definition convert_messages :: "string \<Rightarrow> message list \<Rightarrow> go_error + chat_message list" where
  "convert_messages sys ms =
     (case convert_all ms of
        Inl e \<Rightarrow> Inl e
      | Inr cs \<Rightarrow> Inr ((if sys \<noteq> [] then [zero_chat\<lparr>cm_role := ''system'', cm_content := sys\<rparr>] else []) @ cs))"

text \<open>\<open>parse\<close> is \<open>json.Unmarshal\<close> into a probe: the text of its error.\<close>

fun convert_tools :: "(bytes \<Rightarrow> go_error option) \<Rightarrow> tool_spec list \<Rightarrow> go_error + chat_tool list" where
  "convert_tools parse [] = Inr []"
| "convert_tools parse (t # ts) =
     (case (if ts_parameters t \<noteq> [] then parse (ts_parameters t) else None) of
        Some e \<Rightarrow> Inl (wrap_error (''openaicompat: tool '' @ quote (ts_name t) @ '' parameters: '') e [])
      | None \<Rightarrow>
          (case convert_tools parse ts of
             Inl e \<Rightarrow> Inl e
           | Inr cs \<Rightarrow> Inr (\<lparr>ct_type = ''function'', ct_name = ts_name t, ct_description = ts_description t,
                 ct_parameters = ts_parameters t\<rparr> # cs)))"

text \<open>The type switches of \<open>numberAsFloat64\<close> and \<open>numberAsInt\<close> on the values of the options, and the encoder.
  The options are listed in the order in which the range over the map visits them.\<close>

record 'f option_values =
  ov_float :: "meta_value \<Rightarrow> 'f option"
  ov_int :: "meta_value \<Rightarrow> int option"
  ov_json :: "meta_value \<Rightarrow> go_error + string"

definition chat_option :: "'f option_values \<Rightarrow> string \<Rightarrow> meta_value \<Rightarrow> 'f chat_request \<Rightarrow> go_error + 'f chat_request" where
  "chat_option ov key value r =
     (if key = ''temperature'' then
        (case ov_float ov value of
           None \<Rightarrow> Inl (new_error ''openaicompat: temperature must be numeric'')
         | Some f \<Rightarrow> Inr (r\<lparr>cr_temperature := Some f\<rparr>))
      else if key = ''top_p'' then
        (case ov_float ov value of
           None \<Rightarrow> Inl (new_error ''openaicompat: top_p must be numeric'')
         | Some f \<Rightarrow> Inr (r\<lparr>cr_top_p := Some f\<rparr>))
      else if key = ''max_tokens'' \<or> key = ''max_output_tokens'' then
        (case ov_int ov value of
           None \<Rightarrow> Inl (new_error (''openaicompat: '' @ key @ '' must be numeric''))
         | Some n \<Rightarrow> Inr (r\<lparr>cr_max_tokens := Some n\<rparr>))
      else if key = ''response_format'' then
        (case ov_json ov value of
           Inl e \<Rightarrow> Inl (wrap_error ''openaicompat: response_format: '' e [])
         | Inr t \<Rightarrow> Inr (r\<lparr>cr_format := Some t\<rparr>))
      else Inr (r\<lparr>cr_extra := AList.update key value (cr_extra r)\<rparr>))"

fun chat_options :: "'f option_values \<Rightarrow> metadata \<Rightarrow> 'f chat_request \<Rightarrow> go_error + 'f chat_request" where
  "chat_options ov [] r = Inr r"
| "chat_options ov ((k, v) # os) r =
     (case chat_option ov k v r of Inl e \<Rightarrow> Inl e | Inr r' \<Rightarrow> chat_options ov os r')"

definition build_chat_request :: "(bytes \<Rightarrow> go_error option) \<Rightarrow> 'f option_values \<Rightarrow> provider_request
    \<Rightarrow> go_error + 'f chat_request" where
  "build_chat_request parse ov q =
     (case convert_messages (pq_system q) (pq_messages q) of
        Inl e \<Rightarrow> Inl e
      | Inr ms \<Rightarrow>
          (case convert_tools parse (pq_tools q) of
             Inl e \<Rightarrow> Inl e
           | Inr ts \<Rightarrow>
               chat_options ov (pq_options q)
                 \<lparr>cr_model = [], cr_messages = ms, cr_tools = ts, cr_stream = False, cr_usage = False,
                  cr_temperature = None, cr_max_tokens = None, cr_top_p = None, cr_format = None, cr_extra = []\<rparr>))"

definition map_finish_reason :: "string \<Rightarrow> stop_reason" where
  "map_finish_reason r =
     (if r = [] \<or> r = ''stop'' then StopStop
      else if r = ''length'' then StopLength
      else if r = ''tool_calls'' \<or> r = ''function_call'' then StopToolUse
      else if r = ''content_filter'' then StopError
      else StopStop)"

section \<open>Reading the reply\<close>

record call_delta =
  xd_index :: int
  xd_id :: string
  xd_type :: string
  xd_name :: string
  xd_args :: string

record stream_choice =
  xc_index :: int
  xc_role :: string
  xc_content :: string
  xc_reasoning :: string
  xc_reasoning_content :: string
  xc_calls :: "call_delta list"
  xc_finish :: string

record streaming_chunk =
  xk_id :: string
  xk_model :: string
  xk_provider :: string
  xk_choices :: "stream_choice list"
  xk_usage :: "(int \<times> int \<times> int) option"

record pending_call =
  pk_id :: string
  pk_name :: string
  pk_args :: string

record read_state =
  ro_message :: message
  ro_pending :: "(int \<times> pending_call) list"
  ro_finish :: string
  ro_events :: "provider_event list"

text \<open>\<open>appendPart\<close>: to the last part when it has the kind, else a new part.\<close>

definition append_part :: "content_type \<Rightarrow> string \<Rightarrow> message \<Rightarrow> message" where
  "append_part kind delta m =
     (let ps = msg_content m in
      if ps \<noteq> [] \<and> part_type (last ps) = kind
      then m\<lparr>msg_content := butlast ps @ [append_to_part delta (last ps)]\<rparr>
      else m\<lparr>msg_content := ps @ [append_to_part delta (zero_part\<lparr>part_type := kind\<rparr>)]\<rparr>)"

definition first_non_empty :: "string \<Rightarrow> string \<Rightarrow> string" where
  "first_non_empty a b = (if a \<noteq> [] then a else b)"

definition empty_call :: pending_call where
  "empty_call = \<lparr>pk_id = [], pk_name = [], pk_args = []\<rparr>"

definition extend_call :: "call_delta \<Rightarrow> pending_call \<Rightarrow> pending_call" where
  "extend_call d pc =
     \<lparr>pk_id = (if xd_id d \<noteq> [] then xd_id d else pk_id pc),
      pk_name = (if xd_name d \<noteq> [] then xd_name d else pk_name pc), pk_args = pk_args pc @ xd_args d\<rparr>"

definition merge_call :: "call_delta \<Rightarrow> (int \<times> pending_call) list \<Rightarrow> (int \<times> pending_call) list" where
  "merge_call d pend =
     AList.update (xd_index d)
       (extend_call d (case map_of pend (xd_index d) of None \<Rightarrow> empty_call | Some pc \<Rightarrow> pc)) pend"

definition push_delta :: "content_type \<Rightarrow> string \<Rightarrow> read_state \<Rightarrow> read_state" where
  "push_delta kind delta s =
     (if delta = [] then s
      else s\<lparr>ro_message := append_part kind delta (ro_message s),
             ro_events := ro_events s @ [if kind = TypeText then PTextDelta 0 delta else PThinkingDelta 0 delta]\<rparr>)"

definition read_choice :: "stream_choice \<Rightarrow> read_state \<Rightarrow> read_state" where
  "read_choice c s =
     (let s1 = push_delta TypeText (xc_content c) s;
          s2 = push_delta TypeThinking (first_non_empty (xc_reasoning c) (xc_reasoning_content c)) s1
      in s2\<lparr>ro_pending := fold merge_call (xc_calls c) (ro_pending s2),
            ro_finish := (if xc_finish c \<noteq> [] then xc_finish c else ro_finish s2)\<rparr>)"

definition chunk_head :: "streaming_chunk \<Rightarrow> message \<Rightarrow> message" where
  "chunk_head k m =
     (let m1 = (if xk_id k \<noteq> [] then m\<lparr>msg_meta := AList.update ''response_id'' (MStr (xk_id k)) (msg_meta m)\<rparr> else m);
          m2 = (if xk_model k \<noteq> [] then m1\<lparr>msg_model := xk_model k\<rparr> else m1);
          m3 = (if xk_provider k \<noteq> []
                then m2\<lparr>msg_meta := AList.update ''upstream_provider'' (MStr (xk_provider k)) (msg_meta m2)\<rparr> else m2)
      in (case xk_usage k of
            None \<Rightarrow> m3
          | Some (i, o1, t) \<Rightarrow>
              m3\<lparr>msg_usage := Some (zero_usage\<lparr>input_tokens := i, output_tokens := o1, total_tokens := t\<rparr>)\<rparr>))"

definition read_chunk :: "streaming_chunk \<Rightarrow> read_state \<Rightarrow> read_state" where
  "read_chunk k s = fold read_choice (xk_choices k) (s\<lparr>ro_message := chunk_head k (ro_message s)\<rparr>)"

text \<open>The data of a line; comments and other fields have none.\<close>

definition line_data :: "string \<Rightarrow> string" where
  "line_data l = (if l \<noteq> [] \<and> \<not> has_prefix l '':'' \<and> has_prefix l ''data:''
     then trim_space (trim_prefix l ''data:'') else [])"

text \<open>\<open>Inl\<close>: a chunk that does not decode ends the stream with an error. The flag tells whether the
  end marker was seen; without it the scanner's error counts.\<close>

fun read_lines :: "string \<Rightarrow> (string \<Rightarrow> string + streaming_chunk) \<Rightarrow> string list \<Rightarrow> read_state
    \<Rightarrow> provider_event list + (bool \<times> read_state)" where
  "read_lines name decode [] s = Inr (False, s)"
| "read_lines name decode (l # ls) s =
     (let d = line_data l in
      if d = [] then read_lines name decode ls s
      else if d = ''[DONE]'' then Inr (True, s)
      else case decode d of
        Inl e \<Rightarrow> Inl (ro_events s @ [PError (name @ '': parse chunk: '' @ e)])
      | Inr k \<Rightarrow> read_lines name decode ls (read_chunk k s))"

definition finalize_call :: "(string \<Rightarrow> bool) \<Rightarrow> string \<Rightarrow> int \<Rightarrow> pending_call \<Rightarrow> go_error + tool_call" where
  "finalize_call valid name index pc =
     (let args = (if pk_args pc = [] then ''{}'' else pk_args pc) in
      if pk_name pc = [] then Inl (new_error (name @ '': tool call at index '' @ itoa_int index @ '' missing name''))
      else if \<not> valid args then Inl (new_error (name @ '': tool call '' @ quote (pk_name pc) @ '' invalid JSON arguments''))
      else Inr \<lparr>tc_id = (if pk_id pc = [] then pk_name pc @ ''_'' @ itoa_int index else pk_id pc), tc_name = pk_name pc,
               tc_args = args\<rparr>)"

text \<open>The insertion sort of \<open>sortedIndices\<close>.\<close>

definition sorted_indices :: "(int \<times> pending_call) list \<Rightarrow> int list" where
  "sorted_indices pend = sort (map fst pend)"

text \<open>The calls by index; the flag tells whether all could be finalized.\<close>

fun push_calls :: "(string \<Rightarrow> bool) \<Rightarrow> string \<Rightarrow> (int \<times> pending_call) list \<Rightarrow> int list \<Rightarrow> read_state
    \<Rightarrow> provider_event list + read_state" where
  "push_calls valid name pend [] s = Inr s"
| "push_calls valid name pend (i # is) s =
     (case finalize_call valid name i (the (map_of pend i)) of
        Inl e \<Rightarrow> Inl (ro_events s @ [PError (err_text e)])
      | Inr c \<Rightarrow>
          push_calls valid name pend is
            (s\<lparr>ro_message := (ro_message s)\<lparr>msg_content := msg_content (ro_message s) @ [call_part c]\<rparr>,
               ro_events := ro_events s @ [PToolCall (Some c)]\<rparr>))"

definition final_message :: "read_state \<Rightarrow> message" where
  "final_message s = (ro_message s)\<lparr>msg_stop :=
     (if ro_pending s \<noteq> [] then StopToolUse
      else if ro_finish s \<noteq> [] then map_finish_reason (ro_finish s) else StopStop)\<rparr>"

definition first_state :: "string \<Rightarrow> string \<Rightarrow> go_time \<Rightarrow> read_state" where
  "first_state name model now =
     (let m = zero_message\<lparr>msg_role := RoleAssistant, msg_provider := name, msg_model := model, msg_created := now\<rparr>
      in \<lparr>ro_message = m, ro_pending = [], ro_finish = [], ro_events = [PStart (Some m)]\<rparr>)"

text \<open>A cancelled read is not reported.\<close>

definition read_failure :: "bool \<Rightarrow> go_error option \<Rightarrow> go_error option" where
  "read_failure done fin =
     (case fin of None \<Rightarrow> None | Some e \<Rightarrow> if done \<or> err_is KCanceled e then None else Some e)"

definition stream_events :: "(string \<Rightarrow> string + streaming_chunk) \<Rightarrow> (string \<Rightarrow> bool) \<Rightarrow> string \<Rightarrow> string \<Rightarrow> go_time
    \<Rightarrow> string list \<Rightarrow> go_error option \<Rightarrow> provider_event list" where
  "stream_events decode valid name model now lines fin =
     (case read_lines name decode lines (first_state name model now) of
        Inl evs \<Rightarrow> evs
      | Inr (done, s) \<Rightarrow>
          (case read_failure done fin of
             Some e \<Rightarrow> ro_events s @ [PError (name @ '': read stream: '' @ err_text e)]
           | None \<Rightarrow>
               (case push_calls valid name (ro_pending s) (sorted_indices (ro_pending s)) s of
                  Inl evs \<Rightarrow> evs
                | Inr s' \<Rightarrow> ro_events s' @ [PDone (Some (final_message s'))])))"

section \<open>The provider\<close>

record oai_config =
  oc_name :: string
  oc_base :: string
  oc_key :: string
  oc_key_env :: string
  oc_model :: string
  oc_headers :: "(string \<times> string) list"

text \<open>\<open>http.Header\<close>: \<open>Set\<close> replaces the value under the canonical form of the key, which is the key itself when
  it has a byte that no header name may have. The headers of the options are set in the order in which the
  iteration over the map yields them.\<close>

definition header_byte :: "char \<Rightarrow> bool" where
  "header_byte c = (let n = code_of c in
     (48 \<le> n \<and> n \<le> 57) \<or> (65 \<le> n \<and> n \<le> 90) \<or> (97 \<le> n \<and> n \<le> 122)
     \<or> c \<in> set ''!#$%&*+-.^_|~'' \<or> n = 39 \<or> n = 96)"

fun canonical_bytes :: "bool \<Rightarrow> string \<Rightarrow> string" where
  "canonical_bytes upper [] = []"
| "canonical_bytes upper (c # s) =
     (let n = code_of c;
          d = (if upper \<and> 97 \<le> n \<and> n \<le> 122 then byte (n - 32) else if \<not> upper then lower_char c else c)
      in d # canonical_bytes (c = CHR ''-'') s)"

definition canonical_header :: "string \<Rightarrow> string" where
  "canonical_header s = (if list_all header_byte s then canonical_bytes True s else s)"

definition request_headers :: "string \<Rightarrow> (string \<times> string) list \<Rightarrow> (string \<times> string) list" where
  "request_headers key headers = fold (\<lambda>(k, v). AList.update (canonical_header k) v)
     ([(''Content-Type'', ''application/json''), (''Accept'', ''text/event-stream''),
       (''Authorization'', ''Bearer '' @ key)] @ headers) []"


record http_reply =
  hx_status :: int
  hx_snippet :: string
  hx_lines :: "string list"
  hx_end :: "go_error option"

record ('f, 'w) oai_env =
  oe_getenv :: "string \<Rightarrow> string"
  oe_parse :: "bytes \<Rightarrow> go_error option"
  oe_values :: "'f option_values"
  oe_encode :: "'f chat_request \<Rightarrow> go_error option"
  oe_build :: "string \<Rightarrow> go_error option"
  oe_post :: "string \<Rightarrow> (string \<times> string) list \<Rightarrow> 'f chat_request \<Rightarrow> 'w \<Rightarrow> (go_error + http_reply) \<times> 'w"
  oe_decode :: "string \<Rightarrow> string + streaming_chunk"
  oe_valid :: "string \<Rightarrow> bool"
  oe_now :: "'w \<Rightarrow> go_time"
  oe_times :: "nat \<Rightarrow> go_time"
  oe_cancel :: "'w \<Rightarrow> (nat \<times> go_error) option"

definition api_key :: "('f, 'w) oai_env \<Rightarrow> oai_config \<Rightarrow> string" where
  "api_key env c = (if oc_key c = [] \<and> oc_key_env c \<noteq> [] then oe_getenv env (oc_key_env c) else oc_key c)"

text \<open>\<open>None\<close> is the nil provider.\<close>

definition oai_stream :: "('f, 'w) oai_env \<Rightarrow> oai_config option \<Rightarrow> 'w provider" where
  "oai_stream env provider q w =
     (case provider of
        None \<Rightarrow> (Inl (new_error ''openaicompat: nil provider''), w)
      | Some c \<Rightarrow>
     (let model = (if pq_model q = [] then oc_model c else pq_model q); name = oc_name c in
      if name = [] \<or> oc_base c = [] then (Inl (new_error ''openaicompat: provider missing Name or BaseURL''), w)
      else if model = [] then (Inl (new_error (name @ '': model is required'')), w)
      else case build_chat_request (oe_parse env) (oe_values env) q of
        Inl e \<Rightarrow> (Inl e, w)
      | Inr body0 \<Rightarrow>
          (let body = body0\<lparr>cr_model := model, cr_stream := True, cr_usage := True\<rparr>; key = api_key env c;
               url = oc_base c @ ''/chat/completions'' in
           if key = [] then
             (Inl (new_error (name @ '': API key is required ('' @
                (if oc_key_env c = [] then ''Options.APIKey'' else ''set '' @ oc_key_env c @ '' or Options.APIKey'') @ '')'')), w)
           else case oe_encode env body of
             Some e \<Rightarrow> (Inl (wrap_error (name @ '': marshal request: '') e []), w)
           | None \<Rightarrow>
               (case oe_build env url of
                  Some e \<Rightarrow> (Inl (wrap_error (name @ '': build request: '') e []), w)
                | None \<Rightarrow>
                    (case oe_post env url (request_headers key (oc_headers c)) body w of
                       (Inl e, w1) \<Rightarrow> (Inl (wrap_error (name @ '': send request: '') e []), w1)
                     | (Inr r, w1) \<Rightarrow>
                         (if hx_status r \<noteq> 200 then
                            (Inl (new_error (name @ '': http '' @ itoa_int (hx_status r) @ '': '' @ trim_space (hx_snippet r))), w1)
                          else
                            (Inr (received_events (oe_times env) (oe_cancel env w1)
                               (stream_events (oe_decode env) (oe_valid env) name model (oe_now env w1) (hx_lines r) (hx_end r))),
                             w1)))))))"

section \<open>The events against the message\<close>

lemma append_part_content:
  assumes "list_all part_typed (msg_content m)" "kind = TypeText \<or> kind = TypeThinking" "d \<noteq> []"
  shows "join_text (msg_content (append_part kind d m)) = join_text (msg_content m) @ (if kind = TypeText then d else [])
    \<and> join_thinking (msg_content (append_part kind d m)) = join_thinking (msg_content m) @ (if kind = TypeThinking then d else [])
    \<and> collect_tool_calls (append_part kind d m) = collect_tool_calls m
    \<and> list_all part_typed (msg_content (append_part kind d m)) \<and> msg_role (append_part kind d m) = msg_role m"
proof (cases "msg_content m \<noteq> [] \<and> part_type (last (msg_content m)) = kind")
  case True
  then obtain ps p where ps: "msg_content m = ps @ [p]" "part_type p = kind" by (metis append_butlast_last_id)
  then have "part_typed p" using assms(1) by simp
  then show ?thesis
    using ps assms(2,3) assms(1)
    by (auto simp: append_part_def part_typed_def append_to_part_def join_text_def join_thinking_def collect_tool_calls_def
        map_filter_append List.map_filter_simps part_tool_call_def text_part_def call_part_def zero_part_def)
next
  case False
  have "part_typed (append_to_part d (zero_part\<lparr>part_type := kind\<rparr>))"
    using assms(2,3) by (auto simp: part_typed_def append_to_part_def text_part_def zero_part_def)
  then show ?thesis
    using False assms
    by (auto simp: append_part_def append_to_part_def join_text_def join_thinking_def collect_tool_calls_def
        map_filter_append List.map_filter_simps part_tool_call_def zero_part_def)
qed

section \<open>Reading keeps them together\<close>

definition reading :: "read_state \<Rightarrow> bool" where
  "reading s \<longleftrightarrow> (\<exists>m0 mid. ro_events s = PStart (Some m0) # mid \<and> is_assistant m0 \<and> matches_events (ro_message s) mid
     \<and> event_calls mid = [])"

lemma readingE:
  assumes "reading s"
  obtains m0 mid where "ro_events s = PStart (Some m0) # mid" "matches_events (ro_message s) mid" "event_calls mid = []"
    "is_assistant m0"
  using assms by (auto simp: reading_def)

lemma reading_first: "reading (first_state name model now)"
  by (simp add: reading_def first_state_def Let_def matches_events_def zero_message_def is_assistant_def)

lemma reading_push_delta:
  assumes "reading s" "kind = TypeText \<or> kind = TypeThinking"
  shows "reading (push_delta kind d s)"
proof (cases "d = []")
  case False
  obtain m0 mid where r: "ro_events s = PStart (Some m0) # mid" "matches_events (ro_message s) mid" "event_calls mid = []"
    "is_assistant m0"
    using assms(1) by (rule readingE)
  let ?e = "if kind = TypeText then PTextDelta 0 d else PThinkingDelta 0 d"
  have "list_all part_typed (msg_content (ro_message s))" using r(2) by (simp add: matches_events_def)
  from append_part_content [OF this assms(2) False]
  have "matches_events (append_part kind d (ro_message s)) (mid @ [?e]) \<and> event_calls (mid @ [?e]) = []"
    using r(2,3) assms(2) False
    by (auto simp: matches_events_def delta_event_def text_deltas_def thinking_deltas_def event_calls_def
        map_filter_append List.map_filter_simps)
  then show ?thesis using r(1,4) False by (auto simp: reading_def push_delta_def)
qed (use assms in \<open>simp add: push_delta_def\<close>)

lemma reading_same: "reading s \<Longrightarrow> ro_events s' = ro_events s \<Longrightarrow> ro_message s' = ro_message s \<Longrightarrow> reading s'"
  by (simp add: reading_def)

lemma reading_choice: "reading s \<Longrightarrow> reading (read_choice c s)"
  unfolding read_choice_def Let_def
  by (rule reading_same [OF reading_push_delta [OF reading_push_delta]]) simp_all

lemma push_delta_pending [simp]: "ro_pending (push_delta k d s) = ro_pending s" "ro_finish (push_delta k d s) = ro_finish s"
  by (simp_all add: push_delta_def)

lemma chunk_head_frame [simp]:
  "msg_content (chunk_head k m) = msg_content m" "msg_role (chunk_head k m) = msg_role m"
  by (simp_all add: chunk_head_def Let_def split: option.split)

lemma reading_chunk:
  assumes "reading s"
  shows "reading (read_chunk k s)"
proof -
  have "collect_tool_calls (chunk_head k (ro_message s)) = collect_tool_calls (ro_message s)"
    by (rule collect_tool_calls_content) simp
  then have "reading (s\<lparr>ro_message := chunk_head k (ro_message s)\<rparr>)"
    using assms by (auto simp: reading_def matches_events_def)
  then show ?thesis unfolding read_chunk_def by (rule fold_invariant_all) (rule reading_choice)
qed

text \<open>The chunks a reply decodes to, and the pieces of its tool calls.\<close>

fun chunks_of :: "(string \<Rightarrow> string + streaming_chunk) \<Rightarrow> string list \<Rightarrow> streaming_chunk list" where
  "chunks_of decode [] = []"
| "chunks_of decode (l # ls) =
     (if line_data l = [] then chunks_of decode ls
      else if line_data l = ''[DONE]'' then []
      else case decode (line_data l) of Inl e \<Rightarrow> [] | Inr k \<Rightarrow> k # chunks_of decode ls)"

definition deltas_of :: "streaming_chunk list \<Rightarrow> call_delta list" where
  "deltas_of ks = concat (map xc_calls (concat (map xk_choices ks)))"

definition last_non_empty :: "string list \<Rightarrow> string" where
  "last_non_empty ss = (case last_such (\<lambda>s. s \<noteq> []) ss of None \<Rightarrow> [] | Some s \<Rightarrow> s)"

text \<open>The call an index stands for: the last id and name, all pieces of the arguments.\<close>

definition call_at :: "call_delta list \<Rightarrow> int \<Rightarrow> pending_call" where
  "call_at ds i = (let own = filter (\<lambda>d. xd_index d = i) ds in
     \<lparr>pk_id = last_non_empty (map xd_id own), pk_name = last_non_empty (map xd_name own),
      pk_args = concat (map xd_args own)\<rparr>)"

lemma last_non_empty_snoc: "last_non_empty (ss @ [s]) = (if s \<noteq> [] then s else last_non_empty ss)"
  by (simp add: last_non_empty_def last_such_append)

lemma call_at_snoc: "call_at (ds @ [d]) i = (if xd_index d = i then extend_call d (call_at ds i) else call_at ds i)"
  by (simp add: call_at_def extend_call_def last_non_empty_snoc Let_def)

lemma call_at_none: "i \<notin> xd_index ` set ds \<Longrightarrow> call_at ds i = empty_call"
proof -
  assume "i \<notin> xd_index ` set ds"
  then have "filter (\<lambda>d. xd_index d = i) ds = []" by (auto simp: filter_empty_conv)
  then show ?thesis by (simp add: call_at_def empty_call_def last_non_empty_def)
qed

lemma pending_calls: "map_of (fold merge_call ds []) i = (if i \<in> xd_index ` set ds then Some (call_at ds i) else None)"
proof (induction ds rule: rev_induct)
  case (snoc d ds)
  have "(case map_of (fold merge_call ds []) i of None \<Rightarrow> empty_call | Some pc \<Rightarrow> pc) = call_at ds i"
    using snoc call_at_none [of i ds] by simp
  then show ?case using snoc by (auto simp: merge_call_def update_conv' call_at_snoc)
qed simp

lemma sorted_pending: "sorted_indices (fold merge_call ds []) = sorted_list_of_set (xd_index ` set ds)"
proof -
  have d: "distinct (map fst (fold merge_call ds []))"
    by (rule fold_invariant_all) (simp_all add: merge_call_def distinct_update)
  have "i \<in> set (map fst (fold merge_call ds [])) \<longleftrightarrow> i \<in> xd_index ` set ds" for i
    using pending_calls [of ds i] by (metis list.set_map map_of_eq_None_iff option.distinct(1))
  then have "set (map fst (fold merge_call ds [])) = xd_index ` set ds" by blast
  then show ?thesis
    unfolding sorted_indices_def using d by (metis distinct_remdups_id sorted_list_of_set_sort_remdups)
qed

lemma choice_pending: "ro_pending (read_choice c s) = fold merge_call (xc_calls c) (ro_pending s)"
  by (simp add: read_choice_def Let_def)

lemma choices_pending: "ro_pending (fold read_choice cs s) = fold merge_call (concat (map xc_calls cs)) (ro_pending s)"
  by (induction cs arbitrary: s) (simp_all add: choice_pending)

lemma read_lines_reads:
  "read_lines name decode ls s = Inr (d, s') \<Longrightarrow> reading s \<Longrightarrow>
     reading s' \<and> ro_pending s' = fold merge_call (deltas_of (chunks_of decode ls)) (ro_pending s)"
proof (induction ls arbitrary: s)
  case (Cons l ls)
  show ?case
  proof (cases "line_data l = [] \<or> line_data l = ''[DONE]''")
    case True
    then show ?thesis using Cons by (auto simp: Let_def deltas_of_def)
  next
    case False
    then obtain k where k: "decode (line_data l) = Inr k" using Cons.prems by (auto simp: Let_def split: sum.splits)
    then have "read_lines name decode ls (read_chunk k s) = Inr (d, s')" using Cons.prems False by (simp add: Let_def)
    from Cons.IH [OF this reading_chunk [OF Cons.prems(2)]] show ?thesis
      using False k by (simp add: deltas_of_def read_chunk_def choices_pending)
  qed
qed (simp add: deltas_of_def)

lemma read_lines_fails:
  "read_lines name decode ls s = Inl evs \<Longrightarrow> reading s \<Longrightarrow>
     \<exists>s' e. reading s' \<and> evs = ro_events s' @ [PError e] \<and> e \<noteq> []"
proof (induction ls arbitrary: s)
  case (Cons l ls)
  have d: "line_data l \<noteq> ''[DONE]'' \<or> line_data l = []" using Cons.prems by (auto simp: Let_def)
  show ?case
  proof (cases "line_data l = []")
    case True
    then show ?thesis using Cons by (simp add: Let_def)
  next
    case False
    show ?thesis
    proof (cases "decode (line_data l)")
      case (Inl e)
      then have "evs = ro_events s @ [PError (name @ '': parse chunk: '' @ e)]"
        using Cons.prems False d by (simp add: Let_def)
      then show ?thesis using Cons.prems(2) by auto
    next
      case (Inr k)
      then have "read_lines name decode ls (read_chunk k s) = Inl evs" using Cons.prems False d by (simp add: Let_def)
      from Cons.IH [OF this reading_chunk [OF Cons.prems(2)]] show ?thesis .
    qed
  qed
qed simp

lemma finalize_call_shape:
  "finalize_call valid name i pc = Inl e \<Longrightarrow> err_text e \<noteq> []"
  "finalize_call valid name i pc = Inr c \<Longrightarrow> tc_id c \<noteq> [] \<and> tc_name c \<noteq> [] \<and> valid (tc_args c)"
  by (auto simp: finalize_call_def Let_def split: if_splits)

lemma push_calls_adds:
  "push_calls valid name pend is s = Inr s' \<Longrightarrow> \<exists>cs. ro_events s' = ro_events s @ map call_event cs
     \<and> msg_content (ro_message s') = msg_content (ro_message s) @ map call_part cs
     \<and> msg_role (ro_message s') = msg_role (ro_message s) \<and> ro_pending s' = ro_pending s
     \<and> list_all2 (\<lambda>i c. finalize_call valid name i (the (map_of pend i)) = Inr c) is cs"
proof (induction "is" arbitrary: s)
  case (Cons i "is")
  then obtain c where c: "finalize_call valid name i (the (map_of pend i)) = Inr c" by (auto split: sum.splits)
  let ?s = "s\<lparr>ro_message := (ro_message s)\<lparr>msg_content := msg_content (ro_message s) @ [call_part c]\<rparr>,
               ro_events := ro_events s @ [PToolCall (Some c)]\<rparr>"
  have "push_calls valid name pend is ?s = Inr s'" using Cons.prems c by simp
  then obtain cs where "ro_events s' = ro_events ?s @ map call_event cs"
    "msg_content (ro_message s') = msg_content (ro_message ?s) @ map call_part cs"
    "msg_role (ro_message s') = msg_role (ro_message ?s)" "ro_pending s' = ro_pending ?s"
    "list_all2 (\<lambda>i c. finalize_call valid name i (the (map_of pend i)) = Inr c) is cs"
    using Cons.IH by blast
  then show ?case using c by (intro exI [of _ "c # cs"]) (simp add: call_event_def)
qed simp

lemma push_calls_fails:
  "push_calls valid name pend is s = Inl evs \<Longrightarrow>
     \<exists>cs e. evs = ro_events s @ map call_event cs @ [PError e] \<and> e \<noteq> []"
proof (induction "is" arbitrary: s)
  case (Cons i "is")
  show ?case
  proof (cases "finalize_call valid name i (the (map_of pend i))")
    case (Inl e)
    then show ?thesis using Cons.prems finalize_call_shape(1) [OF Inl] by (intro exI [of _ "[]"] exI [of _ "err_text e"]) simp
  next
    case (Inr c)
    let ?s = "s\<lparr>ro_message := (ro_message s)\<lparr>msg_content := msg_content (ro_message s) @ [call_part c]\<rparr>,
               ro_events := ro_events s @ [PToolCall (Some c)]\<rparr>"
    have "push_calls valid name pend is ?s = Inl evs" using Cons.prems Inr by simp
    then obtain cs e where "evs = ro_events ?s @ map call_event cs @ [PError e]" "e \<noteq> []" using Cons.IH by blast
    then show ?thesis by (intro exI [of _ "c # cs"] exI [of _ e]) (simp add: call_event_def)
  qed
qed simp

lemma push_calls_message:
  assumes "reading s" "push_calls valid name pend is s = Inr s'"
  shows "\<exists>m0 mid. ro_events s' = PStart (Some m0) # mid \<and> is_assistant m0 \<and> matches_events (ro_message s') mid
    \<and> list_all2 (\<lambda>i c. finalize_call valid name i (the (map_of pend i)) = Inr c) is (collect_tool_calls (ro_message s'))"
proof -
  obtain m0 mid where r: "ro_events s = PStart (Some m0) # mid" "matches_events (ro_message s) mid" "event_calls mid = []"
    "is_assistant m0"
    using assms(1) by (rule readingE)
  obtain cs where cs: "ro_events s' = ro_events s @ map call_event cs"
    "msg_content (ro_message s') = msg_content (ro_message s) @ map call_part cs"
    "msg_role (ro_message s') = msg_role (ro_message s)"
    "list_all2 (\<lambda>i c. finalize_call valid name i (the (map_of pend i)) = Inr c) is cs"
    using push_calls_adds [OF assms(2)] by blast
  have "collect_tool_calls (ro_message s') = collect_tool_calls (ro_message s) @ cs"
    by (simp add: collect_tool_calls_def cs(2) map_filter_append)
  moreover have "collect_tool_calls (ro_message s) = []" using r(2,3) by (simp add: matches_events_def)
  ultimately have "collect_tool_calls (ro_message s') = cs" by simp
  then show ?thesis
    using r cs by (intro exI [of _ m0] exI [of _ "mid @ map call_event cs"]) (simp add: matches_events_def)
qed

section \<open>Properties of the stream\<close>

lemma push_calls_at:
  assumes "list_all2 (\<lambda>i c. finalize_call valid name i (the (map_of (fold merge_call ds []) i)) = Inr c)
      (sorted_indices (fold merge_call ds [])) cs"
  shows "list_all2 (\<lambda>i c. finalize_call valid name i (call_at ds i) = Inr c) (sorted_list_of_set (xd_index ` set ds)) cs"
proof -
  have "list_all2 (\<lambda>i c. finalize_call valid name i (call_at ds i) = Inr c) (sorted_indices (fold merge_call ds [])) cs"
  proof (rule list.rel_mono_strong [OF assms])
    fix i c
    assume "i \<in> set (sorted_indices (fold merge_call ds []))"
      and c: "finalize_call valid name i (the (map_of (fold merge_call ds []) i)) = Inr c"
    then have "i \<in> xd_index ` set ds" by (simp add: sorted_pending)
    then show "finalize_call valid name i (call_at ds i) = Inr c" using c by (simp add: pending_calls)
  qed
  then show ?thesis by (simp add: sorted_pending)
qed

lemma stream_typed:
  "\<exists>m0 mid t. stream_events decode valid name model now lines fin = PStart (Some m0) # mid @ [t] \<and> is_assistant m0
    \<and> list_all delta_event mid \<and> (case t of
        PDone (Some a) \<Rightarrow> matches_events a mid
          \<and> list_all2 (\<lambda>i c. finalize_call valid name i (call_at (deltas_of (chunks_of decode lines)) i) = Inr c)
              (sorted_list_of_set (xd_index ` set (deltas_of (chunks_of decode lines)))) (collect_tool_calls a)
          \<and> list_all (\<lambda>c. tc_id c \<noteq> [] \<and> tc_name c \<noteq> [] \<and> valid (tc_args c)) (collect_tool_calls a)
          \<and> (collect_tool_calls a = [] \<or> msg_stop a = StopToolUse)
      | PError e \<Rightarrow> e \<noteq> [] | _ \<Rightarrow> False)"
proof (cases "read_lines name decode lines (first_state name model now)")
  case (Inl evs)
  obtain s e where s: "reading s" "evs = ro_events s @ [PError e]" "e \<noteq> []"
    using read_lines_fails [OF Inl reading_first] by blast
  obtain m0 mid where "ro_events s = PStart (Some m0) # mid" "matches_events (ro_message s) mid" "is_assistant m0"
    using s(1) by (rule readingE)
  then show ?thesis using Inl s by (auto simp: stream_events_def matches_events_def)
next
  case (Inr x)
  then obtain d s where r: "read_lines name decode lines (first_state name model now) = Inr (d, s)" by (cases x) simp
  let ?ds = "deltas_of (chunks_of decode lines)"
  have s: "reading s" "ro_pending s = fold merge_call ?ds []"
    using read_lines_reads [OF r reading_first] by (simp_all add: first_state_def Let_def)
  obtain m0 mid where e: "ro_events s = PStart (Some m0) # mid" "matches_events (ro_message s) mid" "event_calls mid = []"
    "is_assistant m0"
    using s(1) by (rule readingE)
  then have m: "list_all delta_event mid" by (simp add: matches_events_def)
  show ?thesis
  proof (cases "read_failure d fin")
    case (Some y)
    then have "stream_events decode valid name model now lines fin
        = PStart (Some m0) # mid @ [PError (name @ '': read stream: '' @ err_text y)]"
      using r e(1) by (simp add: stream_events_def)
    then show ?thesis using m e(4) by (intro exI [of _ m0] exI [of _ mid] exI) (rule conjI, assumption, simp)
  next
    case None
    let ?pc = "push_calls valid name (ro_pending s) (sorted_indices (ro_pending s)) s"
    show ?thesis
    proof (cases ?pc)
      case (Inl evs)
      then obtain cs x where "evs = ro_events s @ map call_event cs @ [PError x]" "x \<noteq> []"
        using push_calls_fails by blast
      then show ?thesis
        using r None Inl e(1,4) m
        by (intro exI [of _ m0] exI [of _ "mid @ map call_event cs"] exI [of _ "PError x"]) (simp add: stream_events_def)
    next
      case (Inr s')
      obtain m1 mid' where p: "ro_events s' = PStart (Some m1) # mid'" "matches_events (ro_message s') mid'"
        "list_all2 (\<lambda>i c. finalize_call valid name i (the (map_of (ro_pending s) i)) = Inr c)
           (sorted_indices (ro_pending s)) (collect_tool_calls (ro_message s'))" "is_assistant m1"
        using push_calls_message [OF s(1) Inr] by blast
      let ?a = "final_message s'"
      have c: "collect_tool_calls ?a = collect_tool_calls (ro_message s')"
        by (rule collect_tool_calls_content) (simp add: final_message_def)
      have l: "list_all2 (\<lambda>i c. finalize_call valid name i (call_at ?ds i) = Inr c)
          (sorted_list_of_set (xd_index ` set ?ds)) (collect_tool_calls ?a)"
        using push_calls_at p(3) unfolding s(2) c by blast
      have w: "list_all (\<lambda>c. tc_id c \<noteq> [] \<and> tc_name c \<noteq> [] \<and> valid (tc_args c)) (collect_tool_calls ?a)"
        using l by (auto simp: list_all_length list_all2_conv_all_nth dest!: finalize_call_shape(2))
      have t: "collect_tool_calls ?a = [] \<or> msg_stop ?a = StopToolUse"
      proof (cases "ro_pending s = []")
        case True
        then show ?thesis using p(3) c by (simp add: sorted_indices_def)
      next
        case False
        then show ?thesis using push_calls_adds [OF Inr] by (auto simp: final_message_def)
      qed
      have g: "matches_events ?a mid'" using p(2) c by (simp add: matches_events_def final_message_def)
      have "stream_events decode valid name model now lines fin = PStart (Some m1) # mid' @ [PDone (Some ?a)]"
        using r None Inr p(1) by (simp add: stream_events_def)
      then show ?thesis
        using g l w t p(4)
        by (intro exI [of _ m1] exI [of _ mid'] exI [of _ "PDone (Some ?a)"]) (simp add: matches_events_def)
    qed
  qed
qed

lemma stream_typedE:
  obtains m0 mid t where "stream_events decode valid name model now lines fin = PStart (Some m0) # mid @ [t]"
    "list_all delta_event mid" "case t of PDone (Some a) \<Rightarrow> matches_events a mid | PError e \<Rightarrow> e \<noteq> [] | _ \<Rightarrow> False"
    "is_assistant m0"
proof -
  obtain m0 mid t where e: "stream_events decode valid name model now lines fin = PStart (Some m0) # mid @ [t]"
    and i: "is_assistant m0" and d: "list_all delta_event mid" and t: "case t of PDone (Some a) \<Rightarrow> matches_events a mid
        \<and> list_all2 (\<lambda>i c. finalize_call valid name i (call_at (deltas_of (chunks_of decode lines)) i) = Inr c)
            (sorted_list_of_set (xd_index ` set (deltas_of (chunks_of decode lines)))) (collect_tool_calls a)
        \<and> list_all (\<lambda>c. tc_id c \<noteq> [] \<and> tc_name c \<noteq> [] \<and> valid (tc_args c)) (collect_tool_calls a)
        \<and> (collect_tool_calls a = [] \<or> msg_stop a = StopToolUse)
      | PError e \<Rightarrow> e \<noteq> [] | _ \<Rightarrow> False"
    using stream_typed [of decode valid name model now lines fin] by blast
  have "case t of PDone (Some a) \<Rightarrow> matches_events a mid | PError e \<Rightarrow> e \<noteq> [] | _ \<Rightarrow> False"
    using t by (simp split: provider_event.splits option.splits)
  with e d show thesis using i by (rule that)
qed

section \<open>The loop on these streams\<close>

lemma created_kept [simp]:
  "msg_created (append_part k d m) = msg_created m" "msg_created (chunk_head k' m) = msg_created m"
  by (simp_all add: append_part_def chunk_head_def Let_def split: option.split)








lemma stream_parts:
  assumes "oai_stream env provider q w = (Inr items, w')"
  shows "\<exists>c lines fin. provider = Some c \<and> items = received_events (oe_times env) (oe_cancel env w')
    (stream_events (oe_decode env) (oe_valid env) (oc_name c) (if pq_model q = [] then oc_model c else pq_model q)
       (oe_now env w') lines fin)"
  using assms by (auto simp: oai_stream_def Let_def split: if_splits sum.splits option.splits prod.splits)

text \<open>This provider speaks as the assistant, whatever it is sent back.\<close>

lemma delta_item [simp]: "delta_event e \<Longrightarrow> assistant_item (now, RecvEvent e)"
  by (cases e) (simp_all add: delta_event_def assistant_item_def)

lemma received_items:
  "\<forall>x \<in> set evs. \<forall>now. assistant_item (now, RecvEvent x) \<Longrightarrow> list_all assistant_item (received_events clock cancel evs)"
  by (auto simp: received_events_def Let_def list_all_iff enumerate_eq_zip assistant_item_def [of "(x, RecvCancel y)" for x y]
      dest!: in_set_takeD dest: set_zip_rightD split: option.split) (metis set_zip_rightD)

lemma oai_speaks: "speaks_as_assistant (oai_stream env provider)"
  unfolding speaks_as_assistant_def
proof (intro allI impI)
  fix q w items w'
  assume "oai_stream env provider q w = (Inr items, w')"
  from stream_parts [OF this] obtain c :: oai_config and lines fin where i: "items = received_events (oe_times env) (oe_cancel env w')
    (stream_events (oe_decode env) (oe_valid env) (oc_name c) (if pq_model q = [] then oc_model c else pq_model q)
       (oe_now env w') lines fin)" by blast
  obtain m0 mid t where e: "stream_events (oe_decode env) (oe_valid env) (oc_name c)
      (if pq_model q = [] then oc_model c else pq_model q) (oe_now env w') lines fin = PStart (Some m0) # mid @ [t]"
    "list_all delta_event mid" "case t of PDone (Some a) \<Rightarrow> matches_events a mid | PError e \<Rightarrow> e \<noteq> [] | _ \<Rightarrow> False"
    "is_assistant m0" by (rule stream_typedE)
  have "\<forall>x \<in> set (PStart (Some m0) # mid @ [t]). \<forall>now. assistant_item (now, RecvEvent x)"
  proof -
    have "assistant_item (now, RecvEvent (PStart (Some m0)))" for now
      using e(4) by (simp add: assistant_item_def default_role_def is_assistant_def)
    moreover have "assistant_item (now, RecvEvent t)" for now
      using e(3) by (auto simp: assistant_item_def default_role_def is_assistant_def matches_events_def
          split: provider_event.splits option.splits)
    moreover have "\<forall>x \<in> set mid. \<forall>now. assistant_item (now, RecvEvent x)"
      using e(2) by (simp add: list_all_iff)
    ultimately show ?thesis by simp
  qed
  then show "list_all assistant_item items" unfolding i e(1) by (rule received_items)
qed


section \<open>The chat of a hardened transcript\<close>

definition convertible_part :: "content_part \<Rightarrow> bool" where
  "convertible_part p \<longleftrightarrow> (case part_type p of TypeText \<Rightarrow> True | TypeThinking \<Rightarrow> True | TypeToolCall \<Rightarrow> part_call p \<noteq> None
     | _ \<Rightarrow> False)"

definition convertible :: "message \<Rightarrow> bool" where
  "convertible m \<longleftrightarrow> (case msg_role m of RoleUser \<Rightarrow> True | RoleAssistant \<Rightarrow> list_all convertible_part (msg_content m)
     | RoleTool \<Rightarrow> msg_call_id m \<noteq> [] | RoleOther s \<Rightarrow> False)"

text \<open>The message of a chat that a convertible message becomes.\<close>

definition chat_of :: "message \<Rightarrow> chat_message option" where
  "chat_of m =
     (if is_assistant m then
        (if join_text (msg_content m) = [] \<and> collect_tool_calls m = [] then None
         else Some (zero_chat\<lparr>cm_role := ''assistant'', cm_content := join_text (msg_content m),
                cm_calls := map convert_call (collect_tool_calls m)\<rparr>))
      else if is_tool m then Some (zero_chat\<lparr>cm_role := ''tool'', cm_call_id := msg_call_id m,
                cm_content := join_text (msg_content m)\<rparr>)
      else Some (zero_chat\<lparr>cm_role := ''user'', cm_content := join_text (msg_content m)\<rparr>))"

lemma convert_parts_spec:
  "(case convert_parts ps acc calls of
      Inr (t, cs) \<Rightarrow> list_all convertible_part ps \<and> t = acc @ join_text ps
        \<and> cs = calls @ map convert_call (List.map_filter part_tool_call ps)
    | Inl e \<Rightarrow> \<not> list_all convertible_part ps)"
proof (induction ps acc calls rule: convert_parts.induct)
  case (1 acc calls)
  then show ?case by (simp add: List.map_filter_simps)
next
  case (2 p ps acc calls)
  show ?case
  proof (cases "part_type p")
    case TypeText
    have "join_text (p # ps) = part_text p @ join_text ps" using TypeText by (simp add: join_text_def)
    then show ?thesis using 2(1) [OF TypeText] TypeText
      by (simp add: convertible_part_def part_tool_call_def List.map_filter_simps split: sum.splits prod.splits)
  next
    case TypeThinking
    have "join_text (p # ps) = join_text ps" using TypeThinking by (simp add: join_text_def)
    then show ?thesis using 2(2) [OF TypeThinking] TypeThinking
      by (simp add: convertible_part_def part_tool_call_def List.map_filter_simps split: sum.splits prod.splits)
  next
    case TypeToolCall
    have j: "join_text (p # ps) = join_text ps" using TypeToolCall by (simp add: join_text_def)
    show ?thesis
    proof (cases "part_call p")
      case None
      then show ?thesis using TypeToolCall by (simp add: convertible_part_def)
    next
      case (Some c)
      show ?thesis using 2(3) [OF TypeToolCall Some] TypeToolCall Some j
        by (simp add: convertible_part_def part_tool_call_def List.map_filter_simps split: sum.splits prod.splits)
    qed
  qed (simp_all add: convertible_part_def)
qed

lemma convert_message_spec:
  "case convert_message m of Inr c \<Rightarrow> convertible m \<and> c = chat_of m | Inl e \<Rightarrow> \<not> convertible m"
  using convert_parts_spec [of "msg_content m" "[]" "[]"]
  by (cases "msg_role m")
     (auto simp: convert_message_def convertible_def chat_of_def is_assistant_def is_tool_def collect_tool_calls_def
       split: sum.splits prod.splits)

lemma convert_all_spec:
  "case convert_all ms of Inr cs \<Rightarrow> list_all convertible ms \<and> cs = List.map_filter chat_of ms
    | Inl e \<Rightarrow> \<not> list_all convertible ms"
proof (induction ms)
  case (Cons m ms)
  then show ?case
    using convert_message_spec [of m] by (auto simp: map_filter_Cons split: sum.splits option.splits)
qed (simp add: List.map_filter_simps)

text \<open>The pairing that the endpoints ask for.\<close>

fun chat_answered :: "chat_message list \<Rightarrow> bool" where
  "chat_answered [] = True"
| "chat_answered (c # cs) =
     (list_all (\<lambda>q. list_ex (\<lambda>t. cm_role t = ''tool'' \<and> cm_call_id t = cq_id q) cs) (cm_calls c) \<and> chat_answered cs)"

definition chat_owned :: "chat_message list \<Rightarrow> bool" where
  "chat_owned cs \<longleftrightarrow> list_all (\<lambda>t. cm_role t \<noteq> ''tool''
     \<or> list_ex (\<lambda>a. cm_role a = ''assistant'' \<and> cm_call_id t \<in> cq_id ` set (cm_calls a)) cs) cs"

lemma chat_of_tool: "is_tool t \<Longrightarrow> \<exists>c. chat_of t = Some c \<and> cm_role c = ''tool'' \<and> cm_call_id c = msg_call_id t"
  by (simp add: chat_of_def is_tool_def is_assistant_def)

lemma chat_of_assistant:
  "is_assistant a \<Longrightarrow> collect_tool_calls a \<noteq> [] \<Longrightarrow>
     \<exists>c. chat_of a = Some c \<and> cm_role c = ''assistant'' \<and> cm_calls c = map convert_call (collect_tool_calls a)"
  by (simp add: chat_of_def)

lemma chat_of_role:
  "chat_of m = Some c \<Longrightarrow> cm_role c = ''tool'' \<Longrightarrow> is_tool m \<and> cm_call_id c = msg_call_id m"
  "chat_of m = Some c \<Longrightarrow> cm_calls c = (if is_assistant m then map convert_call (collect_tool_calls m) else [])"
  by (auto simp: chat_of_def zero_chat_def split: if_splits)

lemma set_map_filter_chat: "c \<in> set (List.map_filter chat_of ms) \<longleftrightarrow> (\<exists>m\<in>set ms. chat_of m = Some c)"
  by (force simp: List.map_filter_def)

lemma convert_call_id [simp]: "cq_id (convert_call c) = tc_id c"
  by (simp add: convert_call_def)

lemma answered_chat: "calls_answered ms \<Longrightarrow> chat_answered (List.map_filter chat_of ms)"
proof (induction ms)
  case (Cons m ms)
  have rest: "chat_answered (List.map_filter chat_of ms)" using Cons by simp
  show ?case
  proof (cases "chat_of m")
    case None
    then show ?thesis using rest by (simp add: map_filter_Cons)
  next
    case (Some c)
    have "list_ex (\<lambda>t. cm_role t = ''tool'' \<and> cm_call_id t = cq_id q) (List.map_filter chat_of ms)"
      if "q \<in> set (cm_calls c)" for q
    proof -
      note u = that
      obtain k where k: "is_assistant m" "k \<in> set (collect_tool_calls m)" "q = convert_call k"
        using u chat_of_role(2) [OF Some] by (cases "is_assistant m") auto
      then obtain t where t: "t \<in> set ms" "is_tool t" "msg_call_id t = tc_id k" using Cons.prems by auto
      obtain x where x: "chat_of t = Some x" "cm_role x = ''tool''" "cm_call_id x = msg_call_id t"
        using chat_of_tool [OF t(2)] by blast
      have "x \<in> set (List.map_filter chat_of ms)" using t(1) x(1) unfolding set_map_filter_chat by blast
      then show ?thesis using x t(3) k(3) unfolding list_ex_iff by (intro bexI [of _ x]) simp_all
    qed
    then show ?thesis using rest Some by (simp add: map_filter_Cons list_all_iff)
  qed
qed (simp add: List.map_filter_simps)

lemma owned_chat:
  assumes o: "results_owned ms"
  shows "chat_owned (List.map_filter chat_of ms)"
  unfolding chat_owned_def list_all_iff
proof
  fix c
  assume "c \<in> set (List.map_filter chat_of ms)"
  then obtain t where t: "t \<in> set ms" "chat_of t = Some c" unfolding set_map_filter_chat by blast
  show "cm_role c \<noteq> ''tool'' \<or> list_ex (\<lambda>a. cm_role a = ''assistant'' \<and> cm_call_id c \<in> cq_id ` set (cm_calls a))
      (List.map_filter chat_of ms)"
  proof (cases "cm_role c = ''tool''")
    case True
    note u = chat_of_role(1) [OF t(2) True]
    then obtain a where a: "a \<in> set ms" "is_assistant a" "msg_call_id t \<in> set (call_ids a)"
      using o t(1) unfolding results_owned_def by blast
    then have "collect_tool_calls a \<noteq> []" by auto
    from chat_of_assistant [OF a(2) this] obtain b where
      b: "chat_of a = Some b" "cm_role b = ''assistant''" "cm_calls b = map convert_call (collect_tool_calls a)" by blast
    have "cm_call_id c \<in> cq_id ` set (cm_calls b)" using a(3) u b(3) by (auto simp: image_image)
    moreover have "b \<in> set (List.map_filter chat_of ms)" using a(1) b(1) unfolding set_map_filter_chat by blast
    ultimately have "list_ex (\<lambda>a. cm_role a = ''assistant'' \<and> cm_call_id c \<in> cq_id ` set (cm_calls a)) (List.map_filter chat_of ms)"
      using b(2) unfolding list_ex_iff by (intro bexI [of _ b]) simp_all
    then show ?thesis ..
  qed simp
qed

lemma system_chat:
  "chat_answered cs \<Longrightarrow> chat_answered (zero_chat\<lparr>cm_role := ''system'', cm_content := sys\<rparr> # cs)"
  "chat_owned cs \<Longrightarrow> chat_owned (zero_chat\<lparr>cm_role := ''system'', cm_content := sys\<rparr> # cs)"
  by (auto simp: zero_chat_def chat_owned_def list_all_iff)

text \<open>C27. The request for a hardened transcript, whatever transcript it was: either a message cannot be said in
  a chat and the conversion fails, or every tool call of the chat is answered by a later tool message of the
  chat and every tool message answers a call of the chat.\<close>

theorem hardened_request_is_paired:
  "case convert_messages sys (harden_history ms active) of
      Inr out \<Rightarrow> list_all convertible (harden_history ms active) \<and> chat_answered out \<and> chat_owned out
    | Inl e \<Rightarrow> \<not> list_all convertible (harden_history ms active)"
proof -
  let ?h = "harden_history ms active"
  have "calls_answered ?h" "results_owned ?h"
    using harden_history_well_formed [of ms active] harden_walk_owned
    by (simp_all add: harden_history_def Let_def well_formed_def)
  note p = answered_chat [OF this(1)] owned_chat [OF this(2)]
  show ?thesis
  proof (cases "convert_all ?h")
    case (Inr cs)
    then have "cs = List.map_filter chat_of ?h" "list_all convertible ?h" using convert_all_spec [of ?h] by simp_all
    then show ?thesis using Inr p system_chat by (simp add: convert_messages_def)
  qed (use convert_all_spec [of ?h] in \<open>simp add: convert_messages_def\<close>)
qed

section \<open>Typed streams, and an example\<close>

text \<open>C40. The stream of a turn starts with the start event of an assistant message and ends with exactly one terminal event. In between
  are only non-empty deltas and tool calls. A finished turn is typed: every part holds the payload of its
  type, its text, thinking and calls are those of the events, its calls are the pieces of the reply put
  together by index, in the order of the indices, each with an id, a name and valid arguments, and a turn
  with calls stops for them. Every other stream ends with an error.\<close>

theorem stream_is_typed:
  "\<exists>m0 mid t. stream_events decode valid name model now lines fin = PStart (Some m0) # mid @ [t] \<and> is_assistant m0
    \<and> list_all delta_event mid \<and> (case t of
        PDone (Some a) \<Rightarrow> matches_events a mid
          \<and> list_all2 (\<lambda>i c. finalize_call valid name i (call_at (deltas_of (chunks_of decode lines)) i) = Inr c)
              (sorted_list_of_set (xd_index ` set (deltas_of (chunks_of decode lines)))) (collect_tool_calls a)
          \<and> list_all (\<lambda>c. tc_id c \<noteq> [] \<and> tc_name c \<noteq> [] \<and> valid (tc_args c)) (collect_tool_calls a)
          \<and> (collect_tool_calls a = [] \<or> msg_stop a = StopToolUse)
      | PError e \<Rightarrow> e \<noteq> [] | _ \<Rightarrow> False)"
  by (rule stream_typed)










end
