(* ===== verification/Codex_Auth.thy ===== *)
theory Codex_Auth
  imports Fs_Tools
begin

text \<open>
  Subscription tokens of the Codex provider: \<open>src/providers/codex/auth/auth.go\<close>, \<open>tokens.go\<close> and
  \<open>errors.go\<close>. The manager loads \<open>auth.json\<close>, refreshes stale tokens over the network and writes them back
  through a temporary file. Base64 is defined here; the JSON decoders, the network and the clock are
  arguments. A file is what its content decodes to, and every system call takes its outcome from a queue
  (an empty queue means success). Each operation holds the mutex throughout, so it is one step.
\<close>

section \<open>Base64 and the claims of a token\<close>

text \<open>\<open>base64.RawURLEncoding\<close> and \<open>base64.URLEncoding\<close>: the alphabet, and decoding, which skips line breaks
  and does not look at the bits a short last group leaves over.\<close>

definition base64_value :: "char \<Rightarrow> nat option" where
  "base64_value c =
     (let n = code_of c in
      if 65 \<le> n \<and> n \<le> 90 then Some (n - 65)
      else if 97 \<le> n \<and> n \<le> 122 then Some (n - 71)
      else if 48 \<le> n \<and> n \<le> 57 then Some (n + 4)
      else if n = 45 then Some 62 else if n = 95 then Some 63 else None)"

fun base64_values :: "string \<Rightarrow> nat list option" where
  "base64_values [] = Some []"
| "base64_values (c # s) =
     (case base64_value c of
        None \<Rightarrow> None
      | Some v \<Rightarrow> map_option ((#) v) (base64_values s))"

fun base64_bytes :: "nat list \<Rightarrow> string option" where
  "base64_bytes [] = Some []"
| "base64_bytes [a] = None"
| "base64_bytes [a, b] = Some [byte (a * 4 + b div 16)]"
| "base64_bytes [a, b, c] = Some [byte (a * 4 + b div 16), byte (b mod 16 * 16 + c div 4)]"
| "base64_bytes (a # b # c # d # vs) =
     map_option (\<lambda>bs. byte (a * 4 + b div 16) # byte (b mod 16 * 16 + c div 4) # byte (c mod 4 * 64 + d) # bs)
       (base64_bytes vs)"

definition base64_raw :: "string \<Rightarrow> string option" where
  "base64_raw s = Option.bind (base64_values (filter (\<lambda>c. c \<noteq> nl \<and> c \<noteq> cr) s)) base64_bytes"

definition base64_padded :: "string \<Rightarrow> string option" where
  "base64_padded s =
     (let q = filter (\<lambda>c. c \<noteq> nl \<and> c \<noteq> cr) s;
          body = (if has_suffix q ''=='' then take (length q - 2) q else if has_suffix q ''='' then take (length q - 1) q else q)
      in if length q mod 4 \<noteq> 0 then None else Option.bind (base64_values body) base64_bytes)"

text \<open>The payload of a JWT: its second part, in either encoding.\<close>

definition jwt_payload :: "string \<Rightarrow> string option" where
  "jwt_payload token =
     (let parts = split_on (CHR ''.'') token in
      if length parts < 2 then None
      else case base64_raw (parts ! 1) of
        Some p \<Rightarrow> Some p
      | None \<Rightarrow> base64_padded (parts ! 1))"

text \<open>A decoded claim: a string, the string members of an object, or anything else.\<close>

datatype claim = ClaimText string | ClaimObject "(string \<times> string) list" | ClaimOther

definition unix_epoch :: int where "unix_epoch = 62135596800"

text \<open>\<open>exp\<close> decodes the \<open>exp\<close> claim of a payload (\<open>None\<close>: not JSON, \<open>Some 0\<close>: no claim). \<open>time.Unix\<close> adds the
  seconds in 64 bits.\<close>

definition access_token_expiry :: "(string \<Rightarrow> int option) \<Rightarrow> string \<Rightarrow> go_time option" where
  "access_token_expiry exp token =
     (if token = [] then None
      else case jwt_payload token of
        None \<Rightarrow> None
      | Some p \<Rightarrow>
          (case exp p of
             None \<Rightarrow> None
           | Some e \<Rightarrow> if e = 0 then None else Some (signed_take_bit 63 (e + unix_epoch) * ns_per_second)))"

definition claim_id :: "claim option \<Rightarrow> string option" where
  "claim_id c =
     (case c of
        Some (ClaimText s) \<Rightarrow> if s \<noteq> [] then Some s else None
      | Some (ClaimObject kvs) \<Rightarrow>
          (case map_of kvs ''chatgpt_account_id'' of Some s \<Rightarrow> if s \<noteq> [] then Some s else None | None \<Rightarrow> None)
      | _ \<Rightarrow> None)"

definition object_id :: "claim option \<Rightarrow> string option" where
  "object_id c = (case c of Some (ClaimObject kvs) \<Rightarrow> claim_id c | _ \<Rightarrow> None)"

definition account_id :: "(string \<Rightarrow> (string \<times> claim) list option) \<Rightarrow> string \<Rightarrow> string option" where
  "account_id decode token =
     (case jwt_payload token of
        None \<Rightarrow> None
      | Some p \<Rightarrow>
          (case decode p of
             None \<Rightarrow> None
           | Some claims \<Rightarrow>
               (case claim_id (map_of claims ''https://api.openai.com/auth.chatgpt_account_id'') of
                  Some i \<Rightarrow> Some i
                | None \<Rightarrow>
                    (case claim_id (map_of claims ''chatgpt_account_id'') of
                       Some i \<Rightarrow> Some i
                     | None \<Rightarrow> object_id (map_of claims ''https://api.openai.com/auth'')))))"

section \<open>Files, tokens and the manager\<close>

record codex_tokens =
  ct_id :: string
  ct_access :: string
  ct_refresh :: string
  ct_account :: string
  ct_last :: go_time

record auth_file =
  af_api_key :: "string option"
  af_tokens :: "(string \<times> string \<times> string \<times> string) option" \<comment> \<open>id, access, refresh, account\<close>
  af_last :: "go_time option"

record refresh_response =
  rr_id :: string
  rr_access :: string
  rr_refresh :: string

record refresh_reply =
  ry_status :: int
  ry_body :: "go_error + refresh_response" \<comment> \<open>the body decoded as a response\<close>
  ry_error :: string \<comment> \<open>its \<open>error\<close> field\<close>

record 'w auth_world =
  aw_files :: "(string \<times> (go_error + auth_file)) list"
  aw_outcomes :: "go_error option list"
  aw_rest :: 'w

record 'w auth_env =
  ae_getenv :: "string \<Rightarrow> string"
  ae_home :: "go_error + string"
  ae_exp :: "string \<Rightarrow> int option"
  ae_claims :: "string \<Rightarrow> (string \<times> claim) list option"
  ae_ctx :: "'w \<Rightarrow> go_error option"
  ae_now :: "'w \<Rightarrow> go_time"
  ae_build :: "string \<Rightarrow> go_error option"
  ae_refresh :: "string \<Rightarrow> string \<Rightarrow> 'w \<Rightarrow> (go_error + refresh_reply) \<times> 'w"

record auth_manager =
  am_refresh_url :: string
  am_override :: string
  am_path :: string
  am_api_key :: "string option"
  am_tokens :: "codex_tokens option"

definition err_no_auth_file :: go_error where
  "err_no_auth_file = sentinel KNoAuthFile ''auth: no codex auth.json found (run `codex login` first)''"

definition err_malformed_auth_file :: go_error where
  "err_malformed_auth_file = new_error ''auth: auth.json missing tokens object''"

definition err_refresh_permanent :: go_error where
  "err_refresh_permanent = sentinel KRefreshPermanent ''auth: refresh token no longer valid''"

definition is_permanent_refresh_failure :: "go_error \<Rightarrow> bool" where
  "is_permanent_refresh_failure e \<longleftrightarrow> err_is KRefreshPermanent e"

definition refresh_cadence :: int where
  "refresh_cadence = 8 * 24 * 3600 * ns_per_second"

definition safe_string :: "codex_tokens option \<Rightarrow> string" where
  "safe_string t =
     (case t of
        None \<Rightarrow> ''Tokens<nil>''
      | Some t \<Rightarrow>
          (let mark = (\<lambda>s. if s = [] then ''missing'' else ''set'')
           in ''Tokens{id_token:'' @ mark (ct_id t) @ '' access_token:'' @ mark (ct_access t) @ '' refresh_token:''
              @ mark (ct_refresh t) @ '' account_id:'' @ mark (ct_account t) @ '' last_refresh:'' @ rfc3339 (ct_last t) @ ''}''))"

definition auth_file_path :: "'w auth_env \<Rightarrow> auth_manager \<Rightarrow> go_error + string" where
  "auth_file_path env m =
     (if am_override m \<noteq> [] then Inr (am_override m)
      else if ae_getenv env ''GLUE_CODEX_AUTH'' \<noteq> [] then Inr (ae_getenv env ''GLUE_CODEX_AUTH'')
      else if ae_getenv env ''CODEX_HOME'' \<noteq> [] then Inr (join_path (ae_getenv env ''CODEX_HOME'') ''auth.json'')
      else case ae_home env of
        Inl e \<Rightarrow> Inl (wrap_error ''auth: resolve $HOME: '' e [])
      | Inr home \<Rightarrow> Inr (join_path (join_path home ''.codex'') ''auth.json''))"

definition parse_auth_file :: "'w auth_env \<Rightarrow> go_error + auth_file \<Rightarrow> go_error + codex_tokens" where
  "parse_auth_file env content =
     (case content of
        Inl e \<Rightarrow> Inl (wrap_error ''auth.json: '' e [])
      | Inr f \<Rightarrow>
          (case af_tokens f of
             None \<Rightarrow> Inl err_malformed_auth_file
           | Some (i, a, r, acc) \<Rightarrow>
               Inr \<lparr>ct_id = i, ct_access = a, ct_refresh = r,
                    ct_account = (if acc = [] then (case account_id (ae_claims env) i of Some x \<Rightarrow> x | None \<Rightarrow> []) else acc),
                    ct_last = (case af_last f of Some t \<Rightarrow> t | None \<Rightarrow> 0)\<rparr>))"

definition auth_call :: "'w auth_world \<Rightarrow> go_error option \<times> 'w auth_world" where
  "auth_call w = (case aw_outcomes w of [] \<Rightarrow> (None, w) | x # xs \<Rightarrow> (x, w\<lparr>aw_outcomes := xs\<rparr>))"

definition load_locked :: "'w auth_env \<Rightarrow> auth_manager \<Rightarrow> 'w auth_world
    \<Rightarrow> (go_error + codex_tokens) \<times> auth_manager \<times> 'w auth_world" where
  "load_locked env m w =
     (case auth_file_path env m of
        Inl e \<Rightarrow> (Inl e, m, w)
      | Inr p \<Rightarrow>
          (case map_of (aw_files w) p of
             None \<Rightarrow> (Inl (wrap_error [] err_no_auth_file ('' (looked at '' @ p @ '')'')), m, w)
           | Some content \<Rightarrow>
               (case auth_call w of
                  (Some e, w1) \<Rightarrow>
                    (Inl (if err_is KNotExist e then wrap_error [] err_no_auth_file ('' (looked at '' @ p @ '')'')
                          else wrap_error (''auth: read '' @ p @ '': '') e []), m, w1)
                | (None, w1) \<Rightarrow>
                    (case parse_auth_file env content of
                       Inl e \<Rightarrow> (Inl e, m, w1)
                     | Inr t \<Rightarrow>
                         (Inr t,
                          m\<lparr>am_path := p, am_tokens := Some t,
                            am_api_key := (case content of Inr f \<Rightarrow> af_api_key f | Inl e \<Rightarrow> None)\<rparr>,
                          w1)))))"

definition load_tokens :: "'w auth_env \<Rightarrow> auth_manager \<Rightarrow> 'w auth_world
    \<Rightarrow> (go_error + codex_tokens) \<times> auth_manager \<times> 'w auth_world" where
  "load_tokens env m w = (case ae_ctx env (aw_rest w) of Some e \<Rightarrow> (Inl e, m, w) | None \<Rightarrow> load_locked env m w)"

definition is_stale :: "'w auth_env \<Rightarrow> go_time \<Rightarrow> codex_tokens \<Rightarrow> bool" where
  "is_stale env now t \<longleftrightarrow>
     (case access_token_expiry (ae_exp env) (ct_access t) of Some e \<Rightarrow> \<not> now < e | None \<Rightarrow> False)
     \<or> ct_last t = 0 \<or> refresh_cadence \<le> now - ct_last t"

definition refresh_url :: "'w auth_env \<Rightarrow> auth_manager \<Rightarrow> string" where
  "refresh_url env m =
     (if am_refresh_url m \<noteq> [] then am_refresh_url m
      else if ae_getenv env ''CODEX_REFRESH_TOKEN_URL_OVERRIDE'' \<noteq> [] then ae_getenv env ''CODEX_REFRESH_TOKEN_URL_OVERRIDE''
      else ''https://auth.openai.com/oauth/token'')"

definition refresh_result :: "refresh_reply \<Rightarrow> go_error + refresh_response" where
  "refresh_result y =
     (if ry_status y = 200 then
        (case ry_body y of Inl e \<Rightarrow> Inl (wrap_error ''auth: decode refresh body: '' e []) | Inr r \<Rightarrow> Inr r)
      else if ry_error y \<in> {''refresh_token_expired'', ''refresh_token_reused'', ''refresh_token_invalidated''} then
        Inl (wrap_error [] err_refresh_permanent ('': '' @ ry_error y))
      else if ry_status y = 401 \<or> ry_status y = 403 then
        Inl (wrap_error [] err_refresh_permanent ('': http '' @ itoa_int (ry_status y)))
      else Inl (new_error (''auth: refresh failed: http '' @ itoa_int (ry_status y) @ '' ('' @ ry_error y @ '')'')))"

definition refresh_locked :: "'w auth_env \<Rightarrow> auth_manager \<Rightarrow> string \<Rightarrow> 'w auth_world
    \<Rightarrow> (go_error + refresh_response) \<times> 'w auth_world" where
  "refresh_locked env m token w =
     (let url = refresh_url env m in
      case ae_build env url of
        Some e \<Rightarrow> (Inl (wrap_error ''auth: build refresh request: '' e []), w)
      | None \<Rightarrow>
          (case ae_refresh env url token (aw_rest w) of
             (Inl e, r) \<Rightarrow> (Inl (wrap_error ''auth: refresh transport: '' e []), w\<lparr>aw_rest := r\<rparr>)
           | (Inr y, r) \<Rightarrow> (refresh_result y, w\<lparr>aw_rest := r\<rparr>)))"

definition merge_refresh :: "'w auth_env \<Rightarrow> codex_tokens \<Rightarrow> refresh_response \<Rightarrow> codex_tokens" where
  "merge_refresh env t r =
     t\<lparr>ct_id := (if rr_id r \<noteq> [] then rr_id r else ct_id t),
       ct_account := (if rr_id r \<noteq> [] then (case account_id (ae_claims env) (rr_id r) of Some i \<Rightarrow> i | None \<Rightarrow> ct_account t)
          else ct_account t),
       ct_access := (if rr_access r \<noteq> [] then rr_access r else ct_access t),
       ct_refresh := (if rr_refresh r \<noteq> [] then rr_refresh r else ct_refresh t)\<rparr>"

text \<open>What a written file decodes to: \<open>last_refresh\<close> is stored in seconds, the zero instant as the empty text.\<close>

definition written_file :: "codex_tokens \<Rightarrow> string option \<Rightarrow> auth_file" where
  "written_file t key = \<lparr>af_api_key = key, af_tokens = Some (ct_id t, ct_access t, ct_refresh t, ct_account t),
     af_last = Some (ct_last t - ct_last t mod ns_per_second)\<rparr>"

text \<open>The system calls of a write by the prefix of their errors; the rename, the last one, puts the content in
  place.\<close>

fun auth_calls :: "string list \<Rightarrow> 'w auth_world \<Rightarrow> go_error option \<times> 'w auth_world" where
  "auth_calls [] w = (None, w)"
| "auth_calls (s # ss) w =
     (case auth_call w of (Some e, w1) \<Rightarrow> (Some (wrap_error s e []), w1) | (None, w1) \<Rightarrow> auth_calls ss w1)"

definition write_locked :: "'w auth_env \<Rightarrow> codex_tokens \<Rightarrow> auth_manager \<Rightarrow> 'w auth_world
    \<Rightarrow> go_error option \<times> auth_manager \<times> 'w auth_world" where
  "write_locked env t m w =
     (case (if am_path m = [] then auth_file_path env m else Inr (am_path m)) of
        Inl e \<Rightarrow> (Some e, m, w)
      | Inr p \<Rightarrow>
          (let m1 = m\<lparr>am_path := p\<rparr> in
           case auth_calls [''auth: mkdir '' @ dir_name p @ '': '', ''auth: tempfile: '', ''auth: write tempfile: '',
                  ''auth: chmod tempfile: '', ''auth: close tempfile: '', ''auth: rename to '' @ p @ '': ''] w of
             (Some e, w1) \<Rightarrow> (Some e, m1, w1)
           | (None, w1) \<Rightarrow>
               (None, m1, w1\<lparr>aw_files := AList.update p (Inr (written_file t (am_api_key m1))) (aw_files w1)\<rparr>)))"

text \<open>The tokens to look at: those given, those of the manager, or those of the file.\<close>

definition take_tokens :: "'w auth_env \<Rightarrow> codex_tokens option \<Rightarrow> auth_manager \<Rightarrow> 'w auth_world
    \<Rightarrow> go_error option \<times> auth_manager \<times> 'w auth_world" where
  "take_tokens env given m w =
     (case given of
        Some t \<Rightarrow> (None, m\<lparr>am_tokens := Some t\<rparr>, w)
      | None \<Rightarrow>
          (if am_tokens m = None then
             (case load_locked env m w of (Inl e, m1, w1) \<Rightarrow> (Some e, m1, w1) | (Inr t, m1, w1) \<Rightarrow> (None, m1, w1))
           else (None, m, w)))"

definition ensure_fresh :: "'w auth_env \<Rightarrow> codex_tokens option \<Rightarrow> auth_manager \<Rightarrow> 'w auth_world
    \<Rightarrow> (go_error + codex_tokens) \<times> auth_manager \<times> 'w auth_world" where
  "ensure_fresh env given m w =
     (case ae_ctx env (aw_rest w) of
        Some e \<Rightarrow> (Inl e, m, w)
      | None \<Rightarrow>
          (case take_tokens env given m w of
             (Some e, m1, w1) \<Rightarrow> (Inl e, m1, w1)
           | (None, m1, w1) \<Rightarrow>
               (case am_tokens m1 of
                  None \<Rightarrow> (Inl err_no_auth_file, m1, w1)
                | Some t \<Rightarrow>
                    (if \<not> is_stale env (ae_now env (aw_rest w1)) t then (Inr t, m1, w1)
                     else if ct_refresh t = [] then
                       (Inl (new_error ''auth: cannot refresh: no refresh_token in auth.json''), m1, w1)
                     else case refresh_locked env m1 (ct_refresh t) w1 of
                       (Inl e, w2) \<Rightarrow> (Inl e, m1, w2)
                     | (Inr r, w2) \<Rightarrow>
                         (let t1 = (merge_refresh env t r)\<lparr>ct_last := ae_now env (aw_rest w2)\<rparr> in
                          case write_locked env t1 m1 w2 of
                            (Some e, m2, w3) \<Rightarrow> (Inl e, m2, w3)
                          | (None, m2, w3) \<Rightarrow> (Inr t1, m2\<lparr>am_tokens := Some t1\<rparr>, w3))))))"

section \<open>Decoding inverts encoding\<close>

text \<open>The reference encoder of the alphabet, without padding.\<close>

definition base64_char :: "nat \<Rightarrow> char" where
  "base64_char v = (''ABCDEFGHIJKLMNOPQRSTUVWXYZabcdefghijklmnopqrstuvwxyz0123456789-_'') ! v"

fun base64_sextets :: "nat list \<Rightarrow> nat list" where
  "base64_sextets [] = []"
| "base64_sextets [x] = [x div 4, x mod 4 * 16]"
| "base64_sextets [x, y] = [x div 4, x mod 4 * 16 + y div 16, y mod 16 * 4]"
| "base64_sextets (x # y # z # xs) =
     [x div 4, x mod 4 * 16 + y div 16, y mod 16 * 4 + z div 64, z mod 64] @ base64_sextets xs"

definition base64_encode :: "string \<Rightarrow> string" where
  "base64_encode s = map base64_char (base64_sextets (map code_of s))"

lemma base64_char_value: "v < 64 \<Longrightarrow> base64_value (base64_char v) = Some v \<and> base64_char v \<noteq> nl \<and> base64_char v \<noteq> cr"
proof -
  have "list_all (\<lambda>v. base64_value (base64_char v) = Some v \<and> base64_char v \<noteq> nl \<and> base64_char v \<noteq> cr) [0..<64]"
    by code_simp
  then show "v < 64 \<Longrightarrow> ?thesis" by (simp add: list_all_iff)
qed

lemma base64_sextets_bound: "list_all (\<lambda>x. x < 256) xs \<Longrightarrow> list_all (\<lambda>v. v < 64) (base64_sextets xs)"
  by (induction xs rule: base64_sextets.induct) auto

lemma base64_values_map: "list_all (\<lambda>v. v < 64) vs \<Longrightarrow> base64_values (map base64_char vs) = Some vs"
  by (induction vs) (simp_all add: base64_char_value)

lemma pack_digits: "b < k \<Longrightarrow> (a * k + b) div k = (a :: nat)" "b < k \<Longrightarrow> (a * k + b) mod k = b" "x div k * k + x mod k = (x :: nat)"
  by simp_all

lemma base64_bytes_sextets: "list_all (\<lambda>x. x < 256) xs \<Longrightarrow> base64_bytes (base64_sextets xs) = Some (map byte xs)"
proof (induction xs rule: base64_sextets.induct)
  case (3 x y)
  then have "y div 16 < 16" by (simp add: less_mult_imp_div_less)
  note p = pack_digits(1,2) [OF this, of "x mod 4"]
  then show ?case by (simp add: pack_digits(3))
next
  case (4 x y z xs)
  then have b: "y div 16 < 16" "z div 64 < 4" by (simp_all add: less_mult_imp_div_less)
  note p = pack_digits(1,2) [OF b(1), of "x mod 4"] pack_digits(1,2) [OF b(2), of "y mod 16"]
  show ?case using 4 by (simp add: p pack_digits(3) mod_less [OF b(1)] mod_less [OF b(2)])
qed simp_all

theorem base64_roundtrip: "base64_raw (base64_encode s) = Some s"
proof -
  let ?vs = "base64_sextets (map code_of s)"
  have b: "list_all (\<lambda>x. x < 256) (map code_of s)" by (simp add: list_all_iff code_of_def)
  then have v: "list_all (\<lambda>v. v < 64) ?vs" by (rule base64_sextets_bound)
  have "filter (\<lambda>c. c \<noteq> nl \<and> c \<noteq> cr) (map base64_char ?vs) = map base64_char ?vs"
    using v by (intro filter_True) (auto simp: list_all_iff base64_char_value)
  moreover have "map byte (map code_of s) = s" by (simp add: comp_def byte_def code_of_def)
  ultimately show ?thesis
    using base64_values_map [OF v] base64_bytes_sextets [OF b] by (simp add: base64_raw_def base64_encode_def)
qed

section \<open>What the manager guarantees\<close>

lemma auth_call_files [simp]: "auth_call w = (x, w') \<Longrightarrow> aw_files w' = aw_files w \<and> aw_rest w' = aw_rest w"
  by (auto simp: auth_call_def split: list.splits)

lemma auth_calls_files: "auth_calls ss w = (x, w') \<Longrightarrow> aw_files w' = aw_files w \<and> aw_rest w' = aw_rest w"
proof (induction ss arbitrary: w)
  case (Cons s ss)
  then show ?case by (auto dest: auth_call_files split: prod.splits option.splits)
qed simp

lemma load_locked_effect:
  assumes "load_locked env m w = (r, m', w')"
  shows "aw_files w' = aw_files w \<and> aw_rest w' = aw_rest w
    \<and> (case r of Inl e \<Rightarrow> m' = m | Inr t \<Rightarrow> am_tokens m' = Some t \<and> auth_file_path env m = Inr (am_path m'))"
proof (cases "auth_file_path env m")
  case (Inr p)
  show ?thesis
  proof (cases "map_of (aw_files w) p")
    case (Some content)
    obtain x w1 where c: "auth_call w = (x, w1)" by (cases "auth_call w")
    then show ?thesis
      using assms Inr Some auth_call_files [OF c]
      by (auto simp: load_locked_def split: option.splits sum.splits)
  qed (use assms Inr in \<open>auto simp: load_locked_def\<close>)
qed (use assms in \<open>auto simp: load_locked_def\<close>)

text \<open>A write is all or nothing: an error leaves every file as it was.\<close>

lemma write_locked_effect:
  assumes "write_locked env t m w = (r, m', w')"
  shows "am_tokens m' = am_tokens m \<and> am_api_key m' = am_api_key m \<and> aw_rest w' = aw_rest w
    \<and> (case r of Some e \<Rightarrow> aw_files w' = aw_files w
       | None \<Rightarrow> aw_files w' = AList.update (am_path m') (Inr (written_file t (am_api_key m))) (aw_files w))"
  using assms
  by (auto simp: write_locked_def Let_def simp del: auth_calls.simps dest: auth_calls_files
      split: sum.splits prod.splits option.splits)

lemma refresh_locked_files: "refresh_locked env m tok w = (r, w') \<Longrightarrow> aw_files w' = aw_files w"
  by (auto simp: refresh_locked_def Let_def split: option.splits sum.splits prod.splits)

lemma take_tokens_effect:
  "take_tokens env given m w = (r, m', w') \<Longrightarrow> aw_files w' = aw_files w \<and> aw_rest w' = aw_rest w"
  by (auto simp: take_tokens_def dest!: load_locked_effect split: option.splits if_splits prod.splits sum.splits)

text \<open>Tokens that come back are held by the manager. Either they are not stale and nothing was written, or they
  were refreshed just now and are what the file holds, with every other file as it was. An error leaves all
  files alone.\<close>

theorem ensure_fresh_outcome:
  "case ensure_fresh env given m w of
      (Inr t, m', w') \<Rightarrow> am_tokens m' = Some t
        \<and> (if aw_files w' = aw_files w \<and> aw_rest w' = aw_rest w \<and> \<not> is_stale env (ae_now env (aw_rest w')) t then True
           else ct_last t = ae_now env (aw_rest w')
             \<and> aw_files w' = AList.update (am_path m') (Inr (written_file t (am_api_key m'))) (aw_files w))
    | (Inl e, m', w') \<Rightarrow> aw_files w' = aw_files w"
proof (cases "ae_ctx env (aw_rest w)")
  case None
  obtain x m1 w1 where t: "take_tokens env given m w = (x, m1, w1)" by (metis prod_cases3)
  note f = take_tokens_effect [OF t]
  show ?thesis
  proof (cases x)
    case None1: None
    show ?thesis
    proof (cases "am_tokens m1")
      case (Some tok)
      show ?thesis
      proof (cases "is_stale env (ae_now env (aw_rest w1)) tok \<and> ct_refresh tok \<noteq> []")
        case True
        obtain y w2 where r: "refresh_locked env m1 (ct_refresh tok) w1 = (y, w2)"
          by (cases "refresh_locked env m1 (ct_refresh tok) w1")
        note g = refresh_locked_files [OF r]
        show ?thesis
        proof (cases y)
          case (Inl e)
          then show ?thesis using None None1 t Some True r f g by (simp add: ensure_fresh_def)
        next
          case (Inr rr)
          let ?t1 = "(merge_refresh env tok rr)\<lparr>ct_last := ae_now env (aw_rest w2)\<rparr>"
          obtain z m2 w3 where k: "write_locked env ?t1 m1 w2 = (z, m2, w3)" by (metis prod_cases3)
          show ?thesis
            using None None1 t Some True r f g Inr k write_locked_effect [OF k]
            by (cases z) (auto simp: ensure_fresh_def Let_def)
        qed
      qed (use None None1 t Some f in \<open>auto simp: ensure_fresh_def\<close>)
    qed (use None None1 t f in \<open>auto simp: ensure_fresh_def\<close>)
  qed (use None t f in \<open>auto simp: ensure_fresh_def\<close>)
qed (simp add: ensure_fresh_def)

text \<open>Tokens that are not stale come back as they are, without a look at the file or the network.\<close>

lemma ensure_fresh_idle:
  assumes "ae_ctx env (aw_rest w) = None" "am_tokens m = Some t" "\<not> is_stale env (ae_now env (aw_rest w)) t"
  shows "ensure_fresh env None m w = (Inr t, m, w)"
  using assms by (simp add: ensure_fresh_def take_tokens_def)

text \<open>What is written reads back as it was, up to fractions of a second of \<open>last_refresh\<close>.\<close>

theorem written_tokens_read_back:
  assumes "ct_account t \<noteq> []"
  shows "parse_auth_file env (Inr (written_file t key)) = Inr (t\<lparr>ct_last := ct_last t - ct_last t mod ns_per_second\<rparr>)"
  using assms by (simp add: parse_auth_file_def written_file_def)

text \<open>A refresh whose tokens could not be written is forgotten: the manager keeps the old tokens, although the
  endpoint has already taken the old refresh token, so the next call sends it once more.\<close>

theorem unwritten_refresh_is_lost:
  assumes "am_tokens m = Some t" "ensure_fresh env None m w = (Inl e, m', w')"
  shows "am_tokens m' = Some t"
  using assms
  by (auto simp: ensure_fresh_def take_tokens_def Let_def dest!: write_locked_effect
      split: option.splits if_splits prod.splits sum.splits)

text \<open>A refresh fails for good when the endpoint names one of three reasons or answers 401 or 403; all else may be
  tried again.\<close>

theorem refresh_permanent_iff:
  "(case refresh_result y of Inl e \<Rightarrow> is_permanent_refresh_failure e | Inr r \<Rightarrow> False)
     \<longleftrightarrow> (if ry_status y = 200 then (case ry_body y of Inl e \<Rightarrow> is_permanent_refresh_failure e | Inr r \<Rightarrow> False)
          else ry_error y \<in> {''refresh_token_expired'', ''refresh_token_reused'', ''refresh_token_invalidated''}
            \<or> ry_status y = 401 \<or> ry_status y = 403)"
  by (auto simp: refresh_result_def is_permanent_refresh_failure_def err_refresh_permanent_def split: sum.splits)

text \<open>A merge keeps every token the answer leaves out.\<close>

theorem merge_refresh_keeps:
  "ct_refresh (merge_refresh env t r) = (if rr_refresh r = [] then ct_refresh t else rr_refresh r)
   \<and> ct_access (merge_refresh env t r) = (if rr_access r = [] then ct_access t else rr_access r)
   \<and> (rr_id r \<noteq> [] \<or> ct_id (merge_refresh env t r) = ct_id t \<and> ct_account (merge_refresh env t r) = ct_account t)
   \<and> (ct_account (merge_refresh env t r) \<noteq> ct_account t \<longrightarrow> account_id (ae_claims env) (rr_id r) = Some (ct_account (merge_refresh env t r)))"
  by (simp add: merge_refresh_def split: option.split)

end
