(* ===== verification/Codex.thy ===== *)
theory Codex
  imports Codex_Auth Provider_Streams
begin

text \<open>
  The Codex provider: \<open>src/providers/codex/convert.go\<close>, \<open>sse.go\<close> and \<open>codex.go\<close>. A request becomes items of the
  Responses format, the lines of the reply become frames and the frames provider events. The HTTP exchange,
  the JSON decoders of the payloads and the random bytes of the request ids are arguments. The reader of
  frames and its consumer are joined by an unbuffered channel, so the consumer sees the frames in their order.
\<close>

section \<open>Requests\<close>

record responses_content =
  rc_type :: string
  rc_text :: string

record responses_input =
  ri_type :: string
  ri_role :: string
  ri_content :: "responses_content list"
  ri_call_id :: string
  ri_name :: string
  ri_arguments :: bytes
  ri_output :: string

definition zero_item :: responses_input where
  "zero_item = \<lparr>ri_type = [], ri_role = [], ri_content = [], ri_call_id = [], ri_name = [], ri_arguments = [], ri_output = []\<rparr>"

record responses_tool =
  rt_type :: string
  rt_name :: string
  rt_description :: string
  rt_parameters :: bytes

record responses_request =
  rx_model :: string
  rx_instructions :: string
  rx_input :: "responses_input list"
  rx_tools :: "responses_tool list"
  rx_tool_choice :: string
  rx_parallel :: bool
  rx_stream :: bool
  rx_store :: bool
  rx_include :: "string list"

fun text_parts_only :: "string \<Rightarrow> content_part list \<Rightarrow> go_error + string list" where
  "text_parts_only role [] = Inr []"
| "text_parts_only role (p # ps) =
     (case part_type p of
        TypeText \<Rightarrow>
          (case text_parts_only role ps of
             Inl e \<Rightarrow> Inl e
           | Inr ts \<Rightarrow> Inr (if part_text p \<noteq> [] then part_text p # ts else ts))
      | TypeImage \<Rightarrow> Inl (new_error (role @ '': image content not supported by codex provider v0.1''))
      | _ \<Rightarrow> text_parts_only role ps)"

text \<open>\<open>assistantText\<close> and \<open>toolResultText\<close>: the texts by lines. The accumulator is the string builder.\<close>

fun text_lines :: "content_part list \<Rightarrow> string \<Rightarrow> string" where
  "text_lines [] acc = acc"
| "text_lines (p # ps) acc =
     text_lines ps (if part_type p = TypeText \<and> part_text p \<noteq> []
       then (if acc = [] then acc else acc @ [nl]) @ part_text p else acc)"

definition to_input_content :: "string \<Rightarrow> string list \<Rightarrow> responses_content list" where
  "to_input_content t texts = map (\<lambda>x. \<lparr>rc_type = t, rc_text = x\<rparr>) texts"

definition call_item :: "tool_call \<Rightarrow> responses_input" where
  "call_item c = zero_item\<lparr>ri_type := ''function_call'', ri_call_id := tc_id c, ri_name := tc_name c, ri_arguments := tc_args c\<rparr>"

definition message_items :: "message \<Rightarrow> go_error + responses_input list" where
  "message_items m =
     (case msg_role m of
        RoleUser \<Rightarrow>
          (case text_parts_only ''user'' (msg_content m) of
             Inl e \<Rightarrow> Inl e
           | Inr [] \<Rightarrow> Inr []
           | Inr parts \<Rightarrow> Inr [zero_item\<lparr>ri_type := ''message'', ri_role := ''user'', ri_content := to_input_content ''input_text'' parts\<rparr>])
      | RoleAssistant \<Rightarrow>
          (let text = text_lines (msg_content m) [] in
           Inr ((if text \<noteq> [] then [zero_item\<lparr>ri_type := ''message'', ri_role := ''assistant'',
                   ri_content := to_input_content ''output_text'' [text]\<rparr>] else [])
                @ map call_item (collect_tool_calls m)))
      | RoleTool \<Rightarrow>
          (if msg_call_id m = [] then Inl (new_error ''tool result missing tool_call_id'')
           else Inr [zero_item\<lparr>ri_type := ''function_call_output'', ri_call_id := msg_call_id m,
                  ri_output := text_lines (msg_content m) []\<rparr>])
      | RoleOther s \<Rightarrow> Inr [])"

fun input_from :: "nat \<Rightarrow> message list \<Rightarrow> go_error + responses_input list" where
  "input_from i [] = Inr []"
| "input_from i (m # ms) =
     (case message_items m of
        Inl e \<Rightarrow> Inl (wrap_error (''message '' @ itoa i @ '': '') e [])
      | Inr xs \<Rightarrow>
          (case input_from (Suc i) ms of Inl e \<Rightarrow> Inl e | Inr ys \<Rightarrow> Inr (xs @ ys)))"

definition messages_to_input :: "message list \<Rightarrow> go_error + responses_input list" where
  "messages_to_input ms = input_from 0 ms"

definition tool_specs_to_tools :: "tool_spec list \<Rightarrow> responses_tool list" where
  "tool_specs_to_tools specs = map (\<lambda>s. \<lparr>rt_type = ''function'', rt_name = ts_name s, rt_description = ts_description s,
     rt_parameters = (if ts_parameters s = [] then ''{}'' else ts_parameters s)\<rparr>) specs"

section \<open>Frames\<close>

record sse_event =
  se_event :: string
  se_data :: string

definition flush_frame :: "string \<Rightarrow> string \<Rightarrow> sse_event list" where
  "flush_frame event data = (if event = [] \<and> data = [] then [] else [\<lparr>se_event = event, se_data = data\<rparr>])"

fun read_frames :: "string \<Rightarrow> string \<Rightarrow> string list \<Rightarrow> sse_event list" where
  "read_frames event data [] = flush_frame event data"
| "read_frames event data (l # ls) =
     (if l = [] then flush_frame event data @ read_frames [] [] ls
      else if has_prefix l '':'' then read_frames event data ls
      else if has_prefix l ''event:'' then read_frames (trim_space (trim_prefix l ''event:'')) data ls
      else if has_prefix l ''data:'' then
        read_frames event ((if data \<noteq> [] then data @ [nl] else data) @ trim_space (trim_prefix l ''data:'')) ls
      else read_frames event data ls)"

section \<open>Consuming the frames\<close>

record codex_item =
  ci_type :: string
  ci_id :: string
  ci_call_id :: string
  ci_name :: string
  ci_arguments :: bytes

text \<open>The decoders of the payloads: \<open>None\<close> is a decoding error. The decoder of a failure gives the message it could
  read, or none.\<close>

record codex_decoders =
  cd_created :: "string \<Rightarrow> (string \<times> string) option" \<comment> \<open>id and model\<close>
  cd_delta :: "string \<Rightarrow> string option"
  cd_item :: "string \<Rightarrow> codex_item option"
  cd_completed :: "string \<Rightarrow> (string \<times> string \<times> (int \<times> int \<times> int \<times> int) option) option"
    \<comment> \<open>id, model, and the input, output, total and cached tokens\<close>
  cd_failed :: "string \<Rightarrow> string"

record codex_state =
  cs_message :: message
  cs_text :: string
  cs_calls :: "tool_call list"
  cs_completed :: bool
  cs_failed :: bool
  cs_events :: "provider_event list"

definition response_head :: "string \<Rightarrow> string \<Rightarrow> message \<Rightarrow> message" where
  "response_head i model m =
     (let m1 = (if i \<noteq> [] then m\<lparr>msg_meta := AList.update ''response_id'' (MStr i) (msg_meta m)\<rparr> else m)
      in if model \<noteq> [] then m1\<lparr>msg_model := model\<rparr> else m1)"

definition item_call :: "codex_item \<Rightarrow> tool_call" where
  "item_call x = \<lparr>tc_id = (if ci_call_id x = [] then ci_id x else ci_call_id x), tc_name = ci_name x, tc_args = ci_arguments x\<rparr>"

definition read_frame :: "codex_decoders \<Rightarrow> sse_event \<Rightarrow> codex_state \<Rightarrow> codex_state" where
  "read_frame dec f s =
     (if se_event f = ''response.created'' then
        (case cd_created dec (se_data f) of
           None \<Rightarrow> s
         | Some (i, model) \<Rightarrow> s\<lparr>cs_message := response_head i model (cs_message s)\<rparr>)
      else if se_event f = ''response.output_text.delta'' then
        (case cd_delta dec (se_data f) of
           None \<Rightarrow> s
         | Some d \<Rightarrow>
             (if d = [] then s
              else s\<lparr>cs_text := cs_text s @ d, cs_events := cs_events s @ [PTextDelta 0 d]\<rparr>))
      else if se_event f = ''response.output_item.done'' then
        (case cd_item dec (se_data f) of
           None \<Rightarrow> s
         | Some x \<Rightarrow>
             (if ci_type x \<noteq> ''function_call'' then s
              else s\<lparr>cs_calls := cs_calls s @ [item_call x], cs_events := cs_events s @ [PToolCall (Some (item_call x))]\<rparr>))
      else if se_event f = ''response.completed'' then
        (case cd_completed dec (se_data f) of
           None \<Rightarrow> s\<lparr>cs_completed := True\<rparr>
         | Some (i, model, u) \<Rightarrow>
             (let m = response_head i model (cs_message s)
              in s\<lparr>cs_message := (case u of
                      None \<Rightarrow> m
                    | Some (i, out, t, c) \<Rightarrow> m\<lparr>msg_usage := Some (zero_usage\<lparr>input_tokens := i, output_tokens := out,
                          total_tokens := t, cache_read_tokens := c\<rparr>)\<rparr>), cs_completed := True\<rparr>))
      else if se_event f = ''response.failed'' then
        (let msg = (if cd_failed dec (se_data f) \<noteq> [] then ''codex: '' @ cd_failed dec (se_data f) else ''codex: response.failed'')
         in s\<lparr>cs_events := cs_events s @ [PError msg], cs_failed := True\<rparr>)
      else s)"

definition codex_start :: "string \<Rightarrow> go_time \<Rightarrow> codex_state" where
  "codex_start model now =
     (let m = zero_message\<lparr>msg_role := RoleAssistant, msg_provider := ''codex'', msg_model := model, msg_created := now\<rparr>
      in \<lparr>cs_message = m, cs_text = [], cs_calls = [], cs_completed = False, cs_failed = False, cs_events = [PStart (Some m)]\<rparr>)"

definition codex_final :: "codex_state \<Rightarrow> message" where
  "codex_final s = (cs_message s)\<lparr>
     msg_content := (if cs_text s \<noteq> [] then [text_part (cs_text s)] else []) @ map call_part (cs_calls s),
     msg_stop := (if cs_calls s \<noteq> [] then StopToolUse else StopStop)\<rparr>"

definition codex_events :: "codex_decoders \<Rightarrow> string \<Rightarrow> go_time \<Rightarrow> string list \<Rightarrow> go_error option \<Rightarrow> provider_event list" where
  "codex_events dec model now lines fin =
     (let s = fold (read_frame dec) (read_frames [] [] lines) (codex_start model now)
      in cs_events s @
         (case (case fin of None \<Rightarrow> None | Some e \<Rightarrow> if err_is KCanceled e then None else Some e) of
            Some e \<Rightarrow> [PError (''codex: codex: read sse: '' @ err_text e)]
          | None \<Rightarrow>
              (if cs_failed s then []
               else if \<not> cs_completed s then [PError ''codex: stream closed before response.completed'']
               else [PDone (Some (codex_final s))])))"

section \<open>The exchange\<close>

record codex_reply =
  cy_status :: int
  cy_snippet :: string
  cy_lines :: "string list"
  cy_end :: "go_error option"

record codex_config =
  cc_model :: string
  cc_base :: string

text \<open>A request on the wire: the endpoint, the bearer token, the account, the body, session and conversation ids.
  The other headers are constants. \<open>cx_cancel\<close> says after how many events the context ends, and what the loop
  gets then: its own branch, or an error event the provider could still send.\<close>

record codex_call =
  cl_endpoint :: string
  cl_bearer :: string
  cl_account :: string
  cl_body :: responses_request
  cl_session :: string
  cl_conversation :: string

record 'w codex_env =
  cx_auth :: "'w auth_env"
  cx_marshal :: "responses_request \<Rightarrow> go_error option"
  cx_random :: "'w \<Rightarrow> nat list \<times> 'w"
  cx_build :: "string \<Rightarrow> go_error option"
  cx_post :: "codex_call \<Rightarrow> 'w \<Rightarrow> (go_error + codex_reply) \<times> 'w"
  cx_decode :: codex_decoders
  cx_times :: "nat \<Rightarrow> go_time"
  cx_cancel :: "'w \<Rightarrow> (nat \<times> received) option"

record 'w codex_world =
  cw_manager :: auth_manager
  cw_world :: "'w auth_world"

definition new_codex_provider :: "codex_config \<Rightarrow> codex_config" where
  "new_codex_provider c = c\<lparr>cc_base := trim_right_set [CHR ''/'']
     (if cc_base c = [] then ''https://chatgpt.com/backend-api/codex'' else cc_base c)\<rparr>"

text \<open>\<open>newUUID\<close> on sixteen bytes, printed by \<open>%x\<close>.\<close>

definition hex_bytes :: "nat list \<Rightarrow> string" where
  "hex_bytes bs = concat (map (\<lambda>b. [hex_digit (b div 16), hex_digit (b mod 16)]) bs)"

definition new_uuid :: "nat list \<Rightarrow> string" where
  "new_uuid bs =
     (let c = bs[6 := bs ! 6 mod 16 + 64, 8 := bs ! 8 mod 64 + 128]
      in hex_bytes (take 4 c) @ ''-'' @ hex_bytes (take 2 (drop 4 c)) @ ''-'' @ hex_bytes (take 2 (drop 6 c)) @ ''-''
         @ hex_bytes (take 2 (drop 8 c)) @ ''-'' @ hex_bytes (drop 10 c))"

definition do_post :: "'w codex_env \<Rightarrow> codex_call \<Rightarrow> 'w codex_world \<Rightarrow> (go_error + codex_reply) \<times> 'w codex_world" where
  "do_post env call w =
     (case cx_build env (cl_endpoint call) of
        Some e \<Rightarrow> (Inl (wrap_error ''codex: build request: '' e []), w)
      | None \<Rightarrow>
          (let (r, x) = cx_post env call (aw_rest (cw_world w)); w1 = w\<lparr>cw_world := (cw_world w)\<lparr>aw_rest := x\<rparr>\<rparr> in
           case r of
             Inl e \<Rightarrow> (Inl (wrap_error ''codex: send request: '' e []), w1)
           | Inr y \<Rightarrow>
               (if 200 \<le> cy_status y \<and> cy_status y < 300 \<or> cy_status y = 401 then (Inr y, w1)
                else (Inl (new_error (''codex: http '' @ itoa_int (cy_status y) @ '': '' @ trim_space (cy_snippet y))), w1))))"

definition codex_fresh :: "'w codex_env \<Rightarrow> 'w codex_world \<Rightarrow> (go_error + codex_tokens) \<times> 'w codex_world" where
  "codex_fresh env w =
     (let (r, m, a) = ensure_fresh (cx_auth env) None (cw_manager w) (cw_world w)
      in (r, w\<lparr>cw_manager := m, cw_world := a\<rparr>))"

definition with_tokens :: "codex_tokens \<Rightarrow> codex_call \<Rightarrow> codex_call" where
  "with_tokens t call = call\<lparr>cl_bearer := ct_access t, cl_account := ct_account t\<rparr>"

definition post_with_retry :: "'w codex_env \<Rightarrow> codex_tokens \<Rightarrow> codex_call \<Rightarrow> 'w codex_world
    \<Rightarrow> (go_error + codex_reply) \<times> 'w codex_world" where
  "post_with_retry env t call w =
     (case do_post env (with_tokens t call) w of
        (Inl e, w1) \<Rightarrow> (Inl e, w1)
      | (Inr y, w1) \<Rightarrow>
          (if cy_status y \<noteq> 401 then (Inr y, w1)
           else if ct_refresh t = [] then (Inl (new_error ''codex: http 401 and no refresh_token available''), w1)
           else case codex_fresh env w1 of
             (Inl e, w2) \<Rightarrow> (Inl (wrap_error ''codex: 401 refresh: '' e []), w2)
           | (Inr t2, w2) \<Rightarrow>
               (case do_post env (with_tokens t2 call) w2 of
                  (Inl e, w3) \<Rightarrow> (Inl e, w3)
                | (Inr y2, w3) \<Rightarrow>
                    (if cy_status y2 = 401 then (Inl (new_error ''codex: http 401 after refresh (re-run `codex login`)''), w3)
                     else (Inr y2, w3)))))"

definition codex_request :: "string \<Rightarrow> provider_request \<Rightarrow> responses_input list \<Rightarrow> responses_request" where
  "codex_request model q input = \<lparr>rx_model = model, rx_instructions = pq_system q, rx_input = input,
     rx_tools = tool_specs_to_tools (pq_tools q), rx_tool_choice = ''auto'', rx_parallel = False, rx_stream = True,
     rx_store = False, rx_include = [''reasoning.encrypted_content'']\<rparr>"

definition codex_received :: "'w codex_env \<Rightarrow> 'w \<Rightarrow> provider_event list \<Rightarrow> stream" where
  "codex_received env x evs =
     (case cx_cancel env x of
        None \<Rightarrow> received_events (cx_times env) None evs
      | Some (n, late) \<Rightarrow> take n (received_events (cx_times env) None evs) @ [(cx_times env n, late)])"

definition codex_stream :: "'w codex_env \<Rightarrow> codex_config \<Rightarrow> 'w codex_world provider" where
  "codex_stream env c q w =
     (let model = (if pq_model q \<noteq> [] then pq_model q else if cc_model c \<noteq> [] then cc_model c else ''gpt-5-codex'') in
      case codex_fresh env w of
        (Inl e, w1) \<Rightarrow> (Inl (wrap_error ''codex: auth: '' e []), w1)
      | (Inr t, w1) \<Rightarrow>
          (if ct_account t = [] then
             (Inl (new_error ''codex: auth.json missing ChatGPT account_id (re-run `codex login`)''), w1)
           else case messages_to_input (pq_messages q) of
             Inl e \<Rightarrow> (Inl e, w1)
           | Inr input \<Rightarrow>
               (let body = codex_request model q input in
                case cx_marshal env body of
                  Some e \<Rightarrow> (Inl (wrap_error ''codex: marshal request: '' e []), w1)
                | None \<Rightarrow>
                    (let (b1, x1) = cx_random env (aw_rest (cw_world w1)); (b2, x2) = cx_random env x1;
                         w2 = w1\<lparr>cw_world := (cw_world w1)\<lparr>aw_rest := x2\<rparr>\<rparr>;
                         call = \<lparr>cl_endpoint = cc_base c @ ''/responses'', cl_bearer = [], cl_account = [], cl_body = body,
                                 cl_session = new_uuid b1, cl_conversation = new_uuid b2\<rparr> in
                     case post_with_retry env t call w2 of
                       (Inl e, w3) \<Rightarrow> (Inl e, w3)
                     | (Inr y, w3) \<Rightarrow>
                         (let x = aw_rest (cw_world w3) in
                          (Inr (codex_received env x
                             (codex_events (cx_decode env) model (ae_now (cx_auth env) x) (cy_lines y) (cy_end y))), w3))))))"

section \<open>The stream keeps the contract\<close>

definition consuming :: "go_time \<Rightarrow> codex_state \<Rightarrow> bool" where
  "consuming now s \<longleftrightarrow> \<not> cs_failed s \<and> (\<exists>m0 mid. cs_events s = PStart (Some m0) # mid \<and> list_all delta_event mid
     \<and> text_deltas mid = cs_text s \<and> thinking_deltas mid = [] \<and> event_calls mid = cs_calls s)
     \<and> msg_role (cs_message s) = RoleAssistant \<and> msg_created (cs_message s) = now"

definition broken_off :: "codex_state \<Rightarrow> bool" where
  "broken_off s \<longleftrightarrow> cs_failed s \<and> (\<exists>m0 mid e rest. cs_events s = PStart (Some m0) # mid @ PError e # rest
     \<and> list_all delta_event mid \<and> e \<noteq> [])"

lemma response_head_frame [simp]:
  "msg_role (response_head i model m) = msg_role m" "msg_created (response_head i model m) = msg_created m"
  by (simp_all add: response_head_def Let_def)

lemma read_frame_events: "\<exists>more. cs_events (read_frame dec f s) = cs_events s @ more \<and> (cs_failed s \<longrightarrow> cs_failed (read_frame dec f s))"
  by (auto simp: read_frame_def Let_def split: option.split)

lemma broken_off_frame: "broken_off s \<Longrightarrow> broken_off (read_frame dec f s)"
proof -
  assume b: "broken_off s"
  then obtain m0 mid e rest where e: "cs_events s = PStart (Some m0) # mid @ PError e # rest" "list_all delta_event mid" "e \<noteq> []"
    by (auto simp: broken_off_def)
  obtain more where "cs_events (read_frame dec f s) = cs_events s @ more" "cs_failed (read_frame dec f s)"
    using read_frame_events [of dec f s] b by (auto simp: broken_off_def)
  then show "broken_off (read_frame dec f s)"
    unfolding broken_off_def using e by (intro conjI exI [of _ m0] exI [of _ mid] exI [of _ e] exI [of _ "rest @ more"]) simp_all
qed

lemma consuming_same:
  "consuming now s \<Longrightarrow> cs_events s' = cs_events s \<Longrightarrow> cs_text s' = cs_text s \<Longrightarrow> cs_calls s' = cs_calls s \<Longrightarrow> cs_failed s' = cs_failed s
     \<Longrightarrow> msg_role (cs_message s') = msg_role (cs_message s) \<Longrightarrow> msg_created (cs_message s') = msg_created (cs_message s)
     \<Longrightarrow> consuming now s'"
  by (simp add: consuming_def)

lemma consuming_event:
  assumes "consuming now s" "delta_event e" "cs_events s' = cs_events s @ [e]" "cs_text s' = cs_text s @ text_deltas [e]"
    "thinking_deltas [e] = []" "cs_calls s' = cs_calls s @ event_calls [e]" "cs_failed s' = cs_failed s"
    "cs_message s' = cs_message s"
  shows "consuming now s'"
proof -
  obtain m0 mid where m: "cs_events s = PStart (Some m0) # mid" "list_all delta_event mid" "text_deltas mid = cs_text s"
    "thinking_deltas mid = []" "event_calls mid = cs_calls s" "\<not> cs_failed s"
    "msg_role (cs_message s) = RoleAssistant" "msg_created (cs_message s) = now"
    using assms(1) by (auto simp: consuming_def)
  then show ?thesis
    using assms(2-) unfolding consuming_def by (intro conjI exI [of _ m0] exI [of _ "mid @ [e]"]) simp_all
qed

text \<open>What one frame does: an error, a delta, a call, or nothing but the head of the message.\<close>

lemma read_frame_failed:
  "se_event f = ''response.failed'' \<Longrightarrow> \<exists>e. e \<noteq> [] \<and> read_frame dec f s = s\<lparr>cs_events := cs_events s @ [PError e], cs_failed := True\<rparr>"
  by (rule exI [of _ "if cd_failed dec (se_data f) \<noteq> [] then ''codex: '' @ cd_failed dec (se_data f) else ''codex: response.failed''"])
    (simp add: read_frame_def Let_def)

lemma read_frame_delta:
  "se_event f = ''response.output_text.delta'' \<Longrightarrow> read_frame dec f s = s
     \<or> (\<exists>d. d \<noteq> [] \<and> read_frame dec f s = s\<lparr>cs_text := cs_text s @ d, cs_events := cs_events s @ [PTextDelta 0 d]\<rparr>)"
  by (auto simp: read_frame_def split: option.split)

lemma read_frame_item:
  "se_event f = ''response.output_item.done'' \<Longrightarrow> read_frame dec f s = s
     \<or> (\<exists>x. read_frame dec f s = s\<lparr>cs_calls := cs_calls s @ [x], cs_events := cs_events s @ [PToolCall (Some x)]\<rparr>)"
  by (auto simp: read_frame_def split: option.split)

lemma read_frame_head:
  assumes "se_event f \<noteq> ''response.failed''" "se_event f \<noteq> ''response.output_text.delta''" "se_event f \<noteq> ''response.output_item.done''"
  shows "cs_events (read_frame dec f s) = cs_events s" "cs_text (read_frame dec f s) = cs_text s"
    "cs_calls (read_frame dec f s) = cs_calls s" "cs_failed (read_frame dec f s) = cs_failed s"
    "msg_role (cs_message (read_frame dec f s)) = msg_role (cs_message s)"
    "msg_created (cs_message (read_frame dec f s)) = msg_created (cs_message s)"
  using assms by (simp_all add: read_frame_def Let_def split: option.split prod.split)

lemma consuming_frame:
  assumes "consuming now s"
  shows "consuming now (read_frame dec f s) \<or> broken_off (read_frame dec f s)"
proof -
  consider (failed) "se_event f = ''response.failed''" | (delta) "se_event f = ''response.output_text.delta''"
    | (item) "se_event f = ''response.output_item.done''"
    | (head) "se_event f \<noteq> ''response.failed''" "se_event f \<noteq> ''response.output_text.delta''" "se_event f \<noteq> ''response.output_item.done''"
    by blast
  then show ?thesis
  proof cases
    case failed
    obtain m0 mid where m: "cs_events s = PStart (Some m0) # mid" "list_all delta_event mid"
      using assms by (auto simp: consuming_def)
    obtain e where "e \<noteq> []" "read_frame dec f s = s\<lparr>cs_events := cs_events s @ [PError e], cs_failed := True\<rparr>"
      using read_frame_failed [OF failed] by blast
    then have "broken_off (read_frame dec f s)"
      using m unfolding broken_off_def
      by (intro conjI exI [of _ m0] exI [of _ mid] exI [of _ e] exI [of _ "[]"]) simp_all
    then show ?thesis ..
  next
    case delta
    have "consuming now (s\<lparr>cs_text := cs_text s @ d, cs_events := cs_events s @ [PTextDelta 0 d]\<rparr>)" if "d \<noteq> []" for d
      using that by (intro consuming_event [OF assms, of "PTextDelta 0 d"])
        (simp_all add: delta_event_def text_deltas_def thinking_deltas_def event_calls_def List.map_filter_simps)
    then show ?thesis using read_frame_delta [OF delta, of dec s] assms by auto
  next
    case item
    have "consuming now (s\<lparr>cs_calls := cs_calls s @ [x], cs_events := cs_events s @ [PToolCall (Some x)]\<rparr>)" for x
      by (intro consuming_event [OF assms, of "PToolCall (Some x)"])
        (simp_all add: delta_event_def text_deltas_def thinking_deltas_def event_calls_def List.map_filter_simps)
    then show ?thesis using read_frame_item [OF item, of dec s] assms by auto
  next
    case head
    show ?thesis using consuming_same [OF assms read_frame_head [OF head]] ..
  qed
qed

lemma frames_consumed:
  "consuming now (fold (read_frame dec) fs (codex_start model now)) \<or> broken_off (fold (read_frame dec) fs (codex_start model now))"
proof -
  have "consuming now (codex_start model now)" by (simp add: consuming_def codex_start_def Let_def zero_message_def)
  then have "consuming now (codex_start model now) \<or> broken_off (codex_start model now)" ..
  then show ?thesis
    by (rule fold_invariant_all) (use consuming_frame broken_off_frame in blast)
qed

lemma codex_final_matches:
  assumes "consuming now s" "cs_events s = PStart (Some m0) # mid"
  shows "matches_events (codex_final s) mid \<and> msg_created (codex_final s) = now \<and> msg_stop (codex_final s) \<noteq> StopOther []"
proof -
  have m: "list_all delta_event mid" "text_deltas mid = cs_text s" "thinking_deltas mid = []" "event_calls mid = cs_calls s"
    "msg_role (cs_message s) = RoleAssistant" "msg_created (cs_message s) = now"
    using assms by (auto simp: consuming_def)
  have "part_tool_call (text_part (cs_text s)) = None" "join_text [text_part (cs_text s)] = cs_text s"
    "join_thinking [text_part (cs_text s)] = []" "cs_text s \<noteq> [] \<Longrightarrow> part_typed (text_part (cs_text s))"
    by (auto simp: part_tool_call_def join_text_def join_thinking_def text_part_def part_typed_def)
  then show ?thesis
    using m by (simp add: matches_events_def codex_final_def collect_tool_calls_def map_filter_append List.map_filter_simps)
qed

interpretation codex: provider_stream "\<lambda>(dec, model, now, lines, fin). codex_events dec model now lines fin"
    "\<lambda>(dec, model, now, lines, fin). now"
proof
  fix x :: "codex_decoders \<times> string \<times> go_time \<times> string list \<times> go_error option"
  obtain dec model now lines fin where x: "x = (dec, model, now, lines, fin)" by (cases x)
  let ?s = "fold (read_frame dec) (read_frames [] [] lines) (codex_start model now)"
  let ?fin = "case fin of None \<Rightarrow> None | Some e \<Rightarrow> if err_is KCanceled e then None else Some e"
  have "\<exists>m0 mid t rest. codex_events dec model now lines fin = PStart (Some m0) # mid @ t # rest \<and> list_all delta_event mid
    \<and> (case t of
        PDone (Some a) \<Rightarrow> rest = [] \<and> matches_events a mid \<and> msg_created a = now \<and> msg_stop a \<noteq> StopOther []
      | PError e \<Rightarrow> e \<noteq> [] | _ \<Rightarrow> False)"
    using frames_consumed
  proof
    assume b: "broken_off ?s"
    then obtain m0 mid e rest where e: "cs_events ?s = PStart (Some m0) # mid @ PError e # rest" "list_all delta_event mid" "e \<noteq> []"
      by (auto simp: broken_off_def)
    have "\<exists>more. codex_events dec model now lines fin = cs_events ?s @ more" by (simp add: codex_events_def Let_def)
    then obtain more where "codex_events dec model now lines fin = PStart (Some m0) # mid @ PError e # (rest @ more)"
      using e(1) by auto
    then show ?thesis using e(2,3)
      by (intro exI [of _ m0] exI [of _ mid] exI [of _ "PError e"] exI [of _ "rest @ more"]) simp
  next
    assume c: "consuming now ?s"
    then obtain m0 mid where m: "cs_events ?s = PStart (Some m0) # mid" "list_all delta_event mid" "\<not> cs_failed ?s"
      by (auto simp: consuming_def)
    obtain t where t: "codex_events dec model now lines fin = cs_events ?s @ [t]"
      "t = PDone (Some (codex_final ?s)) \<or> (\<exists>e. t = PError e \<and> e \<noteq> [])"
      using m(3) by (cases ?fin; cases "cs_completed ?s") (auto simp: codex_events_def Let_def)
    have f: "matches_events (codex_final ?s) mid \<and> msg_created (codex_final ?s) = now \<and> msg_stop (codex_final ?s) \<noteq> StopOther []"
      by (rule codex_final_matches [OF c m(1)])
    show ?thesis
      using t(2)
    proof
      assume "t = PDone (Some (codex_final ?s))"
      then show ?thesis using t(1) m f
        by (intro exI [of _ m0] exI [of _ mid] exI [of _ t] exI [of _ "[]"]) simp
    next
      assume "\<exists>e. t = PError e \<and> e \<noteq> []"
      then show ?thesis using t(1) m
        by (intro exI [of _ m0] exI [of _ mid] exI [of _ t] exI [of _ "[]"]) auto
    qed
  qed
  then show "\<exists>m0 mid t rest. (case x of (dec, model, now, lines, fin) \<Rightarrow> codex_events dec model now lines fin)
        = PStart (Some m0) # mid @ t # rest \<and> list_all delta_event mid
    \<and> (case t of
        PDone (Some a) \<Rightarrow> rest = [] \<and> matches_events a mid
          \<and> msg_created a = (case x of (dec, model, now, lines, fin) \<Rightarrow> now) \<and> msg_stop a \<noteq> StopOther []
      | PError e \<Rightarrow> e \<noteq> [] | _ \<Rightarrow> False)"
    unfolding x prod.case .
qed

lemma codex_stream_parts:
  assumes "codex_stream env c q w = (Inr items, w')"
  shows "\<exists>model lines fin. items = codex_received env (aw_rest (cw_world w'))
    (codex_events (cx_decode env) model (ae_now (cx_auth env) (aw_rest (cw_world w'))) lines fin)"
proof -
  obtain r w1 where f: "codex_fresh env w = (r, w1)" by (cases "codex_fresh env w")
  then obtain t where r: "r = Inr t" using assms by (cases r) (simp_all add: codex_stream_def Let_def)
  then have a: "ct_account t \<noteq> []" using assms f by (auto simp: codex_stream_def Let_def)
  obtain input where i: "messages_to_input (pq_messages q) = Inr input"
    using assms f r a by (cases "messages_to_input (pq_messages q)") (simp_all add: codex_stream_def Let_def)
  show ?thesis
    using assms unfolding codex_stream_def f r i
    by (auto simp: Let_def a split: option.splits prod.splits sum.splits)
qed

text \<open>When the provider accepts a request and the context is not cancelled, the loop takes from its stream the
  finished turn, having shown its whole text, or fails with the first error of the stream; what the provider
  still sends after an error is not read.\<close>

theorem codex_turn_takes_stream:
  assumes "codex_stream env c q w = (Inr items, w')" and "cx_cancel env (aw_rest (cw_world w')) = None"
    and "ae_now (cx_auth env) (aw_rest (cw_world w')) \<noteq> 0"
  shows "\<exists>evs. items = received_events (cx_times env) None evs
    \<and> (case stream_end evs of
        Some (PDone (Some a)) \<Rightarrow> \<exists>ev. read_stream model items fresh_turn = (Inr a, ev) \<and> shown_text ev = join_text (msg_content a)
      | Some (PError e) \<Rightarrow> fst (read_stream model items fresh_turn) = Inl (new_error e)
      | _ \<Rightarrow> False)"
proof -
  obtain m lines fin where i: "items = received_events (cx_times env) None
      (codex_events (cx_decode env) m (ae_now (cx_auth env) (aw_rest (cw_world w'))) lines fin)"
    using codex_stream_parts [OF assms(1)] assms(2) by (auto simp: codex_received_def)
  note t = codex.turn_outcome [of "(cx_decode env, m, ae_now (cx_auth env) (aw_rest (cw_world w')), lines, fin)" model "cx_times env",
      unfolded prod.case, OF assms(3)]
  show ?thesis
    unfolding i by (rule exI, rule conjI, rule refl) (rule t)
qed

section \<open>The input of a hardened transcript\<close>

fun items_answered :: "responses_input list \<Rightarrow> bool" where
  "items_answered [] = True"
| "items_answered (x # xs) =
     ((ri_type x = ''function_call'' \<longrightarrow>
         list_ex (\<lambda>t. ri_type t = ''function_call_output'' \<and> ri_call_id t = ri_call_id x) xs) \<and> items_answered xs)"

definition items_owned :: "responses_input list \<Rightarrow> bool" where
  "items_owned xs \<longleftrightarrow> list_all (\<lambda>t. ri_type t = ''function_call_output'' \<longrightarrow>
     list_ex (\<lambda>a. ri_type a = ''function_call'' \<and> ri_call_id a = ri_call_id t) xs) xs"

definition has_image :: "message \<Rightarrow> bool" where
  "has_image m \<longleftrightarrow> list_ex (\<lambda>p. part_type p = TypeImage) (msg_content m)"

lemma text_parts_only_fails: "(\<exists>e. text_parts_only role ps = Inl e) \<longleftrightarrow> list_ex (\<lambda>p. part_type p = TypeImage) ps"
  by (induction ps) (auto split: sum.splits content_type.splits)

lemma message_items_fails:
  "message_items m = Inl e \<Longrightarrow> msg_role m = RoleUser \<and> has_image m \<or> is_tool m \<and> msg_call_id m = []"
  using text_parts_only_fails [of "''user''" "msg_content m"]
  by (auto simp: message_items_def has_image_def is_tool_def Let_def
      split: message_role.splits sum.splits list.splits if_splits)

definition items_of :: "message \<Rightarrow> responses_input list" where
  "items_of m = (case message_items m of Inr xs \<Rightarrow> xs | Inl e \<Rightarrow> [])"

lemma input_from_items:
  "case input_from i ms of
      Inr xs \<Rightarrow> list_all (\<lambda>m. \<exists>ys. message_items m = Inr ys) ms \<and> xs = concat (map items_of ms)
    | Inl e \<Rightarrow> list_ex (\<lambda>m. \<exists>e. message_items m = Inl e) ms"
proof (induction ms arbitrary: i)
  case (Cons m ms)
  show ?case
  proof (cases "message_items m")
    case (Inr xs)
    then show ?thesis using Cons [of "Suc i"] by (auto simp: items_of_def split: sum.splits)
  qed simp
qed simp

lemma items_of_calls:
  "x \<in> set (items_of m) \<Longrightarrow> ri_type x = ''function_call'' \<Longrightarrow> is_assistant m \<and> ri_call_id x \<in> set (call_ids m)"
  by (auto simp: items_of_def message_items_def Let_def zero_item_def call_item_def is_assistant_def
      split: message_role.splits sum.splits list.splits if_splits)

lemma items_of_assistant:
  "is_assistant m \<Longrightarrow> c \<in> set (collect_tool_calls m) \<Longrightarrow> call_item c \<in> set (items_of m)"
  by (simp add: items_of_def message_items_def Let_def is_assistant_def)

lemma items_of_outputs:
  "x \<in> set (items_of m) \<Longrightarrow> ri_type x = ''function_call_output'' \<Longrightarrow> is_tool m \<and> ri_call_id x = msg_call_id m"
  by (auto simp: items_of_def message_items_def Let_def zero_item_def call_item_def is_tool_def
      split: message_role.splits sum.splits list.splits if_splits)

lemma items_of_tool:
  assumes "is_tool t" "message_items t = Inr ys"
  shows "\<exists>x\<in>set (items_of t). ri_type x = ''function_call_output'' \<and> ri_call_id x = msg_call_id t"
  using assms by (auto simp: items_of_def message_items_def is_tool_def zero_item_def split: if_splits)

lemma items_answered_append:
  assumes "items_answered ys"
    "\<And>x. x \<in> set xs \<Longrightarrow> ri_type x = ''function_call'' \<Longrightarrow>
       \<exists>t\<in>set ys. ri_type t = ''function_call_output'' \<and> ri_call_id t = ri_call_id x"
  shows "items_answered (xs @ ys)"
  using assms(2)
proof (induction xs)
  case (Cons x xs)
  have "items_answered (xs @ ys)" by (rule Cons.IH) (rule Cons.prems, auto)
  moreover have "list_ex (\<lambda>t. ri_type t = ''function_call_output'' \<and> ri_call_id t = ri_call_id x) (xs @ ys)"
    if "ri_type x = ''function_call''"
    using Cons.prems [of x] that by (auto simp: list_ex_iff)
  ultimately show ?case by simp
qed (simp add: assms(1))

lemma answered_items:
  assumes "calls_answered ms" "list_all (\<lambda>m. \<exists>ys. message_items m = Inr ys) ms"
  shows "items_answered (concat (map items_of ms))"
  using assms
proof (induction ms)
  case (Cons m ms)
  have "items_answered (items_of m @ concat (map items_of ms))"
  proof (rule items_answered_append)
    show "items_answered (concat (map items_of ms))" using Cons by simp
  next
    fix x
    assume x: "x \<in> set (items_of m)" "ri_type x = ''function_call''"
    then obtain c where c: "is_assistant m" "c \<in> set (collect_tool_calls m)" "ri_call_id x = tc_id c"
      using items_of_calls by (metis (no_types, lifting) image_iff list.set_map)
    then obtain t where t: "t \<in> set ms" "is_tool t" "msg_call_id t = tc_id c" using Cons.prems(1) by auto
    obtain ys where "message_items t = Inr ys" using Cons.prems(2) t(1) by (auto simp: list_all_iff)
    then obtain y where "y \<in> set (items_of t)" "ri_type y = ''function_call_output''" "ri_call_id y = msg_call_id t"
      using items_of_tool [OF t(2)] by blast
    then show "\<exists>t\<in>set (concat (map items_of ms)). ri_type t = ''function_call_output'' \<and> ri_call_id t = ri_call_id x"
      using t(1,3) c(3) by auto
  qed
  then show ?case by simp
qed simp

lemma owned_items:
  assumes "results_owned ms"
  shows "items_owned (concat (map items_of ms))"
  unfolding items_owned_def list_all_iff
proof (intro ballI impI)
  fix x
  assume x: "x \<in> set (concat (map items_of ms))" "ri_type x = ''function_call_output''"
  then obtain t where t: "t \<in> set ms" "x \<in> set (items_of t)" by auto
  note u = items_of_outputs [OF t(2) x(2)]
  then obtain a c where a: "a \<in> set ms" "is_assistant a" "c \<in> set (collect_tool_calls a)" "tc_id c = msg_call_id t"
    using assms t(1) by (auto simp: results_owned_def)
  have "call_item c \<in> set (concat (map items_of ms))" using a(1) items_of_assistant [OF a(2,3)] by auto
  moreover have "ri_type (call_item c) = ''function_call''" "ri_call_id (call_item c) = ri_call_id x"
    using a(4) u by (simp_all add: call_item_def zero_item_def)
  ultimately show "list_ex (\<lambda>a. ri_type a = ''function_call'' \<and> ri_call_id a = ri_call_id x) (concat (map items_of ms))"
    unfolding list_ex_iff by blast
qed

text \<open>The input made from a hardened transcript answers every call by a later output and has no output without its
  call; it fails to convert only for an image from the user or a result without an id.\<close>

theorem hardened_input_is_paired:
  "case messages_to_input (harden_history ms active) of
      Inr xs \<Rightarrow> items_answered xs \<and> items_owned xs
    | Inl e \<Rightarrow> list_ex (\<lambda>m. msg_role m = RoleUser \<and> has_image m \<or> is_tool m \<and> msg_call_id m = []) (harden_history ms active)"
proof -
  let ?h = "harden_history ms active"
  have h: "calls_answered ?h" "results_owned ?h"
    using harden_history_well_formed [of ms active] harden_walk_owned
    by (simp_all add: harden_history_def Let_def well_formed_def)
  note s = input_from_items [where i = 0 and ms = ?h, folded messages_to_input_def]
  show ?thesis
  proof (cases "messages_to_input ?h")
    case (Inr xs)
    then show ?thesis using s answered_items [OF h(1)] owned_items [OF h(2)] by simp
  next
    case (Inl e)
    then show ?thesis using s message_items_fails by (auto simp: list_ex_iff)
  qed
qed

section \<open>Frames, ids and the second request\<close>

text \<open>A frame as a server writes it.\<close>

definition render_frame :: "sse_event \<Rightarrow> string list" where
  "render_frame f = (if se_event f = [] then [] else [''event: '' @ se_event f])
     @ (if se_data f = [] then [] else map (\<lambda>l. ''data: '' @ l) (split_on nl (se_data f))) @ [[]]"

definition plain_frame :: "sse_event \<Rightarrow> bool" where
  "plain_frame f \<longleftrightarrow> (se_event f \<noteq> [] \<or> se_data f \<noteq> []) \<and> trim_space (se_event f) = se_event f
     \<and> list_all (\<lambda>l. trim_space l = l) (split_on nl (se_data f)) \<and> (se_data f \<noteq> [] \<longrightarrow> hd (se_data f) \<noteq> nl)"

lemma trim_space_blank [simp]: "trim_space (CHR '' '' # s) = trim_space s"
proof -
  have "strip_seq space_seqs (CHR '' '' # s) = Some s" by (simp add: space_seqs_def has_prefix_def)
  then show ?thesis by (simp add: trim_space_def trim_left_space_def strip_left.simps [of space_seqs "CHR '' '' # s"])
qed

lemma split_lines: "split_on nl s = l # ls \<Longrightarrow> s = l @ concat (map ((#) nl) ls)"
proof (induction s arbitrary: l ls)
  case (Cons c s)
  obtain k ks where k: "split_on nl s = k # ks" using split_on_nonempty by (metis neq_Nil_conv)
  note s = Cons.IH [OF k]
  show ?case
  proof (cases "c = nl")
    case True
    then have "l = []" "ls = k # ks" using Cons.prems k by simp_all
    then show ?thesis using True s by simp
  next
    case False
    then have "l = c # k" "ls = ks" using Cons.prems k by simp_all
    then show ?thesis using s by simp
  qed
qed simp

lemma read_data_lines:
  assumes "list_all (\<lambda>l. trim_space l = l) ls" "d \<noteq> []"
  shows "read_frames ev d (map ((@) ''data: '') ls @ rest) = read_frames ev (d @ concat (map ((#) nl) ls)) rest"
  using assms by (induction ls arbitrary: d) (simp_all add: has_prefix_def trim_prefix_def)

lemma read_rendered_frame:
  assumes "plain_frame f"
  shows "read_frames [] [] (render_frame f @ rest) = f # read_frames [] [] rest"
proof -
  have e: "read_frames [] [] (render_frame f @ rest)
      = read_frames (se_event f) [] ((if se_data f = [] then [] else map (\<lambda>l. ''data: '' @ l) (split_on nl (se_data f))) @ [] # rest)"
    using assms by (simp add: render_frame_def plain_frame_def has_prefix_def trim_prefix_def)
  show ?thesis
  proof (cases "se_data f = []")
    case True
    then show ?thesis using assms by (simp add: e flush_frame_def plain_frame_def)
  next
    case False
    then obtain l ls where l: "split_on nl (se_data f) = l # ls"
      using split_on_nonempty by (metis neq_Nil_conv)
    note s = split_lines [OF l]
    have "l \<noteq> []" using assms False s by (cases l; cases ls) (auto simp: plain_frame_def)
    moreover have t: "trim_space l = l" "list_all (\<lambda>l. trim_space l = l) ls" using assms l by (simp_all add: plain_frame_def)
    ultimately show ?thesis
      using False read_data_lines [OF t(2), of l "se_event f"]
      by (simp add: e l t(1) s [symmetric] has_prefix_def trim_prefix_def flush_frame_def)
  qed
qed

text \<open>Frames are read back as they were written, when their lines have no blanks at their ends and the data does not
  begin with an empty line.\<close>

theorem frames_roundtrip:
  "list_all plain_frame fs \<Longrightarrow> read_frames [] [] (concat (map render_frame fs)) = fs"
  by (induction fs) (simp_all add: read_rendered_frame flush_frame_def)

lemma hex_bytes_simps [simp]:
  "hex_bytes [] = []" "hex_bytes (b # bs) = hex_digit (b div 16) # hex_digit (b mod 16) # hex_bytes bs"
  by (simp_all add: hex_bytes_def)

lemma variant_digit: "hex_digit ((x mod 64 + 128) div 16) \<in> set ''89ab''"
proof -
  have "(x mod 64 + 128) div 16 = 8 + x mod 64 div 16" by simp
  moreover have "x mod 64 div 16 < 4" by (simp add: less_mult_imp_div_less)
  then have "x mod 64 div 16 \<in> {0, 1, 2, 3}" by auto
  moreover have "\<forall>k\<in>{0, 1, 2, 3}. hex_digit (8 + k) \<in> set ''89ab''" by code_simp
  ultimately show ?thesis by metis
qed

theorem uuid_version_4:
  assumes "length bs = 16"
  shows "length (new_uuid bs) = 36 \<and> new_uuid bs ! 14 = CHR ''4'' \<and> new_uuid bs ! 19 \<in> set ''89ab''"
proof -
  obtain x0 x1 x2 x3 x4 x5 x6 x7 ys where a: "bs = x0 # x1 # x2 # x3 # x4 # x5 # x6 # x7 # ys" "length ys = 8"
    using assms by (auto simp: numeral_eq_Suc length_Suc_conv)
  obtain x8 x9 xa xb xc xd xe xf where b: "ys = [x8, x9, xa, xb, xc, xd, xe, xf]"
    using a(2) by (auto simp: numeral_eq_Suc length_Suc_conv)
  have "(x6 mod 16 + 64) div 16 = 4" by presburger
  moreover have "hex_digit 4 = CHR ''4''" by code_simp
  ultimately have v: "hex_digit ((x6 mod 16 + 64) div 16) = CHR ''4''" by simp
  show ?thesis
    using variant_digit [of x8] by (simp add: a b new_uuid_def Let_def v)
qed

text \<open>A token that the endpoint rejects but the manager does not take for stale is sent again: the second request
  is the first one once more.\<close>

theorem rejected_token_is_sent_again:
  assumes "do_post env (with_tokens t call) w = (Inr y, w1)" "cy_status y = 401" "ct_refresh t \<noteq> []"
    "am_tokens (cw_manager w1) = Some t" "ae_ctx (cx_auth env) (aw_rest (cw_world w1)) = None"
    "\<not> is_stale (cx_auth env) (ae_now (cx_auth env) (aw_rest (cw_world w1))) t"
  shows "post_with_retry env t call w =
    (case do_post env (with_tokens t call) w1 of
       (Inl e, w2) \<Rightarrow> (Inl e, w2)
     | (Inr y2, w2) \<Rightarrow>
         (if cy_status y2 = 401 then Inl (new_error ''codex: http 401 after refresh (re-run `codex login`)'') else Inr y2, w2))"
  using assms ensure_fresh_idle [OF assms(5,4,6)]
  by (simp add: post_with_retry_def codex_fresh_def Let_def split: prod.splits sum.splits)

end
