(* ===== verification/Shell_Exec.thy ===== *)
theory Shell_Exec
  imports Output_Capture Fs_Paths Go_Time
begin

text \<open>
  The shell tool, \<open>src/tools/shell/shell.go\<close>: the checks of a command, the command handed to the executor
  (\<open>Output_Capture\<close>), and the text and metadata of its result. The executor is an argument; it also gives
  the names of the spool files, of which \<open>Output_Capture\<close> knows only the contents.
\<close>

record exec_options =
  xo_work_dir :: string
  xo_env :: "string list"
  xo_allowed :: "string list"
  xo_timeout :: int
  xo_max_output :: int
  xo_spool_dir :: string

record exec_args =
  xa_argv :: "string list"
  xa_dir :: string
  xa_stdin :: string
  xa_max_output :: int

definition has_path_separator :: "string \<Rightarrow> bool" where
  "has_path_separator s \<longleftrightarrow> slash \<in> set s \<or> bslash \<in> set s"

fun allowed_binaries :: "string list \<Rightarrow> go_error + string list" where
  "allowed_binaries [] = Inr []"
| "allowed_binaries (raw # rest) =
     (let bin = trim_space raw in
      if bin = [] then allowed_binaries rest
      else if has_path_separator bin then Inl (new_error (''shell: allowed binary '' @ quote raw @ '' must be a basename''))
      else case allowed_binaries rest of Inl e \<Rightarrow> Inl e | Inr bs \<Rightarrow> Inr (bin # bs))"

text \<open>What \<open>Exec\<close> keeps of its options: the tool it builds closes over it.\<close>

record shell_tool =
  st_dir :: string
  st_env :: "string list"
  st_allowed :: "string list"
  st_timeout :: int
  st_max :: int
  st_spool_dir :: string

definition shell_exec :: "(string \<Rightarrow> go_error + string) \<Rightarrow> exec_options \<Rightarrow> go_error + shell_tool" where
  "shell_exec absolute opts =
     (let dir = trim_space (xo_work_dir opts) in
      if dir = [] then Inl (new_error ''shell: WorkDir is required'')
      else case absolute dir of
        Inl e \<Rightarrow> Inl (wrap_error ''shell: resolve WorkDir: '' e [])
      | Inr a \<Rightarrow>
          (if xo_timeout opts < 0 then Inl (new_error ''shell: Timeout must be non-negative'')
           else if xo_max_output opts < 0 then Inl (new_error ''shell: MaxOutputBytes must be non-negative'')
           else case allowed_binaries (xo_allowed opts) of
             Inl e \<Rightarrow> Inl e
           | Inr bs \<Rightarrow> Inr \<lparr>st_dir = a, st_env = xo_env opts, st_allowed = bs,
               st_timeout = (if xo_timeout opts = 0 then 30 * ns_per_second else xo_timeout opts),
               st_max = (if xo_max_output opts = 0 then default_exec_max_output else xo_max_output opts),
               st_spool_dir = xo_spool_dir opts\<rparr>))"

text \<open>The command and, when there is one, the text of its standard input.\<close>

definition build_command :: "(string \<Rightarrow> go_error + string) \<Rightarrow> shell_tool \<Rightarrow> exec_args
    \<Rightarrow> go_error + (exec_command \<times> string option)" where
  "build_command absolute t args =
     (case xa_argv args of
        [] \<Rightarrow> Inl (new_error ''shell: argv is required'')
      | arg0 # rest \<Rightarrow>
          (let bin = trim_space arg0 in
           if bin = [] then Inl (new_error ''shell: argv[0] is required'')
           else if has_path_separator bin then
             Inl (new_error (''shell: argv[0] '' @ quote arg0 @ '' must be a binary basename, not a path''))
           else if bin \<notin> set (st_allowed t) then Inl (new_error (''shell: binary '' @ quote bin @ '' is not allowed''))
           else case (if trim_space (xa_dir args) \<noteq> [] then safe_join absolute (st_dir t) (xa_dir args) else Inr (st_dir t)) of
             Inl e \<Rightarrow> Inl e
           | Inr dir \<Rightarrow>
               (if xa_max_output args < 0 then Inl (new_error ''shell: max_output_bytes must be non-negative'')
                else Inr
                  (\<lparr>ex_argv = bin # rest, ex_dir = dir, ex_env = st_env t, ex_timeout = st_timeout t,
                    ex_max_output = (if 0 < xa_max_output args \<and> xa_max_output args < st_max t then xa_max_output args
                       else st_max t),
                    ex_spool = (st_spool_dir t \<noteq> [])\<rparr>,
                   if xa_stdin args = [] then None else Some (xa_stdin args)))))"

definition shell_permission_target :: "(bytes \<Rightarrow> exec_args option) \<Rightarrow> tool_call \<Rightarrow> string" where
  "shell_permission_target decode c =
     (case decode (tc_args c) of
        None \<Rightarrow> ''shell_exec''
      | Some args \<Rightarrow> if xa_argv args = [] then ''shell_exec'' else join '' '' (xa_argv args))"

definition write_stream :: "string \<Rightarrow> bytes \<Rightarrow> bytes \<Rightarrow> nat \<Rightarrow> nat \<Rightarrow> string \<Rightarrow> string" where
  "write_stream name head tail omitted lines spool =
     (if head = [] \<and> tail = [] then name @ '': (empty)'' @ [nl]
      else if omitted = 0 then name @ '':'' @ [nl] @ head @ [nl]
      else
        (let gone = lines - (count_char nl head + count_char nl tail) in
         name @ '' ('' @ itoa lines @ '' lines total):'' @ [nl] @ head @ [nl]
         @ ''[... '' @ itoa omitted @ '' bytes (~'' @ itoa gone @ '' lines) omitted''
         @ (if spool \<noteq> [] then ''; full output: '' @ spool else []) @ '']'' @ [nl] @ tail @ [nl]))"

definition bool_text :: "bool \<Rightarrow> string" where
  "bool_text b = (if b then ''true'' else ''false'')"

definition render_result :: "exec_command \<Rightarrow> exec_result \<Rightarrow> string \<Rightarrow> string \<Rightarrow> string" where
  "render_result cmd r out_spool err_spool =
     ''exit_code: '' @ itoa_int (er_exit r) @ [nl] @ ''timed_out: '' @ bool_text (er_timed_out r) @ [nl]
     @ ''truncated: '' @ bool_text (er_truncated r) @ [nl]
     @ (if er_timed_out r then ''command timed out after '' @ duration_string (ex_timeout cmd) @ ''; partial output below'' @ [nl] else [])
     @ [nl] @ write_stream ''stdout'' (er_stdout r) (er_stdout_tail r) (er_stdout_omitted r) (er_stdout_lines r) out_spool
     @ [nl] @ write_stream ''stderr'' (er_stderr r) (er_stderr_tail r) (er_stderr_omitted r) (er_stderr_lines r) err_spool"

definition format_result :: "exec_command \<Rightarrow> exec_result \<Rightarrow> string \<Rightarrow> string \<Rightarrow> tool_result" where
  "format_result cmd r out_spool err_spool =
     \<lparr>res_content = [text_part (render_result cmd r out_spool err_spool)],
      res_is_error = (er_exit r \<noteq> 0 \<or> er_timed_out r),
      res_meta = [(''argv'', MStrings (ex_argv cmd)), (''dir'', MStr (ex_dir cmd)), (''exit_code'', MInt (er_exit r)),
        (''timed_out'', MBool (er_timed_out r)), (''truncated'', MBool (er_truncated r)),
        (''stdout_bytes'', MInt (int (length (er_stdout r) + length (er_stdout_tail r) + er_stdout_omitted r))),
        (''stderr_bytes'', MInt (int (length (er_stderr r) + length (er_stderr_tail r) + er_stderr_omitted r)))]\<rparr>"

text \<open>The tool's function. The executor gets the command and the input and names the spool files.\<close>

definition run_shell :: "(string \<Rightarrow> go_error + string)
    \<Rightarrow> (exec_command \<Rightarrow> string option \<Rightarrow> 'w \<Rightarrow> (exec_result \<times> string \<times> string \<times> go_error option) \<times> 'w)
    \<Rightarrow> shell_tool \<Rightarrow> exec_args \<Rightarrow> 'w \<Rightarrow> tool_result \<times> 'w" where
  "run_shell absolute exec t args w =
     (case build_command absolute t args of
        Inl e \<Rightarrow> (failed_result e, w)
      | Inr (cmd, stdin) \<Rightarrow>
          (case exec cmd stdin w of
             ((r, out_spool, err_spool, Some e), w1) \<Rightarrow> (failed_result e, w1)
           | ((r, out_spool, err_spool, None), w1) \<Rightarrow> (format_result cmd r out_spool err_spool, w1)))"

section \<open>Properties\<close>

lemma allowed_binaries_plain:
  "allowed_binaries raws = Inr bs \<Longrightarrow> b \<in> set bs \<Longrightarrow> b \<noteq> [] \<and> \<not> has_path_separator b \<and> b \<in> trim_space ` set raws"
  by (induction raws arbitrary: bs) (auto simp: Let_def split: if_splits sum.splits)

text \<open>A command that is handed on runs a bare name of the allowlist with the arguments as given, in a directory that
  is the work directory or below it, with the host's environment and timeout and at most the host's output
  limit.\<close>

theorem built_command_is_bounded:
  assumes "shell_exec absolute opts = Inr t" "build_command absolute t args = Inr (cmd, stdin)"
    "absolute (st_dir t) = Inr (st_dir t)" "is_abs (st_dir t)" "clean_path (st_dir t) = st_dir t"
  shows "hd (ex_argv cmd) \<in> trim_space ` set (xo_allowed opts) \<and> \<not> has_path_separator (hd (ex_argv cmd)) \<and> hd (ex_argv cmd) \<noteq> []
    \<and> tl (ex_argv cmd) = tl (xa_argv args) \<and> (\<exists>cs. elements (ex_dir cmd) = elements (st_dir t) @ cs \<and> ''..'' \<notin> set cs)
    \<and> ex_env cmd = xo_env opts \<and> 0 < ex_timeout cmd \<and> 0 < ex_max_output cmd \<and> ex_max_output cmd \<le> st_max t"
proof -
  have t: "allowed_binaries (xo_allowed opts) = Inr (st_allowed t)" "st_env t = xo_env opts" "0 < st_timeout t" "0 < st_max t"
    using assms(1) by (auto simp: shell_exec_def Let_def default_exec_max_output_def ns_per_second_def split: if_splits sum.splits)
  obtain arg0 rest dir where b: "xa_argv args = arg0 # rest" "trim_space arg0 \<in> set (st_allowed t)"
    "(if trim_space (xa_dir args) \<noteq> [] then safe_join absolute (st_dir t) (xa_dir args) else Inr (st_dir t)) = Inr dir"
    "0 \<le> xa_max_output args"
    "cmd = \<lparr>ex_argv = trim_space arg0 # rest, ex_dir = dir, ex_env = st_env t, ex_timeout = st_timeout t,
       ex_max_output = (if 0 < xa_max_output args \<and> xa_max_output args < st_max t then xa_max_output args else st_max t),
       ex_spool = (st_spool_dir t \<noteq> [])\<rparr>"
    using assms(2) by (auto simp: build_command_def Let_def split: list.splits if_splits sum.splits)
  have "\<exists>cs. elements dir = elements (st_dir t) @ cs \<and> ''..'' \<notin> set cs"
  proof (cases "trim_space (xa_dir args) = []")
    case False
    then have "safe_join absolute (st_dir t) (xa_dir args) = Inr dir" using b(3) by simp
    from safe_join_below [OF this assms(3-5)] show ?thesis by blast
  qed (use b(3) in simp)
  then show ?thesis using t b allowed_binaries_plain [OF t(1) b(2)] by simp
qed

text \<open>The byte counts of the metadata are those of the whole streams, however much of them is kept.\<close>

theorem reported_bytes_are_all:
  "let r = result_of_trace limit spool tr; res = format_result cmd r a b in
     map_of (res_meta res) ''stdout_bytes'' = Some (MInt (int (length (concat (tr_stdout tr)))))
   \<and> map_of (res_meta res) ''stderr_bytes'' = Some (MInt (int (length (concat (tr_stderr tr)))))"
  by (auto simp: Let_def format_result_def result_of_trace_def captured_capture capture_of_def head_of_def tail_of_def)

text \<open>An argument with a blank and two arguments have the same permission target.\<close>

theorem permission_target_is_ambiguous:
  assumes "decode (tc_args c) = Some args" "decode (tc_args d) = Some args2"
    "xa_argv args = [b, x @ '' '' @ y]" "xa_argv args2 = [b, x, y]"
  shows "shell_permission_target decode c = shell_permission_target decode d"
  using assms by (simp add: shell_permission_target_def)

end
