(* ===== verification/Mcp_Client.thy ===== *)
theory Mcp_Client
  imports Go_Error "HOL-Library.AList"
begin

text \<open>
  The client of the Model Context Protocol: requests and responses of \<open>src/tools/mcp/client.go\<close>, the responses
  of the stdio transport (\<open>stdio.go\<close>) and of the HTTP transport (\<open>http.go\<close>). Starting, writing to and closing a
  transport are operations of an environment on a world; a transport is known by its handle. A request holds
  the client's mutex to its end, so it is one step. What a JSON decoder makes of a text is an argument.
\<close>

section \<open>Messages\<close>

datatype rpc_params =
    NoParams
  | InitParams
  | CursorParams string
  | CallParams string bytes
  | ReadParams string
  | PromptParams string "(string \<times> string) list"

record rpc_request =
  rpc_id :: int
  rpc_method :: string
  rpc_params :: rpc_params

record rpc_error =
  re_code :: int
  re_message :: string
  re_data :: bytes

record rpc_response =
  rp_jsonrpc :: string
  rp_id :: bytes
  rp_result :: bytes
  rp_error :: "rpc_error option"

text \<open>\<open>errors.As\<close> tells an error of the server from all others.\<close>

datatype mcp_error = ServerError rpc_error | OtherError go_error

definition rpc_error_text :: "rpc_error \<Rightarrow> string" where
  "rpc_error_text e =
     ''mcp: rpc error '' @ itoa_int (re_code e) @ '': '' @ re_message e
     @ (if re_data e \<noteq> [] then '': '' @ trim_space (re_data e) else [])"

definition mcp_failure :: "mcp_error \<Rightarrow> go_error" where
  "mcp_failure e = (case e of ServerError x \<Rightarrow> new_error (rpc_error_text x) | OtherError x \<Rightarrow> x)"

definition other_error :: "string \<Rightarrow> mcp_error" where
  "other_error s = OtherError (new_error s)"

definition validate_response :: "rpc_response \<Rightarrow> int \<Rightarrow> mcp_error option" where
  "validate_response r want =
     (if rp_id r = [] then Some (other_error ''mcp: response missing id'')
      else if rp_jsonrpc r \<noteq> ''2.0'' then Some (other_error (''mcp: response jsonrpc = '' @ quote (rp_jsonrpc r) @ '', want 2.0''))
      else if trim_space (rp_id r) \<noteq> itoa_int want then
        Some (other_error (''mcp: response id '' @ trim_space (rp_id r) @ '', want '' @ itoa_int want))
      else map_option ServerError (rp_error r))"

section \<open>Transports\<close>

text \<open>The messages a stdio server writes, as the decoder gives them, up to its error: the first with an id is the
  response.\<close>

fun stdio_response :: "rpc_response list \<Rightarrow> go_error \<Rightarrow> mcp_error + rpc_response" where
  "stdio_response [] e = Inl (OtherError (wrap_error ''mcp: read stdio message: '' e []))"
| "stdio_response (r # rs) e = (if rp_id r = [] then stdio_response rs e else Inr r)"

record mcp_http_reply =
  mh_status :: int
  mh_status_text :: string
  mh_body :: string \<comment> \<open>the first 4096 bytes\<close>
  mh_content_type :: string
  mh_media :: "go_error + string" \<comment> \<open>\<open>mime.ParseMediaType\<close> of it\<close>
  mh_length :: int
  mh_json :: "go_error + rpc_response" \<comment> \<open>the body decoded\<close>
  mh_eof :: bool \<comment> \<open>decoding failed at the end of an empty body\<close>
  mh_lines :: "string list"
  mh_end :: "go_error option"

text \<open>The data of a frame, when it is not blank, is decoded.\<close>

definition flush_data :: "(string \<Rightarrow> go_error + rpc_response) \<Rightarrow> string list \<Rightarrow> (mcp_error + rpc_response) option" where
  "flush_data decode data =
     (let payload = join [nl] data in
      if data = [] \<or> trim_space payload = [] then None
      else Some (case decode payload of
          Inl e \<Rightarrow> Inl (OtherError (wrap_error ''mcp: decode http sse response: '' e []))
        | Inr r \<Rightarrow> Inr r))"

fun sse_response :: "(string \<Rightarrow> go_error + rpc_response) \<Rightarrow> string list \<Rightarrow> string list \<Rightarrow> go_error option
    \<Rightarrow> mcp_error + rpc_response" where
  "sse_response decode data [] fin =
     (case fin of
        Some e \<Rightarrow> Inl (OtherError (wrap_error ''mcp: read http sse response: '' e []))
      | None \<Rightarrow>
          (case flush_data decode data of
             Some x \<Rightarrow> x
           | None \<Rightarrow> Inl (other_error ''mcp: http sse response contained no data'')))"
| "sse_response decode data (raw # ls) fin =
     (let l = trim_suffix raw [cr] in
      if l = [] then (case flush_data decode data of Some x \<Rightarrow> x | None \<Rightarrow> sse_response decode [] ls fin)
      else if has_prefix l '':'' then sse_response decode data ls fin
      else if has_prefix l ''data:'' then sse_response decode (data @ [trim_prefix (trim_prefix l ''data:'') '' '']) ls fin
      else sse_response decode data ls fin)"

definition empty_response :: rpc_response where
  "empty_response = \<lparr>rp_jsonrpc = [], rp_id = [], rp_result = [], rp_error = None\<rparr>"

definition http_response :: "(string \<Rightarrow> go_error + rpc_response) \<Rightarrow> bool \<Rightarrow> mcp_http_reply \<Rightarrow> mcp_error + rpc_response" where
  "http_response decode expected y =
     (if mh_status y < 200 \<or> 300 \<le> mh_status y then
        Inl (other_error (''mcp: http status '' @ mh_status_text y
          @ (if trim_space (mh_body y) \<noteq> [] then '': '' @ trim_space (mh_body y) else [])))
      else if mh_status y = 202 \<and> \<not> expected then Inr empty_response
      else if trim_space (mh_content_type y) = [] then Inl (other_error ''mcp: http response missing content type'')
      else case mh_media y of
        Inl e \<Rightarrow> Inl (OtherError (wrap_error ''mcp: parse http content type: '' e []))
      | Inr media \<Rightarrow>
          (if media = ''application/json'' then
             (if \<not> expected \<and> mh_length y = 0 then Inr empty_response
              else case mh_json y of
                Inl e \<Rightarrow>
                  (if \<not> expected \<and> mh_eof y then Inr empty_response
                   else Inl (OtherError (wrap_error ''mcp: decode http json response: '' e [])))
              | Inr r \<Rightarrow> Inr r)
           else if media = ''text/event-stream'' then sse_response decode [] (mh_lines y) (mh_end y)
           else Inl (other_error (''mcp: unsupported http content type '' @ quote media))))"

definition http_notify :: "(string \<Rightarrow> go_error + rpc_response) \<Rightarrow> mcp_http_reply \<Rightarrow> mcp_error option" where
  "http_notify decode y =
     (case http_response decode False y of
        Inl e \<Rightarrow> Some e
      | Inr r \<Rightarrow> map_option ServerError (rp_error r))"

section \<open>The client\<close>

record server_config =
  sv_name :: string
  sv_transport :: string
  sv_timeout :: int

record init_result =
  in_version :: string
  in_capabilities :: "string list" \<comment> \<open>the names\<close>
  in_server :: string
  in_instructions :: string

record 'w mcp_env =
  mp_start :: "bool \<Rightarrow> server_config \<Rightarrow> 'w \<Rightarrow> (go_error + nat) \<times> 'w" \<comment> \<open>over stdio, or over HTTP\<close>
  mp_request :: "nat \<Rightarrow> int \<Rightarrow> rpc_request \<Rightarrow> 'w \<Rightarrow> (mcp_error + rpc_response) \<times> 'w" \<comment> \<open>with its timeout\<close>
  mp_notify :: "nat \<Rightarrow> rpc_request \<Rightarrow> 'w \<Rightarrow> mcp_error option \<times> 'w"
  mp_close :: "nat \<Rightarrow> 'w \<Rightarrow> go_error option \<times> 'w"
  mp_init :: "bytes \<Rightarrow> go_error + init_result"

record mcp_client =
  mc_handle :: nat
  mc_next :: int
  mc_init :: init_result

definition default_mcp_timeout :: int where "default_mcp_timeout = 30 * 1000000000"
definition protocol_version :: string where "protocol_version = ''2025-11-25''"

definition zero_init :: init_result where
  "zero_init = \<lparr>in_version = [], in_capabilities = [], in_server = [], in_instructions = []\<rparr>"

text \<open>The result decoded, or the given default when there is none.\<close>

definition client_request :: "'w mcp_env \<Rightarrow> int \<Rightarrow> string \<Rightarrow> rpc_params \<Rightarrow> (bytes \<Rightarrow> go_error + 'r) \<Rightarrow> 'r
    \<Rightarrow> mcp_client \<Rightarrow> 'w \<Rightarrow> (mcp_error + 'r) \<times> mcp_client \<times> 'w" where
  "client_request env timeout method0 params decode zero c w =
     (let method = trim_space method0 in
      if method = [] then (Inl (other_error ''mcp: method is required''), c, w)
      else
        (let i = mc_next c + 1; c1 = c\<lparr>mc_next := i\<rparr>;
             (r, w1) = mp_request env (mc_handle c) timeout \<lparr>rpc_id = i, rpc_method = method, rpc_params = params\<rparr> w
         in (case r of
               Inl e \<Rightarrow> Inl e
             | Inr resp \<Rightarrow>
                 (case validate_response resp i of
                    Some e \<Rightarrow> Inl e
                  | None \<Rightarrow>
                      (if rp_result resp = [] then Inr zero
                       else case decode (rp_result resp) of
                         Inl e \<Rightarrow> Inl (OtherError (wrap_error (''mcp: decode '' @ method @ '' result: '') e []))
                       | Inr x \<Rightarrow> Inr x)), c1, w1)))"

definition initialize_client :: "'w mcp_env \<Rightarrow> int \<Rightarrow> mcp_client \<Rightarrow> 'w \<Rightarrow> mcp_error option \<times> mcp_client \<times> 'w" where
  "initialize_client env timeout c w =
     (case client_request env timeout ''initialize'' InitParams (mp_init env) zero_init c w of
        (Inl e, c1, w1) \<Rightarrow> (Some e, c1, w1)
      | (Inr x, c1, w1) \<Rightarrow>
          (if in_version x \<noteq> protocol_version then
             (Some (other_error (''mcp: incompatible protocol version '' @ quote (in_version x) @ '', want '' @ quote protocol_version)), c1, w1)
           else case mp_notify env (mc_handle c1) \<lparr>rpc_id = 0, rpc_method = ''notifications/initialized'', rpc_params = NoParams\<rparr> w1 of
             (Some e, w2) \<Rightarrow> (Some e, c1, w2)
           | (None, w2) \<Rightarrow> (None, c1\<lparr>mc_init := x\<rparr>, w2)))"

definition normalized_transport :: "string \<Rightarrow> string" where
  "normalized_transport t = (let s = to_lower (trim_space t) in if s = [] then ''stdio'' else s)"

definition new_client :: "'w mcp_env \<Rightarrow> server_config \<Rightarrow> 'w \<Rightarrow> (mcp_error + mcp_client) \<times> 'w" where
  "new_client env cfg0 w =
     (let cfg = (if sv_timeout cfg0 \<le> 0 then cfg0\<lparr>sv_timeout := default_mcp_timeout\<rparr> else cfg0);
          kind = normalized_transport (sv_transport cfg) in
      if kind \<noteq> ''stdio'' \<and> kind \<noteq> ''http'' then
        (Inl (other_error (''mcp: unsupported transport '' @ quote (sv_transport cfg))), w)
      else case mp_start env (kind = ''stdio'') cfg w of
        (Inl e, w1) \<Rightarrow> (Inl (OtherError e), w1)
      | (Inr h, w1) \<Rightarrow>
          (case initialize_client env (sv_timeout cfg) \<lparr>mc_handle = h, mc_next = 0, mc_init = zero_init\<rparr> w1 of
             (Some e, c, w2) \<Rightarrow> (Inl e, snd (mp_close env h w2))
           | (None, c, w2) \<Rightarrow> (Inr c, w2)))"

section \<open>What a client accepts\<close>

lemma validate_response_none:
  "validate_response r want = None \<longleftrightarrow> rp_id r \<noteq> [] \<and> rp_jsonrpc r = ''2.0'' \<and> trim_space (rp_id r) = itoa_int want \<and> rp_error r = None"
  by (simp add: validate_response_def)

text \<open>A request takes the next id, and a result is decoded from a response with this very id that reports no
  error. An error that counts as the server's is one the transport or a response with this id reported.\<close>

theorem results_answer_their_request:
  "case client_request env timeout method params decode zero c w of
      (Inr x, c', w') \<Rightarrow> mc_next c' = mc_next c + 1
        \<and> (\<exists>resp. mp_request env (mc_handle c) timeout \<lparr>rpc_id = mc_next c', rpc_method = trim_space method, rpc_params = params\<rparr> w
             = (Inr resp, w')
           \<and> trim_space (rp_id resp) = itoa_int (mc_next c') \<and> rp_jsonrpc resp = ''2.0'' \<and> rp_error resp = None
           \<and> (if rp_result resp = [] then x = zero else decode (rp_result resp) = Inr x))
    | (Inl e, c', w') \<Rightarrow> trim_space method = [] \<and> c' = c \<and> w' = w \<or> mc_next c' = mc_next c + 1"
  by (auto simp: client_request_def Let_def validate_response_none split: prod.splits sum.splits option.splits if_splits)

text \<open>A client that comes up has agreed on the protocol version, and one that does not has its transport closed.\<close>

lemma initialize_agreed:
  assumes "initialize_client env timeout c w = (None, c', w')"
  shows "in_version (mc_init c') = protocol_version"
proof -
  obtain r c1 w1 where r: "client_request env timeout ''initialize'' InitParams (mp_init env) zero_init c w = (r, c1, w1)"
    by (metis prod_cases3)
  then show ?thesis using assms by (cases r) (auto simp: initialize_client_def split: if_splits prod.splits option.splits)
qed

theorem new_client_agreed:
  assumes "new_client env cfg w = (r, w')"
  shows "case r of
      Inr c \<Rightarrow> in_version (mc_init c) = protocol_version
    | Inl e \<Rightarrow> (\<exists>h w2. w' = snd (mp_close env h w2)) \<or> w' = w \<or> (\<exists>k cfg1 x. mp_start env k cfg1 w = (Inl x, w'))"
proof -
  let ?cfg = "if sv_timeout cfg \<le> 0 then cfg\<lparr>sv_timeout := default_mcp_timeout\<rparr> else cfg"
  let ?kind = "normalized_transport (sv_transport ?cfg)"
  obtain s w1 where s: "mp_start env (?kind = ''stdio'') ?cfg w = (s, w1)" by fastforce
  show ?thesis
  proof (cases "?kind \<noteq> ''stdio'' \<and> ?kind \<noteq> ''http''")
    case True
    then show ?thesis using assms unfolding new_client_def Let_def if_P [OF True] by auto
  next
    case kind: False
    show ?thesis
    proof (cases s)
      case (Inl e)
      then show ?thesis using assms s unfolding new_client_def Let_def if_not_P [OF kind] by auto
    next
      case (Inr h)
      obtain x c w2 where i: "initialize_client env (sv_timeout ?cfg) \<lparr>mc_handle = h, mc_next = 0, mc_init = zero_init\<rparr> w1 = (x, c, w2)"
        by (metis prod_cases3)
      show ?thesis
      proof (cases x)
        case None
        then have "r = Inr c" using assms s Inr i unfolding new_client_def Let_def if_not_P [OF kind] by simp
        then show ?thesis using initialize_agreed i None by simp
      next
        case (Some e)
        then have "r = Inl e" "w' = snd (mp_close env h w2)"
          using assms s Inr i unfolding new_client_def Let_def if_not_P [OF kind] by simp_all
        then show ?thesis by auto
      qed
    qed
  qed
qed

text \<open>Over stdio a message without an id is passed over.\<close>

theorem stdio_skips_notifications:
  "list_all (\<lambda>n. rp_id n = []) ns \<Longrightarrow> rp_id r \<noteq> [] \<Longrightarrow> stdio_response (ns @ r # rs) e = Inr r"
  by (induction ns) simp_all

lemma trim_suffix_last: "s \<noteq> [] \<Longrightarrow> last s \<noteq> c \<Longrightarrow> trim_suffix s [c] = s"
  by (cases s rule: rev_cases) (auto simp: trim_suffix_def has_suffix_def)

text \<open>Over HTTP it is taken for the response, which then fails, although the response follows in the same reply.\<close>

theorem http_takes_notification_for_response:
  assumes "decode n = Inr note" "rp_id note = []" "n \<noteq> []" "trim_space n = n" "last n \<noteq> cr"
  shows "sse_response decode [] ((''data: '' @ n) # [] # rest) fin = Inr note
    \<and> validate_response note want = Some (other_error ''mcp: response missing id'')"
proof -
  have t: "trim_suffix (''data: '' @ n) [cr] = ''data: '' @ n"
    by (rule trim_suffix_last) (use assms(3,5) in simp_all)
  have c: "trim_suffix [] [cr] = []" by (simp add: trim_suffix_def has_suffix_def)
  have "flush_data decode [n] = Some (Inr note)" using assms by (simp add: flush_data_def)
  moreover have "sse_response decode [] ((''data: '' @ n) # [] # rest) fin = sse_response decode [n] ([] # rest) fin"
    unfolding sse_response.simps(2) [of decode "[]" "''data: '' @ n"] t Let_def
    by (simp add: has_prefix_def trim_prefix_def)
  ultimately show ?thesis using assms(2) by (simp add: c validate_response_def)
qed

end
