(* ===== verification/Mcp_Tools.thy ===== *)
theory Mcp_Tools
  imports Mcp_Client Tool_Calls
begin

text \<open>
  The manager of MCP servers, \<open>src/tools/mcp/tools.go\<close>: it starts the servers, maps their tools to tools of the
  agent under unique names, lists and reads resources and prompts page by page, and maps results. Decoders and
  \<open>json.Compact\<close> are arguments. The manager keeps each client in a list; a call updates the client's state there.
\<close>

section \<open>Names\<close>

text \<open>\<open>unicode.ToLower\<close> as far as it matters here: the ASCII letters, and the two other runes whose lower case is an
  ASCII letter.\<close>

definition rune_lower :: "nat \<Rightarrow> nat" where
  "rune_lower r = (if 65 \<le> r \<and> r \<le> 90 then r + 32 else if r = 304 then 105 else if r = 8490 then 107 else r)"

definition name_rune :: "nat \<Rightarrow> bool" where
  "name_rune r \<longleftrightarrow> 97 \<le> r \<and> r \<le> 122 \<or> 48 \<le> r \<and> r \<le> 57 \<or> r = 95"

fun name_bytes :: "bool \<Rightarrow> nat list \<Rightarrow> string" where
  "name_bytes was [] = []"
| "name_bytes was (r # rs) =
     (if name_rune (rune_lower r) then byte (rune_lower r) # name_bytes False rs
      else (if was then [] else ''_'') @ name_bytes True rs)"

definition sanitize_name_part :: "string \<Rightarrow> string" where
  "sanitize_name_part s = trim_right_set ''_'' (dropWhile (\<lambda>c. c = CHR ''_'') (name_bytes False (map fst (runes (trim_space s)))))"

section \<open>Definitions and results\<close>

record tool_definition =
  td_name :: string
  td_title :: string
  td_description :: string
  td_input :: bytes
  td_output :: bytes
  td_annotations :: metadata

record resource_content =
  rs_uri :: string
  rs_mime :: string
  rs_text :: "string option"
  rs_blob :: "string option"
  rs_meta :: metadata

record mcp_resource =
  mr_server :: string
  mr_uri :: string
  mr_name :: string
  mr_title :: string
  mr_description :: string
  mr_mime :: string
  mr_annotations :: metadata
  mr_size :: "int option"

record prompt_argument =
  pg_name :: string
  pg_title :: string
  pg_description :: string
  pg_required :: bool

record mcp_prompt =
  mq_server :: string
  mq_name :: string
  mq_title :: string
  mq_description :: string
  mq_arguments :: "prompt_argument list"

record prompt_message =
  pe_role :: string
  pe_content :: bytes

record call_result =
  cr_content :: "bytes list"
  cr_structured :: bytes
  cr_error :: bool

text \<open>The JSON coding. \<open>js_value\<close> decodes any value, \<open>js_object\<close> an object (\<open>Inr False\<close> for \<open>null\<close>), \<open>js_part\<close> the type and
  text of a content part, \<open>js_blob\<close> encodes the line of a blob.\<close>

record mcp_json =
  js_compact :: "bytes \<Rightarrow> bytes option"
  js_value :: "bytes \<Rightarrow> meta_value option"
  js_object :: "bytes \<Rightarrow> go_error + bool"
  js_part :: "bytes \<Rightarrow> (string \<times> string) option"
  js_uri :: "bytes \<Rightarrow> string option"
  js_blob :: "resource_content \<Rightarrow> string option"
  js_map :: "metadata \<Rightarrow> meta_value"
  js_meta :: "resource_content list \<Rightarrow> meta_value"
  js_tools :: "bytes \<Rightarrow> go_error + tool_definition list"
  js_resources :: "bytes \<Rightarrow> go_error + (mcp_resource list \<times> string)"
  js_contents :: "bytes \<Rightarrow> go_error + resource_content list"
  js_prompts :: "bytes \<Rightarrow> go_error + (mcp_prompt list \<times> string)"
  js_messages :: "bytes \<Rightarrow> go_error + (string \<times> prompt_message list)"
  js_call :: "bytes \<Rightarrow> go_error + call_result"

definition compact_raw :: "mcp_json \<Rightarrow> bytes \<Rightarrow> bytes" where
  "compact_raw j raw = (if trim_space raw = [] then [] else case js_compact j raw of Some x \<Rightarrow> x | None \<Rightarrow> raw)"

definition empty_schema :: bytes where
  "empty_schema = [CHR ''{'', dquote] @ ''type'' @ [dquote, CHR '':'', dquote] @ ''object'' @ [dquote, CHR '','', dquote]
     @ ''additionalProperties'' @ [dquote] @ '':false}''"

definition normalize_schema :: "mcp_json \<Rightarrow> bytes \<Rightarrow> string \<Rightarrow> string \<Rightarrow> mcp_error + bytes" where
  "normalize_schema j raw field name =
     (if trim_space raw = [] then Inr empty_schema
      else case js_object j (compact_raw j raw) of
        Inl e \<Rightarrow> Inl (OtherError (wrap_error (''mcp: tool '' @ quote name @ '' '' @ field @ '' is malformed: '') e []))
      | Inr is_object \<Rightarrow>
          (if is_object then Inr (compact_raw j raw)
           else Inl (other_error (''mcp: tool '' @ quote name @ '' '' @ field @ '' must be a JSON object''))))"

definition tool_description :: "string \<Rightarrow> tool_definition \<Rightarrow> string" where
  "tool_description server d =
     (let title = trim_space (td_title d); desc = trim_space (td_description d) in
      if title \<noteq> [] \<and> desc \<noteq> [] then ''MCP '' @ server @ ''/'' @ title @ '': '' @ desc
      else if desc \<noteq> [] then ''MCP '' @ server @ '': '' @ desc
      else if title \<noteq> [] then ''MCP '' @ server @ '': '' @ title
      else ''MCP tool '' @ server @ ''/'' @ td_name d)"

definition has_capability :: "init_result \<Rightarrow> string \<Rightarrow> bool" where
  "has_capability i name \<longleftrightarrow> name \<in> set (in_capabilities i)"

definition should_list_tools :: "init_result \<Rightarrow> bool" where
  "should_list_tools i \<longleftrightarrow> has_capability i ''tools'' \<or> in_capabilities i = []"

text \<open>What stands behind a tool of the manager. The client is given by its place in the list of servers.\<close>

datatype mcp_target =
    RemoteTool nat string string string int bytes metadata \<comment> \<open>server's place and name, tool's names, timeout, output schema, annotations\<close>
  | ResourceTool nat string string int

record mcp_tool =
  mt_spec :: tool_spec
  mt_target :: mcp_target

definition timeout_for :: "server_config \<Rightarrow> int" where
  "timeout_for cfg = (if 0 < sv_timeout cfg then sv_timeout cfg else default_mcp_timeout)"

definition map_tool :: "mcp_json \<Rightarrow> nat \<Rightarrow> server_config \<Rightarrow> string \<Rightarrow> string \<Rightarrow> tool_definition \<Rightarrow> string list
    \<Rightarrow> mcp_error + (mcp_tool \<times> string list)" where
  "map_tool j k cfg server part d seen =
     (let original = trim_space (td_name d); tool_part = sanitize_name_part original;
          glue_name = ''mcp_'' @ part @ ''_'' @ tool_part in
      if original = [] then Inl (other_error ''mcp: tool name is required'')
      else if tool_part = [] then
        Inl (other_error (''mcp: tool name '' @ quote original @ '' has no valid tool-name characters''))
      else if glue_name \<in> set seen then Inl (other_error (''mcp: tool name collision for '' @ quote glue_name))
      else case normalize_schema j (td_input d) ''inputSchema'' original of
        Inl e \<Rightarrow> Inl e
      | Inr schema \<Rightarrow>
          (case (if td_output d \<noteq> [] then normalize_schema j (td_output d) ''outputSchema'' original else Inr []) of
             Inl e \<Rightarrow> Inl e
           | Inr _ \<Rightarrow>
               Inr (\<lparr>mt_spec = \<lparr>ts_name = glue_name, ts_description = tool_description server d, ts_parameters = schema,
                       ts_requires_permission = True, ts_permission_action = ''mcp_call'',
                       ts_permission_target = Some (\<lambda>c. server @ ''.'' @ original), ts_prompt_snippet = [], ts_prompt_guidelines = []\<rparr>,
                     mt_target = RemoteTool k server glue_name original (timeout_for cfg) (compact_raw j (td_output d)) (td_annotations d)\<rparr>,
                    glue_name # seen)))"

fun map_tools :: "mcp_json \<Rightarrow> nat \<Rightarrow> server_config \<Rightarrow> string \<Rightarrow> string \<Rightarrow> tool_definition list \<Rightarrow> string list
    \<Rightarrow> mcp_error + (mcp_tool list \<times> string list)" where
  "map_tools j k cfg server part [] seen = Inr ([], seen)"
| "map_tools j k cfg server part (d # ds) seen =
     (case map_tool j k cfg server part d seen of
        Inl e \<Rightarrow> Inl e
      | Inr (t, seen1) \<Rightarrow>
          (case map_tools j k cfg server part ds seen1 of Inl e \<Rightarrow> Inl e | Inr (ts, seen2) \<Rightarrow> Inr (t # ts, seen2)))"

text \<open>The search for a free name ends: among more candidates than names in use one is free.\<close>

fun free_name :: "nat \<Rightarrow> string \<Rightarrow> string list \<Rightarrow> nat \<Rightarrow> string" where
  "free_name 0 base seen i = base @ ''_'' @ itoa i"
| "free_name (Suc n) base seen i =
     (let c = base @ ''_'' @ itoa i in if c \<notin> set seen then c else free_name n base seen (Suc i))"

definition reserve_name :: "string \<Rightarrow> string list \<Rightarrow> string \<times> string list" where
  "reserve_name base seen =
     (let name = (if base \<notin> set seen then base else free_name (length seen) base seen 2) in (name, name # seen))"

definition resource_uri :: "mcp_json \<Rightarrow> bytes \<Rightarrow> string" where
  "resource_uri j raw = (case js_uri j raw of None \<Rightarrow> [] | Some u \<Rightarrow> trim_space u)"

definition read_schema :: bytes where
  "read_schema =
     (let q = (\<lambda>s. dquote # s @ [dquote]) in
      ''{'' @ q ''type'' @ '':'' @ q ''object'' @ '','' @ q ''properties'' @ '':{'' @ q ''uri'' @ '':{'' @ q ''type'' @ '':'' @ q ''string''
      @ '','' @ q ''description'' @ '':'' @ q ''MCP resource URI to read from this server.'' @ ''}},'' @ q ''required'' @ '':['' @ q ''uri''
      @ ''],'' @ q ''additionalProperties'' @ '':false}'')"

definition map_resource_tool :: "mcp_json \<Rightarrow> nat \<Rightarrow> server_config \<Rightarrow> string \<Rightarrow> string \<Rightarrow> string list \<Rightarrow> mcp_tool \<times> string list" where
  "map_resource_tool j k cfg server part seen =
     (let (name, seen1) = reserve_name (''mcp_'' @ part @ ''_read_resource'') seen in
      (\<lparr>mt_spec = \<lparr>ts_name = name, ts_description = ''Read MCP resource contents from server '' @ server @ '' by URI.'',
          ts_parameters = read_schema, ts_requires_permission = True, ts_permission_action = ''mcp_read_resource'',
          ts_permission_target = Some (\<lambda>c. let uri = resource_uri j (tc_args c) in if uri = [] then server else server @ '':'' @ uri),
          ts_prompt_snippet = [], ts_prompt_guidelines = []\<rparr>,
        mt_target = ResourceTool k server name (timeout_for cfg)\<rparr>, seen1))"

section \<open>The manager\<close>

record managed_server =
  ms_name :: string
  ms_config :: server_config
  ms_client :: mcp_client

record mcp_manager =
  mm_servers :: "managed_server list"
  mm_tools :: "mcp_tool list"

fun close_servers :: "'w mcp_env \<Rightarrow> managed_server list \<Rightarrow> 'w \<Rightarrow> go_error list \<times> 'w" where
  "close_servers env [] w = ([], w)"
| "close_servers env (s # ss) w =
     (let (e, w1) = mp_close env (mc_handle (ms_client s)) w; (es, w2) = close_servers env ss w1
      in ((case e of None \<Rightarrow> es | Some x \<Rightarrow> x # es), w2))"

definition list_glue_tools :: "'w mcp_env \<Rightarrow> mcp_json \<Rightarrow> nat \<Rightarrow> server_config \<Rightarrow> string \<Rightarrow> string \<Rightarrow> mcp_client \<Rightarrow> string list \<Rightarrow> 'w
    \<Rightarrow> (mcp_error + (mcp_tool list \<times> string list)) \<times> mcp_client \<times> 'w" where
  "list_glue_tools env j k cfg server part c seen w =
     (case client_request env (timeout_for cfg) ''tools/list'' NoParams (js_tools j) [] c w of
        (Inl e, c1, w1) \<Rightarrow> (Inl e, c1, w1)
      | (Inr ds, c1, w1) \<Rightarrow> (map_tools j k cfg server part ds seen, c1, w1))"

text \<open>The tools of one started server.\<close>

definition server_tools :: "'w mcp_env \<Rightarrow> mcp_json \<Rightarrow> nat \<Rightarrow> server_config \<Rightarrow> string \<Rightarrow> string \<Rightarrow> mcp_client \<Rightarrow> string list \<Rightarrow> 'w
    \<Rightarrow> (mcp_error + (mcp_tool list \<times> string list)) \<times> mcp_client \<times> 'w" where
  "server_tools env j k cfg server part c seen w =
     (let (listed, c1, w1) =
            (if should_list_tools (mc_init c) then
               list_glue_tools env j k cfg server part c seen w
             else (Inr ([], seen), c, w))
      in (case listed of
            Inl e \<Rightarrow> Inl e
          | Inr (ts, seen1) \<Rightarrow>
              (if has_capability (mc_init c) ''resources'' then
                 (let (t, seen2) = map_resource_tool j k cfg server part seen1 in Inr (ts @ [t], seen2))
               else Inr (ts, seen1)), c1, w1))"

definition server_error :: "string \<Rightarrow> mcp_error \<Rightarrow> go_error" where
  "server_error server e = wrap_error (''mcp: server '' @ quote server @ '': '') (mcp_failure e) []"

fun start_servers :: "'w mcp_env \<Rightarrow> mcp_json \<Rightarrow> server_config list \<Rightarrow> mcp_manager \<Rightarrow> string list \<Rightarrow> 'w
    \<Rightarrow> (go_error + mcp_manager) \<times> 'w" where
  "start_servers env j [] m seen w = (Inr m, w)"
| "start_servers env j (cfg # cfgs) m seen w =
     (let server = trim_space (sv_name cfg); part = sanitize_name_part server in
      if server = [] then (Inl (new_error ''mcp: server name is required''), snd (close_servers env (mm_servers m) w))
      else if part = [] then
        (Inl (new_error (''mcp: server name '' @ quote (sv_name cfg) @ '' has no valid tool-name characters'')),
         snd (close_servers env (mm_servers m) w))
      else case new_client env cfg w of
        (Inl e, w1) \<Rightarrow> (Inl (server_error server e), snd (close_servers env (mm_servers m) w1))
      | (Inr c, w1) \<Rightarrow>
          (case server_tools env j (length (mm_servers m)) cfg server part c seen w1 of
             (Inl e, c1, w2) \<Rightarrow>
               (Inl (server_error server e),
                snd (close_servers env (mm_servers m @ [\<lparr>ms_name = server, ms_config = cfg, ms_client = c1\<rparr>]) w2))
           | (Inr (ts, seen1), c1, w2) \<Rightarrow>
               start_servers env j cfgs \<lparr>mm_servers = mm_servers m @ [\<lparr>ms_name = server, ms_config = cfg, ms_client = c1\<rparr>],
                   mm_tools = mm_tools m @ ts\<rparr> seen1 w2))"

definition new_manager :: "'w mcp_env \<Rightarrow> mcp_json \<Rightarrow> server_config list \<Rightarrow> 'w \<Rightarrow> (go_error + mcp_manager) \<times> 'w" where
  "new_manager env j cfgs w = start_servers env j cfgs \<lparr>mm_servers = [], mm_tools = []\<rparr> [] w"

section \<open>Calling tools\<close>

definition set_client :: "nat \<Rightarrow> mcp_client \<Rightarrow> mcp_manager \<Rightarrow> mcp_manager" where
  "set_client k c m = m\<lparr>mm_servers := (mm_servers m)[k := (mm_servers m ! k)\<lparr>ms_client := c\<rparr>]\<rparr>"

definition decode_raw :: "mcp_json \<Rightarrow> bytes \<Rightarrow> meta_value" where
  "decode_raw j raw = (case js_value j raw of Some v \<Rightarrow> v | None \<Rightarrow> MStr raw)"

definition fallback_content :: "mcp_json \<Rightarrow> bytes \<Rightarrow> bytes list \<Rightarrow> string" where
  "fallback_content j structured others =
     (if structured \<noteq> [] then compact_raw j structured
      else case others of
        [] \<Rightarrow> []
      | [x] \<Rightarrow> compact_raw j x
      | xs \<Rightarrow> ''['' @ join '','' (map (compact_raw j) xs) @ '']'')"

text \<open>The parts of a result: a text part, or what goes to the metadata (a part that does not decode as its text).\<close>

definition call_part_of :: "mcp_json \<Rightarrow> bytes \<Rightarrow> string + meta_value" where
  "call_part_of j raw =
     (case js_part j raw of
        None \<Rightarrow> Inr (MStr raw)
      | Some (t, text) \<Rightarrow> if t = ''text'' then Inl text else Inr (decode_raw j raw))"

definition map_call_result :: "mcp_json \<Rightarrow> string \<Rightarrow> string \<Rightarrow> string \<Rightarrow> bytes \<Rightarrow> metadata \<Rightarrow> call_result \<Rightarrow> tool_result" where
  "map_call_result j server glue_name original schema annotations r =
     (let parts = map (\<lambda>raw. (raw, call_part_of j raw)) (cr_content r);
          texts = List.map_filter (\<lambda>(raw, p). case p of Inl t \<Rightarrow> Some t | Inr v \<Rightarrow> None) parts;
          others = filter (\<lambda>(raw, p). case p of Inl t \<Rightarrow> False | Inr v \<Rightarrow> True) parts;
          fallback = fallback_content j (cr_structured r) (map fst others)
      in \<lparr>res_content = (if texts \<noteq> [] then map text_part texts else if fallback \<noteq> [] then [text_part fallback] else []),
          res_is_error = cr_error r,
          res_meta = [(''mcp_server'', MStr server), (''mcp_tool'', MStr original), (''mcp_glue_tool'', MStr glue_name)]
            @ (if schema \<noteq> [] then [(''mcp_output_schema'', decode_raw j schema)] else [])
            @ (if annotations \<noteq> [] then [(''mcp_annotations'', js_map j annotations)] else [])
            @ (if cr_structured r \<noteq> [] then [(''mcp_structured_content'', decode_raw j (cr_structured r))] else [])
            @ (if others \<noteq> [] then [(''mcp_non_text_content'', MList (map (\<lambda>(raw, p). projr p) others))] else [])\<rparr>)"

definition read_resource :: "'w mcp_env \<Rightarrow> mcp_json \<Rightarrow> int \<Rightarrow> string \<Rightarrow> mcp_client \<Rightarrow> 'w
    \<Rightarrow> (mcp_error + resource_content list) \<times> mcp_client \<times> 'w" where
  "read_resource env j timeout uri c w =
     (case client_request env timeout ''resources/read'' (ReadParams uri) (js_contents j) [] c w of
        (Inl e, c1, w1) \<Rightarrow> (Inl e, c1, w1)
      | (Inr defs, c1, w1) \<Rightarrow>
          (case find (\<lambda>d. trim_space (rs_uri d) = [] \<or> (rs_text d = None) = (rs_blob d = None)) defs of
             None \<Rightarrow> (Inr (map (\<lambda>d. d\<lparr>rs_uri := trim_space (rs_uri d), rs_mime := trim_space (rs_mime d)\<rparr>) defs), c1, w1)
           | Some d \<Rightarrow>
               (Inl (other_error
                  (if trim_space (rs_uri d) = [] then ''mcp: resource content uri is required''
                   else if rs_text d = None then ''mcp: resource content '' @ quote (trim_space (rs_uri d)) @ '' must include text or blob''
                   else ''mcp: resource content '' @ quote (trim_space (rs_uri d)) @ '' includes both text and blob'')), c1, w1)))"

definition map_read_result :: "mcp_json \<Rightarrow> string \<Rightarrow> string \<Rightarrow> string \<Rightarrow> resource_content list \<Rightarrow> tool_result" where
  "map_read_result j server glue_name uri contents =
     \<lparr>res_content = List.map_filter (\<lambda>d. case rs_text d of
          Some t \<Rightarrow> Some (text_part t)
        | None \<Rightarrow> (case rs_blob d of None \<Rightarrow> None | Some b \<Rightarrow> Some (text_part (case js_blob j d of Some l \<Rightarrow> l | None \<Rightarrow> [])))) contents,
      res_is_error = False,
      res_meta = [(''mcp_server'', MStr server), (''mcp_resource_uri'', MStr uri), (''mcp_glue_tool'', MStr glue_name),
        (''mcp_resource_read'', js_meta j contents)]\<rparr>"

text \<open>An error of the server is a result the model sees, any other error is an error of the call.\<close>

definition call_outcome :: "(tool_result \<Rightarrow> tool_result) \<Rightarrow> mcp_error + tool_result \<Rightarrow> go_error + tool_result" where
  "call_outcome f x =
     (case x of
        Inr r \<Rightarrow> Inr (f r)
      | Inl (ServerError e) \<Rightarrow> Inr \<lparr>res_content = [text_part (rpc_error_text e)], res_is_error = True, res_meta = []\<rparr>
      | Inl (OtherError e) \<Rightarrow> Inl e)"

definition execute_tool :: "'w mcp_env \<Rightarrow> mcp_json \<Rightarrow> mcp_tool \<Rightarrow> tool_call \<Rightarrow> mcp_manager \<Rightarrow> 'w
    \<Rightarrow> (go_error + tool_result) \<times> mcp_manager \<times> 'w" where
  "execute_tool env j t call m w =
     (case mt_target t of
        RemoteTool k server glue_name original timeout schema annotations \<Rightarrow>
          (let args = (if trim_space (tc_args call) \<noteq> [] then tc_args call else ''{}'');
               (r, c1, w1) = client_request env timeout ''tools/call'' (CallParams original args) (js_call j)
                  \<lparr>cr_content = [], cr_structured = [], cr_error = False\<rparr> (ms_client (mm_servers m ! k)) w
           in (call_outcome id (map_sum id (map_call_result j server glue_name original schema annotations) r), set_client k c1 m, w1))
      | ResourceTool k server glue_name timeout \<Rightarrow>
          (let uri = resource_uri j (tc_args call) in
           if uri = [] then
             (Inr \<lparr>res_content = [text_part ''mcp: resource uri is required''], res_is_error = True, res_meta = []\<rparr>, m, w)
           else
             (let (r, c1, w1) = read_resource env j timeout uri (ms_client (mm_servers m ! k)) w
              in (call_outcome id (map_sum id (map_read_result j server glue_name uri) r), set_client k c1 m, w1))))"

section \<open>Listing and reading\<close>

definition map_resource :: "string \<Rightarrow> mcp_resource \<Rightarrow> mcp_error + mcp_resource" where
  "map_resource server d =
     (let uri = trim_space (mr_uri d); name = trim_space (mr_name d) in
      if uri = [] then Inl (other_error ''mcp: resource uri is required'')
      else if name = [] then Inl (other_error (''mcp: resource '' @ quote uri @ '' name is required''))
      else Inr (d\<lparr>mr_server := server, mr_uri := uri, mr_name := name, mr_title := trim_space (mr_title d),
             mr_description := trim_space (mr_description d), mr_mime := trim_space (mr_mime d)\<rparr>))"

definition map_prompt :: "string \<Rightarrow> mcp_prompt \<Rightarrow> mcp_error + mcp_prompt" where
  "map_prompt server d =
     (let name = trim_space (mq_name d) in
      if name = [] then Inl (other_error ''mcp: prompt name is required'')
      else if list_ex (\<lambda>a. trim_space (pg_name a) = []) (mq_arguments d) then
        Inl (other_error (''mcp: prompt '' @ quote name @ '' argument name is required''))
      else Inr \<lparr>mq_server = server, mq_name = name, mq_title = trim_space (mq_title d),
             mq_description = trim_space (mq_description d),
             mq_arguments = map (\<lambda>a. a\<lparr>pg_name := trim_space (pg_name a), pg_title := trim_space (pg_title a),
               pg_description := trim_space (pg_description a)\<rparr>) (mq_arguments d)\<rparr>)"

fun map_all :: "('a \<Rightarrow> mcp_error + 'b) \<Rightarrow> 'a list \<Rightarrow> mcp_error + 'b list" where
  "map_all f [] = Inr []"
| "map_all f (x # xs) =
     (case f x of Inl e \<Rightarrow> Inl e | Inr y \<Rightarrow> (case map_all f xs of Inl e \<Rightarrow> Inl e | Inr ys \<Rightarrow> Inr (y # ys)))"

text \<open>The pages of a listing, up to the first without a cursor. A server may name cursors without end; then the
  context's timeout, which is part of the environment's requests, is what ends the loop.\<close>

partial_function (option) list_pages :: "'w mcp_env \<Rightarrow> int \<Rightarrow> string \<Rightarrow> (bytes \<Rightarrow> go_error + ('a list \<times> string))
    \<Rightarrow> ('a \<Rightarrow> mcp_error + 'b) \<Rightarrow> string \<Rightarrow> 'b list \<Rightarrow> mcp_client \<Rightarrow> 'w
    \<Rightarrow> ((mcp_error + 'b list) \<times> mcp_client \<times> 'w) option" where
  "list_pages env timeout method decode f cursor out c w =
     (case client_request env timeout method (if cursor \<noteq> [] then CursorParams cursor else NoParams) decode ([], []) c w of
        (Inl e, c1, w1) \<Rightarrow> Some (Inl e, c1, w1)
      | (Inr (items, following), c1, w1) \<Rightarrow>
          (case map_all f items of
             Inl e \<Rightarrow> Some (Inl e, c1, w1)
           | Inr ys \<Rightarrow>
               (if following = [] then Some (Inr (out @ ys), c1, w1)
                else list_pages env timeout method decode f following (out @ ys) c1 w1)))"

text \<open>\<open>Manager.Resources\<close> and \<open>Manager.Prompts\<close>: the servers with the capability, in their order.\<close>

fun list_servers :: "'w mcp_env \<Rightarrow> string \<Rightarrow> string \<Rightarrow> (bytes \<Rightarrow> go_error + ('a list \<times> string))
    \<Rightarrow> (string \<Rightarrow> 'a \<Rightarrow> mcp_error + 'b) \<Rightarrow> nat list \<Rightarrow> 'b list \<Rightarrow> mcp_manager \<Rightarrow> 'w
    \<Rightarrow> ((go_error + 'b list) \<times> mcp_manager \<times> 'w) option" where
  "list_servers env capability method decode f [] out m w = Some (Inr out, m, w)"
| "list_servers env capability method decode f (k # ks) out m w =
     (let s = mm_servers m ! k in
      if \<not> has_capability (mc_init (ms_client s)) capability then list_servers env capability method decode f ks out m w
      else case list_pages env (timeout_for (ms_config s)) method decode (f (ms_name s)) [] [] (ms_client s) w of
        None \<Rightarrow> None
      | Some (Inl e, c1, w1) \<Rightarrow> Some (Inl (server_error (ms_name s) e), set_client k c1 m, w1)
      | Some (Inr ys, c1, w1) \<Rightarrow> list_servers env capability method decode f ks (out @ ys) (set_client k c1 m) w1)"

definition manager_resources :: "'w mcp_env \<Rightarrow> mcp_json \<Rightarrow> mcp_manager \<Rightarrow> 'w
    \<Rightarrow> ((go_error + mcp_resource list) \<times> mcp_manager \<times> 'w) option" where
  "manager_resources env j m w =
     list_servers env ''resources'' ''resources/list'' (js_resources j) map_resource [0..<length (mm_servers m)] [] m w"

definition manager_prompts :: "'w mcp_env \<Rightarrow> mcp_json \<Rightarrow> mcp_manager \<Rightarrow> 'w
    \<Rightarrow> ((go_error + mcp_prompt list) \<times> mcp_manager \<times> 'w) option" where
  "manager_prompts env j m w =
     list_servers env ''prompts'' ''prompts/list'' (js_prompts j) map_prompt [0..<length (mm_servers m)] [] m w"

text \<open>The server a read or a rendering is for: the first of its name, if it has the capability.\<close>

definition find_server :: "string \<Rightarrow> string \<Rightarrow> mcp_manager \<Rightarrow> go_error + nat" where
  "find_server name capability m =
     (case find (\<lambda>k. ms_name (mm_servers m ! k) = name) [0..<length (mm_servers m)] of
        None \<Rightarrow> Inl (new_error (''mcp: server '' @ quote name @ '' is not configured''))
      | Some k \<Rightarrow>
          (if has_capability (mc_init (ms_client (mm_servers m ! k))) capability then Inr k
           else Inl (new_error (''mcp: server '' @ quote name @ '' does not support '' @ capability))))"

definition manager_read_resource :: "'w mcp_env \<Rightarrow> mcp_json \<Rightarrow> string \<Rightarrow> string \<Rightarrow> mcp_manager \<Rightarrow> 'w
    \<Rightarrow> (go_error + resource_content list) \<times> mcp_manager \<times> 'w" where
  "manager_read_resource env j server0 uri0 m w =
     (let server = trim_space server0; uri = trim_space uri0 in
      if server = [] then (Inl (new_error ''mcp: resource server is required''), m, w)
      else if uri = [] then (Inl (new_error ''mcp: resource uri is required''), m, w)
      else case find_server server ''resources'' m of
        Inl e \<Rightarrow> (Inl e, m, w)
      | Inr k \<Rightarrow>
          (let s = mm_servers m ! k; (r, c1, w1) = read_resource env j (timeout_for (ms_config s)) uri (ms_client s) w
           in (map_sum mcp_failure id r, set_client k c1 m, w1)))"

definition map_prompt_message :: "mcp_json \<Rightarrow> prompt_message \<Rightarrow> mcp_error + prompt_message" where
  "map_prompt_message j d =
     (let role = trim_space (pe_role d); content = compact_raw j (pe_content d) in
      if role = [] then Inl (other_error ''mcp: prompt message role is required'')
      else if content = [] then Inl (other_error (''mcp: prompt message '' @ quote role @ '' content is required''))
      else Inr \<lparr>pe_role = role, pe_content = content\<rparr>)"

definition manager_get_prompt :: "'w mcp_env \<Rightarrow> mcp_json \<Rightarrow> string \<Rightarrow> string \<Rightarrow> (string \<times> string) list \<Rightarrow> mcp_manager \<Rightarrow> 'w
    \<Rightarrow> (go_error + (string \<times> prompt_message list)) \<times> mcp_manager \<times> 'w" where
  "manager_get_prompt env j server0 name0 args m w =
     (let server = trim_space server0; name = trim_space name0 in
      if server = [] then (Inl (new_error ''mcp: prompt server is required''), m, w)
      else if name = [] then (Inl (new_error ''mcp: prompt name is required''), m, w)
      else case find_server server ''prompts'' m of
        Inl e \<Rightarrow> (Inl e, m, w)
      | Inr k \<Rightarrow>
          (let s = mm_servers m ! k;
               (r, c1, w1) = client_request env (timeout_for (ms_config s)) ''prompts/get'' (PromptParams name args)
                  (js_messages j) ([], []) (ms_client s) w
           in (case r of
                 Inl e \<Rightarrow> Inl (mcp_failure e)
               | Inr (description, defs) \<Rightarrow>
                   (case map_all (map_prompt_message j) defs of
                      Inl e \<Rightarrow> Inl (mcp_failure e)
                    | Inr ms \<Rightarrow> Inr (trim_space description, ms)), set_client k c1 m, w1)))"

section \<open>Names are unique and every tool asks\<close>

lemma free_name_candidate: "\<exists>k. i \<le> k \<and> free_name n base seen i = base @ ''_'' @ itoa k"
  by (induction n arbitrary: i) (auto simp: Let_def intro: Suc_leD)

lemma free_name_taken:
  "free_name n base seen i \<in> set seen \<Longrightarrow> (\<lambda>k. base @ ''_'' @ itoa k) ` {i..i + n} \<subseteq> set seen"
proof (induction n arbitrary: i)
  case (Suc n)
  let ?c = "base @ ''_'' @ itoa i"
  have c: "?c \<in> set seen" using Suc.prems by (auto simp: Let_def split: if_splits)
  then have "free_name n base seen (Suc i) \<in> set seen" using Suc.prems by (simp add: Let_def)
  from Suc.IH [OF this] have "(\<lambda>k. base @ ''_'' @ itoa k) ` {Suc i..Suc i + n} \<subseteq> set seen" .
  moreover have "{i..i + Suc n} = insert i {Suc i..Suc i + n}" by auto
  ultimately show ?case using c by simp
qed simp

lemma free_name_free: "free_name (length seen) base seen i \<notin> set seen"
proof
  assume "free_name (length seen) base seen i \<in> set seen"
  from free_name_taken [OF this] have s: "(\<lambda>k. base @ ''_'' @ itoa k) ` {i..i + length seen} \<subseteq> set seen" .
  have "inj_on (\<lambda>k. base @ ''_'' @ itoa k) {i..i + length seen}" by (auto simp: inj_on_def dest: itoa_inj)
  then have "card ((\<lambda>k. base @ ''_'' @ itoa k) ` {i..i + length seen}) = Suc (length seen)" by (subst card_image) simp_all
  moreover have "card ((\<lambda>k. base @ ''_'' @ itoa k) ` {i..i + length seen}) \<le> card (set seen)" by (rule card_mono [OF _ s]) simp
  ultimately show False using card_length [of seen] by simp
qed

definition mcp_name :: "string \<Rightarrow> bool" where
  "mcp_name n \<longleftrightarrow> list_all (\<lambda>c. name_rune (code_of c)) n \<and> has_prefix n ''mcp_''"

definition asks_first :: "mcp_tool \<Rightarrow> bool" where
  "asks_first t \<longleftrightarrow> ts_requires_permission (mt_spec t) \<and> ts_permission_target (mt_spec t) \<noteq> None"

abbreviation mt_name :: "mcp_tool \<Rightarrow> string" where
  "mt_name t \<equiv> ts_name (mt_spec t)"

lemma name_rune_bound: "name_rune r \<Longrightarrow> r < 256"
  by (auto simp: name_rune_def)

lemma name_bytes_runes: "list_all (\<lambda>c. name_rune (code_of c)) (name_bytes was rs)"
proof (induction rs arbitrary: was)
  case (Cons r rs)
  have "name_rune (code_of (CHR ''_''))" by (simp add: name_rune_def code_of_def)
  then show ?case using Cons name_rune_bound by (auto simp: code_of_def byte_def)
qed simp

lemma sanitized_runes: "list_all (\<lambda>c. name_rune (code_of c)) (sanitize_name_part s)"
  using name_bytes_runes unfolding sanitize_name_part_def trim_right_set_def list_all_iff
  by (auto dest!: set_dropWhileD)

lemma itoa_name_runes: "list_all (\<lambda>c. name_rune (code_of c)) (itoa n)"
proof -
  have "list_all (\<lambda>c. name_rune (code_of c)) ''0123456789''" by code_simp
  then show ?thesis using itoa_digits [of n] by (auto simp: list_all_iff)
qed

lemma mcp_name_parts:
  "list_all (\<lambda>c. name_rune (code_of c)) a \<Longrightarrow> list_all (\<lambda>c. name_rune (code_of c)) b \<Longrightarrow> mcp_name (''mcp_'' @ a @ ''_'' @ b)"
proof -
  assume ab: "list_all (\<lambda>c. name_rune (code_of c)) a" "list_all (\<lambda>c. name_rune (code_of c)) b"
  have "list_all (\<lambda>c. name_rune (code_of c)) ''mcp_''" "list_all (\<lambda>c. name_rune (code_of c)) ''_''" by code_simp+
  then have "list_all (\<lambda>c. name_rune (code_of c)) (''mcp_'' @ a @ ''_'' @ b)" using ab by (simp only: list_all_append)
  moreover have "has_prefix (''mcp_'' @ a @ ''_'' @ b) ''mcp_''" by (simp add: has_prefix_def)
  ultimately show ?thesis by (simp only: mcp_name_def)
qed

text \<open>Tools added to the names in use: new names, each once.\<close>

definition adds_tools :: "string list \<Rightarrow> mcp_tool list \<Rightarrow> string list \<Rightarrow> bool" where
  "adds_tools seen ts seen' \<longleftrightarrow> set seen' = set (map mt_name ts) \<union> set seen \<and> distinct (map mt_name ts)
     \<and> set (map mt_name ts) \<inter> set seen = {} \<and> list_all (\<lambda>t. mcp_name (mt_name t) \<and> asks_first t) ts"

lemma adds_tools_Nil [simp]: "adds_tools seen [] seen"
  by (simp add: adds_tools_def)

lemma adds_tools_append: "adds_tools a xs b \<Longrightarrow> adds_tools b ys c \<Longrightarrow> adds_tools a (xs @ ys) c"
  unfolding adds_tools_def by auto

lemma map_tool_adds:
  assumes "list_all (\<lambda>c. name_rune (code_of c)) part" "map_tool j k cfg server part d seen = Inr (t, seen')"
  shows "adds_tools seen [t] seen'"
proof -
  have n: "mt_name t = ''mcp_'' @ part @ ''_'' @ sanitize_name_part (trim_space (td_name d))"
    "mt_name t \<notin> set seen" "seen' = mt_name t # seen" "asks_first t"
    using assms(2) by (auto simp: map_tool_def Let_def asks_first_def split: if_splits sum.splits)
  have "mcp_name (mt_name t)" unfolding n(1) by (rule mcp_name_parts [OF assms(1) sanitized_runes])
  then show ?thesis using n(2-4) by (simp add: adds_tools_def)
qed

lemma map_tools_adds:
  assumes "list_all (\<lambda>c. name_rune (code_of c)) part"
  shows "map_tools j k cfg server part ds seen = Inr (ts, seen') \<Longrightarrow> adds_tools seen ts seen'"
proof (induction ds arbitrary: seen ts)
  case (Cons d ds)
  obtain t seen1 where t: "map_tool j k cfg server part d seen = Inr (t, seen1)"
    using Cons.prems by (auto split: sum.splits)
  then obtain us where u: "map_tools j k cfg server part ds seen1 = Inr (us, seen')" "ts = t # us"
    using Cons.prems by (auto split: sum.splits)
  show ?case using adds_tools_append [OF map_tool_adds [OF assms t] Cons.IH [OF u(1)]] u(2) by simp
qed simp

lemma map_resource_tool_adds:
  assumes "list_all (\<lambda>c. name_rune (code_of c)) part" "map_resource_tool j k cfg server part seen = (t, seen')"
  shows "adds_tools seen [t] seen'"
proof -
  let ?base = "''mcp_'' @ part @ ''_read_resource''"
  have b: "list_all (\<lambda>c. name_rune (code_of c)) ''read_resource''" by code_simp
  have base: "?base = ''mcp_'' @ part @ ''_'' @ ''read_resource''" by simp
  obtain i where i: "free_name (length seen) ?base seen 2 = ?base @ ''_'' @ itoa i"
    using free_name_candidate by blast
  have "list_all (\<lambda>c. name_rune (code_of c)) (''read_resource'' @ ''_'' @ itoa i)"
    using b itoa_name_runes [of i] by (simp add: name_rune_def code_of_def)
  note m = mcp_name_parts [OF assms(1) this] mcp_name_parts [OF assms(1) b]
  have n: "mt_name t = fst (reserve_name ?base seen)" "seen' = mt_name t # seen" "asks_first t"
    using assms(2) by (auto simp: map_resource_tool_def reserve_name_def Let_def asks_first_def split: if_splits)
  have f: "mt_name t \<notin> set seen" unfolding n(1) using free_name_free by (simp add: reserve_name_def Let_def)
  have "mcp_name (mt_name t)"
    using m unfolding n(1) reserve_name_def Let_def fst_conv i by simp
  then show ?thesis using n(2,3) f by (simp add: adds_tools_def)
qed

lemma server_tools_adds:
  assumes "list_all (\<lambda>c. name_rune (code_of c)) part" "server_tools env j k cfg server part c seen w = (Inr (ts, seen'), c', w')"
  shows "adds_tools seen ts seen'"
proof -
  let ?list = "if should_list_tools (mc_init c) then list_glue_tools env j k cfg server part c seen w else (Inr ([], seen), c, w)"
  obtain listed c1 w1 where l: "?list = (listed, c1, w1)" by (rule prod_cases3)
  obtain us seen1 where u: "listed = Inr (us, seen1)"
    using assms(2) unfolding server_tools_def l by (cases listed) auto
  have a: "adds_tools seen us seen1"
  proof (cases "should_list_tools (mc_init c)")
    case True
    then obtain ds where "map_tools j k cfg server part ds seen = Inr (us, seen1)"
      using l u by (auto simp: list_glue_tools_def split: prod.splits sum.splits)
    then show ?thesis by (rule map_tools_adds [OF assms(1)])
  qed (use l u in simp)
  show ?thesis
  proof (cases "has_capability (mc_init c) ''resources''")
    case True
    obtain t seen2 where t: "map_resource_tool j k cfg server part seen1 = (t, seen2)" by fastforce
    then have "ts = us @ [t]" "seen' = seen2"
      using assms(2) True unfolding server_tools_def l u by auto
    then show ?thesis using adds_tools_append [OF a map_resource_tool_adds [OF assms(1) t]] by simp
  next
    case False
    then show ?thesis using assms(2) a unfolding server_tools_def l u by auto
  qed
qed

lemma start_servers_adds:
  "start_servers env j cfgs m seen w = (Inr m', w') \<Longrightarrow> adds_tools [] (mm_tools m) seen \<Longrightarrow> \<exists>seen'. adds_tools [] (mm_tools m') seen'"
proof (induction env j cfgs m seen w rule: start_servers.induct)
  case (2 env j cfg cfgs m seen w)
  let ?server = "trim_space (sv_name cfg)"
  let ?part = "sanitize_name_part ?server"
  have n: "?server \<noteq> []" "?part \<noteq> []" using "2.prems"(1) by (auto simp: Let_def split: if_splits)
  obtain c w1 where c: "new_client env cfg w = (Inr c, w1)"
    using "2.prems"(1) n by (auto simp: Let_def split: prod.splits sum.splits)
  obtain ts seen1 c1 w2 where t: "server_tools env j (length (mm_servers m)) cfg ?server ?part c seen w1 = (Inr (ts, seen1), c1, w2)"
    using "2.prems"(1) n c by (auto simp: Let_def split: prod.splits sum.splits)
  have a: "adds_tools [] (mm_tools m @ ts) seen1"
    by (rule adds_tools_append [OF "2.prems"(2) server_tools_adds [OF sanitized_runes t]])
  have s: "start_servers env j cfgs \<lparr>mm_servers = mm_servers m @ [\<lparr>ms_name = ?server, ms_config = cfg, ms_client = c1\<rparr>],
      mm_tools = mm_tools m @ ts\<rparr> seen1 w2 = (Inr m', w')"
    using "2.prems"(1) n c t by (simp add: Let_def)
  show ?case
    by (rule "2.IH" [OF refl refl n c [symmetric] refl t [symmetric] refl refl refl s]) (simp add: a)
qed auto

text \<open>When all servers start, the tools have different names of the characters a model accepts, and each asks for
  permission with a target before it runs.\<close>

theorem mcp_tools_are_distinct:
  assumes "new_manager env j cfgs w = (Inr m, w')"
  shows "distinct (map mt_name (mm_tools m)) \<and> list_all (\<lambda>t. mcp_name (mt_name t) \<and> asks_first t) (mm_tools m)"
proof -
  have "\<exists>seen'. adds_tools [] (mm_tools m) seen'"
    by (rule start_servers_adds [OF assms [unfolded new_manager_def]]) simp
  then show ?thesis by (auto simp: adds_tools_def)
qed

text \<open>A call of a tool changes the state of its own server's client only and leaves the tools alone.\<close>

theorem tool_call_stays_with_its_server:
  assumes "execute_tool env j t call m w = (r, m', w')" "i \<noteq> (case mt_target t of RemoteTool k a b c d e f \<Rightarrow> k | ResourceTool k a b c \<Rightarrow> k)"
  shows "mm_tools m' = mm_tools m \<and> length (mm_servers m') = length (mm_servers m) \<and> mm_servers m' ! i = mm_servers m ! i"
  using assms
  by (auto simp: execute_tool_def set_client_def Let_def split: mcp_target.splits prod.splits if_splits)

text \<open>Every page of a listing that ends is in its result, in order, and all its items could be mapped.\<close>

definition page_chain :: "'w mcp_env \<Rightarrow> int \<Rightarrow> string \<Rightarrow> (bytes \<Rightarrow> go_error + ('a list \<times> string)) \<Rightarrow> string
    \<Rightarrow> mcp_client \<Rightarrow> 'w \<Rightarrow> (mcp_error + ('a list \<times> string)) \<times> mcp_client \<times> 'w" where
  "page_chain env timeout method decode cursor c w =
     client_request env timeout method (if cursor \<noteq> [] then CursorParams cursor else NoParams) decode ([], []) c w"

lemma list_pages_step:
  assumes "page_chain env timeout method decode cursor c w = (Inr (items, following), c1, w1)" "map_all f items = Inr ys"
  shows "list_pages env timeout method decode f cursor out c w =
    (if following = [] then Some (Inr (out @ ys), c1, w1) else list_pages env timeout method decode f following (out @ ys) c1 w1)"
  using assms by (subst list_pages.simps) (simp add: page_chain_def)

lemma map_all_length: "map_all f xs = Inr ys \<Longrightarrow> list_all2 (\<lambda>x y. f x = Inr y) xs ys"
  by (induction xs arbitrary: ys) (auto split: sum.splits)

end
