(* ===== verification/At_Mentions.thy ===== *)
theory At_Mentions
  imports Fs_Tools Project_Context
begin

text \<open>
  File mentions of a prompt, \<open>src/cmd/glue/atmentions/atmentions.go\<close>: finding them, reading the files
  they name under the checks of \<open>Fs_Paths\<close>, and the prompt with the contents appended. The calls of
  the operating system are those of \<open>Fs_Tools\<close>; they only look.
\<close>

section \<open>Finding mentions\<close>

definition mention_boundary :: "char \<Rightarrow> bool" where
  "mention_boundary c \<longleftrightarrow> c \<in> {CHR '' '', tab, nl, cr, dquote, squote} \<or> c \<in> set ''([{,;:''"

definition mention_stop :: "char \<Rightarrow> bool" where
  "mention_stop c \<longleftrightarrow> c \<in> {CHR '' '', tab, nl, cr, dquote, squote} \<or> c \<in> set '',;)]}''"

text \<open>The index of the source is the pair of the byte before it and the rest of the prompt.\<close>

function scan_mentions :: "char option \<Rightarrow> string \<Rightarrow> string list" where
  "scan_mentions prev [] = []"
| "scan_mentions prev (c # s) =
     (if c \<noteq> CHR ''@'' then scan_mentions (Some c) s
      else if s \<noteq> [] \<and> hd s = CHR ''@'' then scan_mentions (Some c) (tl s)
      else if (case prev of None \<Rightarrow> False | Some p \<Rightarrow> \<not> mention_boundary p) then scan_mentions (Some c) s
      else if s \<noteq> [] \<and> hd s = dquote then
        (case dropWhile (\<lambda>x. x \<noteq> dquote) (tl s) of
           [] \<Rightarrow> scan_mentions (Some c) s
         | q # rest \<Rightarrow> takeWhile (\<lambda>x. x \<noteq> dquote) (tl s) # scan_mentions (Some q) rest)
      else
        (let p = takeWhile (\<lambda>x. \<not> mention_stop x) s; rest = dropWhile (\<lambda>x. \<not> mention_stop x) s
         in (if p \<noteq> [] then [p] else []) @ scan_mentions (Some (last (c # p))) rest))"
  by pat_completeness auto

termination
proof (relation "measure (\<lambda>(prev, s). length s)")
  fix prev :: "char option" and c :: char and s q rest
  assume "dropWhile (\<lambda>x. x \<noteq> dquote) (tl s) = q # rest"
  then have "length (q # rest) \<le> length (tl s)" by (metis length_dropWhile_le)
  then show "((Some q, rest), prev, c # s) \<in> measure (\<lambda>(prev, s). length s)" by simp
qed (auto simp: le_imp_less_Suc length_dropWhile_le)

section \<open>Reading them\<close>

record mention_options =
  mo_work_dir :: string
  mo_blocklist :: "string list option"
  mo_max :: int

record mention_result =
  mx_prompt :: string
  mx_included :: "string list"
  mx_skipped :: "(string \<times> string) list"

definition default_max_bytes :: int where "default_max_bytes = 256 * 1024"

text \<open>\<open>Inl\<close> is the reason for which a file is skipped.\<close>

definition read_mention :: "'w os_calls \<Rightarrow> string \<Rightarrow> string \<Rightarrow> string list \<Rightarrow> int \<Rightarrow> 'w \<Rightarrow> string + string" where
  "read_mention os work_dir rel bl limit w =
     (if rel = [] then Inl ''empty path''
      else case blocklist_match bl rel of
        Some pat \<Rightarrow> Inl (''blocked by sensitive-file pattern '' @ pat)
      | None \<Rightarrow>
          (case safe_join (os_abs os) work_dir rel of
             Inl e \<Rightarrow> Inl (err_text e)
           | Inr p \<Rightarrow>
               (case os_lstat os p w of
                  Inl e \<Rightarrow> Inl (if err_is KNotExist e then ''file not found'' else err_text e)
                | Inr info \<Rightarrow>
                    (if fi_symlink info then Inl ''refusing to follow symlink''
                     else if fi_dir info then Inl ''is a directory (use list_dir or find_files)''
                     else if limit < int (fi_size info) then
                       Inl (''file is '' @ itoa (fi_size info) @ '' bytes, exceeds '' @ itoa_int limit @ ''-byte cap'')
                     else case os_read os p w of
                       Inl e \<Rightarrow> Inl (err_text e)
                     | Inr data \<Rightarrow> Inr data))))"

fun read_mentions :: "(string \<Rightarrow> string + string) \<Rightarrow> string list \<Rightarrow> string list
    \<Rightarrow> (string \<times> string) list \<times> (string \<times> string) list" where
  "read_mentions rd seen [] = ([], [])"
| "read_mentions rd seen (p # ps) =
     (if p \<in> set seen then read_mentions rd seen ps
      else (let (inc, skip) = read_mentions rd (p # seen) ps in
            case rd p of
              Inl reason \<Rightarrow> (inc, (CHR ''@'' # p, reason) # skip)
            | Inr content \<Rightarrow> ((p, content) # inc, skip)))"

definition resolve_work_dir :: "'w os_calls \<Rightarrow> go_error + string \<Rightarrow> string \<Rightarrow> go_error + string" where
  "resolve_work_dir os cwd work =
     (case (if trim_space work = [] then cwd else Inr (trim_space work)) of
        Inl e \<Rightarrow> Inl (wrap_error ''atmentions: workdir: '' e [])
      | Inr d \<Rightarrow> (case os_abs os d of Inl e \<Rightarrow> Inl (wrap_error ''atmentions: workdir: '' e []) | Inr a \<Rightarrow> Inr a))"

definition mention_section :: "string \<times> string \<Rightarrow> string" where
  "mention_section pc = ''--- @'' @ fst pc @ '' ---'' @ [nl] @ snd pc"

definition expand_mentions :: "'w os_calls \<Rightarrow> go_error + string \<Rightarrow> string \<Rightarrow> mention_options \<Rightarrow> 'w
    \<Rightarrow> go_error + mention_result" where
  "expand_mentions os cwd prompt opts w =
     (let unchanged = \<lparr>mx_prompt = prompt, mx_included = [], mx_skipped = []\<rparr>; ms = scan_mentions None prompt in
      if ms = [] then Inr unchanged
      else case resolve_work_dir os cwd (mo_work_dir opts) of
        Inl e \<Rightarrow> Inl e
      | Inr wd \<Rightarrow>
          (let bl = (case mo_blocklist opts of None \<Rightarrow> default_blocklist | Some b \<Rightarrow> b);
               limit = (if mo_max opts \<le> 0 then default_max_bytes else mo_max opts);
               (inc, skip) = read_mentions (\<lambda>p. read_mention os wd p bl limit w) [] ms
           in Inr \<lparr>mx_prompt = (if inc = [] then prompt
                     else trim_right_set [nl] prompt @ [nl, nl] @ join [nl, nl] (map mention_section inc)),
                   mx_included = sort_strings (map fst inc), mx_skipped = skip\<rparr>))"

section \<open>Properties\<close>

text \<open>A mention stands in the prompt after an at sign that begins a word, bare up to a stop or in quotes.\<close>

definition mention_at :: "char option \<Rightarrow> string \<Rightarrow> string \<Rightarrow> bool" where
  "mention_at prev s m \<longleftrightarrow> (\<exists>pre post.
     (s = pre @ [CHR ''@''] @ m @ post \<and> m \<noteq> [] \<and> list_all (\<lambda>c. \<not> mention_stop c) m \<and> (post = [] \<or> mention_stop (hd post))
      \<or> s = pre @ [CHR ''@'', dquote] @ m @ [dquote] @ post \<and> dquote \<notin> set m)
     \<and> (if pre = [] then (case prev of None \<Rightarrow> True | Some p \<Rightarrow> mention_boundary p) else mention_boundary (last pre)))"

lemma mention_at_later:
  assumes "mention_at (Some (last x)) s m" "x \<noteq> []"
  shows "mention_at prev (x @ s) m"
proof -
  obtain pre post where p: "s = pre @ [CHR ''@''] @ m @ post \<and> m \<noteq> [] \<and> list_all (\<lambda>c. \<not> mention_stop c) m
       \<and> (post = [] \<or> mention_stop (hd post))
      \<or> s = pre @ [CHR ''@'', dquote] @ m @ [dquote] @ post \<and> dquote \<notin> set m"
    "if pre = [] then mention_boundary (last x) else mention_boundary (last pre)"
    using assms(1) unfolding mention_at_def option.case by blast
  then show ?thesis
    unfolding mention_at_def using assms(2)
    by (intro exI [of _ "x @ pre"] exI [of _ post]) (auto split: if_splits)
qed

theorem mentions_begin_words: "m \<in> set (scan_mentions prev s) \<Longrightarrow> mention_at prev s m"
proof (induction prev s rule: scan_mentions.induct)
  case (1 prev)
  then show ?case by simp
next
  case (2 prev c s)
  have next1: "m \<in> set (scan_mentions (Some c) s) \<Longrightarrow> mention_at (Some c) s m \<Longrightarrow> mention_at prev (c # s) m"
    using mention_at_later [of "[c]" s m prev] by simp
  show ?case
  proof (cases "c = CHR ''@''")
    case False
    then show ?thesis using "2.IH"(1) "2.prems" next1 by simp
  next
    case at: True
    show ?thesis
    proof (cases "s \<noteq> [] \<and> hd s = CHR ''@''")
      case True
      then obtain t where t: "s = CHR ''@'' # t" by (cases s) auto
      then have "mention_at (Some (CHR ''@'')) t m" using "2.IH"(2) "2.prems" at True by simp
      then show ?thesis using mention_at_later [of "[c, CHR ''@'']" t m prev] t by simp
    next
      case n2: False
      show ?thesis
      proof (cases "case prev of None \<Rightarrow> False | Some p \<Rightarrow> \<not> mention_boundary p")
        case True
        then show ?thesis using "2.IH"(3) "2.prems" at n2 next1 by simp
      next
        case b: False
        then have start: "case prev of None \<Rightarrow> True | Some p \<Rightarrow> mention_boundary p" by (simp split: option.splits)
        show ?thesis
        proof (cases "s \<noteq> [] \<and> hd s = dquote")
          case True
          then obtain t where t: "s = dquote # t" by (cases s) auto
          show ?thesis
          proof (cases "dropWhile (\<lambda>x. x \<noteq> dquote) t")
            case Nil
            then have "scan_mentions prev (c # s) = scan_mentions (Some c) s"
              using at n2 b t by (simp del: dropWhile_eq_Nil_conv)
            then have m: "m \<in> set (scan_mentions (Some c) s)" using "2.prems" by simp
            have "mention_at (Some c) s m"
              by (rule "2.IH"(4)) (use at n2 b True t Nil m in \<open>simp_all del: dropWhile_eq_Nil_conv\<close>)
            then show ?thesis using next1 m by simp
          next
            case (Cons q rest)
            let ?p = "takeWhile (\<lambda>x. x \<noteq> dquote) t"
            have q: "q = dquote" using hd_dropWhile [of "\<lambda>x. x \<noteq> dquote" t] Cons by auto
            have s: "s = dquote # ?p @ dquote # rest" using takeWhile_dropWhile_id [of "\<lambda>x. x \<noteq> dquote" t] Cons q t by simp
            have "dquote \<notin> set ?p" by (auto dest: set_takeWhileD)
            then have here: "mention_at prev (c # s) ?p"
              unfolding mention_at_def using at start s
              by (intro exI [of _ "[]"] exI [of _ rest]) simp
            have "m = ?p \<or> m \<in> set (scan_mentions (Some q) rest)"
              using "2.prems" at n2 b True t Cons by simp
            then show ?thesis
            proof
              assume "m \<in> set (scan_mentions (Some q) rest)"
              then have "mention_at (Some q) rest m" using "2.IH"(5) at n2 b True t Cons by simp
              then show ?thesis using mention_at_later [of "c # dquote # ?p @ [dquote]" rest m prev] s q by simp
            qed (use here in simp)
          qed
        next
          case n4: False
          let ?p = "takeWhile (\<lambda>x. \<not> mention_stop x) s" and ?r = "dropWhile (\<lambda>x. \<not> mention_stop x) s"
          have s: "s = ?p @ ?r" by simp
          have here: "?p \<noteq> [] \<Longrightarrow> mention_at prev (c # s) ?p"
            unfolding mention_at_def using at start s hd_dropWhile [of "\<lambda>x. \<not> mention_stop x" s]
            by (intro exI [of _ "[]"] exI [of _ ?r]) (auto simp: list_all_iff dest: set_takeWhileD)
          have "m = ?p \<and> ?p \<noteq> [] \<or> m \<in> set (scan_mentions (Some (last (c # ?p))) ?r)"
            using "2.prems" at n2 b n4 by (auto simp: Let_def split: if_splits)
          then show ?thesis
          proof
            assume "m \<in> set (scan_mentions (Some (last (c # ?p))) ?r)"
            then have "mention_at (Some (last (c # ?p))) ?r m" using "2.IH"(6) at n2 b n4 by simp
            then show ?thesis using mention_at_later [of "c # ?p" ?r m prev] s by simp
          qed (use here in simp)
        qed
      qed
    qed
  qed
qed

lemma read_mentions_content: "(p, c) \<in> set (fst (read_mentions rd seen ps)) \<Longrightarrow> rd p = Inr c \<and> p \<in> set ps - set seen"
proof (induction rd seen ps rule: read_mentions.induct)
  case (2 rd seen p ps)
  then show ?case by (auto simp: Let_def split: if_splits prod.splits sum.splits)
qed simp

lemma read_mentions_once: "distinct (map fst (fst (read_mentions rd seen ps)))"
proof (induction rd seen ps rule: read_mentions.induct)
  case (2 rd seen p ps)
  have "p \<notin> fst ` set (fst (read_mentions rd (p # seen) ps))"
    using read_mentions_content [of p _ rd "p # seen" ps] by auto
  then show ?case using 2 by (auto simp: Let_def split: prod.splits sum.splits)
qed simp

lemma distinct_sort_strings: "distinct (sort_strings xs) = distinct xs"
proof -
  have "distinct (insert_string x ys) \<longleftrightarrow> x \<notin> set ys \<and> distinct ys" for x ys
    by (induction ys) auto
  then show ?thesis by (induction xs) (simp_all add: sort_strings_def set_sort_strings [unfolded sort_strings_def])
qed

text \<open>Every file whose content is added was mentioned, passes the blocklist, lies inside the work directory with no
  blocked element below it, and was a plain file within the limit; it is added once.\<close>

theorem mentions_are_safe:
  assumes "expand_mentions os cwd prompt opts w = Inr res" "p \<in> set (mx_included res)"
    "resolve_work_dir os cwd (mo_work_dir opts) = Inr wd" "os_abs os wd = Inr wd" "is_abs wd" "clean_path wd = wd"
  shows "mention_at None prompt p \<and> distinct (mx_included res)
    \<and> (\<exists>q info content. safe_join (os_abs os) wd p = Inr q \<and> os_lstat os q w = Inr info \<and> \<not> fi_symlink info \<and> \<not> fi_dir info
        \<and> int (fi_size info) \<le> (if mo_max opts \<le> 0 then default_max_bytes else mo_max opts) \<and> os_read os q w = Inr content
        \<and> (\<exists>cs. elements q = elements wd @ cs \<and> ''..'' \<notin> set cs \<and> (\<forall>c\<in>set cs.
             \<forall>pat\<in>set (case mo_blocklist opts of None \<Rightarrow> default_blocklist | Some b \<Rightarrow> b). trim_space pat \<noteq> []
               \<longrightarrow> \<not> path_match (to_lower (trim_space pat)) (to_lower c))))"
proof -
  let ?bl = "case mo_blocklist opts of None \<Rightarrow> default_blocklist | Some b \<Rightarrow> b"
  let ?max = "if mo_max opts \<le> 0 then default_max_bytes else mo_max opts"
  let ?rd = "\<lambda>p. read_mention os wd p ?bl ?max w"
  let ?x = "read_mentions ?rd [] (scan_mentions None prompt)"
  have inc: "mx_included res = sort_strings (map fst (fst ?x))"
    using assms(1-3) by (auto simp: expand_mentions_def Let_def split: if_splits prod.splits)
  then obtain content where c: "(p, content) \<in> set (fst ?x)" using assms(2) by auto
  note r = read_mentions_content [OF c]
  have m: "mention_at None prompt p" using r by (intro mentions_begin_words) simp
  have d: "distinct (mx_included res)"
    using read_mentions_once [of ?rd "[]" "scan_mentions None prompt"] by (simp add: inc distinct_sort_strings)
  have b: "blocklist_match ?bl p = None" using r by (auto simp: read_mention_def split: if_splits option.splits)
  then obtain q where q: "safe_join (os_abs os) wd p = Inr q"
    using r by (auto simp: read_mention_def split: if_splits option.splits sum.splits)
  obtain info where i: "os_lstat os q w = Inr info" "\<not> fi_symlink info" "\<not> fi_dir info"
    "int (fi_size info) \<le> ?max" "os_read os q w = Inr content"
    using r b q by (auto simp: read_mention_def split: if_splits sum.splits)
  obtain cs where cs: "elements q = elements wd @ cs" "set cs \<subseteq> set (elements (trim_space p)) - {''..''}"
    using safe_join_below [OF q assms(4-6)] by blast
  have "trim_space p \<noteq> []" using q by (auto simp: safe_join_def Let_def split: if_splits)
  then have "\<forall>c\<in>set cs. \<forall>pat\<in>set ?bl. trim_space pat \<noteq> [] \<longrightarrow> \<not> path_match (to_lower (trim_space pat)) (to_lower c)"
    using cs(2) blocklist_passes [OF b] by blast
  moreover have "''..'' \<notin> set cs" using cs(2) by blast
  ultimately show ?thesis using m d q i cs(1) by blast
qed

text \<open>An escaped at sign and an address are no mentions.\<close>

lemma mention_examples:
  "scan_mentions None ''see @a.go, (@b) and a@c.de or @@d'' = [''a.go'', ''b'']"
  by code_simp

end
