(* ===== verification/Peggy_Schedule.thy ===== *)
theory Peggy_Schedule
  imports Daemon_Permissions Go_Time "HOL-Library.Word"
begin

text \<open>
  The proactive side of Peggy, \<open>src/agents/peggy\<close>: permission tiers (\<open>permission_policy.go\<close>), schedules
  (\<open>schedule.go\<close>) and their store (\<open>schedule_store.go\<close>). The maps are association lists. Random ids, the
  clock and writing the file are arguments. The loop that moves a schedule past missed times may not end, so
  it is a partial function.
\<close>

section \<open>Permission tiers\<close>

definition tier_prompt :: string where "tier_prompt = ''prompt''"
definition tier_read_only :: string where "tier_read_only = ''read_only''"
definition tier_trusted :: string where "tier_trusted = ''trusted''"

record tier_settings =
  tg_default :: string
  tg_channels :: "(string \<times> string) list"

definition normal_tier :: "string \<Rightarrow> string" where
  "normal_tier raw = to_lower (trim_space raw)"

definition normal_channel :: "string \<Rightarrow> string" where
  "normal_channel raw = to_lower (trim_space raw)"

definition normal_settings :: "tier_settings \<Rightarrow> tier_settings" where
  "normal_settings g =
     \<lparr>tg_default = (if normal_tier (tg_default g) = [] then tier_prompt else normal_tier (tg_default g)),
      tg_channels = fold (\<lambda>(c, t) m. AList.update (if normal_channel c = [] then trim_space c else normal_channel c)
        (normal_tier t) m) (tg_channels g) []\<rparr>"

definition valid_tier :: "string \<Rightarrow> bool" where
  "valid_tier raw \<longleftrightarrow> normal_tier raw \<in> {tier_prompt, tier_read_only, tier_trusted}"

definition validate_settings :: "tier_settings \<Rightarrow> go_error option" where
  "validate_settings g0 =
     (let g = normal_settings g0 in
      if \<not> valid_tier (tg_default g) then
        Some (new_error (''peggy: invalid permissions.default_tier '' @ quote (tg_default g)))
      else case find (\<lambda>(c, t). \<not> valid_tier t) (tg_channels g) of
        None \<Rightarrow> None
      | Some (c, t) \<Rightarrow> Some (new_error (''peggy: invalid permissions.channels.'' @ c @ '' tier '' @ quote t)))"

definition tier_for_channel :: "tier_settings \<Rightarrow> string \<Rightarrow> string" where
  "tier_for_channel g0 channel =
     (let g = normal_settings g0; key = normal_channel channel in
      case (if key = [] then None else map_of (tg_channels g) key) of
        Some raw \<Rightarrow> if trim_space raw \<noteq> [] then normal_tier raw else normal_tier (tg_default g)
      | None \<Rightarrow> normal_tier (tg_default g))"

definition read_only_reason :: "string \<Rightarrow> string" where
  "read_only_reason channel =
     (if normal_channel channel = [] then ''permission denied: channel is read-only''
      else ''permission denied: '' @ normal_channel channel @ '' channel is read-only'')"

definition denied :: "string \<Rightarrow> permission_decision" where
  "denied reason = \<lparr>pd_allow = False, pd_reason = reason, pd_remember = RememberNever\<rparr>"

text \<open>\<open>NewTieredPermission\<close> and its \<open>Decide\<close>.\<close>

definition tiered_permission :: "'w permission option \<Rightarrow> string \<Rightarrow> string \<Rightarrow> 'w permission" where
  "tiered_permission inner tier0 channel req w =
     (let tier = normal_tier tier0 in
      if tier = [] \<or> tier = tier_prompt then
        (case inner of
           None \<Rightarrow> (Inr (denied ''permission denied: no permission handler configured''), w)
         | Some p \<Rightarrow> p req w)
      else if tier = tier_read_only then (Inr (denied (read_only_reason channel)), w)
      else if tier = tier_trusted then (Inr (allowed RememberNever), w)
      else (Inl (new_error (''peggy: invalid permission tier '' @ quote tier)), w))"

definition channel_prefix :: "string \<Rightarrow> string" where
  "channel_prefix raw =
     (let (pre, rest, found) = cut (trim_space raw) '':'' in if \<not> found \<or> pre = [] then [] else normal_channel pre)"

definition channel_of_run :: "run_info \<Rightarrow> permission_request \<Rightarrow> string" where
  "channel_of_run info req =
     (if channel_prefix (ri_client info) \<noteq> [] then channel_prefix (ri_client info)
      else if channel_prefix (ri_session info) \<noteq> [] then channel_prefix (ri_session info)
      else channel_prefix (pr_session req))"

definition daemon_policy :: "tier_settings \<Rightarrow> 'w policy" where
  "daemon_policy g0 info req w =
     (let channel = channel_of_run info req; tier = tier_for_channel (normal_settings g0) channel in
      if tier = tier_prompt then (Inr \<lparr>po_action = PolicyPrompt, po_reason = [], po_remember = RememberNever\<rparr>, w)
      else if tier = tier_read_only then
        (Inr \<lparr>po_action = PolicyDeny, po_reason = read_only_reason channel, po_remember = RememberNever\<rparr>, w)
      else if tier = tier_trusted then (Inr \<lparr>po_action = PolicyAllow, po_reason = [], po_remember = RememberNever\<rparr>, w)
      else (Inl (new_error (''peggy: invalid permission tier '' @ quote tier)), w))"

section \<open>Schedules\<close>

record schedule =
  sc_id :: string
  sc_kind :: string
  sc_prompt :: string
  sc_skill :: string
  sc_args :: metadata
  sc_tier :: string
  sc_session :: string
  sc_every :: int
  sc_at :: "go_time option"
  sc_created :: go_time
  sc_next :: go_time
  sc_last :: "go_time option"
  sc_error :: string

definition min_interval :: duration where "min_interval = 60 * ns_per_second"

definition recurring :: "schedule \<Rightarrow> bool" where
  "recurring s \<longleftrightarrow> sc_every s > 0"

definition interval :: "schedule \<Rightarrow> duration" where
  "interval s = wrap64 (sc_every s * ns_per_second)"

definition schedule_done :: "schedule \<Rightarrow> bool" where
  "schedule_done s \<longleftrightarrow> \<not> recurring s \<and> sc_last s \<noteq> None"

definition due :: "go_time \<Rightarrow> schedule \<Rightarrow> bool" where
  "due now s \<longleftrightarrow> \<not> schedule_done s \<and> sc_next s \<noteq> 0 \<and> \<not> sc_next s > now"

text \<open>The loop of \<open>advance\<close>.\<close>

partial_function (option) next_after :: "duration \<Rightarrow> go_time \<Rightarrow> go_time \<Rightarrow> go_time option" where
  "next_after step now next = (if next > now then Some next else next_after step now (next + step))"

definition advance :: "go_time \<Rightarrow> string \<Rightarrow> schedule \<Rightarrow> schedule option" where
  "advance now err s =
     (let out = s\<lparr>sc_last := Some now, sc_error := err\<rparr> in
      if \<not> recurring s then Some out
      else map_option (\<lambda>n. out\<lparr>sc_next := n\<rparr>) (next_after (interval s) now (sc_next s + interval s)))"

definition describe :: "schedule \<Rightarrow> string" where
  "describe s =
     (let w = (if recurring s then ''every '' @ duration_string (interval s)
               else case sc_at s of None \<Rightarrow> [] | Some t \<Rightarrow> ''at '' @ rfc3339 t);
          what = trim_space (if sc_kind s = ''skill'' then ''skill:'' @ sc_skill s else sc_prompt s);
          short = (if length what > 60 then take 57 what @ ''...'' else what)
      in sc_id s @ ''  ['' @ w @ '', '' @ sc_tier s @ '']  '' @ short)"

record schedule_params =
  sp_kind :: string
  sp_prompt :: string
  sp_skill :: string
  sp_args :: metadata
  sp_tier :: string
  sp_session :: string
  sp_every :: duration
  sp_at :: "go_time option"

text \<open>\<open>fresh\<close> is \<open>newScheduleID\<close>.\<close>

definition new_schedule :: "go_error + string \<Rightarrow> schedule_params \<Rightarrow> go_time \<Rightarrow> go_error + schedule" where
  "new_schedule fresh p now =
     (let tier = (if normal_tier (sp_tier p) = [] then tier_trusted else normal_tier (sp_tier p));
          rec = sp_every p > 0; one = sp_at p \<noteq> None;
          base = \<lparr>sc_id = [], sc_kind = sp_kind p, sc_prompt = [], sc_skill = [], sc_args = sp_args p, sc_tier = tier,
            sc_session = trim_space (sp_session p), sc_every = 0, sc_at = None, sc_created = now, sc_next = 0,
            sc_last = None, sc_error = []\<rparr>
      in if tier = tier_prompt then
           Inl (new_error (''peggy: schedule tier '' @ quote tier @ '' is invalid: an unattended run has no client to prompt''))
         else if tier \<noteq> tier_trusted \<and> tier \<noteq> tier_read_only then
           Inl (new_error (''peggy: invalid schedule tier '' @ quote tier))
         else if rec = one then Inl (new_error ''peggy: schedule needs exactly one of every or at'')
         else if rec \<and> sp_every p < min_interval then
           Inl (new_error (''peggy: schedule interval '' @ duration_string (sp_every p) @ '' is below the ''
             @ duration_string min_interval @ '' minimum''))
         else case
           (if sp_kind p = ''prompt'' then
              (if trim_space (sp_prompt p) = [] then Inl (new_error ''peggy: prompt schedule needs a prompt'')
               else Inr (base\<lparr>sc_prompt := trim_space (sp_prompt p)\<rparr>))
            else if sp_kind p = ''skill'' then
              (if trim_space (sp_skill p) = [] then Inl (new_error ''peggy: skill schedule needs a skill name'')
               else Inr (base\<lparr>sc_skill := trim_space (sp_skill p)\<rparr>))
            else Inl (new_error (''peggy: invalid schedule kind '' @ quote (sp_kind p)))) of
           Inl e \<Rightarrow> Inl e
         | Inr s \<Rightarrow>
             (case fresh of
                Inl e \<Rightarrow> Inl e
              | Inr i \<Rightarrow>
                  (let s1 = s\<lparr>sc_id := i, sc_session := (if sc_session s = [] then ''schedule:'' @ i else sc_session s)\<rparr>
                   in Inr (case sp_at p of
                        None \<Rightarrow> s1\<lparr>sc_every := sp_every p div ns_per_second, sc_next := now + sp_every p\<rparr>
                      | Some t \<Rightarrow> s1\<lparr>sc_at := Some t, sc_next := t\<rparr>))))"

section \<open>The store of schedules\<close>

type_synonym schedule_map = "(string \<times> schedule) list"

text \<open>The file lists the schedules; \<open>None\<close> is a store without a path.\<close>

type_synonym 'w schedule_save = "(schedule list \<Rightarrow> 'w \<Rightarrow> go_error option \<times> 'w) option"

definition load_schedules :: "schedule list \<Rightarrow> schedule_map" where
  "load_schedules ss = fold (\<lambda>s m. if sc_id s = [] then m else AList.update (sc_id s) s m) ss []"

definition schedule_before :: "schedule \<Rightarrow> schedule \<Rightarrow> bool" where
  "schedule_before a b = (if sc_next a = sc_next b then \<not> bytes_le (sc_id b) (sc_id a) else sc_next a < sc_next b)"

definition list_schedules :: "schedule_map \<Rightarrow> schedule list" where
  "list_schedules m = sort_by schedule_before (map snd m)"

definition save_schedules :: "'w schedule_save \<Rightarrow> schedule_map \<Rightarrow> 'w \<Rightarrow> go_error option \<times> (schedule_map \<times> 'w)" where
  "save_schedules save m w =
     (case save of
        None \<Rightarrow> (None, (m, w))
      | Some f \<Rightarrow> (case f (list_schedules m) w of (e, w1) \<Rightarrow> (e, (m, w1))))"

definition add_schedule :: "'w schedule_save \<Rightarrow> schedule \<Rightarrow> schedule_map \<times> 'w \<Rightarrow> go_error option \<times> (schedule_map \<times> 'w)" where
  "add_schedule save s = (\<lambda>(m, w).
     if sc_id s = [] then (Some (new_error ''peggy: schedule id is required''), (m, w))
     else save_schedules save (AList.update (sc_id s) s m) w)"

definition remove_schedule :: "'w schedule_save \<Rightarrow> string \<Rightarrow> schedule_map \<times> 'w
    \<Rightarrow> (bool \<times> go_error option) \<times> (schedule_map \<times> 'w)" where
  "remove_schedule save i = (\<lambda>(m, w).
     if map_of m i = None then ((False, None), (m, w))
     else (case save_schedules save (AList.delete i m) w of (e, s) \<Rightarrow> ((True, e), s)))"

definition update_schedule :: "'w schedule_save \<Rightarrow> schedule \<Rightarrow> schedule_map \<times> 'w
    \<Rightarrow> go_error option \<times> (schedule_map \<times> 'w)" where
  "update_schedule save s = (\<lambda>(m, w).
     if map_of m (sc_id s) = None then (None, (m, w))
     else save_schedules save (AList.update (sc_id s) s m) w)"

section \<open>Advancing a schedule\<close>

lemma next_after_None:
  assumes "step \<le> 0" "next \<le> now"
  shows "next_after step now next = None"
proof (rule ccontr)
  assume "next_after step now next \<noteq> None"
  then obtain y where y: "next_after step now next = Some y" by blast
  have "step \<le> 0 \<longrightarrow> next \<le> now \<longrightarrow> False"
  proof (rule next_after.raw_induct [where P = "\<lambda>step now next y. step \<le> 0 \<longrightarrow> next \<le> now \<longrightarrow> False", OF _ y])
    fix go :: "int \<Rightarrow> int \<Rightarrow> int \<Rightarrow> int option" and step now "next" y :: int
    assume ih: "\<And>step now next y. go step now next = Some y \<Longrightarrow> step \<le> 0 \<longrightarrow> next \<le> now \<longrightarrow> False"
      and eq: "(if next > now then Some next else go step now (next + step)) = Some y"
    show "step \<le> 0 \<longrightarrow> next \<le> now \<longrightarrow> False"
    proof (intro impI)
      assume s: "step \<le> 0" "next \<le> now"
      then have "go step now (next + step) = Some y" using eq by simp
      then show False using ih s by fastforce
    qed
  qed
  then show False using assms by blast
qed

text \<open>With a positive step the loop returns the first later time of the cadence.\<close>

lemma next_after_Some:
  assumes "0 < step"
  shows "next_after step now next =
    Some (if next > now then next else next + step * ((now - next) div step + 1))"
proof (induction "nat (now + 1 - next)" arbitrary: "next" rule: less_induct)
  case less
  show ?case
  proof (cases "next > now")
    case True
    then show ?thesis by (simp add: next_after.simps)
  next
    case False
    have "next_after step now next = next_after step now (next + step)" using False by (subst next_after.simps) simp
    also have "\<dots> = Some (if next + step > now then next + step
        else next + step + step * ((now - (next + step)) div step + 1))"
      by (rule less) (use False assms in simp)
    also have "\<dots> = Some (next + step * ((now - next) div step + 1))"
    proof (cases "next + step > now")
      case True
      then have "(now - next) div step = 0" using False by (simp add: div_pos_pos_trivial)
      then show ?thesis using True by simp
    next
      case small: False
      have "(now - (next + step)) div step = (now - next) div step - 1"
        using assms div_add_self2 [of step "now - next - step"] by (simp add: algebra_simps)
      then show ?thesis using small by (simp add: algebra_simps)
    qed
    finally show ?thesis using False by simp
  qed
qed

lemma interval_exact:
  assumes "0 < sc_every s" "sc_every s \<le> 9223372036"
  shows "interval s = sc_every s * ns_per_second" "0 < interval s"
  using assms by (simp_all add: interval_def wrap64_id ns_per_second_def)

lemma advance_recurring:
  assumes "recurring s"
  shows "advance now err s = (let step = interval s; first = sc_next s + step in
     if first > now then Some (s\<lparr>sc_last := Some now, sc_error := err, sc_next := first\<rparr>)
     else if step \<le> 0 then None
     else Some (s\<lparr>sc_last := Some now, sc_error := err, sc_next := first + step * ((now - first) div step + 1)\<rparr>))"
proof (cases "sc_next s + interval s > now")
  case True
  then show ?thesis using assms by (simp add: advance_def Let_def next_after.simps)
next
  case False
  then show ?thesis
    using assms next_after_None [of "interval s" "sc_next s + interval s" now]
      next_after_Some [of "interval s" now "sc_next s + interval s"]
    by (cases "interval s \<le> 0") (simp_all add: advance_def Let_def)
qed

lemma advance_once: "\<not> recurring s \<Longrightarrow> advance now err s = Some (s\<lparr>sc_last := Some now, sc_error := err\<rparr>)"
  by (simp add: advance_def Let_def)

lemma next_multiple:
  fixes step :: int
  assumes "0 < step" "first \<le> now"
  shows "first + step * ((now - first) div step + 1) > now" "first + step * ((now - first) div step) \<le> now"
proof -
  have m: "step * ((now - first) div step) + (now - first) mod step = now - first" by simp
  have "(now - first) mod step < step" "0 \<le> (now - first) mod step" using assms by simp_all
  then have "first + step * ((now - first) div step) \<le> now" "first + step * ((now - first) div step) + step > now"
    using m by linarith+
  then show "first + step * ((now - first) div step) \<le> now" "first + step * ((now - first) div step + 1) > now"
    by (simp_all only: distrib_left mult_1_right add.assoc)
qed

lemma advance_cases:
  "((\<exists>out. advance now err s = Some out) \<or> sc_every s > 9223372036)
   \<and> (advance now err s = None \<longleftrightarrow> recurring s \<and> interval s \<le> 0 \<and> sc_next s + interval s \<le> now)
   \<and> (case advance now err s of None \<Rightarrow> True
      | Some out \<Rightarrow> \<not> due now out \<and> sc_last out = Some now \<and> sc_error out = err
          \<and> (if recurring s then \<exists>k::nat. 1 \<le> k \<and> sc_next out = sc_next s + int k * interval s
               \<and> (k = 1 \<or> sc_next out - interval s \<le> now)
             else sc_next out = sc_next s))"
proof (cases "recurring s")
  case False
  then show ?thesis by (simp add: advance_once due_def schedule_done_def recurring_def)
next
  case rec: True
  let ?step = "interval s" and ?first = "sc_next s + interval s"
  have small: "?step > 0" if "sc_every s \<le> 9223372036" using that rec interval_exact(2) by (simp add: recurring_def)
  consider (now) "?first > now" | (wrapped) "?first \<le> now" "?step \<le> 0" | (later) "?first \<le> now" "0 < ?step" by linarith
  then show ?thesis
  proof cases
    case now
    then show ?thesis
      using rec by (auto simp: advance_recurring Let_def due_def intro!: exI [of _ "1 :: nat"])
  next
    case wrapped
    then have "sc_every s > 9223372036" using small by linarith
    then show ?thesis using rec wrapped by (simp add: advance_recurring Let_def)
  next
    case later
    let ?q = "(now - ?first) div ?step"
    have q: "0 \<le> ?q" using later by (simp add: pos_imp_zdiv_nonneg_iff)
    note m = next_multiple [OF later(2,1)]
    have k: "?first + ?step * (?q + 1) = sc_next s + int (nat (?q + 2)) * ?step" using q by (simp add: algebra_simps)
    have "advance now err s = Some (s\<lparr>sc_last := Some now, sc_error := err, sc_next := ?first + ?step * (?q + 1)\<rparr>)"
      using rec later by (simp add: advance_recurring Let_def)
    moreover have "\<exists>k::nat. 1 \<le> k \<and> ?first + ?step * (?q + 1) = sc_next s + int k * ?step
        \<and> (k = 1 \<or> ?first + ?step * (?q + 1) - ?step \<le> now)"
      using q m(2) k by (intro exI [of _ "nat (?q + 2)"]) (simp add: distrib_left)
    ultimately show ?thesis using rec m(1) later by (simp add: due_def)
  qed
qed

lemma advance_not_due: "advance now err s = Some out \<Longrightarrow> \<not> due now out"
  using advance_cases [of now err s] by simp

text \<open>C12. After a run no schedule is due at the time of the run. A recurring one keeps its cadence: its next time
  is the first one of the cadence after the last that is later than the run. The computation returns for
  every schedule of at most 9223372036 seconds, about 292 years; it fails to return exactly when the
  interval wraps to a value that is not positive and the next time has passed.\<close>

theorem advance_leaves_nothing_due:
  "((\<exists>out. advance now err s = Some out) \<or> sc_every s > 9223372036)
   \<and> (advance now err s = None \<longleftrightarrow> recurring s \<and> interval s \<le> 0 \<and> sc_next s + interval s \<le> now)
   \<and> (case advance now err s of None \<Rightarrow> True
      | Some out \<Rightarrow> \<not> due now out \<and> sc_last out = Some now \<and> sc_error out = err
          \<and> (if recurring s then \<exists>k::nat. 1 \<le> k \<and> sc_next out = sc_next s + int k * interval s
               \<and> (k = 1 \<or> sc_next out - interval s \<le> now)
             else sc_next out = sc_next s))"
  by (rule advance_cases)

lemma advance_never_returns:
  "advance 100 [] \<lparr>sc_id = ''x'', sc_kind = ''prompt'', sc_prompt = ''p'', sc_skill = [], sc_args = [], sc_tier = [], sc_session = [],
     sc_every = 9223372037, sc_at = None, sc_created = 0, sc_next = 50, sc_last = None, sc_error = []\<rparr> = None"
  by (simp add: advance_recurring recurring_def Let_def interval_def ns_per_second_def wrap64_def)

end
