(* ===== verification/Peggy_Scheduler.thy ===== *)
theory Peggy_Scheduler
  imports Peggy_Schedule Daemon_Runs
begin

text \<open>
  The scheduler of \<open>src/agents/peggy/scheduler.go\<close>: \<open>Tick\<close> takes a list of the schedules and then looks at
  them one by one; every run has its own goroutine, and clients add and remove schedules meanwhile. Each
  section under a mutex is one step. A run that has updated its schedule is still marked as running until
  its deferred \<open>finish\<close>.
\<close>

section \<open>The state and its steps\<close>

record 'w scheduler =
  sx_schedules :: schedule_map
  sx_running :: "string list"
  sx_tick :: "(go_time \<times> schedule list) option"
  sx_active :: "schedule list"
  sx_ending :: "string list"
  sx_fired :: "schedule list"
  sx_world :: 'w

definition new_scheduler :: "schedule list \<Rightarrow> 'w \<Rightarrow> 'w scheduler" where
  "new_scheduler ss w = \<lparr>sx_schedules = load_schedules ss, sx_running = [], sx_tick = None, sx_active = [],
     sx_ending = [], sx_fired = [], sx_world = w\<rparr>"

definition try_start :: "string \<Rightarrow> 'w scheduler \<Rightarrow> bool \<times> 'w scheduler" where
  "try_start i x = (if i \<in> set (sx_running x) then (False, x) else (True, x\<lparr>sx_running := i # sx_running x\<rparr>))"

definition finish_schedule :: "string \<Rightarrow> 'w scheduler \<Rightarrow> 'w scheduler" where
  "finish_schedule i x = x\<lparr>sx_running := removeAll i (sx_running x), sx_ending := remove1 i (sx_ending x)\<rparr>"

text \<open>One schedule of the list of a tick.\<close>

definition tick_one :: "go_time \<Rightarrow> schedule \<Rightarrow> 'w scheduler \<Rightarrow> 'w scheduler" where
  "tick_one now s x =
     (if \<not> due now s then x
      else case try_start (sc_id s) x of
        (False, x1) \<Rightarrow> x1
      | (True, x1) \<Rightarrow> x1\<lparr>sx_active := s # sx_active x1, sx_fired := s # sx_fired x1\<rparr>)"

text \<open>The end of \<open>execute\<close>: the copy of the schedule that the tick saw is advanced and stored. \<open>None\<close>: the
  computation of the next time does not return.\<close>

definition end_execute :: "'w schedule_save \<Rightarrow> go_time \<Rightarrow> string \<Rightarrow> schedule \<Rightarrow> 'w scheduler \<Rightarrow> 'w scheduler option" where
  "end_execute save now err s x =
     map_option (\<lambda>out. case update_schedule save out (sx_schedules x, sx_world x) of
         (e, (m, w)) \<Rightarrow> x\<lparr>sx_schedules := m, sx_world := w, sx_active := remove1 s (sx_active x),
           sx_ending := sc_id s # sx_ending x\<rparr>)
       (advance now err s)"

datatype schedule_call = CallPrompt string string | CallSkill string string metadata

text \<open>What \<open>ScheduleRunner\<close> runs for a schedule, and the permission it runs under.\<close>

definition call_of :: "schedule \<Rightarrow> schedule_call" where
  "call_of s = (if sc_kind s = ''skill'' then CallSkill (sc_session s) (sc_skill s) (sc_args s)
     else CallPrompt (sc_session s) (sc_prompt s))"

definition schedule_permission :: "schedule \<Rightarrow> 'w permission" where
  "schedule_permission s = tiered_permission None (sc_tier s) ''schedule''"

inductive sched_step :: "'w schedule_save \<Rightarrow> 'w scheduler \<Rightarrow> 'w scheduler \<Rightarrow> bool" for save where
  add: "add_schedule save s (sx_schedules x, sx_world x) = (e, (m, w)) \<Longrightarrow>
     sched_step save x (x\<lparr>sx_schedules := m, sx_world := w\<rparr>)"
| remove: "remove_schedule save i (sx_schedules x, sx_world x) = (r, (m, w)) \<Longrightarrow>
     sched_step save x (x\<lparr>sx_schedules := m, sx_world := w\<rparr>)"
| tick: "sx_tick x = None \<Longrightarrow> sched_step save x (x\<lparr>sx_tick := Some (now, list_schedules (sx_schedules x))\<rparr>)"
| look: "sx_tick x = Some (now, s # ss) \<Longrightarrow> sched_step save x ((tick_one now s x)\<lparr>sx_tick := Some (now, ss)\<rparr>)"
| tick_end: "sx_tick x = Some (now, []) \<Longrightarrow> sched_step save x (x\<lparr>sx_tick := None\<rparr>)"
| execute: "s \<in> set (sx_active x) \<Longrightarrow> end_execute save now err s x = Some x' \<Longrightarrow> sched_step save x x'"
| finish: "i \<in> set (sx_ending x) \<Longrightarrow> sched_step save x (finish_schedule i x)"
| elsewhere: "sched_step save x (x\<lparr>sx_world := w\<rparr>)"

inductive sched_reach :: "'w schedule_save \<Rightarrow> 'w scheduler \<Rightarrow> bool" for save where
  start: "sched_reach save (new_scheduler ss w)"
| step: "sched_reach save x \<Longrightarrow> sched_step save x x' \<Longrightarrow> sched_reach save x'"

inductive_cases sched_stepE: "sched_step save x x'"

section \<open>Invariant\<close>

definition keyed :: "schedule_map \<Rightarrow> bool" where
  "keyed m \<longleftrightarrow> distinct (map fst m) \<and> list_all (\<lambda>(i, s). sc_id s = i \<and> i \<noteq> []) m"

definition sched_ok :: "'w scheduler \<Rightarrow> bool" where
  "sched_ok x \<longleftrightarrow> keyed (sx_schedules x) \<and> distinct (map sc_id (sx_active x) @ sx_ending x)
     \<and> set (sx_running x) = set (map sc_id (sx_active x) @ sx_ending x)"

lemma keyed_update: "keyed m \<Longrightarrow> sc_id s \<noteq> [] \<Longrightarrow> keyed (AList.update (sc_id s) s m)"
  using set_AList_update [of m "sc_id s" s] by (auto simp: keyed_def distinct_update list_all_iff)

lemma set_list_schedules: "set (list_schedules m) = snd ` set m"
  by (simp add: list_schedules_def)

lemma save_schedules_map: "save_schedules save m w = (e, (m', w')) \<Longrightarrow> m' = m"
  by (auto simp: save_schedules_def split: option.splits prod.splits)

lemma keyed_add: "add_schedule save s (m, w) = (e, (m', w')) \<Longrightarrow> keyed m \<Longrightarrow> keyed m'"
  by (auto simp: add_schedule_def keyed_update dest!: save_schedules_map split: if_splits)

lemma keyed_delete: "keyed m \<Longrightarrow> keyed (AList.delete i m)"
  by (auto simp: keyed_def distinct_delete list_all_iff set_AList_delete)

lemma keyed_remove:
  assumes "remove_schedule save i (m, w) = (r, (m', w'))" "keyed m"
  shows "keyed m'"
proof (cases "map_of m i = None")
  case False
  obtain e m1 w1 where "save_schedules save (AList.delete i m) w = (e, (m1, w1))" by (metis surj_pair)
  then have "m' = AList.delete i m" using assms(1) False save_schedules_map by (fastforce simp: remove_schedule_def)
  then show ?thesis using keyed_delete [OF assms(2)] by simp
qed (use assms in \<open>simp add: remove_schedule_def\<close>)

lemma update_schedule_map:
  "update_schedule save s (m, w) = (e, (m', w')) \<Longrightarrow>
     m' = (if map_of m (sc_id s) = None then m else AList.update (sc_id s) s m)"
  by (auto simp: update_schedule_def dest!: save_schedules_map split: if_splits)

lemma keyed_ids: "keyed m \<Longrightarrow> map_of m i \<noteq> None \<Longrightarrow> i \<noteq> []"
  by (auto simp: keyed_def list_all_iff dest!: map_of_SomeD)

lemma keyed_schedule_update: "update_schedule save s (m, w) = (e, (m', w')) \<Longrightarrow> keyed m \<Longrightarrow> keyed m'"
  by (drule update_schedule_map) (auto simp: keyed_update keyed_ids)

lemma advance_id: "advance now err s = Some out \<Longrightarrow> sc_id out = sc_id s"
  by (auto simp: advance_def Let_def split: if_splits)

lemma load_keyed: "keyed (load_schedules ss)"
  unfolding load_schedules_def
  by (rule fold_invariant_all) (auto simp: keyed_update, simp add: keyed_def)

lemma tick_one_ok: "sched_ok x \<Longrightarrow> sched_ok (tick_one now s x)"
  by (auto simp: tick_one_def try_start_def sched_ok_def)

lemma distinct_moved: "s \<in> set xs \<Longrightarrow> distinct (map f xs @ ys) \<Longrightarrow>
    distinct (map f (remove1 s xs) @ f s # ys) \<and> set (map f (remove1 s xs) @ f s # ys) = set (map f xs @ ys)"
proof -
  assume s: "s \<in> set xs" and d: "distinct (map f xs @ ys)"
  from s obtain as bs where "xs = as @ s # bs" "s \<notin> set as" using split_list_first by fastforce
  then show ?thesis using d by (auto simp: remove1_append)
qed

lemma end_execute_ok:
  assumes "sched_ok x" "s \<in> set (sx_active x)" "end_execute save now err s x = Some x'"
  shows "sched_ok x'"
proof -
  obtain out where a: "advance now err s = Some out" using assms(3) by (auto simp: end_execute_def)
  obtain e m w where u: "update_schedule save out (sx_schedules x, sx_world x) = (e, (m, w))" by (metis surj_pair)
  have o:
    "x' = x\<lparr>sx_schedules := m, sx_world := w, sx_active := remove1 s (sx_active x), sx_ending := sc_id s # sx_ending x\<rparr>"
    using assms(3) a u by (simp add: end_execute_def)
  have "keyed m" using keyed_schedule_update [OF u] assms(1) by (simp add: sched_ok_def)
  then show ?thesis using o assms(1) distinct_moved [OF assms(2), of sc_id "sx_ending x"] by (simp add: sched_ok_def)
qed

lemma finish_ok:
  assumes "sched_ok x" "i \<in> set (sx_ending x)"
  shows "sched_ok (finish_schedule i x)"
  using assms by (auto simp: sched_ok_def finish_schedule_def)

lemma sched_step_ok: "sched_step save x x' \<Longrightarrow> sched_ok x \<Longrightarrow> sched_ok x'"
proof (erule sched_stepE)
  fix s e m w
  assume "sched_ok x" "x' = x\<lparr>sx_schedules := m, sx_world := w\<rparr>" "add_schedule save s (sx_schedules x, sx_world x) = (e, m, w)"
  then show "sched_ok x'" using keyed_add [of save s "sx_schedules x" "sx_world x" e m w] by (simp add: sched_ok_def)
next
  fix i r m w
  assume "sched_ok x" "x' = x\<lparr>sx_schedules := m, sx_world := w\<rparr>" "remove_schedule save i (sx_schedules x, sx_world x) = (r, m, w)"
  then show "sched_ok x'" using keyed_remove [of save i "sx_schedules x" "sx_world x" r m w] by (simp add: sched_ok_def)
next
  fix now s ss
  assume "sched_ok x" "x' = (tick_one now s x)\<lparr>sx_tick := Some (now, ss)\<rparr>"
  then show "sched_ok x'" using tick_one_ok [of x now s] by (simp add: sched_ok_def)
next
  fix s now err
  assume "sched_ok x" "s \<in> set (sx_active x)" "end_execute save now err s x = Some x'"
  then show "sched_ok x'" by (rule end_execute_ok)
next
  fix i
  assume "sched_ok x" "x' = finish_schedule i x" "i \<in> set (sx_ending x)"
  then show "sched_ok x'" using finish_ok by simp
qed (simp_all add: sched_ok_def)

lemma sched_reach_ok: "sched_reach save x \<Longrightarrow> sched_ok x"
proof (induction rule: sched_reach.induct)
  case (start ss w)
  then show ?case by (simp add: sched_ok_def new_scheduler_def load_keyed)
next
  case (step x x')
  then show ?case using sched_step_ok by blast
qed

section \<open>Properties\<close>

lemma advance_fields:
  "advance now err s = Some out \<Longrightarrow>
     sc_last out = Some now \<and> sc_error out = err \<and> (\<not> recurring s \<longrightarrow> schedule_done out)"
  by (auto simp: advance_def Let_def schedule_done_def recurring_def split: if_splits)

text \<open>The store after the end of a run: the entry of the schedule, if it is still there, is the advanced
  copy; every other entry is as before.\<close>

lemma end_execute_store:
  assumes "end_execute save now err s x = Some x'"
  shows "\<exists>out. advance now err s = Some out \<and> sc_id out = sc_id s
    \<and> map_of (sx_schedules x') = (if map_of (sx_schedules x) (sc_id s) = None then map_of (sx_schedules x)
          else (map_of (sx_schedules x))(sc_id s \<mapsto> out))
    \<and> sx_active x' = remove1 s (sx_active x) \<and> sx_ending x' = sc_id s # sx_ending x"
proof -
  obtain out where a: "advance now err s = Some out" using assms by (auto simp: end_execute_def)
  obtain e m w where u: "update_schedule save out (sx_schedules x, sx_world x) = (e, (m, w))" by (metis surj_pair)
  have i: "sc_id out = sc_id s" using a by (rule advance_id)
  have "m = (if map_of (sx_schedules x) (sc_id s) = None then sx_schedules x
      else AList.update (sc_id s) out (sx_schedules x))"
    using update_schedule_map [OF u] by (simp add: i)
  then show ?thesis using assms a u i by (auto simp: end_execute_def update_conv')
qed

text \<open>C24. Whatever ticks, runs and changes of the store are interleaved, no schedule has two runs at the same
  time, exactly the schedules with a run, or with one that has not been unmarked yet, are marked, and the
  store has every schedule once, under its id. The end of a run stores the advanced copy of its schedule if
  the schedule is still there, with the time and the error of the run, not due at that time and, for a
  one-shot schedule, done; a removed schedule does not come back and no other schedule changes. The end is
  only missing when the computation of the next firing does not return.\<close>

theorem runs_do_not_overlap:
  assumes "sched_reach save x"
  shows "distinct (map sc_id (sx_active x) @ sx_ending x)
    \<and> set (sx_running x) = sc_id ` set (sx_active x) \<union> set (sx_ending x)
    \<and> distinct (map fst (sx_schedules x)) \<and> list_all (\<lambda>(i, s). sc_id s = i) (sx_schedules x)
    \<and> (case end_execute save now err s x of None \<Rightarrow> advance now err s = None
       | Some x' \<Rightarrow>
           map_of (sx_schedules x') = (map_of (sx_schedules x))
             (sc_id s := (if map_of (sx_schedules x) (sc_id s) = None then None else advance now err s))
           \<and> sx_active x' = remove1 s (sx_active x) \<and> sx_ending x' = sc_id s # sx_ending x
           \<and> (case map_of (sx_schedules x') (sc_id s) of None \<Rightarrow> map_of (sx_schedules x) (sc_id s) = None
              | Some t \<Rightarrow> \<not> due now t \<and> sc_last t = Some now \<and> sc_error t = err
                  \<and> (recurring s \<or> schedule_done t)))"
proof -
  have o: "sched_ok x" using assms by (rule sched_reach_ok)
  show ?thesis
  proof (cases "end_execute save now err s x")
    case None
    then have "advance now err s = None" by (simp add: end_execute_def)
    then show ?thesis using o None by (simp add: sched_ok_def keyed_def list_all_iff case_prod_unfold)
  next
    case (Some x')
    from end_execute_store [OF this] obtain out where out: "advance now err s = Some out"
      and m: "map_of (sx_schedules x') = (if map_of (sx_schedules x) (sc_id s) = None then map_of (sx_schedules x)
          else (map_of (sx_schedules x))(sc_id s \<mapsto> out))"
      and l: "sx_active x' = remove1 s (sx_active x)" "sx_ending x' = sc_id s # sx_ending x" by blast
    have "map_of (sx_schedules x') = (map_of (sx_schedules x))
        (sc_id s := (if map_of (sx_schedules x) (sc_id s) = None then None else advance now err s))"
      by (rule ext) (simp add: m out)
    then show ?thesis
      using o Some l advance_not_due [OF out] advance_fields [OF out]
      by (cases "recurring s") (simp_all add: sched_ok_def keyed_def list_all_iff case_prod_unfold out)
  qed
qed

definition once_at_50 :: schedule where
  "once_at_50 = \<lparr>sc_id = ''x'', sc_kind = ''prompt'', sc_prompt = ''p'', sc_skill = [], sc_args = [], sc_tier = tier_trusted,
     sc_session = ''s'', sc_every = 0, sc_at = Some 50, sc_created = 0, sc_next = 50, sc_last = None, sc_error = []\<rparr>"

definition sample_scheduler :: "schedule \<Rightarrow> schedule list option \<Rightarrow> schedule list \<Rightarrow> string list \<Rightarrow> schedule list
    \<Rightarrow> nat scheduler" where
  "sample_scheduler stored todo act fin fired = \<lparr>sx_schedules = [(''x'', stored)], sx_running = map sc_id act @ fin,
     sx_tick = map_option (Pair 60) todo, sx_active = act, sx_ending = fin, sx_fired = fired, sx_world = 0\<rparr>"

lemma sample_list: "list_schedules [(''x'', s)] = [s]"
  by (simp add: list_schedules_def sort_by_def)

lemma first_run_reached:
  "sched_reach None (sample_scheduler once_at_50 (Some [once_at_50]) [once_at_50] [] [once_at_50])"
proof -
  let ?s = "once_at_50"
  have d: "due 60 ?s" by (simp add: once_at_50_def due_def schedule_done_def recurring_def)
  have "new_scheduler [?s] (0 :: nat) = sample_scheduler ?s None [] [] []"
    by (simp add: new_scheduler_def sample_scheduler_def load_schedules_def once_at_50_def)
  then have 0: "sched_reach None (sample_scheduler ?s None [] [] [])" using sched_reach.start [of None "[?s]" "0 :: nat"] by simp
  from sched_reach.step [OF 0 sched_step.tick [where now = 60]]
  have 1: "sched_reach None (sample_scheduler ?s (Some [?s]) [] [] [])" by (simp add: sample_scheduler_def sample_list)
  from sched_reach.step [OF 1 sched_step.look [where now = 60 and s = ?s and ss = "[]"]]
  have 2: "sched_reach None (sample_scheduler ?s (Some []) [?s] [] [?s])"
    using d by (simp add: sample_scheduler_def tick_one_def try_start_def)
  from sched_reach.step [OF 2 sched_step.tick_end [where now = 60]]
  have 3: "sched_reach None (sample_scheduler ?s None [?s] [] [?s])" by (simp add: sample_scheduler_def)
  from sched_reach.step [OF 3 sched_step.tick [where now = 60]]
  show ?thesis by (simp add: sample_scheduler_def sample_list)
qed

lemma once_ends:
  "end_execute None 55 [] once_at_50 (sample_scheduler once_at_50 (Some [once_at_50]) [once_at_50] [] [once_at_50])
     = Some (sample_scheduler (once_at_50\<lparr>sc_last := Some 55\<rparr>) (Some [once_at_50]) [] [''x''] [once_at_50])"
proof -
  have r: "\<not> recurring once_at_50" by (simp add: once_at_50_def recurring_def)
  show ?thesis
    unfolding end_execute_def advance_once [OF r] option.map
    by (simp add: update_schedule_def save_schedules_def sample_scheduler_def once_at_50_def)
qed

text \<open>A tick that takes its list while the run is in flight, and looks at the schedule after the run has ended,
  still sees the old copy: a one-shot schedule fires a second time.\<close>

lemma one_shot_fires_twice:
  "\<exists>x :: nat scheduler. sched_reach None x \<and> sx_fired x = [once_at_50, once_at_50] \<and> \<not> recurring once_at_50"
proof -
  let ?s = "once_at_50" and ?t = "once_at_50\<lparr>sc_last := Some 55\<rparr>"
  have d: "due 60 ?s" and r: "\<not> recurring ?s" by (simp_all add: once_at_50_def due_def schedule_done_def recurring_def)
  from sched_reach.step [OF first_run_reached sched_step.execute [OF _ once_ends]]
  have 5: "sched_reach None (sample_scheduler ?t (Some [?s]) [] [''x''] [?s])" by (simp add: sample_scheduler_def)
  from sched_reach.step [OF 5 sched_step.finish [where i = "''x''"]]
  have 6: "sched_reach None (sample_scheduler ?t (Some [?s]) [] [] [?s])"
    by (simp add: sample_scheduler_def finish_schedule_def)
  from sched_reach.step [OF 6 sched_step.look [where now = 60 and s = ?s and ss = "[]"]]
  have "sched_reach None (sample_scheduler ?t (Some []) [?s] [] [?s, ?s])"
    using d by (simp add: sample_scheduler_def tick_one_def try_start_def)
  then show ?thesis using r by (auto simp: sample_scheduler_def)
qed

theorem runs_do_not_overlap_witness:
  "sched_reach None (sample_scheduler once_at_50 (Some [once_at_50]) [once_at_50] [] [once_at_50])
   \<and> distinct (map sc_id (sx_active (sample_scheduler once_at_50 (Some [once_at_50]) [once_at_50] [] [once_at_50])) @ [])
   \<and> \<not> due 55 (once_at_50\<lparr>sc_last := Some 55\<rparr>)"
  using first_run_reached runs_do_not_overlap [OF first_run_reached, of 55 "[]" once_at_50]
  unfolding once_ends by (simp add: sample_scheduler_def once_at_50_def)

end
