(* ===== verification/Failover.thy ===== *)
theory Failover
  imports Agent_Loop
begin

text \<open>
  The failover provider, \<open>src/failover.go\<close>: the providers are tried in order until one accepts the
  request and its stream starts with something other than an error. The wrapper reads the first event
  without watching the context, so a stream that ends with the context before any event is, like one
  that is closed at once, an empty stream. Committing to a stream forwards all of it.
\<close>

definition failover_error :: "(nat \<times> go_error) list \<Rightarrow> go_error" where
  "failover_error attempts = new_error (''all providers failed: ''
     @ join ''; '' (map (\<lambda>(i, e). ''provider['' @ itoa i @ '']: '' @ err_text e) attempts))"

text \<open>Why a stream is not taken.\<close>

definition stream_refusal :: "stream \<Rightarrow> go_error option" where
  "stream_refusal items =
     (case items of
        (now, RecvEvent e) # _ \<Rightarrow> (case e of PError t \<Rightarrow> Some (new_error t) | _ \<Rightarrow> None)
      | _ \<Rightarrow> Some (new_error ''empty stream''))"

fun try_providers :: "nat \<Rightarrow> (nat \<times> go_error) list \<Rightarrow> 'w provider list \<Rightarrow> 'w provider" where
  "try_providers i attempts [] q w = (Inl (failover_error attempts), w)"
| "try_providers i attempts (p # ps) q w =
     (case p q w of
        (Inl e, w1) \<Rightarrow> try_providers (Suc i) (attempts @ [(i, e)]) ps q w1
      | (Inr items, w1) \<Rightarrow>
          (case stream_refusal items of
             Some e \<Rightarrow> try_providers (Suc i) (attempts @ [(i, e)]) ps q w1
           | None \<Rightarrow> (Inr items, w1)))"

definition with_failover :: "'w provider list \<Rightarrow> 'w provider" where
  "with_failover ps q w =
     (if ps = [] then (Inl (new_error ''WithFailover: no providers''), w) else try_providers 0 [] ps q w)"

section \<open>Which provider answers\<close>

text \<open>The providers that refuse one after the other, with the reason of each and the world they leave.\<close>

inductive all_refuse :: "provider_request \<Rightarrow> 'w provider list \<Rightarrow> 'w \<Rightarrow> go_error list \<Rightarrow> 'w \<Rightarrow> bool" for q where
  none: "all_refuse q [] w [] w"
| rejects: "p q w = (Inl e, w1) \<Longrightarrow> all_refuse q ps w1 es w' \<Longrightarrow> all_refuse q (p # ps) w (e # es) w'"
| unusable: "p q w = (Inr items, w1) \<Longrightarrow> stream_refusal items = Some e \<Longrightarrow> all_refuse q ps w1 es w'
    \<Longrightarrow> all_refuse q (p # ps) w (e # es) w'"

inductive_cases all_refuse_NilE [elim!]: "all_refuse q [] w es w'"
inductive_cases all_refuse_ConsE [elim!]: "all_refuse q (p # ps) w es w'"

lemma all_refuse_length: "all_refuse q ps w es w' \<Longrightarrow> length es = length ps"
  by (induction rule: all_refuse.induct) simp_all

lemma try_providers_outcome:
  "(\<exists>es w1. all_refuse q ps w es w1 \<and> try_providers i attempts ps q w
        = (Inl (failover_error (attempts @ zip [i..<i + length ps] es)), w1))
   \<or> (\<exists>before p after es w1 items w2. ps = before @ p # after \<and> all_refuse q before w es w1
        \<and> p q w1 = (Inr items, w2) \<and> stream_refusal items = None
        \<and> try_providers i attempts ps q w = (Inr items, w2))"
proof (induction ps arbitrary: i attempts w)
  case Nil
  show ?case by (intro disjI1 exI [of _ "[]"] exI [of _ w]) (simp add: all_refuse.none)
next
  case (Cons p ps)
  have step: ?case if "\<And>es w2. all_refuse q ps w1 es w2 \<Longrightarrow> all_refuse q (p # ps) w (e # es) w2"
      and next_one: "try_providers i attempts (p # ps) q w = try_providers (Suc i) (attempts @ [(i, e)]) ps q w1"
      and pre: "\<And>before es w2. all_refuse q before w1 es w2 \<Longrightarrow> all_refuse q (p # before) w (e # es) w2" for e w1
  proof -
    have z: "attempts @ zip [i..<i + length (p # ps)] (e # es) = (attempts @ [(i, e)]) @ zip [Suc i..<Suc i + length ps] es" for es
      by (simp add: upt_conv_Cons del: upt_Suc)
    from Cons.IH [of w1 "Suc i" "attempts @ [(i, e)]"] show ?thesis
    proof (elim disjE exE conjE)
      fix es w2
      assume "all_refuse q ps w1 es w2"
        "try_providers (Suc i) (attempts @ [(i, e)]) ps q w1 = (Inl (failover_error ((attempts @ [(i, e)]) @ zip [Suc i..<Suc i + length ps] es)), w2)"
      then show ?thesis using that(1) next_one z by metis
    next
      fix before p' after es w2 items w3
      assume "ps = before @ p' # after" "all_refuse q before w1 es w2" "p' q w2 = (Inr items, w3)" "stream_refusal items = None"
        "try_providers (Suc i) (attempts @ [(i, e)]) ps q w1 = (Inr items, w3)"
      then show ?thesis using pre next_one by (metis append_Cons)
    qed
  qed
  show ?case
  proof (cases "p q w")
    case (Pair r w1)
    show ?thesis
    proof (cases r)
      case (Inl e)
      show ?thesis by (rule step [of w1 e]) (use Pair Inl in \<open>auto intro: all_refuse.rejects\<close>)
    next
      case (Inr items)
      show ?thesis
      proof (cases "stream_refusal items")
        case None
        then show ?thesis using Pair Inr
          by (intro disjI2 exI [of _ "[]"] exI [of _ p] exI [of _ ps] exI [of _ w] exI [of _ items] exI [of _ w1])
             (simp add: all_refuse.none)
      next
        case (Some e)
        show ?thesis by (rule step [of w1 e]) (use Pair Inr Some in \<open>auto intro: all_refuse.unusable\<close>)
      qed
    qed
  qed
qed

text \<open>C35. A turn through the failover provider is the turn of the first provider that does not refuse,
  taken in the world the refusals before it left; nothing of a refused stream reaches the turn. When
  all refuse, the turn fails without an event, with the reasons of all of them in order.\<close>

theorem failover_turn:
  assumes "ps \<noteq> []"
  shows "(\<exists>es w1. all_refuse (provider_request_of rq ms) ps w es w1 \<and> length es = length ps
        \<and> run_assistant_turn (with_failover ps) rq ms w
          = (Inl (wrap_error ''loop: provider stream: '' (failover_error (zip [0..<length ps] es)) []), [], w1))
   \<or> (\<exists>before p after es w1 items w2. ps = before @ p # after \<and> all_refuse (provider_request_of rq ms) before w es w1
        \<and> p (provider_request_of rq ms) w1 = (Inr items, w2) \<and> stream_refusal items = None
        \<and> run_assistant_turn (with_failover ps) rq ms w = run_assistant_turn p rq ms w1)"
  using try_providers_outcome [of "provider_request_of rq ms" ps w 0 "[]"]
proof (elim disjE exE conjE)
  fix es w1
  assume r: "all_refuse (provider_request_of rq ms) ps w es w1"
    "try_providers 0 [] ps (provider_request_of rq ms) w = (Inl (failover_error ([] @ zip [0..<0 + length ps] es)), w1)"
  show ?thesis
    by (rule disjI1, rule exI [of _ es], rule exI [of _ w1])
       (use assms r all_refuse_length [OF r(1)] in \<open>simp add: run_assistant_turn_def with_failover_def\<close>)
next
  fix before p after es w1 items w2
  assume r: "ps = before @ p # after" "all_refuse (provider_request_of rq ms) before w es w1"
    "p (provider_request_of rq ms) w1 = (Inr items, w2)" "stream_refusal items = None"
    "try_providers 0 [] ps (provider_request_of rq ms) w = (Inr items, w2)"
  have "run_assistant_turn (with_failover ps) rq ms w = run_assistant_turn p rq ms w1"
    using assms r(3,5) by (simp add: run_assistant_turn_def with_failover_def)
  then show ?thesis using r(1-4) by blast
qed

text \<open>A provider that rejects every request, one whose stream is empty, and one that answers.\<close>

definition refusing :: "nat provider" where
  "refusing q w = (Inl (new_error ''503''), Suc w)"

definition silent :: "nat provider" where
  "silent q w = (Inr [], Suc w)"

definition answering :: "nat provider" where
  "answering q w = (Inr [(1, RecvEvent (PTextDelta 0 ''hi'')), (2, RecvEvent (PDone None))], Suc w)"

theorem failover_turn_witness:
  "\<forall>rq ms. run_assistant_turn (with_failover [refusing, silent, answering]) rq ms 0 = run_assistant_turn answering rq ms 2"
proof (intro allI)
  fix rq :: "nat run_request" and ms
  have "[refusing, silent, answering] \<noteq> []" by simp
  from failover_turn [OF this, of rq ms 0]
  show "run_assistant_turn (with_failover [refusing, silent, answering]) rq ms 0 = run_assistant_turn answering rq ms 2"
    by (auto simp: refusing_def silent_def answering_def stream_refusal_def append_eq_Cons_conv Cons_eq_append_conv numeral_2_eq_2)
qed

end
