(* ===== verification/Peggy_Memory.thy ===== *)
theory Peggy_Memory
  imports Session_Store Go_Time "HOL-Library.Multiset"
begin

text \<open>
  Curated memories of the Peggy assistant: \<open>src/agents/peggy/memory.go\<close> (the \<open>__memories__\<close> session,
  adding, listing, forgetting) and \<open>src/agents/peggy/memory_backup.go\<close> (export, validation, import).
  SHA-256 and the Unicode lower-casing of \<open>strings.ToLower\<close> are parameters, and so are the JSON
  decoders of a backup. \<open>sort.Slice\<close> is modelled as a stable sort; nothing below depends on the order
  of memories with equal times.
\<close>

section \<open>White space and times\<close>

text \<open>\<open>strings.Fields\<close>: the maximal runs of runes that are not white space.\<close>

fun field_runs :: "(nat \<times> string) list \<Rightarrow> string \<Rightarrow> string list" where
  "field_runs [] cur = (if cur = [] then [] else [cur])"
| "field_runs ((r, bs) # rs) cur =
     (if space_rune r then (if cur = [] then [] else [cur]) @ field_runs rs [] else field_runs rs (cur @ bs))"

definition word_fields :: "string \<Rightarrow> string list" where
  "word_fields s = field_runs (runes s) []"

text \<open>\<open>Format(time.RFC3339Nano)\<close> of a UTC instant: the fraction without its trailing zeros.\<close>

definition rfc3339_nano :: "go_time \<Rightarrow> string" where
  "rfc3339_nano t =
     (let frac = trim_right_set ''0'' (pad 9 (t mod ns_per_second))
      in butlast (rfc3339 t) @ (if frac = [] then [] else ''.'' @ frac) @ ''Z'')"

definition unix_epoch :: go_time where "unix_epoch = 62135596800 * ns_per_second"

text \<open>\<open>UnixNano\<close>: an \<open>int64\<close>, which wraps outside the years 1678 to 2262.\<close>

definition unix_nano :: "go_time \<Rightarrow> int" where
  "unix_nano t = (t - unix_epoch + 2 ^ 63) mod 2 ^ 64 - 2 ^ 63"

section \<open>Memories\<close>

definition memories_session_id :: string where "memories_session_id = ''__memories__''"

record memory =
  mem_id :: string
  mem_content :: string
  mem_tags :: "string list"
  mem_time :: go_time

definition memory_id :: "(bytes \<Rightarrow> bytes) \<Rightarrow> go_time \<Rightarrow> string \<Rightarrow> string" where
  "memory_id sha t content =
     ''mem_'' @ itoa_int (unix_nano t) @ ''_''
       @ concat (map (\<lambda>c. [hex_digit (code_of c div 16), hex_digit (code_of c mod 16)])
           (take 4 (sha (rfc3339_nano t @ [nl] @ trim_space content))))"

definition memory_text :: "content_part list \<Rightarrow> string" where
  "memory_text ps = fold (\<lambda>p acc. if part_type p \<noteq> TypeText then acc
     else (if acc = [] then [] else acc @ [nl]) @ part_text p) ps []"

fun meta_tags :: "meta_value option \<Rightarrow> string list" where
  "meta_tags (Some (MStrings xs)) = xs"
| "meta_tags (Some (MList vs)) = List.map_filter (\<lambda>v. case v of MStr s \<Rightarrow> Some s | _ \<Rightarrow> None) vs"
| "meta_tags _ = []"

definition memory_from_message :: "(bytes \<Rightarrow> bytes) \<Rightarrow> message \<Rightarrow> memory option" where
  "memory_from_message sha m =
     (let content = trim_space (memory_text (msg_content m));
          given = (case map_of (msg_meta m) ''id'' of Some (MStr i) \<Rightarrow> trim_space i | _ \<Rightarrow> [])
      in if msg_role m \<noteq> RoleAssistant \<or> content = [] then None
         else Some \<lparr>mem_id = (if given = [] then memory_id sha (msg_created m) content else given),
           mem_content = content, mem_tags = meta_tags (map_of (msg_meta m) ''tags''), mem_time = msg_created m\<rparr>)"

definition zero_state :: session_state where
  "zero_state = \<lparr>ss_version = 0, ss_id = [], ss_messages = [], ss_metadata = [], ss_created = 0, ss_updated = 0\<rparr>"

definition load_memories :: "'w store \<Rightarrow> 'w \<Rightarrow> (go_error + session_state) \<times> 'w" where
  "load_memories sto w =
     (case sto_load sto memories_session_id w of
        (Inl e, w1) \<Rightarrow> (Inl e, w1)
      | (Inr found, w1) \<Rightarrow> (Inr (case found of None \<Rightarrow> zero_state | Some st \<Rightarrow> st), w1))"

definition save_memories :: "'w store \<Rightarrow> session_state \<Rightarrow> 'a \<Rightarrow> 'w \<Rightarrow> (go_error + 'a) \<times> 'w" where
  "save_memories sto st x w =
     (case sto_save sto memories_session_id st w of
        (Some e, w1) \<Rightarrow> (Inl (wrap_error ''peggy: save memories: '' e []), w1)
      | (None, w1) \<Rightarrow> (Inr x, w1))"

definition add_memory :: "(bytes \<Rightarrow> bytes) \<Rightarrow> 'w store option \<Rightarrow> go_time \<Rightarrow> string \<Rightarrow> string list \<Rightarrow> 'w
    \<Rightarrow> (go_error + memory) \<times> 'w" where
  "add_memory sha sto now content0 tags w =
     (case sto of
        None \<Rightarrow> (Inl (new_error ''peggy: AddMemory: not initialised''), w)
      | Some s \<Rightarrow>
          (let content = trim_space content0 in
           if content = [] then (Inl (new_error ''peggy: AddMemory: content is required''), w)
           else case load_memories s w of
             (Inl e, w1) \<Rightarrow> (Inl (wrap_error ''peggy: load memories: '' e []), w1)
           | (Inr st, w1) \<Rightarrow>
               (let st1 = (if ss_id st \<noteq> [] then st
                      else st\<lparr>ss_id := memories_session_id, ss_version := session_state_version, ss_created := now\<rparr>);
                    i = memory_id sha now content;
                    m = zero_message\<lparr>msg_role := RoleAssistant, msg_content := [text_part content],
                      msg_meta := [(''id'', MStr i), (''memory'', MBool True), (''tags'', MStrings tags)],
                      msg_created := now\<rparr>
                in save_memories s (st1\<lparr>ss_messages := ss_messages st1 @ [m], ss_updated := now\<rparr>)
                     \<lparr>mem_id = i, mem_content = content, mem_tags = tags, mem_time = now\<rparr> w1)))"

definition newer :: "memory \<Rightarrow> memory \<Rightarrow> bool" where
  "newer a b \<longleftrightarrow> mem_time b < mem_time a"

definition list_memories :: "(bytes \<Rightarrow> bytes) \<Rightarrow> 'w store option \<Rightarrow> 'w \<Rightarrow> (go_error + memory list) \<times> 'w" where
  "list_memories sha sto w =
     (case sto of
        None \<Rightarrow> (Inl (new_error ''peggy: ListMemories: not initialised''), w)
      | Some s \<Rightarrow>
          (case load_memories s w of
             (Inl e, w1) \<Rightarrow> (Inl e, w1)
           | (Inr st, w1) \<Rightarrow> (Inr (sort_by newer (List.map_filter (memory_from_message sha) (ss_messages st))), w1)))"

text \<open>The first message that reads as a memory with the id is dropped; the rest is kept in order.\<close>

fun drop_memory :: "(bytes \<Rightarrow> bytes) \<Rightarrow> string \<Rightarrow> message list \<Rightarrow> (memory \<times> message list) option" where
  "drop_memory sha i [] = None"
| "drop_memory sha i (m # ms) =
     (case memory_from_message sha m of
        Some x \<Rightarrow> if mem_id x = i then Some (x, ms) else map_option (apsnd ((#) m)) (drop_memory sha i ms)
      | None \<Rightarrow> map_option (apsnd ((#) m)) (drop_memory sha i ms))"

definition forget_memory :: "(bytes \<Rightarrow> bytes) \<Rightarrow> 'w store option \<Rightarrow> go_time \<Rightarrow> string \<Rightarrow> 'w
    \<Rightarrow> (go_error + memory) \<times> 'w" where
  "forget_memory sha sto now i0 w =
     (case sto of
        None \<Rightarrow> (Inl (new_error ''peggy: ForgetMemory: not initialised''), w)
      | Some s \<Rightarrow>
          (let i = trim_space i0 in
           if i = [] then (Inl (new_error ''peggy: ForgetMemory: id is required''), w)
           else case load_memories s w of
             (Inl e, w1) \<Rightarrow> (Inl (wrap_error ''peggy: load memories: '' e []), w1)
           | (Inr st, w1) \<Rightarrow>
               (case drop_memory sha i (ss_messages st) of
                  None \<Rightarrow> (Inl (new_error (''peggy: memory '' @ quote i @ '' not found'')), w1)
                | Some (x, ms) \<Rightarrow> save_memories s (st\<lparr>ss_messages := ms, ss_updated := now\<rparr>) x w1)))"

section \<open>Backups\<close>

definition memory_backup_kind :: string where "memory_backup_kind = ''peggy.memories''"
definition memory_backup_version :: int where "memory_backup_version = 1"

record memory_backup =
  mb_version :: int
  mb_kind :: string
  mb_exported :: go_time
  mb_memories :: "memory list"

record import_entry =
  ie_id :: string
  ie_status :: string
  ie_reason :: string

record import_report =
  ir_dry :: bool
  ir_would :: int
  ir_imported :: int
  ir_skipped :: int
  ir_entries :: "import_entry list"

definition export_before :: "memory \<Rightarrow> memory \<Rightarrow> bool" where
  "export_before a b \<longleftrightarrow>
     (if mem_time a = mem_time b then mem_id a < mem_id b else mem_time a < mem_time b)"

definition export_memory_backup :: "(bytes \<Rightarrow> bytes) \<Rightarrow> 'w store option \<Rightarrow> go_time \<Rightarrow> 'w
    \<Rightarrow> (go_error + memory_backup) \<times> 'w" where
  "export_memory_backup sha sto now w =
     (case list_memories sha sto w of
        (Inl e, w1) \<Rightarrow> (Inl e, w1)
      | (Inr ms, w1) \<Rightarrow> (Inr \<lparr>mb_version = memory_backup_version, mb_kind = memory_backup_kind,
            mb_exported = now, mb_memories = sort_by export_before ms\<rparr>, w1))"

definition decode_memory_backup :: "(bytes \<Rightarrow> go_error + memory list) \<Rightarrow> (bytes \<Rightarrow> go_error + memory_backup) \<Rightarrow> bytes
    \<Rightarrow> go_error + memory_backup" where
  "decode_memory_backup dec_list dec_backup data =
     (case trim_space data of
        [] \<Rightarrow> Inl (new_error ''memory backup is empty'')
      | c # _ \<Rightarrow>
          (if c = CHR ''['' then
             (case dec_list data of
                Inl e \<Rightarrow> Inl (wrap_error ''decode memory list: '' e [])
              | Inr ms \<Rightarrow> Inr \<lparr>mb_version = memory_backup_version, mb_kind = memory_backup_kind,
                  mb_exported = 0, mb_memories = ms\<rparr>)
           else
             (case dec_backup data of
                Inl e \<Rightarrow> Inl (wrap_error ''decode memory backup: '' e [])
              | Inr b \<Rightarrow> Inr b)))"

definition clean_memory_tags :: "string list \<Rightarrow> string list" where
  "clean_memory_tags tags = dedup_from [] (filter (\<lambda>t. t \<noteq> []) (map trim_space tags))"

definition normalize_memory :: "(bytes \<Rightarrow> bytes) \<Rightarrow> memory \<Rightarrow> memory" where
  "normalize_memory sha m =
     (let content = trim_space (mem_content m); i = trim_space (mem_id m)
      in \<lparr>mem_id = (if i = [] then memory_id sha (mem_time m) content else i), mem_content = content,
          mem_tags = clean_memory_tags (mem_tags m), mem_time = mem_time m\<rparr>)"

fun validate_from :: "(bytes \<Rightarrow> bytes) \<Rightarrow> nat \<Rightarrow> string list \<Rightarrow> memory list \<Rightarrow> go_error + memory list" where
  "validate_from sha k seen [] = Inr []"
| "validate_from sha k seen (m # ms) =
     (let x = normalize_memory sha m in
      if mem_content x = [] then Inl (new_error (''memory '' @ itoa k @ '': content is required''))
      else if mem_time x = 0 then Inl (new_error (''memory '' @ itoa k @ '': timestamp is required''))
      else if mem_id x \<in> set seen then
        Inl (new_error (''memory '' @ itoa k @ '': duplicate id '' @ quote (mem_id x)))
      else case validate_from sha (Suc k) (mem_id x # seen) ms of Inl e \<Rightarrow> Inl e | Inr xs \<Rightarrow> Inr (x # xs))"

definition validate_memory_backup :: "(bytes \<Rightarrow> bytes) \<Rightarrow> memory_backup \<Rightarrow> go_error + memory list" where
  "validate_memory_backup sha b =
     (if mb_version b \<noteq> memory_backup_version then
        Inl (new_error (''unsupported memory backup version '' @ itoa_int (mb_version b)))
      else if mb_kind b \<noteq> memory_backup_kind then
        Inl (new_error (''unsupported memory backup kind '' @ quote (mb_kind b)))
      else validate_from sha 0 [] (mb_memories b))"

definition first_memory_timestamp :: "memory list \<Rightarrow> go_time \<Rightarrow> go_time" where
  "first_memory_timestamp ms fallback =
     (case filter (\<lambda>t. t \<noteq> 0) (map mem_time ms) of [] \<Rightarrow> fallback | t # ts \<Rightarrow> fold min ts t)"

definition memory_message :: "memory \<Rightarrow> message" where
  "memory_message m = zero_message\<lparr>msg_role := RoleAssistant, msg_content := [text_part (mem_content m)],
     msg_meta := [(''id'', MStr (mem_id m)), (''memory'', MBool True)]
       @ (if mem_tags m = [] then [] else [(''tags'', MStrings (mem_tags m))]),
     msg_created := mem_time m\<rparr>"

definition content_key :: "(string \<Rightarrow> string) \<Rightarrow> string \<Rightarrow> string" where
  "content_key lower content = join '' '' (word_fields (lower (trim_space content)))"

record import_state =
  im_ids :: "string list"
  im_keys :: "string list"
  im_messages :: "message list"
  im_report :: import_report

definition skip_entry :: "string \<Rightarrow> memory \<Rightarrow> import_report \<Rightarrow> import_report" where
  "skip_entry reason m r = r\<lparr>ir_skipped := ir_skipped r + 1,
     ir_entries := ir_entries r @ [\<lparr>ie_id = mem_id m, ie_status = ''skipped'', ie_reason = reason\<rparr>]\<rparr>"

definition take_entry :: "memory \<Rightarrow> import_report \<Rightarrow> import_report" where
  "take_entry m r =
     (let e = \<lparr>ie_id = mem_id m, ie_status = (if ir_dry r then ''would_import'' else ''imported''), ie_reason = []\<rparr>
      in if ir_dry r then r\<lparr>ir_would := ir_would r + 1, ir_entries := ir_entries r @ [e]\<rparr>
         else r\<lparr>ir_imported := ir_imported r + 1, ir_entries := ir_entries r @ [e]\<rparr>)"

definition import_one :: "(string \<Rightarrow> string) \<Rightarrow> memory \<Rightarrow> import_state \<Rightarrow> import_state" where
  "import_one lower m s =
     (let key = content_key lower (mem_content m) in
      if mem_id m \<in> set (im_ids s) then s\<lparr>im_report := skip_entry ''duplicate_id'' m (im_report s)\<rparr>
      else if key \<in> set (im_keys s) then s\<lparr>im_report := skip_entry ''duplicate_content'' m (im_report s)\<rparr>
      else s\<lparr>im_report := take_entry m (im_report s),
             im_messages := (if ir_dry (im_report s) then im_messages s else im_messages s @ [memory_message m]),
             im_ids := mem_id m # im_ids s, im_keys := key # im_keys s\<rparr>)"

definition import_start :: "(bytes \<Rightarrow> bytes) \<Rightarrow> (string \<Rightarrow> string) \<Rightarrow> bool \<Rightarrow> message list \<Rightarrow> import_state" where
  "import_start sha lower dry ms =
     (let known = List.map_filter (memory_from_message sha) ms
      in \<lparr>im_ids = map mem_id known, im_keys = map (\<lambda>m. content_key lower (mem_content m)) known, im_messages = ms,
          im_report = \<lparr>ir_dry = dry, ir_would = 0, ir_imported = 0, ir_skipped = 0, ir_entries = []\<rparr>\<rparr>)"

definition import_target :: "memory list \<Rightarrow> go_time \<Rightarrow> session_state \<Rightarrow> session_state" where
  "import_target ms now st = st\<lparr>ss_id := (if ss_id st = [] then memories_session_id else ss_id st),
     ss_version := (if ss_version st = 0 then session_state_version else ss_version st),
     ss_created := (if ss_created st = 0 then first_memory_timestamp ms now else ss_created st)\<rparr>"

definition import_memory_backup :: "(bytes \<Rightarrow> bytes) \<Rightarrow> (string \<Rightarrow> string) \<Rightarrow> 'w store option \<Rightarrow> go_time \<Rightarrow> memory_backup
    \<Rightarrow> bool \<Rightarrow> 'w \<Rightarrow> (go_error + import_report) \<times> 'w" where
  "import_memory_backup sha lower sto now b dry w =
     (case sto of
        None \<Rightarrow> (Inl (new_error ''peggy: ImportMemoryBackup: not initialised''), w)
      | Some s \<Rightarrow>
          (case validate_memory_backup sha b of
             Inl e \<Rightarrow> (Inl e, w)
           | Inr ms \<Rightarrow>
               (case load_memories s w of
                  (Inl e, w1) \<Rightarrow> (Inl (wrap_error ''peggy: load memories: '' e []), w1)
                | (Inr st, w1) \<Rightarrow>
                    (let x = fold (import_one lower) ms (import_start sha lower dry (ss_messages st)) in
                     if \<not> dry \<and> ir_imported (im_report x) > 0 then
                       save_memories s ((import_target ms now st)\<lparr>ss_messages := im_messages x, ss_updated := now\<rparr>)
                         (im_report x) w1
                     else (Inr (im_report x), w1)))))"


section \<open>Reading back what was written\<close>

definition plain_char :: "char \<Rightarrow> bool" where
  "plain_char c \<longleftrightarrow> 32 < code_of c \<and> code_of c < 127"

lemma space_seqs_not_plain:
  "list_all (\<lambda>p. p \<noteq> [] \<and> \<not> plain_char (hd p) \<and> \<not> plain_char (last p)) space_seqs"
  by code_simp

lemma trim_space_plain:
  assumes "s \<noteq> []" and "plain_char (hd s)" and "plain_char (last s)"
  shows "trim_space s = s"
proof -
  have q: "p \<noteq> [] \<and> \<not> plain_char (hd p) \<and> \<not> plain_char (last p)" if "p \<in> set space_seqs" for p
    using space_seqs_not_plain that by (auto simp: list_all_iff)
  have "hd p = hd s" if "prefix p s" "p \<noteq> []" for p
    using that by (auto simp: prefix_def)
  then have "strip_seq space_seqs s = None"
    unfolding strip_seq_None using q assms by metis
  moreover have "\<not> prefix (rev p) (rev s)" if "p \<in> set space_seqs" for p
  proof
    assume "prefix (rev p) (rev s)"
    then have "last p = last s" using q [OF that] assms(1) by (metis hd_append2 hd_rev prefix_def rev_is_Nil_conv)
    then show False using q [OF that] assms(3) by simp
  qed
  then have "strip_seq (map rev space_seqs) (rev s) = None" unfolding strip_seq_None by auto
  ultimately show ?thesis
    by (simp add: trim_space_def trim_left_space_def trim_right_space_def strip_left_unfold_None)
qed

lemma hex_digit_plain: "n < 16 \<Longrightarrow> plain_char (hex_digit n)"
  by (auto simp: plain_char_def hex_digit_def)

lemma trim_memory_id [simp]: "trim_space (memory_id sha t c) = memory_id sha t c"
proof (rule trim_space_plain)
  define hs where "hs = concat (map (\<lambda>c. [hex_digit (code_of c div 16), hex_digit (code_of c mod 16)])
           (take 4 (sha (rfc3339_nano t @ [nl] @ trim_space c))))"
  have e: "memory_id sha t c = ''mem_'' @ itoa_int (unix_nano t) @ ''_'' @ hs"
    by (simp add: memory_id_def hs_def)
  have "code_of x < 256" for x by (simp add: code_of_def)
  then have "\<forall>x\<in>set hs. plain_char x"
    by (auto simp: hs_def intro!: hex_digit_plain simp: less_mult_imp_div_less)
  then have "hs = [] \<or> plain_char (last hs)" by (metis last_in_set)
  then show "plain_char (last (memory_id sha t c))"
    unfolding e by (auto simp: plain_char_def code_of_def)
  show "plain_char (hd (memory_id sha t c))" unfolding e by (simp add: plain_char_def code_of_def)
  show "memory_id sha t c \<noteq> []" unfolding e by simp
qed

lemma memory_id_nonempty [simp]: "memory_id sha t c \<noteq> []"
  by (simp add: memory_id_def)

lemma memory_text_single [simp]: "memory_text [text_part c] = c"
  by (simp add: memory_text_def text_part_def zero_part_def)

text \<open>The memories a backup may hold, and the messages import makes of them.\<close>

definition valid_memory :: "memory \<Rightarrow> bool" where
  "valid_memory m \<longleftrightarrow> mem_content m \<noteq> [] \<and> trim_space (mem_content m) = mem_content m
     \<and> mem_id m \<noteq> [] \<and> trim_space (mem_id m) = mem_id m"

lemma memory_of_memory_message: "valid_memory m \<Longrightarrow> memory_from_message sha (memory_message m) = Some m"
  by (simp add: memory_from_message_def memory_message_def valid_memory_def zero_message_def)

lemma memory_from_message_valid: "memory_from_message sha m = Some x \<Longrightarrow> valid_memory x"
  by (auto simp: memory_from_message_def valid_memory_def Let_def split: if_splits option.splits meta_value.splits)

lemma normalize_memory_valid: "mem_content (normalize_memory sha m) \<noteq> [] \<Longrightarrow> valid_memory (normalize_memory sha m)"
  by (simp add: normalize_memory_def valid_memory_def Let_def)

lemma validate_from_Inr:
  "validate_from sha k seen ms = Inr xs \<Longrightarrow> xs = map (normalize_memory sha) ms \<and> list_all valid_memory xs
     \<and> distinct (map mem_id xs) \<and> (\<forall>x\<in>set xs. mem_id x \<notin> set seen \<and> mem_time x \<noteq> 0)"
proof (induction ms arbitrary: k seen xs)
  case (Cons m ms)
  let ?x = "normalize_memory sha m"
  from Cons.prems obtain ys where v: "validate_from sha (Suc k) (mem_id ?x # seen) ms = Inr ys" and xs: "xs = ?x # ys"
    and c: "mem_content ?x \<noteq> []" "mem_time ?x \<noteq> 0" "mem_id ?x \<notin> set seen"
    by (auto simp: Let_def split: if_splits sum.splits)
  from Cons.IH [OF v] normalize_memory_valid [OF c(1)] c xs show ?case by (auto simp: list_all_iff)
qed simp

text \<open>Which memories of a backup are new: neither their id nor their content is known yet.\<close>

fun new_memories :: "(memory \<Rightarrow> 'k) \<Rightarrow> string list \<Rightarrow> 'k list \<Rightarrow> memory list \<Rightarrow> memory list" where
  "new_memories key ids keys [] = []"
| "new_memories key ids keys (m # ms) =
     (if mem_id m \<in> set ids \<or> key m \<in> set keys then new_memories key ids keys ms
      else m # new_memories key (mem_id m # ids) (key m # keys) ms)"

abbreviation mem_key :: "(string \<Rightarrow> string) \<Rightarrow> memory \<Rightarrow> string" where
  "mem_key lower m \<equiv> content_key lower (mem_content m)"

lemma import_fold:
  fixes lower :: "string \<Rightarrow> string" and s :: import_state
  defines "new \<equiv> \<lambda>s ms. new_memories (mem_key lower) (im_ids s) (im_keys s) ms"
  shows "im_messages (fold (import_one lower) ms s)
      = im_messages s @ (if ir_dry (im_report s) then [] else map memory_message (new s ms))
    \<and> ir_dry (im_report (fold (import_one lower) ms s)) = ir_dry (im_report s)
    \<and> ir_would (im_report (fold (import_one lower) ms s))
      = ir_would (im_report s) + (if ir_dry (im_report s) then int (length (new s ms)) else 0)
    \<and> ir_imported (im_report (fold (import_one lower) ms s))
      = ir_imported (im_report s) + (if ir_dry (im_report s) then 0 else int (length (new s ms)))
    \<and> ir_skipped (im_report (fold (import_one lower) ms s))
      = ir_skipped (im_report s) + int (length ms) - int (length (new s ms))"
proof (induction ms arbitrary: s)
  case (Cons m ms)
  show ?case using Cons.IH [of "import_one lower m s"]
    by (simp add: import_one_def new_def skip_entry_def take_entry_def Let_def)
qed (simp add: new_def)

lemma new_memories_spec:
  "subseq (new_memories key ids keys ms) ms
   \<and> distinct (map mem_id (new_memories key ids keys ms)) \<and> distinct (map key (new_memories key ids keys ms))
   \<and> (\<forall>x\<in>set (new_memories key ids keys ms). mem_id x \<notin> set ids \<and> key x \<notin> set keys)
   \<and> (\<forall>x\<in>set ms. mem_id x \<in> set ids \<union> mem_id ` set (new_memories key ids keys ms)
        \<or> key x \<in> set keys \<union> key ` set (new_memories key ids keys ms))"
proof (induction ms arbitrary: ids keys)
  case (Cons m ms)
  show ?case
  proof (cases "mem_id m \<in> set ids \<or> key m \<in> set keys")
    case True
    then show ?thesis using Cons.IH [of ids keys] by auto
  next
    case False
    then show ?thesis using Cons.IH [of "mem_id m # ids" "key m # keys"] by auto
  qed
qed simp

lemma set_new_memories: "set (new_memories key ids keys ms) \<subseteq> set ms"
  by (induction ms arbitrary: ids keys) auto

lemma new_memories_known:
  "(\<forall>x\<in>set ms. mem_id x \<in> set ids \<or> key x \<in> set keys) \<Longrightarrow> new_memories key ids keys ms = []"
  by (induction ms) auto

lemma new_memories_all:
  "distinct (map mem_id ms) \<Longrightarrow> distinct (map key ms) \<Longrightarrow> mem_id ` set ms \<inter> set ids = {}
     \<Longrightarrow> key ` set ms \<inter> set keys = {} \<Longrightarrow> new_memories key ids keys ms = ms"
  by (induction ms arbitrary: ids keys) auto

lemma drop_memory_Some:
  "drop_memory sha i ms = Some (x, ms') \<Longrightarrow> \<exists>xs ys. List.map_filter (memory_from_message sha) ms = xs @ x # ys
     \<and> List.map_filter (memory_from_message sha) ms' = xs @ ys \<and> mem_id x = i \<and> (\<forall>y\<in>set xs. mem_id y \<noteq> i)"
proof (induction ms arbitrary: ms')
  case (Cons m ms)
  note more = Cons.IH
  show ?case
  proof (cases "memory_from_message sha m")
    case None
    with Cons.prems obtain ms1 where d: "drop_memory sha i ms = Some (x, ms1)" and e: "ms' = m # ms1" by auto
    from more [OF d] show ?thesis unfolding e by (simp add: map_filter_Cons None)
  next
    case (Some y)
    show ?thesis
    proof (cases "mem_id y = i")
      case True
      then have "x = y" "ms' = ms" using Cons.prems Some by auto
      then show ?thesis using Some True
        by (intro exI [of _ "[]"] exI [of _ "List.map_filter (memory_from_message sha) ms"]) (simp add: map_filter_Cons)
    next
      case False
      with Cons.prems Some obtain ms1 where d: "drop_memory sha i ms = Some (x, ms1)" and e: "ms' = m # ms1" by auto
      from more [OF d] obtain xs ys where "List.map_filter (memory_from_message sha) ms = xs @ x # ys"
        "List.map_filter (memory_from_message sha) ms1 = xs @ ys" "mem_id x = i" "\<forall>y\<in>set xs. mem_id y \<noteq> i" by blast
      then show ?thesis unfolding e using Some False
        by (intro exI [of _ "y # xs"] exI [of _ ys]) (simp add: map_filter_Cons)
    qed
  qed
qed simp

lemma map_filter_map: "List.map_filter f (map g xs) = List.map_filter (f \<circ> g) xs"
  by (induction xs) (simp_all add: List.map_filter_simps split: option.split)

lemma map_filter_Some [simp]: "List.map_filter Some xs = xs"
  by (induction xs) (simp_all add: List.map_filter_simps)

section \<open>The memories of a store\<close>

definition memories_in :: "(bytes \<Rightarrow> bytes) \<Rightarrow> session_state option \<Rightarrow> memory list" where
  "memories_in sha found =
     (case found of None \<Rightarrow> [] | Some st \<Rightarrow> List.map_filter (memory_from_message sha) (ss_messages st))"

text \<open>What the memory operations rely on beyond the contract of a store: the stored image of a state
  reads as the same memories, and a save stores the messages it is given.\<close>

locale memory_store = session_store +
  fixes sha :: "bytes \<Rightarrow> bytes"
  assumes image_memories: "memories_in sha (Some (image st)) = memories_in sha (Some st)"
    and save_messages: "sto_save sto i st w = (None, w') \<Longrightarrow>
      \<exists>st'. contents w' = (contents w)(i \<mapsto> image st') \<and> ss_messages st' = ss_messages st"
begin

lemma load_reads:
  assumes "load_memories sto w = (r, w1)"
  shows "contents w1 = contents w \<and> (case r of Inl e \<Rightarrow> True
    | Inr st \<Rightarrow> memories_in sha (Some st) = memories_in sha (contents w memories_session_id))"
  using assms by (auto simp: load_memories_def memories_in_def zero_state_def List.map_filter_simps
      dest: load_contents load_keeps split: prod.splits sum.splits option.splits)

lemma save_writes:
  assumes "save_memories sto st x w = (r, w1)"
  shows "(\<exists>e. r = Inl e) \<and> contents w1 = contents w
    \<or> r = Inr x \<and> memories_in sha (contents w1 memories_session_id) = memories_in sha (Some st)
        \<and> (\<forall>j. j \<noteq> memories_session_id \<longrightarrow> contents w1 j = contents w j)"
proof -
  obtain s w2 where s: "sto_save sto memories_session_id st w = (s, w2)" by fastforce
  show ?thesis
  proof (cases s)
    case None
    obtain st' where c: "contents w2 = (contents w)(memories_session_id \<mapsto> image st')"
      and "ss_messages st' = ss_messages st"
      using save_messages [OF s [unfolded None]] by blast
    then have "memories_in sha (Some st') = memories_in sha (Some st)" by (simp add: memories_in_def)
    then show ?thesis using assms s None c image_memories [of st'] by (auto simp: save_memories_def)
  next
    case (Some e)
    then show ?thesis using assms s save_atomic [OF s [unfolded Some]] by (auto simp: save_memories_def)
  qed
qed

lemma add_appends:
  assumes "add_memory sha (Some sto) now content tags w = (r, w')"
  shows "case r of
      Inl e \<Rightarrow> contents w' = contents w
    | Inr m \<Rightarrow> memories_in sha (contents w' memories_session_id)
          = memories_in sha (contents w memories_session_id) @ [m]
        \<and> m = \<lparr>mem_id = memory_id sha now (trim_space content), mem_content = trim_space content,
               mem_tags = tags, mem_time = now\<rparr>
        \<and> (\<forall>j. j \<noteq> memories_session_id \<longrightarrow> contents w' j = contents w j)"
proof (cases "trim_space content = []")
  case True
  then show ?thesis using assms by (auto simp: add_memory_def)
next
  case False
  define c where "c = trim_space content"
  have c: "c \<noteq> []" "trim_space c = c" using False by (simp_all add: c_def)
  obtain l w1 where l: "load_memories sto w = (l, w1)" by fastforce
  show ?thesis
  proof (cases l)
    case (Inl e)
    then show ?thesis using assms l load_reads [OF l] False by (auto simp: add_memory_def)
  next
    case (Inr st)
    define m where "m = \<lparr>mem_id = memory_id sha now c, mem_content = c, mem_tags = tags, mem_time = now\<rparr>"
    define msg where "msg = zero_message\<lparr>msg_role := RoleAssistant, msg_content := [text_part c],
      msg_meta := [(''id'', MStr (memory_id sha now c)), (''memory'', MBool True), (''tags'', MStrings tags)],
      msg_created := now\<rparr>"
    obtain st' where s: "save_memories sto st' m w1 = (r, w')" and st': "ss_messages st' = ss_messages st @ [msg]"
      using assms l Inr c by (auto simp: add_memory_def c_def m_def msg_def Let_def split: if_splits)
    have "memory_from_message sha msg = Some m"
      using c by (simp add: memory_from_message_def msg_def m_def zero_message_def)
    then have "memories_in sha (Some st') = memories_in sha (Some st) @ [m]"
      by (simp add: memories_in_def st' map_filter_append List.map_filter_simps)
    then show ?thesis using save_writes [OF s] load_reads [OF l] Inr
      by (auto simp: m_def c_def)
  qed
qed

lemma list_sorts:
  assumes "list_memories sha (Some sto) w = (r, w')"
  shows "contents w' = contents w \<and> (case r of Inl e \<Rightarrow> True
    | Inr ms \<Rightarrow> ms = sort_by newer (memories_in sha (contents w memories_session_id)))"
  using assms load_reads [of w]
  by (auto simp: list_memories_def memories_in_def split: prod.splits sum.splits)

lemma forget_removes_first:
  assumes "forget_memory sha (Some sto) now i w = (r, w')"
  shows "case r of
      Inl e \<Rightarrow> contents w' = contents w
    | Inr x \<Rightarrow> (\<exists>xs ys. memories_in sha (contents w memories_session_id) = xs @ x # ys
          \<and> memories_in sha (contents w' memories_session_id) = xs @ ys
          \<and> mem_id x = trim_space i \<and> (\<forall>y\<in>set xs. mem_id y \<noteq> trim_space i))
        \<and> (\<forall>j. j \<noteq> memories_session_id \<longrightarrow> contents w' j = contents w j)"
proof (cases "trim_space i = []")
  case True
  then show ?thesis using assms by (auto simp: forget_memory_def)
next
  case False
  obtain l w1 where l: "load_memories sto w = (l, w1)" by fastforce
  show ?thesis
  proof (cases l)
    case (Inl e)
    then show ?thesis using assms l load_reads [OF l] False by (auto simp: forget_memory_def)
  next
    case (Inr st)
    note rd = load_reads [OF l, unfolded Inr sum.case]
    show ?thesis
    proof (cases "drop_memory sha (trim_space i) (ss_messages st)")
      case None
      then show ?thesis using assms l Inr False rd by (auto simp: forget_memory_def)
    next
      case (Some p)
      obtain x ms where p: "p = (x, ms)" by fastforce
      have s: "save_memories sto (st\<lparr>ss_messages := ms, ss_updated := now\<rparr>) x w1 = (r, w')"
        using assms l Inr False Some p by (simp add: forget_memory_def)
      from drop_memory_Some [OF Some [unfolded p]] obtain xs ys
        where q: "memories_in sha (Some st) = xs @ x # ys" "List.map_filter (memory_from_message sha) ms = xs @ ys"
          "mem_id x = trim_space i" "\<forall>y\<in>set xs. mem_id y \<noteq> trim_space i"
        by (auto simp: memories_in_def)
      have "memories_in sha (contents w memories_session_id) = xs @ x # ys" using rd q(1) by simp
      moreover have "memories_in sha (Some (st\<lparr>ss_messages := ms, ss_updated := now\<rparr>)) = xs @ ys"
        using q(2) by (simp add: memories_in_def)
      ultimately show ?thesis using save_writes [OF s] rd q(3,4) by (elim disjE) (auto intro: exI [of _ xs])
    qed
  qed
qed

text \<open>An import appends exactly the memories whose id and normalised content are new.\<close>

lemma import_appends:
  assumes "import_memory_backup sha lower (Some sto) now b dry w = (Inr rep, w')"
  defines "old \<equiv> memories_in sha (contents w memories_session_id)"
  shows "\<exists>ms new. validate_memory_backup sha b = Inr ms
    \<and> new = new_memories (mem_key lower) (map mem_id old) (map (mem_key lower) old) ms
    \<and> memories_in sha (contents w' memories_session_id) = old @ (if dry then [] else new)
    \<and> (\<forall>j. j \<noteq> memories_session_id \<longrightarrow> contents w' j = contents w j)
    \<and> (dry \<or> new = [] \<longrightarrow> contents w' = contents w)
    \<and> ir_skipped rep = int (length ms) - int (length new)
    \<and> ir_would rep = (if dry then int (length new) else 0) \<and> ir_imported rep = (if dry then 0 else int (length new))"
proof -
  obtain ms where v: "validate_memory_backup sha b = Inr ms"
    using assms(1) by (auto simp: import_memory_backup_def split: sum.splits)
  obtain st w1 where l: "load_memories sto w = (Inr st, w1)"
    using assms(1) v by (auto simp: import_memory_backup_def split: prod.splits sum.splits)
  note rd = load_reads [OF l, unfolded sum.case]
  define x where "x = fold (import_one lower) ms (import_start sha lower dry (ss_messages st))"
  define new where "new = new_memories (mem_key lower) (map mem_id old) (map (mem_key lower) old) ms"
  have old: "old = List.map_filter (memory_from_message sha) (ss_messages st)"
    using rd by (simp add: old_def memories_in_def)
  have start: "im_ids (import_start sha lower dry (ss_messages st)) = map mem_id old"
    "im_keys (import_start sha lower dry (ss_messages st)) = map (mem_key lower) old"
    "im_messages (import_start sha lower dry (ss_messages st)) = ss_messages st"
    "im_report (import_start sha lower dry (ss_messages st)) = \<lparr>ir_dry = dry, ir_would = 0, ir_imported = 0, ir_skipped = 0, ir_entries = []\<rparr>"
    by (simp_all add: import_start_def old Let_def)
  have x: "im_messages x = ss_messages st @ (if dry then [] else map memory_message new)"
    "ir_would (im_report x) = (if dry then int (length new) else 0)"
    "ir_imported (im_report x) = (if dry then 0 else int (length new))"
    "ir_skipped (im_report x) = int (length ms) - int (length new)"
    using import_fold [of lower ms "import_start sha lower dry (ss_messages st)", unfolded start, folded x_def new_def]
    by simp_all
  have "list_all valid_memory ms"
    using v validate_from_Inr by (auto simp: validate_memory_backup_def split: if_splits)
  moreover have "set new \<subseteq> set ms"
    by (simp add: new_def set_new_memories)
  ultimately have "list_all valid_memory new" by (auto simp: list_all_iff)
  then have read: "List.map_filter (memory_from_message sha) (map memory_message new) = new"
    by (induction new) (simp_all add: List.map_filter_simps memory_of_memory_message)
  have r: "(if \<not> dry \<and> ir_imported (im_report x) > 0
      then save_memories sto ((import_target ms now st)\<lparr>ss_messages := im_messages x, ss_updated := now\<rparr>) (im_report x) w1
      else (Inr (im_report x), w1)) = (Inr rep, w')"
    using assms(1) v l by (simp add: import_memory_backup_def x_def [symmetric] Let_def)
  show ?thesis
  proof (cases "\<not> dry \<and> new \<noteq> []")
    case True
    then have s: "save_memories sto ((import_target ms now st)\<lparr>ss_messages := im_messages x, ss_updated := now\<rparr>) (im_report x) w1
        = (Inr rep, w')" using r x(3) by simp
    have "memories_in sha (Some ((import_target ms now st)\<lparr>ss_messages := im_messages x, ss_updated := now\<rparr>)) = old @ new"
      using True x(1) read by (simp add: memories_in_def old map_filter_append)
    then have "rep = im_report x" "memories_in sha (contents w' memories_session_id) = old @ new"
      "\<forall>j. j \<noteq> memories_session_id \<longrightarrow> contents w' j = contents w j"
      using save_writes [OF s] rd by auto
    then show ?thesis using True v x(2-4) new_def
      by (intro exI [of _ ms] exI [of _ new]) simp
  next
    case False
    then have "rep = im_report x" "contents w' = contents w" using r x(3) rd by (auto split: if_splits)
    then show ?thesis using False v x(2-4) new_def
      by (intro exI [of _ ms] exI [of _ new]) (auto simp: old_def)
  qed
qed

end

section \<open>Memories in the file store\<close>

lemma json_memory: "memory_from_message sha (m\<lparr>msg_meta := json_meta (msg_meta m)\<rparr>) = memory_from_message sha m"
proof -
  have str: "(\<lambda>v. case json_value v of MStr s \<Rightarrow> Some s | _ \<Rightarrow> None) = (\<lambda>v. case v of MStr s \<Rightarrow> Some s | _ \<Rightarrow> None)"
    by (rule ext) (simp split: meta_value.split)
  have "meta_tags (map_option json_value t) = meta_tags t" for t
  proof (cases t)
    case (Some v)
    then show ?thesis
      by (cases v) (simp_all add: map_filter_map comp_def str)
  qed simp
  moreover have "(case map_option json_value v of Some (MStr i) \<Rightarrow> trim_space i | _ \<Rightarrow> [])
      = (case v of Some (MStr i) \<Rightarrow> trim_space i | _ \<Rightarrow> [])" for v
    by (auto split: option.split meta_value.split)
  ultimately show ?thesis by (simp add: memory_from_message_def map_of_json_meta Let_def)
qed

interpretation file_memories: memory_store "file_store dir" "file_contents dir" json_state sha for dir sha
proof
  fix st
  show "memories_in sha (Some (json_state st)) = memories_in sha (Some st)"
    by (simp add: memories_in_def json_state_def map_filter_map comp_def json_memory)
next
  fix i st w w'
  assume s: "sto_save (file_store dir) i st w = (None, w')"
  then obtain f where f: "file_path dir i = Inr f"
    by (auto simp: file_store_def file_save_def split: sum.splits)
  have fi: "f = session_file i" "trim_space dir \<noteq> []" "trim_space i \<noteq> []"
    using f by (auto simp: file_path_def split: if_splits)
  define st1 where "st1 = (with_defaults i st)\<lparr>ss_created := (if ss_created st = 0 then fw_now w else ss_created st),
      ss_updated := (if ss_updated st = 0 then fw_now w else ss_updated st)\<rparr>"
  have w': "fw_files w' = AList.update f (Inr (json_state st1)) (fw_files w)"
    using s f unfolding file_store_def file_save_def Let_def st1_def
    by (auto dest: sys_calls_files split: prod.splits option.splits)
  have d: "with_defaults i (json_state st1) = json_state (with_defaults i st1)"
    by (simp add: with_defaults_def json_state_def)
  have "file_contents dir w' = (file_contents dir w)(i \<mapsto> json_state (with_defaults i st1))"
  proof
    fix j
    show "file_contents dir w' j = ((file_contents dir w)(i \<mapsto> json_state (with_defaults i st1))) j"
      using fi w' d by (auto simp: file_contents_def file_path_def update_conv' session_file_inj)
  qed
  moreover have "ss_messages (with_defaults i st1) = ss_messages st" by (simp add: st1_def with_defaults_def)
  ultimately show "\<exists>st'. file_contents dir w' = (file_contents dir w)(i \<mapsto> json_state st') \<and> ss_messages st' = ss_messages st"
    by blast
qed

lemma mset_insert_by [simp]: "mset (insert_by lt x ys) = add_mset x (mset ys)"
  by (induction ys) simp_all

lemma mset_sort_by [simp]: "mset (sort_by lt xs) = mset xs"
  by (induction xs) (simp_all add: sort_by_def)

lemma normalize_valid:
  "valid_memory m \<Longrightarrow> normalize_memory sha m = m\<lparr>mem_tags := clean_memory_tags (mem_tags m)\<rparr>"
  by (simp add: normalize_memory_def valid_memory_def)

lemma memories_in_valid: "m \<in> set (memories_in sha found) \<Longrightarrow> valid_memory m"
  by (auto simp: memories_in_def List.map_filter_def dest: memory_from_message_valid split: option.splits)

text \<open>The list of memories that the operations on the file store implement: adding appends, forgetting
  removes the first memory with the id, a failure changes nothing, and no other session is touched.\<close>

theorem memory_log:
  "(case add_memory sha (Some (file_store dir)) now content tags w of
      (Inl e, w') \<Rightarrow> file_contents dir w' = file_contents dir w
    | (Inr m, w') \<Rightarrow> memories_in sha (file_contents dir w' memories_session_id)
          = memories_in sha (file_contents dir w memories_session_id) @ [m]
        \<and> mem_content m = trim_space content \<and> mem_tags m = tags \<and> mem_time m = now
        \<and> (\<forall>j. j \<noteq> memories_session_id \<longrightarrow> file_contents dir w' j = file_contents dir w j))
   \<and> (case forget_memory sha (Some (file_store dir)) now i w of
      (Inl e, w') \<Rightarrow> file_contents dir w' = file_contents dir w
    | (Inr m, w') \<Rightarrow> (\<exists>xs ys. memories_in sha (file_contents dir w memories_session_id) = xs @ m # ys
          \<and> memories_in sha (file_contents dir w' memories_session_id) = xs @ ys
          \<and> mem_id m = trim_space i \<and> (\<forall>y\<in>set xs. mem_id y \<noteq> trim_space i))
        \<and> (\<forall>j. j \<noteq> memories_session_id \<longrightarrow> file_contents dir w' j = file_contents dir w j))"
proof (intro conjI)
  obtain r w1 where a: "add_memory sha (Some (file_store dir)) now content tags w = (r, w1)" by fastforce
  show "case add_memory sha (Some (file_store dir)) now content tags w of
      (Inl e, w') \<Rightarrow> file_contents dir w' = file_contents dir w
    | (Inr m, w') \<Rightarrow> memories_in sha (file_contents dir w' memories_session_id)
          = memories_in sha (file_contents dir w memories_session_id) @ [m]
        \<and> mem_content m = trim_space content \<and> mem_tags m = tags \<and> mem_time m = now
        \<and> (\<forall>j. j \<noteq> memories_session_id \<longrightarrow> file_contents dir w' j = file_contents dir w j)"
    using file_memories.add_appends [OF a] a by (cases r) simp_all
next
  obtain r w1 where f: "forget_memory sha (Some (file_store dir)) now i w = (r, w1)" by fastforce
  show "case forget_memory sha (Some (file_store dir)) now i w of
      (Inl e, w') \<Rightarrow> file_contents dir w' = file_contents dir w
    | (Inr m, w') \<Rightarrow> (\<exists>xs ys. memories_in sha (file_contents dir w memories_session_id) = xs @ m # ys
          \<and> memories_in sha (file_contents dir w' memories_session_id) = xs @ ys
          \<and> mem_id m = trim_space i \<and> (\<forall>y\<in>set xs. mem_id y \<noteq> trim_space i))
        \<and> (\<forall>j. j \<noteq> memories_session_id \<longrightarrow> file_contents dir w' j = file_contents dir w j)"
    using file_memories.forget_removes_first [OF f] f by (cases r) simp_all
qed

section \<open>Properties\<close>

text \<open>C29. Importing a backup into the file store never overwrites: the memories after the import are
  the old ones followed by some of the backup's, in the backup's order; the added ones have ids and
  normalised contents that are new and pairwise distinct, and every memory of the backup is then known
  by its id or its content. The report counts what was added and skipped, a dry run and every other
  session are left alone, and importing the same backup again adds nothing.\<close>

theorem import_merges_backup:
  assumes "import_memory_backup sha lower (Some (file_store dir)) now b dry w = (Inr rep, w')"
  shows "\<exists>ms new old. validate_memory_backup sha b = Inr ms \<and> subseq new ms
    \<and> old = memories_in sha (file_contents dir w memories_session_id)
    \<and> memories_in sha (file_contents dir w' memories_session_id) = old @ (if dry then [] else new)
    \<and> distinct (map mem_id new) \<and> distinct (map (mem_key lower) new)
    \<and> mem_id ` set new \<inter> mem_id ` set old = {} \<and> mem_key lower ` set new \<inter> mem_key lower ` set old = {}
    \<and> list_all (\<lambda>m. mem_id m \<in> mem_id ` set (old @ new) \<or> mem_key lower m \<in> mem_key lower ` set (old @ new)) ms
    \<and> ir_skipped rep + int (length new) = int (length ms) \<and> ir_imported rep = (if dry then 0 else int (length new))
    \<and> ir_would rep = (if dry then int (length new) else 0)
    \<and> file_contents dir w' = (file_contents dir w)(memories_session_id := file_contents dir w' memories_session_id)
    \<and> (if dry then file_contents dir w' = file_contents dir w
       else \<forall>now2 dry2. case import_memory_backup sha lower (Some (file_store dir)) now2 b dry2 w' of
           (Inl _, _) \<Rightarrow> True
         | (Inr rep2, w2) \<Rightarrow> ir_imported rep2 = 0 \<and> ir_would rep2 = 0 \<and> file_contents dir w2 = file_contents dir w')"
proof -
  let ?mid = memories_session_id
  define old where "old = memories_in sha (file_contents dir w ?mid)"
  from file_memories.import_appends [OF assms] obtain ms new where i: "validate_memory_backup sha b = Inr ms"
    "new = new_memories (mem_key lower) (map mem_id old) (map (mem_key lower) old) ms"
    "memories_in sha (file_contents dir w' ?mid) = old @ (if dry then [] else new)"
    "\<forall>j. j \<noteq> ?mid \<longrightarrow> file_contents dir w' j = file_contents dir w j" "dry \<longrightarrow> file_contents dir w' = file_contents dir w"
    "ir_skipped rep = int (length ms) - int (length new)" "ir_would rep = (if dry then int (length new) else 0)"
    "ir_imported rep = (if dry then 0 else int (length new))"
    unfolding old_def by blast
  note spec = new_memories_spec [of "mem_key lower" "map mem_id old" "map (mem_key lower) old" ms, folded i(2)]
  have again: "case import_memory_backup sha lower (Some (file_store dir)) now2 b dry2 w' of
           (Inl _, _) \<Rightarrow> True
         | (Inr rep2, w2) \<Rightarrow> ir_imported rep2 = 0 \<and> ir_would rep2 = 0 \<and> file_contents dir w2 = file_contents dir w'"
    if "\<not> dry" for now2 dry2
  proof -
    obtain r w2 where r: "import_memory_backup sha lower (Some (file_store dir)) now2 b dry2 w' = (r, w2)" by fastforce
    show ?thesis
    proof (cases r)
      case (Inr rep2)
      have "\<forall>x\<in>set ms. mem_id x \<in> set (map mem_id (old @ new)) \<or> mem_key lower x \<in> set (map (mem_key lower) (old @ new))"
        using spec by auto
      then have "new_memories (mem_key lower) (map mem_id (old @ new)) (map (mem_key lower) (old @ new)) ms = []"
        by (rule new_memories_known)
      then show ?thesis
        using file_memories.import_appends [OF r [unfolded Inr]] i(1,3) that r Inr by auto
    qed (simp add: r)
  qed
  have c: "file_contents dir w' = (file_contents dir w)(?mid := file_contents dir w' ?mid)"
    using i(4) by (auto simp: fun_eq_iff)
  have "list_all (\<lambda>m. mem_id m \<in> mem_id ` set (old @ new) \<or> mem_key lower m \<in> mem_key lower ` set (old @ new)) ms"
    using spec by (auto simp: list_all_iff)
  moreover have "mem_id ` set new \<inter> mem_id ` set old = {}" "mem_key lower ` set new \<inter> mem_key lower ` set old = {}"
    using spec by auto
  ultimately show ?thesis using i(1,3,5-8) spec c again
    by (intro exI [of _ ms] exI [of _ new] exI [of _ old]) (simp add: old_def [symmetric])
qed

text \<open>C8. A backup restores the memories: exporting the memories of one store and importing the backup
  into a store without memories gives there the same memories, with their tags trimmed and without
  repetitions, provided no two of them have the same normalised content.\<close>

theorem memory_backup_roundtrip:
  assumes "export_memory_backup sha (Some (file_store d)) now w = (Inr b, w1)"
    and "import_memory_backup sha lower (Some (file_store d')) now' b False v = (Inr rep, v')"
    and "memories_in sha (file_contents d' v memories_session_id) = []"
    and "distinct (map (mem_key lower) (memories_in sha (file_contents d w memories_session_id)))"
  shows "mset (memories_in sha (file_contents d' v' memories_session_id))
      = mset (map (\<lambda>m. m\<lparr>mem_tags := clean_memory_tags (mem_tags m)\<rparr>) (memories_in sha (file_contents d w memories_session_id)))
    \<and> ir_skipped rep = 0"
proof -
  define ms where "ms = memories_in sha (file_contents d w memories_session_id)"
  obtain l w2 where l: "list_memories sha (Some (file_store d)) w = (Inr l, w2)"
    and b: "mb_memories b = sort_by export_before l" "mb_version b = memory_backup_version" "mb_kind b = memory_backup_kind"
    using assms(1) by (auto simp: export_memory_backup_def split: prod.splits sum.splits)
  have "l = sort_by newer ms" using file_memories.list_sorts [OF l] by (simp add: ms_def)
  then have m: "mset (mb_memories b) = mset ms" by (simp add: b)
  from file_memories.import_appends [OF assms(2)] assms(3) obtain xs new where i: "validate_memory_backup sha b = Inr xs"
    "new = new_memories (mem_key lower) [] [] xs"
    "memories_in sha (file_contents d' v' memories_session_id) = new" "ir_skipped rep = int (length xs) - int (length new)"
    by auto
  have "validate_from sha 0 [] (mb_memories b) = Inr xs" using i(1) b by (simp add: validate_memory_backup_def)
  note v = validate_from_Inr [OF this]
  have val: "valid_memory x" if "x \<in> set (mb_memories b)" for x
    using that mset_eq_setD [OF m] memories_in_valid by (auto simp: ms_def)
  then have xs: "xs = map (\<lambda>m. m\<lparr>mem_tags := clean_memory_tags (mem_tags m)\<rparr>) (mb_memories b)"
    using v normalize_valid by auto
  have "mset (map (mem_key lower) xs) = mset (map (mem_key lower) ms)"
    unfolding xs by (simp add: comp_def m)
  then have k: "distinct (map (mem_key lower) xs)"
    using assms(4) mset_eq_imp_distinct_iff unfolding ms_def by blast
  have "distinct (map mem_id xs)" using v by blast
  then have "new = xs" unfolding i(2) using k by (rule new_memories_all) simp_all
  then show ?thesis using i(3,4) xs m by (simp add: ms_def)
qed

definition sample_memory :: "string \<Rightarrow> string \<Rightarrow> go_time \<Rightarrow> memory" where
  "sample_memory i c now = \<lparr>mem_id = i, mem_content = c, mem_tags = [], mem_time = now\<rparr>"

definition sample_store :: "memory list \<Rightarrow> file_world" where
  "sample_store ms = \<lparr>fw_files = [(session_file memories_session_id, Inr \<lparr>ss_version = 1, ss_id = memories_session_id,
       ss_messages = map memory_message ms, ss_metadata = [], ss_created = 1, ss_updated = 1\<rparr>)],
     fw_outcomes = [], fw_now = 5\<rparr>"

definition sample_backup :: "memory list \<Rightarrow> memory_backup" where
  "sample_backup ms = \<lparr>mb_version = 1, mb_kind = memory_backup_kind, mb_exported = 9, mb_memories = ms\<rparr>"

lemma sample_import:
  "map_sum (\<lambda>e. e) ir_imported (fst (import_memory_backup id to_lower (Some (file_store ''d'')) 7
      (sample_backup [sample_memory ''a'' ''X'' 3, sample_memory ''b'' ''y'' 4]) False (sample_store [sample_memory ''c'' ''x'' 2])))
    = Inr 1"
  by code_simp

theorem import_merges_backup_witness:
  "\<exists>rep w'. import_memory_backup id to_lower (Some (file_store ''d'')) 7
      (sample_backup [sample_memory ''a'' ''X'' 3, sample_memory ''b'' ''y'' 4]) False (sample_store [sample_memory ''c'' ''x'' 2])
        = (Inr rep, w') \<and> ir_skipped rep = 1
    \<and> length (memories_in id (file_contents ''d'' w' memories_session_id))
      = Suc (length (memories_in id (file_contents ''d'' (sample_store [sample_memory ''c'' ''x'' 2]) memories_session_id)))"
proof -
  let ?b = "sample_backup [sample_memory ''a'' ''X'' 3, sample_memory ''b'' ''y'' 4]"
  obtain r w' where i: "import_memory_backup id to_lower (Some (file_store ''d'')) 7 ?b False
      (sample_store [sample_memory ''c'' ''x'' 2]) = (r, w')" by fastforce
  then obtain rep where r: "r = Inr rep" "ir_imported rep = 1" using sample_import by (cases r) auto
  from import_merges_backup [OF i [unfolded r(1)]] obtain ms new old where n: "validate_memory_backup id ?b = Inr ms"
    "old = memories_in id (file_contents ''d'' (sample_store [sample_memory ''c'' ''x'' 2]) memories_session_id)"
    "memories_in id (file_contents ''d'' w' memories_session_id) = old @ new"
    "ir_skipped rep + int (length new) = int (length ms)" "ir_imported rep = int (length new)"
    by auto
  have "length ms = 2" using n(1) validate_from_Inr [of id 0 "[]" "mb_memories ?b" ms]
    by (simp add: validate_memory_backup_def sample_backup_def memory_backup_version_def)
  then show ?thesis using i r n by auto
qed

lemma sample_restore:
  "case export_memory_backup id (Some (file_store ''d'')) 7 (sample_store [sample_memory ''a'' ''x'' 2, sample_memory ''b'' ''y'' 3]) of
     (Inr b, _) \<Rightarrow> (case import_memory_backup id to_lower (Some (file_store ''e'')) 8 b False (sample_store []) of
         (Inr _, _) \<Rightarrow> True | _ \<Rightarrow> False)
   | _ \<Rightarrow> False"
  "memories_in id (file_contents ''e'' (sample_store []) memories_session_id) = []"
  "distinct (map (mem_key to_lower) (memories_in id (file_contents ''d'' (sample_store [sample_memory ''a'' ''x'' 2, sample_memory ''b'' ''y'' 3])
     memories_session_id)))"
  by code_simp+

theorem memory_backup_roundtrip_witness:
  "\<exists>b w1 rep v'. export_memory_backup id (Some (file_store ''d'')) 7 (sample_store [sample_memory ''a'' ''x'' 2, sample_memory ''b'' ''y'' 3])
       = (Inr b, w1)
     \<and> import_memory_backup id to_lower (Some (file_store ''e'')) 8 b False (sample_store []) = (Inr rep, v')
     \<and> ir_skipped rep = 0"
proof -
  let ?w = "sample_store [sample_memory ''a'' ''x'' 2, sample_memory ''b'' ''y'' 3]"
  obtain b w1 where e: "export_memory_backup id (Some (file_store ''d'')) 7 ?w = (Inr b, w1)"
    using sample_restore(1) by (auto split: prod.splits sum.splits)
  obtain rep v' where i: "import_memory_backup id to_lower (Some (file_store ''e'')) 8 b False (sample_store []) = (Inr rep, v')"
    using sample_restore(1) e by (auto split: prod.splits sum.splits)
  show ?thesis using memory_backup_roundtrip [OF e i sample_restore(2,3)] e i by blast
qed

end
