(* ===== verification/Search.thy ===== *)
theory Search
  imports Peggy_Memory
begin

text \<open>
  Cross-session search: the options and bounds of \<open>src/search.go\<close>, and what the assistant makes of it
  in \<open>src/agents/peggy/memory.go\<close> (\<open>Recall\<close> and the \<open>remember\<close> and \<open>recall\<close> tools). The search
  itself is a capability of the store and a parameter here. A score is a \<open>float64\<close> the repository
  only prints, and is kept as its two-decimal text.
\<close>

section \<open>Search options\<close>

record search_options =
  so_session :: string
  so_limit :: int
  so_offset :: int
  so_since :: go_time
  so_until :: go_time

record search_hit =
  sh_session :: string
  sh_index :: int
  sh_role :: message_role
  sh_snippet :: string
  sh_score :: string
  sh_time :: go_time

type_synonym search_option = "search_options \<Rightarrow> search_options"
type_synonym 'w searcher = "string \<Rightarrow> search_options \<Rightarrow> 'w \<Rightarrow> (go_error + search_hit list) \<times> 'w"

definition default_search_limit :: int where "default_search_limit = 20"
definition max_search_limit :: int where "max_search_limit = 100"

definition err_search_not_supported :: go_error where
  "err_search_not_supported = sentinel KUnsupported ''glue: store does not support search''"

definition with_limit :: "int \<Rightarrow> search_option" where "with_limit n o1 = o1\<lparr>so_limit := n\<rparr>"
definition with_offset :: "int \<Rightarrow> search_option" where "with_offset n o1 = o1\<lparr>so_offset := n\<rparr>"
definition with_session_id :: "string \<Rightarrow> search_option" where "with_session_id i o1 = o1\<lparr>so_session := i\<rparr>"
definition with_since :: "go_time \<Rightarrow> search_option" where "with_since t o1 = o1\<lparr>so_since := t\<rparr>"
definition with_until :: "go_time \<Rightarrow> search_option" where "with_until t o1 = o1\<lparr>so_until := t\<rparr>"

text \<open>Nil options are skipped.\<close>

definition apply_search_options :: "search_option option list \<Rightarrow> search_options" where
  "apply_search_options opts = fold (\<lambda>f x. case f of None \<Rightarrow> x | Some g \<Rightarrow> g x) opts
     \<lparr>so_session = [], so_limit = 0, so_offset = 0, so_since = 0, so_until = 0\<rparr>"

definition build_search_options :: "search_option option list \<Rightarrow> search_options" where
  "build_search_options opts =
     (let o0 = apply_search_options opts;
          o1 = (if so_limit o0 \<le> 0 then o0\<lparr>so_limit := default_search_limit\<rparr> else o0);
          o2 = (if so_limit o1 > max_search_limit then o1\<lparr>so_limit := max_search_limit\<rparr> else o1)
      in if so_offset o2 < 0 then o2\<lparr>so_offset := 0\<rparr> else o2)"

text \<open>The outer option is the agent pointer, the inner one the capability of its store.\<close>

definition search_sessions :: "'w searcher option option \<Rightarrow> string \<Rightarrow> search_option option list \<Rightarrow> 'w
    \<Rightarrow> (go_error + search_hit list) \<times> 'w" where
  "search_sessions agent query opts w =
     (case agent of
        None \<Rightarrow> (Inl (new_error ''glue: nil agent''), w)
      | Some None \<Rightarrow> (Inl err_search_not_supported, w)
      | Some (Some search) \<Rightarrow> search query (build_search_options opts) w)"

definition session_search :: "(string \<times> 'w searcher option) option \<Rightarrow> string \<Rightarrow> search_option option list \<Rightarrow> 'w
    \<Rightarrow> (go_error + search_hit list) \<times> 'w" where
  "session_search session query opts w =
     (case session of
        None \<Rightarrow> (Inl (new_error ''glue: nil session''), w)
      | Some (i, agent) \<Rightarrow> search_sessions (Some agent) query (opts @ [Some (with_session_id i)]) w)"

lemma build_search_options_bounds:
  "1 \<le> so_limit (build_search_options opts)" "so_limit (build_search_options opts) \<le> max_search_limit"
  "0 \<le> so_offset (build_search_options opts)"
  by (simp_all add: build_search_options_def default_search_limit_def max_search_limit_def Let_def)

lemma build_search_options_session:
  "so_session (build_search_options (opts @ [Some (with_session_id i)])) = i"
  by (simp add: build_search_options_def apply_search_options_def with_session_id_def Let_def)

text \<open>A search restricted to a session asks for that session whatever the options say, and within the
  bounds.\<close>

theorem session_search_scoped:
  "session_search (Some (i, Some search)) query opts w = search query (build_search_options (opts @ [Some (with_session_id i)])) w
   \<and> so_session (build_search_options (opts @ [Some (with_session_id i)])) = i
   \<and> so_limit (build_search_options (opts @ [Some (with_session_id i)])) \<in> {1..max_search_limit}"
  by (simp add: session_search_def search_sessions_def build_search_options_session build_search_options_bounds)

section \<open>Recall\<close>

record recall_options =
  rc_limit :: int
  rc_memories :: bool

definition default_recall_limit :: int where "default_recall_limit = 5"
definition max_recall_limit :: int where "max_recall_limit = 20"

definition with_recall_limit :: "int \<Rightarrow> recall_options \<Rightarrow> recall_options" where
  "with_recall_limit n o1 = o1\<lparr>rc_limit := n\<rparr>"

definition with_memories_only :: "recall_options \<Rightarrow> recall_options" where
  "with_memories_only o1 = o1\<lparr>rc_memories := True\<rparr>"

definition recall :: "'w searcher option option \<Rightarrow> string \<Rightarrow> (recall_options \<Rightarrow> recall_options) option list \<Rightarrow> 'w
    \<Rightarrow> (go_error + search_hit list) \<times> 'w" where
  "recall agent query0 opts w =
     (if agent = None then (Inl (new_error ''peggy: Recall: not initialised''), w)
      else
        (let query = trim_space query0 in
         if query = [] then (Inl (new_error ''peggy: Recall: query is required''), w)
         else
           (let o0 = fold (\<lambda>f x. case f of None \<Rightarrow> x | Some g \<Rightarrow> g x) opts
                  \<lparr>rc_limit = default_recall_limit, rc_memories = False\<rparr>;
                n = (if rc_limit o0 \<le> 0 then default_recall_limit else rc_limit o0);
                n = (if n > max_recall_limit then max_recall_limit else n)
            in search_sessions agent query
                 (Some (with_limit n) # (if rc_memories o0 then [Some (with_session_id memories_session_id)] else [])) w)))"

section \<open>The memory tools\<close>

record remember_args =
  ra_content :: string
  ra_tags :: "string list"

record recall_args =
  rr_query :: string
  rr_limit :: int
  rr_only :: bool

definition text_result :: "string \<Rightarrow> tool_result" where
  "text_result t = zero_result\<lparr>res_content := [text_part t]\<rparr>"

text \<open>\<open>NewTool\<close>: the arguments are decoded before the executor runs; no arguments decode as the zero
  value, and a decoding failure is an error result.\<close>

definition new_tool_execute :: "string \<Rightarrow> (bytes \<Rightarrow> string + 'a) \<Rightarrow> 'a
    \<Rightarrow> ('a \<Rightarrow> 'w \<Rightarrow> (go_error + tool_result) \<times> 'w) \<Rightarrow> 'w executor" where
  "new_tool_execute name decode zero exec c w =
     (if tc_args c = [] then exec zero w
      else case decode (tc_args c) of
        Inl e \<Rightarrow> (Inr (error_result (''decode arguments for tool '' @ quote name @ '': '' @ e)), w)
      | Inr a \<Rightarrow> exec a w)"

definition remember_tool :: "(bytes \<Rightarrow> bytes) \<Rightarrow> 'w store option \<Rightarrow> go_time \<Rightarrow> remember_args \<Rightarrow> 'w
    \<Rightarrow> (go_error + tool_result) \<times> 'w" where
  "remember_tool sha sto now a w =
     (let content = trim_space (ra_content a) in
      if content = [] then (Inr (error_result ''remember: content is required''), w)
      else case add_memory sha sto now content (ra_tags a) w of
        (Inl e, w1) \<Rightarrow> (Inr (error_result (err_text e)), w1)
      | (Inr m, w1) \<Rightarrow> (Inr (text_result (''Remembered: '' @ quote (mem_content m) @ '' (tags=['' @ join '' '' (mem_tags m)
            @ '']) at '' @ rfc3339 (mem_time m))), w1))"

definition hit_line :: "nat \<Rightarrow> search_hit \<Rightarrow> string" where
  "hit_line k h = itoa k @ ''. ['' @ sh_session h @ ''#'' @ itoa_int (sh_index h) @ '' '' @ take 10 (rfc3339 (sh_time h))
     @ ''] (score='' @ sh_score h @ '') '' @ replace_all (sh_snippet h) [nl] '' '' @ [nl]"

definition format_recall_hits :: "search_hit list \<Rightarrow> string" where
  "format_recall_hits hits =
     (if hits = [] then ''No hits.''
      else trim_right_set [nl] (itoa (length hits) @ '' hits:'' @ [nl]
        @ concat (map (\<lambda>(k, h). hit_line (Suc k) h) (List.enumerate 0 hits))))"

definition recall_tool :: "'w searcher option option \<Rightarrow> recall_args \<Rightarrow> 'w \<Rightarrow> (go_error + tool_result) \<times> 'w" where
  "recall_tool agent a w =
     (let query = trim_space (rr_query a) in
      if query = [] then (Inr (error_result ''recall: query is required''), w)
      else case recall agent query
          ((if rr_limit a > 0 then [Some (with_recall_limit (rr_limit a))] else [])
           @ (if rr_only a then [Some with_memories_only] else [])) w of
        (Inl e, w1) \<Rightarrow>
          (Inr (error_result (if err_is KUnsupported e
             then ''recall: configured store does not support search; use a sqlite store'' else err_text e)), w1)
      | (Inr hits, w1) \<Rightarrow> (Inr (text_result (format_recall_hits hits)), w1))"

text \<open>The model's recall never fails the run, and never asks the store for more than twenty hits.\<close>

theorem recall_tool_bounded:
  "recall_tool (Some (Some search)) a w = (r, w') \<Longrightarrow>
     (\<exists>x. r = Inr x) \<and> (w' = w \<or> (\<exists>o1 hits. search (trim_space (rr_query a)) o1 w = (hits, w')
        \<and> so_limit o1 \<in> {1..max_recall_limit} \<and> so_offset o1 = 0
        \<and> so_session o1 = (if rr_only a then memories_session_id else [])))"
  by (auto simp: recall_tool_def recall_def search_sessions_def build_search_options_def apply_search_options_def
      with_limit_def with_session_id_def with_recall_limit_def with_memories_only_def max_recall_limit_def
      default_recall_limit_def max_search_limit_def Let_def split: prod.splits sum.splits if_splits)

end
