(* ===== verification/Subagent.thy ===== *)
theory Subagent
  imports Search
begin

text \<open>
  An agent as a tool of another agent, \<open>src/subagent.go\<close>: the checks of \<open>SubagentTool\<close> and its
  executor, which opens a new session of the child agent for every call, prompts it with the argument
  alone and returns its final text. The counter of calls and the child agent with its sessions are the
  state of the tool; the counter of instances is an argument.
\<close>

record 'w subagent_options =
  sb_name :: string
  sb_description :: string
  sb_agent :: "'w agent option"
  sb_session :: string
  sb_max_turns :: int
  sb_system :: string

record subagent =
  sa_name :: string
  sa_base :: string
  sa_instance :: nat
  sa_max_turns :: int
  sa_system :: string

definition subagent_tool :: "'w subagent_options \<Rightarrow> nat \<Rightarrow> go_error + subagent \<times> 'w agent" where
  "subagent_tool opts inst =
     (let name = trim_space (sb_name opts); base = trim_space (sb_session opts) in
      if name = [] then Inl (new_error ''glue: subagent name is required'')
      else if trim_space (sb_description opts) = [] then Inl (new_error ''glue: subagent description is required'')
      else case sb_agent opts of
        None \<Rightarrow> Inl (new_error ''glue: subagent agent is required'')
      | Some agent0 \<Rightarrow>
          (if sb_max_turns opts < 0 then Inl (new_error ''glue: subagent MaxTurns must be non-negative'')
           else Inr (\<lparr>sa_name = name, sa_base = (if base = [] then ''subagent:'' @ name else base), sa_instance = inst,
                sa_max_turns = sb_max_turns opts, sa_system = sb_system opts\<rparr>, agent0)))"

definition subagent_session_id :: "subagent \<Rightarrow> nat \<Rightarrow> string" where
  "subagent_session_id sa k = sa_base sa @ '':'' @ itoa (sa_instance sa) @ '':'' @ itoa k"

definition subagent_context_error :: "'w ctx_fun \<Rightarrow> go_error \<Rightarrow> 'w \<Rightarrow> go_error option \<times> 'w" where
  "subagent_context_error ctx e w =
     (if err_is KCanceled e then (Some err_canceled, w)
      else if err_is KDeadline e then (Some err_deadline, w)
      else ctx w)"

definition subagent_error_result :: "go_error \<Rightarrow> string \<Rightarrow> tool_result" where
  "subagent_error_result e i = (error_result (err_text e))\<lparr>res_meta := (if i = [] then [] else [(''session_id'', MStr i)])\<rparr>"

definition subagent_prompt_options :: "subagent \<Rightarrow> 'w prompt_option list" where
  "subagent_prompt_options sa =
     (if sa_max_turns sa > 0 then [OptMaxTurns (sa_max_turns sa)] else [])
     @ (if sa_system sa \<noteq> [] then [OptSystemPrompt (sa_system sa)] else [])"

text \<open>A failed call: the error of the context ends the parent's run, any other is shown to the model.\<close>

definition subagent_failure :: "'w run_env \<Rightarrow> string \<Rightarrow> go_error \<Rightarrow> string \<Rightarrow> 'w \<Rightarrow> (go_error + tool_result) \<times> 'w" where
  "subagent_failure env pre e i w =
     (case subagent_context_error (en_ctx env) e w of
        (Some ce, w1) \<Rightarrow> (Inl ce, w1)
      | (None, w1) \<Rightarrow> (Inr (subagent_error_result (wrap_error pre e []) i), w1))"

definition subagent_execute :: "'w run_env \<Rightarrow> file_access \<Rightarrow> subagent \<Rightarrow> string \<Rightarrow> nat \<times> 'w agent \<Rightarrow> 'w
    \<Rightarrow> (go_error + tool_result) \<times> (nat \<times> 'w agent) \<times> 'w" where
  "subagent_execute env fa sa text st w =
     (let (calls, agent0) = st in
      if trim_space text = [] then (Inr (error_result ''glue: subagent prompt is required''), st, w)
      else
        (let k = Suc calls; i = subagent_session_id sa k in
         case agent_session (en_now env) fa agent0 i [] w of
           (Inl e, agent1, w1) \<Rightarrow>
             (let (r, w2) = subagent_failure env (''subagent '' @ quote (sa_name sa) @ '' session: '') e i w1
              in (r, (k, agent1), w2))
         | (Inr se, agent1, w1) \<Rightarrow>
             (let ((res, err), ev, se', w2) = prompt env agent1 se text (subagent_prompt_options sa) w1;
                  agent2 = agent1\<lparr>ag_sessions := AList.update i se' (ag_sessions agent1)\<rparr>
              in case err of
                   Some e \<Rightarrow>
                     (let (r, w3) = subagent_failure env (''subagent '' @ quote (sa_name sa) @ '': '') e i w2
                      in (r, (k, agent2), w3))
                 | None \<Rightarrow> (Inr ((text_result (pt_text res))\<lparr>res_meta := [(''session_id'', MStr i)]\<rparr>), (k, agent2), w2))))"

section \<open>Isolation of the calls\<close>

lemma subagent_session_id_inj: "subagent_session_id sa j = subagent_session_id sa k \<longleftrightarrow> j = k"
  using itoa_inj by (auto simp: subagent_session_id_def)

text \<open>The child has no session yet under the ids of the calls to come.\<close>

definition fresh_calls :: "subagent \<Rightarrow> nat \<times> 'w agent \<Rightarrow> bool" where
  "fresh_calls sa st \<longleftrightarrow> (\<forall>k > fst st. map_of (ag_sessions (snd st)) (subagent_session_id sa k) = None)"

lemma ensure_context_sessions: "ensure_context fa ag = Inr ag' \<Longrightarrow> ag_sessions ag' = ag_sessions ag \<and> ag_store ag' = ag_store ag"
  by (auto simp: ensure_context_def split: if_splits sum.splits)

lemma agent_session_other:
  assumes "agent_session now fa ag i role w = (r, ag', w')" and "i \<noteq> []" and "j \<noteq> i"
  shows "map_of (ag_sessions ag') j = map_of (ag_sessions ag) j"
  using assms
  by (auto simp: agent_session_def Let_def dest: ensure_context_sessions split: option.splits sum.splits prod.splits)

lemma subagent_session_id_nonempty [simp]: "subagent_session_id sa k \<noteq> []"
  by (simp add: subagent_session_id_def)

lemma subagent_keeps_other_sessions:
  assumes "subagent_execute env fa sa text (calls, agent0) w = (r, (calls', agent0'), w')"
  shows "(calls' = calls \<and> agent0' = agent0 \<and> w' = w)
    \<or> (calls' = Suc calls \<and> (\<forall>j. j \<noteq> subagent_session_id sa (Suc calls)
          \<longrightarrow> map_of (ag_sessions agent0') j = map_of (ag_sessions agent0) j))"
proof (cases "trim_space text = []")
  case True
  then show ?thesis using assms by (simp add: subagent_execute_def)
next
  case False
  obtain x agent1 w1 where s: "agent_session (en_now env) fa agent0 (subagent_session_id sa (Suc calls)) [] w = (x, agent1, w1)"
    using prod_cases3 by blast
  note other = agent_session_other [OF s subagent_session_id_nonempty]
  show ?thesis
  proof (cases x)
    case (Inl e)
    then show ?thesis using assms False s other by (auto simp: subagent_execute_def Let_def split: prod.splits)
  next
    case (Inr se)
    obtain res err ev se' w2 where p: "prompt env agent1 se text (subagent_prompt_options sa) w1 = ((res, err), ev, se', w2)"
      by (metis prod.exhaust)
    show ?thesis using assms False s Inr p other
      by (cases err) (auto simp: subagent_execute_def Let_def update_conv' split: prod.splits)
  qed
qed

theorem subagent_calls_stay_fresh:
  assumes "fresh_calls sa (calls, agent0)" and "subagent_execute env fa sa text (calls, agent0) w = (r, (calls', agent0'), w')"
  shows "fresh_calls sa (calls', agent0')"
  using assms(1) subagent_keeps_other_sessions [OF assms(2)]
  by (auto simp: fresh_calls_def subagent_session_id_inj)

text \<open>A successful call of a child without a store is one prompt of a session that starts empty, and its
  result is the final text of that prompt.\<close>

theorem subagent_call_is_isolated:
  assumes "fresh_calls sa (calls, agent0)" and "ag_store agent0 = None"
    and "subagent_execute env fa sa text (calls, agent0) w = (Inr res, (calls', agent0'), w')" and "\<not> res_is_error res"
  shows "\<exists>agent1 se w1 pr ev se'. agent_session (en_now env) fa agent0 (subagent_session_id sa calls') [] w = (Inr se, agent1, w1)
    \<and> se_messages se = [] \<and> prompt env agent1 se text (subagent_prompt_options sa) w1 = ((pr, None), ev, se', w')
    \<and> res_content res = [text_part (pt_text pr)]"
proof -
  have t: "trim_space text \<noteq> []" using assms(3,4) by (auto simp: subagent_execute_def error_result_def)
  have err: "\<not> res_is_error res \<Longrightarrow> subagent_failure env pre e i w1 \<noteq> (Inr res, w2)" for pre e i w1 w2
    by (auto simp: subagent_failure_def subagent_error_result_def error_result_def split: prod.splits option.splits)
  obtain x agent1 w1 where s: "agent_session (en_now env) fa agent0 (subagent_session_id sa (Suc calls)) [] w = (x, agent1, w1)"
    using prod_cases3 by blast
  obtain se where x: "x = Inr se"
  proof (cases x)
    case (Inl e)
    then show ?thesis using assms(3) t s err [OF assms(4)]
      by (auto simp: subagent_execute_def Let_def split: prod.splits)
  qed
  have new: "map_of (ag_sessions agent0) (subagent_session_id sa (Suc calls)) = None"
    using assms(1) by (simp add: fresh_calls_def)
  have empty: "se_messages se = []"
    using s [unfolded x] new assms(2) ensure_context_sessions
    by (fastforce simp: agent_session_def load_session_state_def Let_def split: option.splits sum.splits prod.splits)
  obtain pr e ev se' w2 where p: "prompt env agent1 se text (subagent_prompt_options sa) w1 = ((pr, e), ev, se', w2)"
    by (metis prod.exhaust)
  have "e = None"
    using assms(3) t s x p err [OF assms(4)]
    by (cases e) (auto simp: subagent_execute_def Let_def split: prod.splits)
  then have "w2 = w'" "calls' = Suc calls" "res_content res = [text_part (pt_text pr)]"
    using assms(3) t s x p by (auto simp: subagent_execute_def Let_def text_result_def zero_result_def)
  then show ?thesis using s x empty p \<open>e = None\<close> by blast
qed

end
