(* ===== verification/Telegram_Permission.thy ===== *)
theory Telegram_Permission
  imports Go_Numbers Tool_Calls "HOL-Library.AList"
begin

text \<open>
  Permission prompts over Telegram's inline keyboards: \<open>src/agents/peggy/channels/telegram/permission.go\<close>
  and \<open>ChannelSessionID\<close> of \<open>src/agents/peggy/channel.go\<close>. Each critical section of the mutex is one
  operation; \<open>Decide\<close> runs in a goroutine per request and \<open>handleCallback\<close> in the poll loop, and their
  interleavings are the steps of a transition relation. Sending a message and its failure are steps too.
  The counter of nonces, a \<open>uint64\<close>, does not wrap here.
\<close>

section \<open>Session ids and callback data\<close>

definition channel_session_id :: "string \<Rightarrow> string \<Rightarrow> string" where
  "channel_session_id channel i =
     (let c = to_lower (trim_space channel) in if c = [] then i else c @ '':'' @ i)"

definition chat_of_session :: "string \<Rightarrow> go_error + int" where
  "chat_of_session session =
     (let raw = trim_prefix session (channel_session_id ''telegram'' []) in
      if raw = [] \<or> raw = session then Inl (new_error ''permission denied: request is not from a Telegram session'')
      else case atoi raw of
        None \<Rightarrow> Inl (new_error ''permission denied: invalid Telegram session id'')
      | Some chat \<Rightarrow> Inr chat)"

definition callback_prefix :: string where "callback_prefix = ''perm:''"

definition permission_callback :: "string \<Rightarrow> string \<Rightarrow> string" where
  "permission_callback nonce action = callback_prefix @ nonce @ '':'' @ action"

definition parse_permission_callback :: "string \<Rightarrow> (string \<times> string) option" where
  "parse_permission_callback data =
     (case split_on (CHR '':'') (trim_prefix data callback_prefix) of
        [nonce, action] \<Rightarrow> if nonce = [] \<or> action = [] then None else Some (nonce, action)
      | _ \<Rightarrow> None)"

definition permission_keyboard :: "string \<Rightarrow> (string \<times> string) list list" where
  "permission_keyboard nonce =
     [[(''Deny'', permission_callback nonce ''deny''), (''Allow once'', permission_callback nonce ''once'')],
      [(''Allow session'', permission_callback nonce ''session''), (''Allow target'', permission_callback nonce ''target'')]]"

definition denied :: "string \<Rightarrow> permission_decision" where
  "denied reason = \<lparr>pd_allow = False, pd_reason = reason, pd_remember = RememberNever\<rparr>"

definition granted :: "remember_scope \<Rightarrow> permission_decision" where
  "granted scope = \<lparr>pd_allow = True, pd_reason = [], pd_remember = scope\<rparr>"

definition decision_for_action :: "string \<Rightarrow> permission_decision" where
  "decision_for_action action =
     (if action = ''once'' then granted RememberNever
      else if action = ''session'' then granted RememberSession
      else if action = ''target'' then granted RememberSessionTarget
      else denied ''permission denied by Telegram user'')"

definition args_preview :: "bytes \<Rightarrow> string" where
  "args_preview raw =
     (let text = trim_space raw in
      if text = [] \<or> text = ''null'' then []
      else if length text \<le> 320 then text else take 320 text @ ''...(truncated)'')"

definition permission_message :: "permission_request \<Rightarrow> string" where
  "permission_message r =
     ''Peggy wants permission to run a side-effecting tool.'' @ [nl, nl]
     @ ''Tool: '' @ pr_tool r @ [nl] @ ''Action: '' @ pr_action r @ [nl]
     @ (if trim_space (pr_target r) = [] then [] else ''Target: '' @ pr_target r @ [nl])
     @ (if args_preview (pr_args r) = [] then [] else ''Args: '' @ args_preview (pr_args r) @ [nl])"

definition tg_session_key :: "permission_request \<Rightarrow> string" where
  "tg_session_key r = pr_session r @ [byte 0] @ pr_tool r @ [byte 0] @ pr_action r"

definition tg_target_key :: "permission_request \<Rightarrow> string" where
  "tg_target_key r = tg_session_key r @ [byte 0] @ pr_target r"

section \<open>The adapter\<close>

record pending_prompt =
  tk_chat :: int
  tk_request :: permission_request

record telegram_permission =
  tp_api :: bool
  tp_chats :: "int list"
  tp_nonce :: nat
  tp_pending :: "(string \<times> pending_prompt) list"
  tp_sessions :: "string list"
  tp_targets :: "string list"

definition new_permission :: telegram_permission where
  "new_permission = \<lparr>tp_api = False, tp_chats = [], tp_nonce = 0, tp_pending = [], tp_sessions = [], tp_targets = []\<rparr>"

definition attach :: "int list \<Rightarrow> telegram_permission \<Rightarrow> telegram_permission" where
  "attach chats p = p\<lparr>tp_api := True, tp_chats := chats\<rparr>"

definition delete_pending :: "string \<Rightarrow> telegram_permission \<Rightarrow> telegram_permission" where
  "delete_pending nonce p = p\<lparr>tp_pending := AList.delete nonce (tp_pending p)\<rparr>"

definition remember_decision :: "permission_request \<Rightarrow> permission_decision \<Rightarrow> telegram_permission \<Rightarrow> telegram_permission" where
  "remember_decision r d p =
     (if \<not> pd_allow d then p
      else case pd_remember d of
        RememberSession \<Rightarrow> p\<lparr>tp_sessions := List.insert (tg_session_key r) (tp_sessions p)\<rparr>
      | RememberSessionTarget \<Rightarrow> p\<lparr>tp_targets := List.insert (tg_target_key r) (tp_targets p)\<rparr>
      | _ \<Rightarrow> p)"

text \<open>\<open>Decide\<close> up to the prompt: an answer at once, or the nonce and the chat to ask.\<close>

datatype entry = Answered "go_error + permission_decision" | Asking string int

definition decide_enter :: "go_error option \<Rightarrow> permission_request \<Rightarrow> telegram_permission \<Rightarrow> entry \<times> telegram_permission" where
  "decide_enter ctx r p =
     (case ctx of
        Some e \<Rightarrow> (Answered (Inl e), p)
      | None \<Rightarrow>
          (case chat_of_session (pr_session r) of
             Inl e \<Rightarrow> (Answered (Inr (denied (err_text e))), p)
           | Inr chat \<Rightarrow>
               (let p1 = p\<lparr>tp_nonce := Suc (tp_nonce p)\<rparr>; nonce = base36 (tp_nonce p1);
                    p2 = p1\<lparr>tp_pending := AList.update nonce \<lparr>tk_chat = chat, tk_request = r\<rparr> (tp_pending p1)\<rparr>
                in if tg_session_key r \<in> set (tp_sessions p1) then (Answered (Inr (granted RememberSession)), p1)
                   else if tg_target_key r \<in> set (tp_targets p1) then (Answered (Inr (granted RememberSessionTarget)), p1)
                   else if chat \<notin> set (tp_chats p1) then
                     (Answered (Inr (denied ''permission denied: chat is not allowlisted'')), delete_pending nonce p2)
                   else if \<not> tp_api p1 then
                     (Answered (Inr (denied ''permission denied: telegram API is not configured'')), delete_pending nonce p2)
                   else (Asking nonce chat, p2))))"

record callback_query =
  cq_chat :: "int option"
  cq_data :: string

text \<open>The text the callback is answered with, and the decision that is on its way to a waiting request.\<close>

datatype callback_end = NotMine | Reply string | Claimed string int permission_decision string

definition callback_chat :: "callback_query \<Rightarrow> int option" where
  "callback_chat cb = (case cq_chat cb of None \<Rightarrow> None | Some c \<Rightarrow> if c = 0 then None else Some c)"

definition handle_callback :: "callback_query \<Rightarrow> telegram_permission \<Rightarrow> callback_end \<times> telegram_permission" where
  "handle_callback cb p =
     (if \<not> has_prefix (cq_data cb) callback_prefix then (NotMine, p)
      else case parse_permission_callback (cq_data cb) of
        None \<Rightarrow> (Reply ''Invalid permission response.'', p)
      | Some (nonce, action) \<Rightarrow>
          (case callback_chat cb of
             None \<Rightarrow> (Reply ''Permission response has no chat.'', p)
           | Some chat \<Rightarrow>
               (if chat \<notin> set (tp_chats p) then (Reply ''This chat is not allowed.'', p)
                else case map_of (tp_pending p) nonce of
                  None \<Rightarrow> (Reply ''Permission request expired.'', p)
                | Some pend \<Rightarrow>
                    (if tk_chat pend \<noteq> chat then (Reply ''Permission request expired.'', p)
                     else
                       (let d = decision_for_action action
                        in (Claimed nonce chat d (if pd_allow d then ''Allowed.'' else ''Denied.''), delete_pending nonce p))))))"

section \<open>Round trip of the callback data\<close>

lemma keyboard_buttons_parse:
  "list_all (list_all (\<lambda>(label, data). has_prefix data callback_prefix
     \<and> (\<exists>action. parse_permission_callback data = Some (base36 k, action)
          \<and> decision_for_action action = (if label = ''Allow once'' then granted RememberNever
              else if label = ''Allow session'' then granted RememberSession
              else if label = ''Allow target'' then granted RememberSessionTarget
              else denied ''permission denied by Telegram user''))))
   (permission_keyboard (base36 k))"
proof -
  have "parse_permission_callback (permission_callback (base36 k) a) = Some (base36 k, a)"
    if "a \<noteq> []" "CHR '':'' \<notin> set a" for a
  proof -
    have "trim_prefix (permission_callback (base36 k) a) callback_prefix = base36 k @ CHR '':'' # a"
      by (simp add: permission_callback_def trim_prefix_def has_prefix_def)
    moreover have "split_on (CHR '':'') (base36 k @ CHR '':'' # a) = [base36 k, a]"
      using that(2) base36_no_colon [of k] by (simp add: split_on_append split_on_id)
    ultimately show ?thesis using that(1) by (simp add: parse_permission_callback_def)
  qed
  moreover have "has_prefix (permission_callback (base36 k) a) callback_prefix" for a
    by (simp add: permission_callback_def has_prefix_def)
  ultimately show ?thesis by (simp add: permission_keyboard_def decision_for_action_def)
qed

section \<open>Requests and answers interleaved\<close>

text \<open>A request waits from its registration until \<open>Decide\<close> returns; the flag says that its message has
  been sent. A claimed answer is on its way to the buffered channel of the request, then in it. \<open>tm_asked\<close>,
  \<open>tm_accepted\<close> and \<open>tm_results\<close> are the history: the prompts, the answers that were claimed and
  acknowledged to the user, and what \<open>Decide\<close> returned.\<close>

record tg_state =
  tm_perm :: telegram_permission
  tm_waiting :: "(string \<times> permission_request \<times> bool) list"
  tm_sending :: "(string \<times> permission_decision) list"
  tm_channels :: "(string \<times> permission_decision) list"
  tm_asked :: "(string \<times> permission_request \<times> int) list"
  tm_accepted :: "(string \<times> int \<times> permission_decision) list"
  tm_results :: "(permission_request \<times> (go_error + permission_decision)) list"

definition tg_start :: "int list \<Rightarrow> tg_state" where
  "tg_start chats = \<lparr>tm_perm = attach chats new_permission, tm_waiting = [], tm_sending = [], tm_channels = [],
     tm_asked = [], tm_accepted = [], tm_results = []\<rparr>"

definition give_up :: "string \<Rightarrow> permission_request \<Rightarrow> go_error + permission_decision \<Rightarrow> tg_state \<Rightarrow> tg_state" where
  "give_up n r x s = s\<lparr>tm_perm := delete_pending n (tm_perm s),
     tm_waiting := filter (\<lambda>y. fst y \<noteq> n) (tm_waiting s), tm_results := (r, x) # tm_results s\<rparr>"

definition send_failure :: permission_decision where
  "send_failure = denied ''permission denied: failed to send Telegram permission prompt''"

definition timeout_denial :: permission_decision where
  "timeout_denial = denied ''permission denied: Telegram permission prompt timed out''"

inductive tg_step :: "tg_state \<Rightarrow> tg_state \<Rightarrow> bool" where
  answered: "decide_enter ctx r (tm_perm s) = (Answered x, p) \<Longrightarrow>
     tg_step s (s\<lparr>tm_perm := p, tm_results := (r, x) # tm_results s\<rparr>)"
| ask: "decide_enter ctx r (tm_perm s) = (Asking n c, p) \<Longrightarrow>
     tg_step s (s\<lparr>tm_perm := p, tm_waiting := (n, r, False) # tm_waiting s, tm_asked := (n, r, c) # tm_asked s\<rparr>)"
| sent: "(n, r, False) \<in> set (tm_waiting s) \<Longrightarrow>
     tg_step s (s\<lparr>tm_waiting := (n, r, True) # filter (\<lambda>y. fst y \<noteq> n) (tm_waiting s)\<rparr>)"
| send_failed: "(n, r, False) \<in> set (tm_waiting s) \<Longrightarrow> tg_step s (give_up n r (Inr send_failure) s)"
| claim: "handle_callback cb (tm_perm s) = (Claimed n c d reply, p) \<Longrightarrow>
     tg_step s (s\<lparr>tm_perm := p, tm_sending := (n, d) # tm_sending s, tm_accepted := (n, c, d) # tm_accepted s\<rparr>)"
| hand_over: "(n, d) \<in> set (tm_sending s) \<Longrightarrow>
     tg_step s (s\<lparr>tm_sending := remove1 (n, d) (tm_sending s), tm_channels := (n, d) # tm_channels s\<rparr>)"
| receive: "(n, r, True) \<in> set (tm_waiting s) \<Longrightarrow> (n, d) \<in> set (tm_channels s) \<Longrightarrow>
     tg_step s (s\<lparr>tm_perm := remember_decision r d (tm_perm s), tm_waiting := filter (\<lambda>y. fst y \<noteq> n) (tm_waiting s),
       tm_channels := remove1 (n, d) (tm_channels s), tm_results := (r, Inr d) # tm_results s\<rparr>)"
| time_out: "(n, r, True) \<in> set (tm_waiting s) \<Longrightarrow> tg_step s (give_up n r (Inr timeout_denial) s)"
| cancel: "(n, r, True) \<in> set (tm_waiting s) \<Longrightarrow> tg_step s (give_up n r (Inl e) s)"

inductive tg_reach :: "int list \<Rightarrow> tg_state \<Rightarrow> bool" for chats where
  start: "tg_reach chats (tg_start chats)"
| step: "tg_reach chats s \<Longrightarrow> tg_step s s' \<Longrightarrow> tg_reach chats s'"

text \<open>An approval has a claimed answer behind it: to this request, or one that was to be remembered for the
  session or the target of a request with the same key.\<close>

definition backed :: "tg_state \<Rightarrow> permission_request \<Rightarrow> permission_decision \<Rightarrow> bool" where
  "backed s r d \<longleftrightarrow> (\<exists>n r' c d'. (n, r', c) \<in> set (tm_asked s) \<and> (n, c, d') \<in> set (tm_accepted s)
     \<and> pd_allow d' \<and> pd_remember d' = pd_remember d
     \<and> (case pd_remember d of
          RememberSession \<Rightarrow> tg_session_key r' = tg_session_key r
        | RememberSessionTarget \<Rightarrow> tg_target_key r' = tg_target_key r
        | _ \<Rightarrow> r' = r \<and> d' = d))"

definition asked_ok :: "int list \<Rightarrow> tg_state \<Rightarrow> bool" where
  "asked_ok chats s \<longleftrightarrow> tp_chats (tm_perm s) = chats \<and> distinct (map fst (tm_asked s))
     \<and> (\<forall>n r c. (n, r, c) \<in> set (tm_asked s) \<longrightarrow> chat_of_session (pr_session r) = Inr c \<and> c \<in> set chats
          \<and> (\<exists>k \<le> tp_nonce (tm_perm s). n = base36 k))
     \<and> (\<forall>n q. (n, q) \<in> set (tp_pending (tm_perm s)) \<longrightarrow> (n, tk_request q, tk_chat q) \<in> set (tm_asked s))
     \<and> (\<forall>n r b. (n, r, b) \<in> set (tm_waiting s) \<longrightarrow> (\<exists>c. (n, r, c) \<in> set (tm_asked s)))"

definition answers_ok :: "tg_state \<Rightarrow> bool" where
  "answers_ok s \<longleftrightarrow> distinct (map fst (tm_accepted s))
     \<and> (\<forall>n c d. (n, c, d) \<in> set (tm_accepted s) \<longrightarrow> n \<notin> fst ` set (tp_pending (tm_perm s)) \<and> (\<exists>r. (n, r, c) \<in> set (tm_asked s)))
     \<and> (\<forall>n d. (n, d) \<in> set (tm_sending s) \<union> set (tm_channels s) \<longrightarrow> (\<exists>c. (n, c, d) \<in> set (tm_accepted s)))"

definition approvals_ok :: "tg_state \<Rightarrow> bool" where
  "approvals_ok s \<longleftrightarrow>
     (\<forall>r. tg_session_key r \<in> set (tp_sessions (tm_perm s)) \<longrightarrow> backed s r (granted RememberSession))
     \<and> (\<forall>r. tg_target_key r \<in> set (tp_targets (tm_perm s)) \<longrightarrow> backed s r (granted RememberSessionTarget))
     \<and> list_all (\<lambda>(r, x). case x of Inl _ \<Rightarrow> True | Inr d \<Rightarrow> pd_allow d \<longrightarrow> backed s r d) (tm_results s)"

lemma tg_backed_mono:
  "backed s r d \<Longrightarrow> set (tm_asked s) \<subseteq> set (tm_asked s') \<Longrightarrow> set (tm_accepted s) \<subseteq> set (tm_accepted s') \<Longrightarrow> backed s' r d"
  unfolding backed_def by blast

lemma set_alist_update: "set (AList.update k v xs) \<subseteq> insert (k, v) (set xs)"
  by (induction xs) auto

lemma set_alist_delete: "set (AList.delete k xs) \<subseteq> set xs"
  by (auto simp: AList.delete_eq)

lemma set_alist_delete_update: "set (AList.delete k (AList.update k v xs)) \<subseteq> set xs"
  using set_alist_update [of k v xs] by (auto simp: AList.delete_eq)

lemma decide_enter_answered:
  assumes "decide_enter ctx r p = (Answered x, p')"
  shows "tp_chats p' = tp_chats p \<and> tp_nonce p \<le> tp_nonce p' \<and> set (tp_pending p') \<subseteq> set (tp_pending p)
    \<and> tp_sessions p' = tp_sessions p \<and> tp_targets p' = tp_targets p
    \<and> (case x of Inl _ \<Rightarrow> True | Inr d \<Rightarrow> pd_allow d \<longrightarrow>
         d = granted RememberSession \<and> tg_session_key r \<in> set (tp_sessions p)
         \<or> d = granted RememberSessionTarget \<and> tg_target_key r \<in> set (tp_targets p))"
  using assms
  by (auto simp: decide_enter_def delete_pending_def denied_def granted_def Let_def
      dest: subsetD [OF set_alist_delete_update] split: option.splits sum.splits if_splits)

lemma decide_enter_asking:
  assumes "decide_enter ctx r p = (Asking n c, p')"
  shows "tp_chats p' = tp_chats p \<and> tp_nonce p' = Suc (tp_nonce p) \<and> n = base36 (Suc (tp_nonce p))
    \<and> set (tp_pending p') \<subseteq> insert (n, \<lparr>tk_chat = c, tk_request = r\<rparr>) (set (tp_pending p))
    \<and> tp_sessions p' = tp_sessions p \<and> tp_targets p' = tp_targets p
    \<and> chat_of_session (pr_session r) = Inr c \<and> c \<in> set (tp_chats p)"
  using assms
  by (auto simp: decide_enter_def Let_def dest: subsetD [OF set_alist_update]
      split: option.splits sum.splits if_splits)

lemma handle_callback_claims:
  assumes "handle_callback cb p = (Claimed n c d reply, p')"
  shows "p' = delete_pending n p \<and> c \<in> set (tp_chats p) \<and> (\<exists>q. (n, q) \<in> set (tp_pending p) \<and> tk_chat q = c)"
  using assms by (auto simp: handle_callback_def Let_def dest: map_of_SomeD split: option.splits prod.splits if_splits)

lemmas tg_simps = delete_pending_def give_up_def

lemma asked_ok_keeps:
  assumes "asked_ok chats s" and "tm_asked s' = tm_asked s" and "tp_chats (tm_perm s') = tp_chats (tm_perm s)"
    and "tp_nonce (tm_perm s) \<le> tp_nonce (tm_perm s')" and "set (tp_pending (tm_perm s')) \<subseteq> set (tp_pending (tm_perm s))"
    and "\<And>n r b. (n, r, b) \<in> set (tm_waiting s') \<Longrightarrow> \<exists>b'. (n, r, b') \<in> set (tm_waiting s)"
  shows "asked_ok chats s'"
proof -
  have "\<exists>k\<le>tp_nonce (tm_perm s'). n = base36 k" if "\<exists>k\<le>tp_nonce (tm_perm s). n = base36 k" for n
    using that assms(4) order_trans by blast
  moreover have "\<exists>c. (n, r, c) \<in> set (tm_asked s)" if "(n, r, b) \<in> set (tm_waiting s')" for n r b
    using assms(6) [OF that] assms(1) unfolding asked_ok_def by blast
  ultimately show ?thesis using assms(1,5) unfolding asked_ok_def assms(2,3) by blast
qed

lemma asked_okD:
  "asked_ok chats s \<Longrightarrow> (n, r, c) \<in> set (tm_asked s) \<Longrightarrow> \<exists>k \<le> tp_nonce (tm_perm s). n = base36 k"
  "asked_ok chats s \<Longrightarrow> (n, q) \<in> set (tp_pending (tm_perm s)) \<Longrightarrow> (n, tk_request q, tk_chat q) \<in> set (tm_asked s)"
  "asked_ok chats s \<Longrightarrow> (n, r, b) \<in> set (tm_waiting s) \<Longrightarrow> \<exists>c. (n, r, c) \<in> set (tm_asked s)"
  "asked_ok chats s \<Longrightarrow> distinct (map fst (tm_asked s))"
  unfolding asked_ok_def by blast+

lemma answers_okD:
  "answers_ok s \<Longrightarrow> (n, c, d) \<in> set (tm_accepted s) \<Longrightarrow> n \<notin> fst ` set (tp_pending (tm_perm s))"
  "answers_ok s \<Longrightarrow> (n, c, d) \<in> set (tm_accepted s) \<Longrightarrow> \<exists>r. (n, r, c) \<in> set (tm_asked s)"
  "answers_ok s \<Longrightarrow> (n, d) \<in> set (tm_channels s) \<Longrightarrow> \<exists>c. (n, c, d) \<in> set (tm_accepted s)"
  unfolding answers_ok_def by blast+

lemma fresh_nonce:
  assumes "asked_ok chats s" and "decide_enter ctx r (tm_perm s) = (Asking n c, p)"
  shows "n \<notin> fst ` set (tm_asked s)"
proof
  assume "n \<in> fst ` set (tm_asked s)"
  then obtain r' c' where "(n, r', c') \<in> set (tm_asked s)" by auto
  then obtain k where "k \<le> tp_nonce (tm_perm s)" "n = base36 k" using asked_okD(1) [OF assms(1)] by blast
  then show False using decide_enter_asking [OF assms(2)] by (simp add: base36_inj)
qed

lemma remember_decision_same [simp]:
  "tp_chats (remember_decision r d p) = tp_chats p" "tp_nonce (remember_decision r d p) = tp_nonce p"
  "tp_pending (remember_decision r d p) = tp_pending p"
  by (cases "pd_remember d"; simp add: remember_decision_def)+

lemma asked_ok_step: "tg_step s s' \<Longrightarrow> asked_ok chats s \<Longrightarrow> asked_ok chats s'"
proof (induction rule: tg_step.induct)
  case (answered ctx r s x p)
  then show ?case using decide_enter_answered [OF answered(1)] by (intro asked_ok_keeps [OF answered(2)]) auto
next
  case (ask ctx r s n c p)
  note a = decide_enter_asking [OF ask(1)]
  have "n \<notin> set (map fst (tm_asked s))" using fresh_nonce [OF ask(2,1)] by simp
  moreover have "\<exists>k\<le>tp_nonce p. m = base36 k" if "(m = n) \<or> (\<exists>k\<le>tp_nonce (tm_perm s). m = base36 k)" for m
    using that a by (metis le_SucI order_refl)
  moreover have "tp_pending p = tp_pending p \<and> (\<forall>m q. (m, q) \<in> set (tp_pending p) \<longrightarrow> (m, tk_request q, tk_chat q) \<in> insert (n, r, c) (set (tm_asked s)))"
    using a ask(2) unfolding asked_ok_def by (auto dest: subsetD)
  ultimately show ?case using ask(2) a unfolding asked_ok_def by simp blast
next
  case (claim cb s n c d reply p)
  then show ?case using handle_callback_claims [OF claim(1)] set_alist_delete [of n "tp_pending (tm_perm s)"]
    by (intro asked_ok_keeps [OF claim(2)]) (auto simp: tg_simps)
next
  case (receive n r s d)
  then show ?case by (intro asked_ok_keeps [OF receive(3)]) auto
next
  case (sent n r s)
  then show ?case by (intro asked_ok_keeps [OF sent(2)]) auto
next
  case (hand_over n d s)
  then show ?case by (intro asked_ok_keeps [OF hand_over(2)]) auto
next
  case (send_failed n r s)
  then show ?case by (intro asked_ok_keeps [OF send_failed(2)]) (auto simp: tg_simps dest: subsetD [OF set_alist_delete])
next
  case (time_out n r s)
  then show ?case by (intro asked_ok_keeps [OF time_out(2)]) (auto simp: tg_simps dest: subsetD [OF set_alist_delete])
next
  case (cancel n r s e)
  then show ?case by (intro asked_ok_keeps [OF cancel(2)]) (auto simp: tg_simps dest: subsetD [OF set_alist_delete])
qed

lemma answers_ok_keeps:
  assumes "answers_ok s" and "tm_accepted s' = tm_accepted s" and "set (tm_asked s) \<subseteq> set (tm_asked s')"
    and "\<And>n. n \<in> fst ` set (tp_pending (tm_perm s')) \<Longrightarrow> n \<in> fst ` set (tp_pending (tm_perm s)) \<or> n \<notin> fst ` set (tm_accepted s)"
    and "set (tm_sending s') \<union> set (tm_channels s') \<subseteq> set (tm_sending s) \<union> set (tm_channels s)"
  shows "answers_ok s'"
proof -
  have "n \<notin> fst ` set (tp_pending (tm_perm s')) \<and> (\<exists>r. (n, r, c) \<in> set (tm_asked s'))"
    if m: "(n, c, d) \<in> set (tm_accepted s)" for n c d
  proof -
    have "n \<notin> fst ` set (tp_pending (tm_perm s))" "\<exists>r. (n, r, c) \<in> set (tm_asked s)"
      using assms(1) m by (auto simp: answers_ok_def)
    moreover have "n \<in> fst ` set (tm_accepted s)" using m by force
    ultimately show ?thesis using assms(3) assms(4) [of n] by blast
  qed
  moreover have "\<exists>c. (n, c, d) \<in> set (tm_accepted s)" if "(n, d) \<in> set (tm_sending s') \<union> set (tm_channels s')" for n d
    using assms(1) subsetD [OF assms(5) that] by (auto simp: answers_ok_def)
  ultimately show ?thesis using assms(1) by (auto simp: answers_ok_def assms(2))
qed

lemma answers_ok_step: "tg_step s s' \<Longrightarrow> asked_ok chats s \<Longrightarrow> answers_ok s \<Longrightarrow> answers_ok s'"
proof (induction rule: tg_step.induct)
  case (answered ctx r s x p)
  then show ?case using decide_enter_answered [OF answered(1)] by (intro answers_ok_keeps [OF answered(3)]) auto
next
  case (ask ctx r s n c p)
  have "n \<notin> fst ` set (tm_accepted s)"
  proof
    assume "n \<in> fst ` set (tm_accepted s)"
    then obtain c' d' where "(n, c', d') \<in> set (tm_accepted s)" by auto
    then have "n \<in> fst ` set (tm_asked s)" using answers_okD(2) [OF ask(3)] by force
    then show False using fresh_nonce [OF ask(2,1)] by blast
  qed
  moreover have "fst ` set (tp_pending p) \<subseteq> insert n (fst ` set (tp_pending (tm_perm s)))"
    using decide_enter_asking [OF ask(1)] by auto
  ultimately show ?case by (intro answers_ok_keeps [OF ask(3)]) (simp_all add: subset_insertI, blast)
next
  case (claim cb s n c d reply p)
  from handle_callback_claims [OF claim(1)] obtain q
    where q: "p = delete_pending n (tm_perm s)" "(n, q) \<in> set (tp_pending (tm_perm s))" "tk_chat q = c" by blast
  have "(n, tk_request q, c) \<in> set (tm_asked s)" using asked_okD(2) [OF claim(2) q(2)] q(3) by simp
  moreover have "n \<notin> fst ` set (tm_accepted s)" using answers_okD(1) [OF claim(3)] q(2) by force
  moreover have "n \<notin> fst ` set (AList.delete n (tp_pending (tm_perm s)))" by (auto simp: AList.delete_eq)
  ultimately show ?case
    using claim(3) set_alist_delete [of n "tp_pending (tm_perm s)"] unfolding answers_ok_def q(1) delete_pending_def
    by simp blast
next
  case (hand_over n d s)
  then show ?case using set_remove1_subset [of "(n, d)" "tm_sending s"] by (intro answers_ok_keeps [OF hand_over(3)]) auto
next
  case (receive n r s d)
  then show ?case using set_remove1_subset [of "(n, d)" "tm_channels s"] by (intro answers_ok_keeps [OF receive(4)]) auto
next
  case (sent n r s)
  then show ?case by (intro answers_ok_keeps [OF sent(3)]) auto
next
  case (send_failed n r s)
  then show ?case by (intro answers_ok_keeps [OF send_failed(3)]) (auto simp: tg_simps dest: subsetD [OF set_alist_delete])
next
  case (time_out n r s)
  then show ?case by (intro answers_ok_keeps [OF time_out(3)]) (auto simp: tg_simps dest: subsetD [OF set_alist_delete])
next
  case (cancel n r s e)
  then show ?case by (intro answers_ok_keeps [OF cancel(3)]) (auto simp: tg_simps dest: subsetD [OF set_alist_delete])
qed

lemma approvals_ok_grows:
  assumes "approvals_ok s" and "set (tm_asked s) \<subseteq> set (tm_asked s')" and "set (tm_accepted s) \<subseteq> set (tm_accepted s')"
    and "tp_sessions (tm_perm s') = tp_sessions (tm_perm s)" and "tp_targets (tm_perm s') = tp_targets (tm_perm s)"
    and "tm_results s' = tm_results s \<or> (\<exists>r x. tm_results s' = (r, x) # tm_results s
           \<and> (case x of Inl _ \<Rightarrow> True | Inr d \<Rightarrow> pd_allow d \<longrightarrow> backed s' r d))"
  shows "approvals_ok s'"
  using assms tg_backed_mono [OF _ assms(2,3)] unfolding approvals_ok_def list_all_iff
  by (fastforce split: sum.splits)

lemma approvals_ok_step: "tg_step s s' \<Longrightarrow> asked_ok chats s \<Longrightarrow> answers_ok s \<Longrightarrow> approvals_ok s \<Longrightarrow> approvals_ok s'"
proof (induction rule: tg_step.induct)
  case (answered ctx r s x p)
  note a = decide_enter_answered [OF answered(1)]
  have "case x of Inl _ \<Rightarrow> True | Inr d \<Rightarrow> pd_allow d \<longrightarrow> backed s r d"
    using a answered(4) unfolding approvals_ok_def by (cases x) auto
  moreover have same: "backed (s\<lparr>tm_perm := p, tm_results := rs\<rparr>) r d = backed s r d" for rs r d
    by (simp add: backed_def)
  moreover have "tp_sessions p = tp_sessions (tm_perm s)" "tp_targets p = tp_targets (tm_perm s)" using a by blast+
  ultimately show ?case by (intro approvals_ok_grows [OF answered(4)]) (simp_all split: sum.splits)
next
  case (ask ctx r s n c p)
  note a = decide_enter_asking [OF ask(1)]
  have "tp_sessions p = tp_sessions (tm_perm s)" "tp_targets p = tp_targets (tm_perm s)" using a by blast+
  then show ?case by (intro approvals_ok_grows [OF ask(4)]) (simp_all add: subset_insertI)
next
  case (claim cb s n c d reply p)
  then have "p = delete_pending n (tm_perm s)" using handle_callback_claims by blast
  then show ?case by (intro approvals_ok_grows [OF claim(4)]) (simp_all add: delete_pending_def subset_insertI)
next
  case (receive n r s d)
  from asked_okD(3) [OF receive(3,1)] obtain c where a: "(n, r, c) \<in> set (tm_asked s)" by blast
  from answers_okD(3) [OF receive(4,2)] obtain c' where c': "(n, c', d) \<in> set (tm_accepted s)" by blast
  from answers_okD(2) [OF receive(4) c'] obtain r' where "(n, r', c') \<in> set (tm_asked s)" by blast
  then have "c' = c" using eq_key_imp_eq_value [OF asked_okD(4) [OF receive(3)] a, of "(r', c')"] by simp
  then have own: "backed s r0 d" if "pd_allow d"
      "case pd_remember d of RememberSession \<Rightarrow> tg_session_key r = tg_session_key r0
       | RememberSessionTarget \<Rightarrow> tg_target_key r = tg_target_key r0 | _ \<Rightarrow> r = r0" for r0
    using that a c' unfolding backed_def
    by (intro exI [of _ n] exI [of _ r] exI [of _ c] exI [of _ d]) (auto split: remember_scope.splits)
  then have "pd_allow d \<Longrightarrow> backed s r d" by (auto split: remember_scope.splits)
  moreover have "backed s r0 (granted (pd_remember d)) = backed s r0 d" if "pd_remember d \<in> {RememberSession, RememberSessionTarget}" for r0
    using that by (cases "pd_remember d") (simp_all add: backed_def granted_def)
  moreover have same: "backed (s\<lparr>tm_perm := p, tm_waiting := w, tm_channels := ch, tm_results := rs\<rparr>) r d = backed s r d" for p w ch rs r d
    by (simp add: backed_def)
  ultimately show ?case using receive(5) own unfolding approvals_ok_def same
    by (cases "pd_remember d") (auto simp: remember_decision_def)
next
  case (hand_over n d s)
  then show ?case by (intro approvals_ok_grows [OF hand_over(4)]) auto
next
  case (sent n r s)
  then show ?case by (intro approvals_ok_grows [OF sent(4)]) auto
next
  case (send_failed n r s)
  then show ?case by (intro approvals_ok_grows [OF send_failed(4)]) (auto simp: tg_simps send_failure_def denied_def)
next
  case (time_out n r s)
  then show ?case by (intro approvals_ok_grows [OF time_out(4)]) (auto simp: tg_simps timeout_denial_def denied_def)
next
  case (cancel n r s e)
  then show ?case by (intro approvals_ok_grows [OF cancel(4)]) (auto simp: tg_simps)
qed

lemma tg_reach_ok: "tg_reach chats s \<Longrightarrow> asked_ok chats s \<and> answers_ok s \<and> approvals_ok s"
proof (induction rule: tg_reach.induct)
  case start
  show ?case
    by (simp add: tg_start_def attach_def new_permission_def asked_ok_def answers_ok_def approvals_ok_def)
next
  case (step s s')
  then show ?case using asked_ok_step answers_ok_step approvals_ok_step by blast
qed

section \<open>Properties\<close>

text \<open>C30. Every approval a tool acts on was given by a person in an allowed chat: behind each result that
  allows a request there is a claimed answer from the chat of the asking session, to this very request
  or, for a standing approval, to one with the same session or target key. Nonces are never reused,
  and at most one answer is claimed for each.\<close>

theorem telegram_approvals_are_answered:
  assumes "tg_reach chats s"
  shows "list_all (\<lambda>(r, x). case x of Inl _ \<Rightarrow> True | Inr d \<Rightarrow> pd_allow d \<longrightarrow> backed s r d) (tm_results s)
    \<and> list_all (\<lambda>(n, r, c). chat_of_session (pr_session r) = Inr c \<and> c \<in> set chats) (tm_asked s)
    \<and> list_all (\<lambda>(n, c, d). \<exists>r. (n, r, c) \<in> set (tm_asked s)) (tm_accepted s)
    \<and> distinct (map fst (tm_asked s)) \<and> distinct (map fst (tm_accepted s))"
  using tg_reach_ok [OF assms] unfolding approvals_ok_def asked_ok_def answers_ok_def list_all_iff by fast

definition sample_request :: permission_request where
  "sample_request = \<lparr>pr_tool = ''sh'', pr_action = ''run'', pr_target = ''x'', pr_args = [], pr_session = ''telegram:7''\<rparr>"

definition asked_perm :: telegram_permission where
  "asked_perm = \<lparr>tp_api = True, tp_chats = [7], tp_nonce = 1,
     tp_pending = [(''1'', \<lparr>tk_chat = 7, tk_request = sample_request\<rparr>)], tp_sessions = [], tp_targets = []\<rparr>"

definition asked_state :: "bool \<Rightarrow> tg_state" where
  "asked_state sent = \<lparr>tm_perm = asked_perm, tm_waiting = [(''1'', sample_request, sent)], tm_sending = [], tm_channels = [],
     tm_asked = [(''1'', sample_request, 7)], tm_accepted = [], tm_results = []\<rparr>"

definition claimed_state :: tg_state where
  "claimed_state = (asked_state True)\<lparr>tm_perm := asked_perm\<lparr>tp_pending := []\<rparr>,
     tm_sending := [(''1'', granted RememberNever)], tm_accepted := [(''1'', 7, granted RememberNever)]\<rparr>"

lemma sample_enter: "decide_enter None sample_request (attach [7] new_permission) = (Asking ''1'' 7, asked_perm)"
  by code_simp

lemma sample_answer:
  "handle_callback \<lparr>cq_chat = Some 7, cq_data = ''perm:1:once''\<rparr> asked_perm
     = (Claimed ''1'' 7 (granted RememberNever) ''Allowed.'', asked_perm\<lparr>tp_pending := []\<rparr>)"
  by code_simp

lemma claimed_reachable: "tg_reach [7] claimed_state"
proof -
  have "tg_step (tg_start [7]) (asked_state False)"
    using tg_step.ask [of None sample_request "tg_start [7]" "''1''" 7 asked_perm] sample_enter
    by (simp add: tg_start_def asked_state_def)
  then have 1: "tg_reach [7] (asked_state False)" by (rule tg_reach.step [OF tg_reach.start])
  have "tg_step (asked_state False) (asked_state True)"
    using tg_step.sent [of "''1''" sample_request "asked_state False"] by (simp add: asked_state_def)
  with 1 have 2: "tg_reach [7] (asked_state True)" by (rule tg_reach.step)
  have "tg_step (asked_state True) claimed_state"
    using tg_step.claim [of "\<lparr>cq_chat = Some 7, cq_data = ''perm:1:once''\<rparr>" "asked_state True"] sample_answer
    by (simp add: asked_state_def claimed_state_def)
  with 2 show ?thesis by (rule tg_reach.step)
qed

theorem telegram_approvals_are_answered_witness:
  "\<exists>s. tg_reach [7] s \<and> tm_results s = [(sample_request, Inr (granted RememberNever))]
     \<and> backed s sample_request (granted RememberNever)"
proof -
  let ?a = "granted RememberNever"
  let ?h = "claimed_state\<lparr>tm_sending := [], tm_channels := [(''1'', ?a)]\<rparr>"
  let ?s = "?h\<lparr>tm_waiting := [], tm_channels := [], tm_results := [(sample_request, Inr ?a)]\<rparr>"
  have "tg_step claimed_state ?h"
    using tg_step.hand_over [of "''1''" ?a claimed_state] by (simp add: claimed_state_def asked_state_def)
  with claimed_reachable have "tg_reach [7] ?h" by (rule tg_reach.step)
  moreover have "tg_step ?h ?s"
    using tg_step.receive [of "''1''" sample_request ?h ?a]
    by (simp add: claimed_state_def asked_state_def remember_decision_def granted_def)
  ultimately have s: "tg_reach [7] ?s" by (rule tg_reach.step)
  from telegram_approvals_are_answered [OF s] have "backed ?s sample_request ?a" by (simp add: granted_def)
  with s show ?thesis by (intro exI [of _ ?s]) simp
qed

text \<open>The answer and the timeout race: the user has been told that the request is allowed, and the tool is
  denied. The daemon's broker, which checks the pending entry before it gives up, has no such run.\<close>

theorem acknowledged_answer_can_be_lost:
  "\<exists>s. tg_reach [7] s \<and> tm_accepted s = [(''1'', 7, granted RememberNever)]
     \<and> tm_results s = [(sample_request, Inr timeout_denial)] \<and> tm_waiting s = []"
proof -
  have "tg_step claimed_state (give_up ''1'' sample_request (Inr timeout_denial) claimed_state)"
    by (rule tg_step.time_out) (simp add: claimed_state_def asked_state_def)
  with claimed_reachable have "tg_reach [7] (give_up ''1'' sample_request (Inr timeout_denial) claimed_state)"
    by (rule tg_reach.step)
  then show ?thesis
    by (intro exI [of _ "give_up ''1'' sample_request (Inr timeout_denial) claimed_state"])
       (simp add: give_up_def claimed_state_def asked_state_def)
qed

end
