(* ===== verification/Telegram_Channel.thy ===== *)
theory Telegram_Channel
  imports Telegram_Permission Utf8
begin

text \<open>
  The poll loop and the message texts of the Telegram channel: \<open>src/agents/peggy/channels/telegram/channel.go\<close>
  and the texts of \<open>api.go\<close>. What a poll returns is an argument of each step; the calls of the agent and
  of the Bot API are outside. Update ids are taken below the limit of \<open>int64\<close>.
\<close>

section \<open>Cutting a reply into messages\<close>

definition message_limit :: nat where "message_limit = 4096"

text \<open>The longest valid prefix of at most \<open>n\<close> bytes.\<close>

fun valid_cut :: "string \<Rightarrow> nat \<Rightarrow> nat" where
  "valid_cut msg 0 = 0"
| "valid_cut msg (Suc n) = (if valid_string (take (Suc n) msg) then Suc n else valid_cut msg n)"

definition chunk_cut :: "string \<Rightarrow> nat \<Rightarrow> nat" where
  "chunk_cut msg limit =
     (if length msg \<le> limit then length msg
      else
        (let cut = valid_cut msg limit in
         if cut = 0 then snd (first_rune msg)
         else
           (let floor = cut div 2; upper = drop floor (take cut msg) in
            case last_index_of upper [nl] of
              Some i \<Rightarrow> floor + i + 1
            | None \<Rightarrow> (case last_index_of upper '' '' of Some i \<Rightarrow> floor + i + 1 | None \<Rightarrow> cut))))"

lemma valid_cut_le: "valid_cut msg n \<le> n"
  by (induction n) simp_all

lemma last_index_of_Some: "last_index_of s p = Some i \<Longrightarrow> s = take i s @ p @ drop (i + length p) s \<and> i + length p \<le> length s"
proof (induction s arbitrary: i)
  case (Cons c s)
  show ?case
  proof (cases "last_index_of s p")
    case None
    then show ?thesis using Cons.prems has_prefix_length [of "c # s" p] by (auto elim!: has_prefixE split: if_splits)
  next
    case (Some j)
    then show ?thesis using Cons by auto
  qed
qed (auto split: if_splits)

lemma chunk_cut_shape:
  assumes "limit < length msg"
  shows "chunk_cut msg limit = snd (first_rune msg) \<or> (0 < valid_cut msg limit \<and> chunk_cut msg limit = valid_cut msg limit)
    \<or> (\<exists>floor i x. x \<in> {nl, CHR '' ''} \<and> last_index_of (drop floor (take (valid_cut msg limit) msg)) [x] = Some i
          \<and> chunk_cut msg limit = floor + i + 1)"
  using assms unfolding chunk_cut_def Let_def by (auto simp del: One_nat_def split: option.split)

lemma chunk_cut_bounds:
  assumes "msg \<noteq> []"
  shows "1 \<le> chunk_cut msg limit \<and> chunk_cut msg limit \<le> length msg
    \<and> (chunk_cut msg limit \<le> limit \<or> chunk_cut msg limit = snd (first_rune msg))"
proof -
  define cut where "cut = valid_cut msg limit"
  have c: "cut \<le> limit" using valid_cut_le by (simp add: cut_def)
  have "floor + i + 1 \<le> cut" if "last_index_of (drop floor (take cut msg)) [ch] = Some i" "length msg > limit" for floor i ch
    using last_index_of_Some [OF that(1)] that(2) c by simp arith
  then show ?thesis using first_rune_size [OF assms] c chunk_cut_shape [of limit msg, folded cut_def]
    by (cases "limit < length msg") (fastforce simp: chunk_cut_def Suc_le_eq)+
qed

text \<open>\<open>if cut <= 0 || cut > len(text)\<close> never holds, by the bounds above.\<close>

function text_chunks_from :: "nat \<Rightarrow> string \<Rightarrow> string list" where
  "text_chunks_from limit msg =
     (if length msg > limit then
        (let c = chunk_cut msg limit; cut = (if c = 0 \<or> c > length msg then limit else c)
         in if cut = 0 then [] else take cut msg # text_chunks_from limit (drop cut msg))
      else if msg \<noteq> [] then [msg] else [])"
  by pat_completeness auto
termination
  by (relation "measure (\<lambda>(limit, msg). length msg)") (auto simp: Let_def)

declare text_chunks_from.simps [simp del]

definition telegram_text_chunks :: "string \<Rightarrow> string list" where
  "telegram_text_chunks msg = text_chunks_from message_limit (trim_space msg)"

definition truncation_suffix :: string where
  "truncation_suffix = [nl] @ map byte [226, 128, 166] @ '' [truncated]''"

definition message_text :: "string \<Rightarrow> string" where
  "message_text msg =
     (if length msg > message_limit then take (message_limit - length truncation_suffix) msg @ truncation_suffix
      else msg)"

definition redact :: "string \<Rightarrow> string \<Rightarrow> string" where
  "redact token msg = (if token \<noteq> [] \<and> contains msg token then replace_all msg token ''<redacted>'' else msg)"

section \<open>Chunks\<close>

lemma chunk_cut_valid:
  assumes "valid_string msg" and "message_limit < length msg"
  shows "valid_string (take (chunk_cut msg message_limit) msg)"
proof -
  define cut where "cut = valid_cut msg message_limit"
  have v: "valid_string (take (valid_cut msg n) msg)" for n
    by (induction n) simp_all
  obtain c s where cs: "msg = c # s" using assms(2) by (cases msg) auto
  obtain r n where f: "first_rune (c # s) = (r, n)" by fastforce
  have one: "valid_string (take (snd (first_rune msg)) msg)"
    using valid_first_rune [OF f] valid_Cons [OF f] assms(1) f unfolding cs by simp
  have after: "valid_string (take (floor + i + 1) msg)"
    if i: "last_index_of (drop floor (take cut msg)) [x] = Some i" and x: "ascii_char x" for floor i x
  proof -
    have l: "floor + i < cut" "cut \<le> length msg"
      using last_index_of_Some [OF i] valid_cut_le [of msg message_limit] assms(2) by (auto simp: cut_def)
    have "drop floor (take cut msg) ! i = x" using last_index_of_Some [OF i]
      by (metis append_Cons length_take min.absorb2 add_leD1 nth_append_length)
    then have "msg ! (floor + i) = x" using l by simp
    then have "msg = take (floor + i) msg @ x # drop (Suc (floor + i)) msg"
      using l id_take_nth_drop [of "floor + i" msg] by simp
    then have "valid_string (take (floor + i) msg @ [x])"
      using valid_cut_after_ascii x assms(1) by metis
    moreover have "take (floor + i + 1) msg = take (floor + i) msg @ [msg ! (floor + i)]"
      using l by (simp add: take_Suc_conv_app_nth)
    ultimately show ?thesis using \<open>msg ! (floor + i) = x\<close> by simp
  qed
  have "ascii_char nl" "ascii_char (CHR '' '')" by (simp_all add: ascii_char_def nl_def code_of_def)
  note cuts = after [OF _ this(1)] after [OF _ this(2)]
  have "valid_string (take cut msg)" using v by (simp add: cut_def)
  then show ?thesis using one cuts chunk_cut_shape [OF assms(2), folded cut_def]
    by (elim disjE exE conjE insertE emptyE) simp_all
qed

lemma text_chunks_from_spec:
  "concat (text_chunks_from message_limit msg) = msg \<and> list_all (\<lambda>c. c \<noteq> []) (text_chunks_from message_limit msg)
   \<and> (valid_string msg \<longrightarrow> list_all (\<lambda>c. valid_string c \<and> length c \<le> message_limit) (text_chunks_from message_limit msg))"
proof (induction msg rule: length_induct)
  case (1 msg)
  define cut where "cut = chunk_cut msg message_limit"
  show ?case
  proof (cases "length msg > message_limit")
    case True
    then have ne: "msg \<noteq> []" by auto
    note b = chunk_cut_bounds [OF ne, of message_limit, folded cut_def]
    have e: "text_chunks_from message_limit msg = take cut msg # text_chunks_from message_limit (drop cut msg)"
      using b True by (subst text_chunks_from.simps) (simp add: cut_def [symmetric] Let_def)
    have "length (drop cut msg) < length msg" using b ne by simp
    note ih = "1.IH" [rule_format, OF this]
    have "snd (first_rune msg) \<le> 4"
      using decode_rune_size [of "map code_of (take 4 msg)"] ne by (simp add: first_rune_def)
    then have "cut \<le> message_limit" using b by (auto simp: message_limit_def)
    moreover have "valid_string (take cut msg)" "valid_string (drop cut msg)" if "valid_string msg"
      using chunk_cut_valid [OF that True] valid_append [of "take cut msg" "drop cut msg"] that by (simp_all add: cut_def)
    ultimately show ?thesis using ih b ne e by auto
  next
    case False
    then show ?thesis by (simp add: text_chunks_from.simps [of message_limit msg])
  qed
qed

text \<open>A reply reaches the chat complete: the chunks, put together, are the trimmed reply, none is empty,
  and when the reply is valid UTF-8 every chunk is a valid string within Telegram's limit, so that
  none is truncated when it is sent.\<close>

theorem reply_chunks:
  assumes "valid_string (trim_space msg)"
  shows "concat (telegram_text_chunks msg) = trim_space msg
    \<and> list_all (\<lambda>c. c \<noteq> [] \<and> valid_string c \<and> message_text c = c) (telegram_text_chunks msg)"
  using text_chunks_from_spec [of "trim_space msg"] assms
  by (auto simp: telegram_text_chunks_def message_text_def list_all_iff)

theorem reply_chunks_witness:
  "concat (telegram_text_chunks '' hi '') = ''hi''"
proof -
  have e: "trim_space '' hi '' = ''hi''" "valid_string (trim_space '' hi '')" by code_simp+
  show ?thesis using reply_chunks [OF e(2)] by (simp add: e(1))
qed

section \<open>The poll loop\<close>

record telegram_message =
  tg_chat :: int
  tg_text :: string

record telegram_update =
  up_id :: int
  up_message :: "telegram_message option"
  up_callback :: "callback_query option"

record poll_state =
  pl_offset :: int
  pl_backoff :: duration

definition retry_initial :: duration where "retry_initial = 1000000000"
definition retry_max :: duration where "retry_max = 30000000000"

definition poll_start :: poll_state where
  "poll_start = \<lparr>pl_offset = 0, pl_backoff = retry_initial\<rparr>"

definition next_offset :: "int \<Rightarrow> telegram_update list \<Rightarrow> int" where
  "next_offset offset us = fold (\<lambda>u o1. if up_id u \<ge> o1 then up_id u + 1 else o1) us offset"

text \<open>What is done with an update: a callback is answered by the loop itself, a message by a goroutine.\<close>

datatype poll_action = AnswerCallback callback_query | HandleUpdate telegram_update

definition action_of :: "telegram_update \<Rightarrow> poll_action" where
  "action_of u = (case up_callback u of Some cb \<Rightarrow> AnswerCallback cb | None \<Rightarrow> HandleUpdate u)"

text \<open>One round: the poll's result, and for a failure how long the loop sleeps.\<close>

definition poll_round :: "go_error + telegram_update list \<Rightarrow> poll_state \<Rightarrow> poll_action list \<times> duration option \<times> poll_state" where
  "poll_round result s =
     (case result of
        Inl e \<Rightarrow> ([], Some (pl_backoff s),
          s\<lparr>pl_backoff := (if pl_backoff s < retry_max then min (2 * pl_backoff s) retry_max else pl_backoff s)\<rparr>)
      | Inr us \<Rightarrow> (map action_of us, None,
          \<lparr>pl_offset = next_offset (pl_offset s) us, pl_backoff = retry_initial\<rparr>))"

definition channel_config :: "int \<Rightarrow> int" where
  "channel_config secs = (let s = (if secs \<le> 0 then 30 else secs) in if s > 60 then 60 else s)"

text \<open>What a message asks for: the session to prompt and the text, for an allowed chat.\<close>

definition gate_update :: "int list \<Rightarrow> telegram_update \<Rightarrow> (string \<times> string \<times> int) option" where
  "gate_update chats u =
     (case up_message u of
        None \<Rightarrow> None
      | Some m \<Rightarrow>
          (if trim_space (tg_text m) = [] \<or> tg_chat m \<notin> set chats then None
           else Some (channel_session_id ''telegram'' (itoa_int (tg_chat m)), tg_text m, tg_chat m)))"

definition reply_text :: "go_error + string \<Rightarrow> string \<Rightarrow> string" where
  "reply_text result buffer =
     (case result of
        Inl e \<Rightarrow> ''(I hit an error responding. Check the agent logs.)''
      | Inr t \<Rightarrow> (if trim_space t = [] then trim_space buffer else trim_space t))"

inductive poll_reach :: "poll_state \<Rightarrow> telegram_update list \<Rightarrow> bool" where
  start: "poll_reach poll_start []"
| failed: "poll_reach s us \<Longrightarrow> poll_round (Inl e) s = (acts, wait, s') \<Longrightarrow> poll_reach s' us"
| polled: "poll_reach s us \<Longrightarrow> distinct (map up_id new) \<Longrightarrow> list_all (\<lambda>u. pl_offset s \<le> up_id u) new
    \<Longrightarrow> poll_round (Inr new) s = (acts, wait, s') \<Longrightarrow> poll_reach s' (us @ new)"

lemma next_offset_bounds: "offset \<le> next_offset offset us \<and> (\<forall>u\<in>set us. up_id u < next_offset offset us)"
proof (induction us arbitrary: offset)
  case (Cons u us)
  define o1 where "o1 = (if up_id u \<ge> offset then up_id u + 1 else offset)"
  have "next_offset offset (u # us) = next_offset o1 us" by (simp add: next_offset_def o1_def)
  moreover have "offset \<le> o1" "up_id u < o1" by (simp_all add: o1_def)
  ultimately show ?case using Cons.IH [of o1] by auto
qed (simp add: next_offset_def)

text \<open>As long as the service honours the offset, no update is handled twice; the pause after a failure
  stays between a second and half a minute.\<close>

theorem updates_handled_once:
  assumes "poll_reach s us"
  shows "distinct (map up_id us) \<and> list_all (\<lambda>u. up_id u < pl_offset s) us
    \<and> retry_initial \<le> pl_backoff s \<and> pl_backoff s \<le> retry_max"
  using assms
proof (induction rule: poll_reach.induct)
  case start
  show ?case by (simp add: poll_start_def retry_initial_def retry_max_def)
next
  case (failed s us e acts wait s')
  then show ?case by (auto simp: poll_round_def retry_initial_def retry_max_def)
next
  case (polled s us new acts wait s')
  have s': "pl_offset s' = next_offset (pl_offset s) new" "pl_backoff s' = retry_initial"
    using polled.hyps(4) by (auto simp: poll_round_def)
  note b = next_offset_bounds [of "pl_offset s" new, folded s']
  have "up_id u < pl_offset s'" if "u \<in> set us" for u
    using that polled.IH b by (fastforce simp: list_all_iff)
  moreover have "up_id ` set us \<inter> up_id ` set new = {}"
    using polled.IH polled.hyps(3) by (fastforce simp: list_all_iff)
  ultimately show ?case using polled.IH polled.hyps(2) b s'(2)
    by (auto simp: list_all_iff retry_initial_def retry_max_def)
qed

end
