(* ===== verification/Spec2Isabelle.thy ===== *)
theory Spec2Isabelle
  imports Harden Guardrails Agent_Loop Goals Goal_Runs Output_Capture Fs_Nav Daemon_Jobs Openai_Compat Codex Shell_Exec Mcp_Tools At_Mentions
    Peggy_Scheduler Failover Subagent Telegram_Channel
begin

text \<open>
  A verification library of glue, a framework in Go for agents that call language models and tools. This
  root theory imports all the others. Paths below are under \<open>src/\<close>.

  The program and its parts. A caller prompts a session of an agent (\<open>agent.go\<close>, \<open>session.go\<close>); the session
  assembles a request from its transcript and the project's context files, runs the agent loop
  (\<open>loop/\<close>) and saves the transcript to a store (\<open>store.go\<close>, \<open>stores/file\<close>). The loop repairs the
  transcript, asks a provider for a turn (\<open>providers/\<close>), retries transient failures, runs the tools the
  model asks for (\<open>tools/\<close>) under a permission handler, and stops when the model does, or at one of its
  guards. On top of the session stand the goal loop (\<open>goal.go\<close>), compaction (\<open>compactor.go\<close>),
  subagents (\<open>subagent.go\<close>), the HTTP daemon (\<open>daemon/\<close>) and the assistant Peggy (\<open>agents/peggy\<close>).

  Theories, in the order of the imports, and the code they model.

  \<^item> \<open>Prelude\<close>, \<open>Go_Error\<close>, \<open>Go_Time\<close>, \<open>Go_Numbers\<close>, \<open>Utf8\<close>, \<open>Regexp\<close>: what the source uses of the Go
    library. Strings are byte lists; an error is a value with its text, its identity and what it wraps; an
    instant is a number of nanoseconds; a pattern of \<open>regexp\<close> is its parse tree and matching is defined by
    continuations on it. The shared lemmas on these and the \<open>named_theorems\<close> collections are here.
  \<^item> \<open>Transcript\<close>, \<open>Harden\<close>, \<open>Guardrails\<close>, \<open>Retry\<close>, \<open>Autocontinue\<close>, \<open>Tool_Calls\<close>, \<open>Agent_Loop\<close>: the
    package \<open>loop\<close>, one theory per file (\<open>types.go\<close>, \<open>harden.go\<close>, \<open>guardrails.go\<close>, \<open>retry.go\<close>,
    \<open>autocontinue.go\<close>, and \<open>run.go\<close> in two: its tool half and its turns). A provider, a tool and a
    permission handler are functions on a world of any type that they return changed.
  \<^item> \<open>Compaction\<close>, \<open>Project_Context\<close>, \<open>Sessions\<close>, \<open>Session_Store\<close>, \<open>Goals\<close>, \<open>Goal_Runs\<close>, \<open>Search\<close>,
    \<open>Subagent\<close>, \<open>Failover\<close>, \<open>Output_Capture\<close>: the root package (\<open>compactor.go\<close>, \<open>context.go\<close>,
    \<open>agent.go\<close> and \<open>session.go\<close>, \<open>store.go\<close> and \<open>stores/file\<close>, \<open>goal.go\<close>, \<open>goal_store.go\<close>, \<open>search.go\<close>,
    \<open>subagent.go\<close>, \<open>failover.go\<close>, \<open>executor.go\<close>).
  \<^item> \<open>Edit_Match\<close>, \<open>Fs_Paths\<close>, \<open>Fs_Tools\<close>, \<open>Fs_Nav\<close>: the file tools of \<open>tools/fs\<close>, from the match ladder of
    \<open>edit_file\<close> and the checks of paths to the tools themselves on a model of the operating system's calls.
    \<open>Shell_Exec\<close>, \<open>Mcp_Client\<close>, \<open>Mcp_Tools\<close>, \<open>At_Mentions\<close>: the shell tool (\<open>tools/shell\<close>), the client of
    the Model Context Protocol and the tools it offers (\<open>tools/mcp\<close>), and the file mentions of a prompt
    (\<open>cmd/glue/atmentions\<close>).
  \<^item> \<open>Daemon_Permissions\<close>, \<open>Daemon_Runs\<close>, \<open>Daemon_Server\<close>, \<open>Daemon_Jobs\<close>: \<open>daemon/run.go\<close> and
    \<open>daemon/server.go\<close>: grants and the permission cache, the log of one run with its readers and waiting
    requests, every HTTP handler, and the goroutines between them.
  \<^item> \<open>Provider_Streams\<close>, \<open>Openai_Compat\<close>, \<open>Codex_Auth\<close>, \<open>Codex\<close>: the contract of a provider's stream and the
    providers of \<open>providers/openaicompat\<close> and \<open>providers/codex\<close>, with the tokens of the latter.
  \<^item> \<open>Peggy_Schedule\<close>, \<open>Peggy_Scheduler\<close>, \<open>Peggy_Memory\<close>, \<open>Telegram_Permission\<close>, \<open>Telegram_Channel\<close>:
    \<open>agents/peggy\<close>: permission tiers and schedules, the scheduler with its goroutines, curated memories and
    their backup, and the Telegram channel with its permission prompts.

  How state and operations correspond. A struct is a record with the fields of the code, a method that
  changes it a function that returns it changed; a tagged struct (a content part, an event, an operation) is
  a datatype of its tags with the fields that are active for each. A map whose order or duplicates matter is
  an association list. Every error return, early return and panic the code can reach is a branch of the
  result, a sum or an option. A critical section under a mutex is one step; where several goroutines meet
  (the readers and waiting requests of a run, the jobs of the daemon, the ticks and runs of the scheduler, the
  callbacks of Telegram) the steps form an inductive relation and the theorems are about all its reachable
  states, that is about every interleaving. A channel is the list of what the receiver gets and the
  branch of a \<open>select\<close> that cancels is an item of it. Clocks, random ids, hashes, JSON coding, the network, child
  processes and the file system are arguments; what a theorem needs of them is a named hypothesis (a hash
  without collisions on the memories at hand, a decoder that inverts its encoder), and each property
  with such a hypothesis has a witness on concrete functions.

  What the groups of lemmas show.

  \<^item> The loop. A hardened transcript has every tool call answered and every result called for, hardening is
    idempotent and its renaming of ids is one injective renaming. The guards halt exactly at their limits. A
    retried turn succeeds exactly when one attempt does within the budget. A run returns the hardened input
    followed by its new messages, ends settled on the turn it took last, emits events of a regular shape with bounded turns, runs
    a round of tool calls in source order in both modes, and without permission no guarded tool has any influence.
  \<^item> Sessions and stores. \<open>session_store\<close> is the contract of \<open>Store\<close>; forking and cloning, goal records
    (\<open>record_store\<close>) and memories (\<open>memory_store\<close>) are proved against it and its extensions, and each locale
    is interpreted on the file store. \<open>compactor\<close> is the contract of \<open>Compactor\<close>, interpreted on both
    compactors; a compaction replaces a proper prefix by one smaller marker and keeps the ledger of files.
  \<^item> Tools. \<open>span_finder\<close> is the contract of a rung of the match ladder; an edit changes non-overlapping
    matches, each by the new string up to indentation, and keeps every other byte in order. A checked path stays
    inside the work directory and off the blocklist, paging returns every line once unless a line exceeds the cap
    or the line limit leaves the range of \<open>int\<close>, and captured output depends on the bytes alone. A built command is
    an allowed one in the work directory, an included mention a checked plain file, and MCP tools have different
    names and ask before they run.
  \<^item> The daemon. At most one answer decides a permission request, also against its timeout; the cache answers
    what a standing approval covers; readers write a gapless prefix of the log and sleep on nothing that has
    happened; each route changes only what it names, and an event stream that loses its reader cancels its run;
    the log of a run is framed in every reachable state.
  \<^item> Providers. \<open>provider_stream\<close> is the contract of a provider's stream, interpreted on both providers: a turn takes
    a stream whole or fails with its error. The requests made of a hardened transcript pair their calls, frames
    and base64 are read back as they were written, refreshed tokens are written all or nothing. A failover turn
    is the turn of the first provider that does not refuse.
  \<^item> Peggy. Schedules do not overlap their runs, and the end of a run stores its schedule advanced and not due;
    an import merges a backup and a round trip restores it; an approval over Telegram has an answer from the asking chat behind it.

  Bounds, fuel and loops that may not end. Recursion that is not structural has a termination proof. The turns
  of the loop count down from \<open>MaxTurns\<close> (or its default) as in the code, so the fuel is the code's own limit;
  retries count up to \<open>MaxRetries\<close>. Matching a pattern is bounded by the
  length of the text at each star, which consumes at least a byte per round. Three loops of the code may not end
  and are partial functions: drawing an id until it is free (\<open>fresh_id\<close>), reading the pages of a listing
  (\<open>list_pages\<close>) and moving a schedule past missed times (\<open>next_after\<close>); for the last it is proved when it
  returns and that it does not when the interval wraps to a non-positive value. The search for a free name of
  an MCP tool has one candidate more than there are names in use, so one is free. Machine integers keep their width where a bound depends on it
  (the backoff shift, the interval of a schedule, the expiry of a token, the end of a page, a number that comes
  back from JSON as a float of 53 bits); elsewhere, lengths and counters are natural numbers or integers, and a theorem
  that would differ at \<open>2 ^ 63\<close> says so.

  Limits of the model. Aliasing of Go slices and maps is left out except where a property depends on it; data
  races, memory and CPU limits are outside. Texts that are written as JSON are taken to be valid UTF-8;
  \<open>encoding/json\<close> replaces every other byte by the replacement rune. The order of a \<open>range\<close> over a map is an argument or sorted as
  in the code. Streams of \<open>net/http\<close> are the list of what is read or written.

  Not modelled. The command line, the terminal interface, the dashboard and the daemon's client commands
  (\<open>cmd/\<close>, \<open>agents/peggy/runner.go\<close>, \<open>agents/peggy/dashboard.go\<close>): parsing of flags, layout and
  printing around operations that are modelled here. The SQLite store, whose logic is SQL text run
  by a database that is not in the repository. The Gemini provider, which converts to the types of a package
  that is not in the repository. The git tools, which are
  child processes with fixed arguments. Presets, examples and embedded prompts, which are constants. Of the
  MCP client the starting of processes and connections is left out, of the Telegram channel the HTTP calls
  of the Bot API.
\<close>

end
